(* ===== verification/Cast_Prelude.thy ===== *)
theory Cast_Prelude
  imports Main "HOL-Library.Word"
begin

text \<open>
  Shared vocabulary of the development: the machine integers and byte strings of the Rust code,
  results with an error value, big-endian byte orders, the parts of the standard library that
  several components use (\<open>str::trim\<close>, \<open>eq_ignore_ascii_case\<close>, \<open>str::parse\<close>,
  \<open>String::from_utf8_lossy\<close>), and a generic interface for invariants of step functions.

  A Rust \<open>String\<close> or \<open>&str\<close> is the list of its UTF-8 bytes (\<open>rstring\<close>); a literal is
  written \<open>str ''...''\<close>. A \<open>Duration\<close> and an \<open>Instant\<close> are natural numbers of
  nanoseconds. \<open>usize\<close> is 64 bits wide; lengths of buffers are \<open>nat\<close>.
\<close>

unbundle bit_operations_syntax

section \<open>Types\<close>

type_synonym u8 = "8 word"
type_synonym u16 = "16 word"
type_synonym u32 = "32 word"
type_synonym u64 = "64 word"
type_synonym bytes = "u8 list"
type_synonym rstring = "u8 list"
type_synonym duration = nat
type_synonym instant = nat

named_theorems conv_simps \<open>conversions between byte orders, characters and words\<close>
named_theorems result_simps \<open>computation rules of the result type\<close>

definition str :: "string \<Rightarrow> rstring" where
  "str s = map of_char s"

definition from_secs :: "nat \<Rightarrow> duration" where
  "from_secs n = n * 1000000000"

definition from_millis :: "nat \<Rightarrow> duration" where
  "from_millis n = n * 1000000"

section \<open>Results: the \<open>?\<close> operator\<close>

definition rbind :: "'e + 'a \<Rightarrow> ('a \<Rightarrow> 'e + 'b) \<Rightarrow> 'e + 'b" where
  "rbind r f = (case r of Inl e \<Rightarrow> Inl e | Inr x \<Rightarrow> f x)"

definition ok_or :: "'e \<Rightarrow> 'a option \<Rightarrow> 'e + 'a" where
  "ok_or e x = (case x of None \<Rightarrow> Inl e | Some y \<Rightarrow> Inr y)"

definition map_err :: "('e \<Rightarrow> 'f) \<Rightarrow> 'e + 'a \<Rightarrow> 'f + 'a" where
  "map_err f r = (case r of Inl e \<Rightarrow> Inl (f e) | Inr x \<Rightarrow> Inr x)"

fun is_ok :: "'e + 'a \<Rightarrow> bool" where
  "is_ok (Inl _) = False"
| "is_ok (Inr _) = True"

section \<open>Big-endian byte orders\<close>

definition u16_to_be_bytes :: "u16 \<Rightarrow> bytes" where
  "u16_to_be_bytes w = [ucast (drop_bit 8 w), ucast w]"

definition u32_to_be_bytes :: "u32 \<Rightarrow> bytes" where
  "u32_to_be_bytes w =
     [ucast (drop_bit 24 w), ucast (drop_bit 16 w), ucast (drop_bit 8 w), ucast w]"

fun u32_from_be_bytes :: "bytes \<Rightarrow> u32" where
  "u32_from_be_bytes [a, b, c, d] =
     push_bit 24 (ucast a) OR push_bit 16 (ucast b) OR push_bit 8 (ucast c) OR ucast d"
| "u32_from_be_bytes _ = 0"

fun u64_from_be_bytes :: "bytes \<Rightarrow> u64" where
  "u64_from_be_bytes [a, b, c, d, e, f, g, h] =
     push_bit 32 (ucast (u32_from_be_bytes [a, b, c, d])) OR ucast (u32_from_be_bytes [e, f, g, h])"
| "u64_from_be_bytes _ = 0"

section \<open>Text functions of the standard library\<close>

definition to_ascii_lowercase_byte :: "u8 \<Rightarrow> u8" where
  "to_ascii_lowercase_byte b = (if 65 \<le> b \<and> b \<le> 90 then b + 32 else b)"

definition to_ascii_lowercase :: "rstring \<Rightarrow> rstring" where
  "to_ascii_lowercase s = map to_ascii_lowercase_byte s"

definition eq_ignore_ascii_case :: "rstring \<Rightarrow> rstring \<Rightarrow> bool" where
  "eq_ignore_ascii_case a b \<longleftrightarrow> to_ascii_lowercase a = to_ascii_lowercase b"

definition is_ascii_digit :: "u8 \<Rightarrow> bool" where
  "is_ascii_digit b \<longleftrightarrow> 48 \<le> b \<and> b \<le> 57"

definition is_ascii_hexdigit :: "u8 \<Rightarrow> bool" where
  "is_ascii_hexdigit b \<longleftrightarrow> is_ascii_digit b \<or> 65 \<le> b \<and> b \<le> 70 \<or> 97 \<le> b \<and> b \<le> 102"

text \<open>\<open>strip_prefix\<close>, \<open>split_once\<close> on a one-byte character and \<open>split\<close>.\<close>

fun strip_prefix :: "rstring \<Rightarrow> rstring \<Rightarrow> rstring option" where
  "strip_prefix [] s = Some s"
| "strip_prefix (p # ps) [] = None"
| "strip_prefix (p # ps) (c # cs) = (if p = c then strip_prefix ps cs else None)"

fun split_once :: "u8 \<Rightarrow> rstring \<Rightarrow> (rstring \<times> rstring) option" where
  "split_once d [] = None"
| "split_once d (c # cs) =
     (if c = d then Some ([], cs)
      else map_option (\<lambda>(a, b). (c # a, b)) (split_once d cs))"

fun split_on :: "u8 \<Rightarrow> rstring \<Rightarrow> rstring list" where
  "split_on d [] = [[]]"
| "split_on d (c # cs) =
     (if c = d then [] # split_on d cs
      else (case split_on d cs of [] \<Rightarrow> [[c]] | w # ws \<Rightarrow> (c # w) # ws))"

text \<open>
  The UTF-8 encodings of the characters with the Unicode property White\_Space, which
  \<open>str::trim\<close> removes at both ends.
\<close>

definition whitespace_chars :: "rstring list" where
  "whitespace_chars =
     [[9], [10], [11], [12], [13], [32], [0xC2, 0x85], [0xC2, 0xA0], [0xE1, 0x9A, 0x80],
      [0xE2, 0x80, 0x80], [0xE2, 0x80, 0x81], [0xE2, 0x80, 0x82], [0xE2, 0x80, 0x83],
      [0xE2, 0x80, 0x84], [0xE2, 0x80, 0x85], [0xE2, 0x80, 0x86], [0xE2, 0x80, 0x87],
      [0xE2, 0x80, 0x88], [0xE2, 0x80, 0x89], [0xE2, 0x80, 0x8A], [0xE2, 0x80, 0xA8],
      [0xE2, 0x80, 0xA9], [0xE2, 0x80, 0xAF], [0xE2, 0x81, 0x9F], [0xE3, 0x80, 0x80]]"

fun strip_any :: "rstring list \<Rightarrow> rstring \<Rightarrow> rstring option" where
  "strip_any [] s = None"
| "strip_any (p # ps) s = (case strip_prefix p s of Some r \<Rightarrow> Some r | None \<Rightarrow> strip_any ps s)"

lemma strip_prefix_Some: "strip_prefix p s = Some r \<longleftrightarrow> s = p @ r"
  by (induction p s rule: strip_prefix.induct) auto

lemma strip_any_shorter:
  "strip_any ps s = Some r \<Longrightarrow> \<forall>p \<in> set ps. p \<noteq> [] \<Longrightarrow> length r < length s"
  by (induction ps) (auto simp: strip_prefix_Some split: option.splits)

function trim_with :: "rstring list \<Rightarrow> rstring \<Rightarrow> rstring" where
  "trim_with ps s =
     (case strip_any (filter (\<lambda>p. p \<noteq> []) ps) s of None \<Rightarrow> s | Some r \<Rightarrow> trim_with ps r)"
  by pat_completeness auto
termination
  by (relation "measure (\<lambda>(ps, s). length s)") (auto dest: strip_any_shorter)

declare trim_with.simps [simp del]

definition trim :: "rstring \<Rightarrow> rstring" where
  "trim s = rev (trim_with (map rev whitespace_chars) (rev (trim_with whitespace_chars s)))"

text \<open>
  \<open>str::parse\<close> for an unsigned integer of \<open>2 ^ w\<close> values: an optional \<open>+\<close>, then at
  least one decimal digit, no overflow. The value is \<open>None\<close> for every error.
\<close>

fun parse_digits :: "nat \<Rightarrow> nat \<Rightarrow> rstring \<Rightarrow> nat option" where
  "parse_digits bound acc [] = Some acc"
| "parse_digits bound acc (c # cs) =
     (if is_ascii_digit c \<and> acc * 10 + unat (c - 48) < bound
      then parse_digits bound (acc * 10 + unat (c - 48)) cs else None)"

definition parse_uint :: "nat \<Rightarrow> rstring \<Rightarrow> nat option" where
  "parse_uint bound s =
     (let digits = (case s of c # cs \<Rightarrow> if c = 43 then cs else s | [] \<Rightarrow> [])
      in if digits = [] then None else parse_digits bound 0 digits)"

text \<open>Decimal rendering, as \<open>format!("{n}")\<close> writes an unsigned integer.\<close>

fun show_nat :: "nat \<Rightarrow> rstring" where
  "show_nat n = (if n < 10 then [48 + of_nat n] else show_nat (n div 10) @ [48 + of_nat (n mod 10)])"

declare show_nat.simps [simp del]

section \<open>\<open>String::from_utf8_lossy\<close>\<close>

text \<open>
  The decoder of the standard library: a maximal ill-formed prefix of 1, 2 or 3 bytes is
  replaced by U+FFFD (\<open>EF BF BD\<close>). \<open>utf8_step\<close> gives the length of the next well-formed
  character (\<open>Inr\<close>) or of the next ill-formed prefix (\<open>Inl\<close>).
\<close>

definition cont_byte :: "u8 \<Rightarrow> bool" where
  "cont_byte b \<longleftrightarrow> 0x80 \<le> b \<and> b \<le> 0xBF"

definition second_ok :: "u8 \<Rightarrow> u8 \<Rightarrow> bool" where
  "second_ok a b \<longleftrightarrow>
     (if a = 0xE0 then 0xA0 \<le> b \<and> b \<le> 0xBF
      else if a = 0xED then 0x80 \<le> b \<and> b \<le> 0x9F
      else if a = 0xF0 then 0x90 \<le> b \<and> b \<le> 0xBF
      else if a = 0xF4 then 0x80 \<le> b \<and> b \<le> 0x8F
      else cont_byte b)"

definition utf8_width :: "u8 \<Rightarrow> nat" where
  "utf8_width a =
     (if a \<le> 0x7F then 1 else if 0xC2 \<le> a \<and> a \<le> 0xDF then 2
      else if 0xE0 \<le> a \<and> a \<le> 0xEF then 3 else if 0xF0 \<le> a \<and> a \<le> 0xF4 then 4 else 0)"

definition utf8_step :: "u8 \<Rightarrow> bytes \<Rightarrow> nat + nat" where
  "utf8_step a s =
     (let w = utf8_width a in
      if w = 0 then Inl 1
      else if w = 1 then Inr 1
      else (case s of
        [] \<Rightarrow> Inl 1
      | b # s1 \<Rightarrow>
          if \<not> second_ok a b then Inl 1
          else if w = 2 then Inr 2
          else (case s1 of
            [] \<Rightarrow> Inl 2
          | c # s2 \<Rightarrow>
              if \<not> cont_byte c then Inl 2
              else if w = 3 then Inr 3
              else (case s2 of
                [] \<Rightarrow> Inl 3
              | d # _ \<Rightarrow> if cont_byte d then Inr 4 else Inl 3))))"

lemma utf8_step_pos [simp]:
  "utf8_step a s = Inl n \<Longrightarrow> 0 < n" "utf8_step a s = Inr n \<Longrightarrow> 0 < n"
  by (auto simp: utf8_step_def Let_def split: if_splits list.splits)

function from_utf8_lossy :: "bytes \<Rightarrow> rstring" where
  "from_utf8_lossy [] = []"
| "from_utf8_lossy (a # s) =
     (case utf8_step a s of
        Inl n \<Rightarrow> [0xEF, 0xBF, 0xBD] @ from_utf8_lossy (drop n (a # s))
      | Inr n \<Rightarrow> take n (a # s) @ from_utf8_lossy (drop n (a # s)))"
  by pat_completeness auto
termination
  by (relation "measure length") auto

function utf8_valid :: "bytes \<Rightarrow> bool" where
  "utf8_valid [] = True"
| "utf8_valid (a # s) =
     (case utf8_step a s of Inl n \<Rightarrow> False | Inr n \<Rightarrow> utf8_valid (drop n (a # s)))"
  by pat_completeness auto
termination
  by (relation "measure length") auto

declare from_utf8_lossy.simps(2) [simp del]
declare utf8_valid.simps(2) [simp del]

section \<open>Byte streams: \<open>std::io::Read\<close>\<close>

text \<open>
  A reader is the script of the outcomes its source will produce: \<open>Data d\<close> makes the bytes
  \<open>d\<close> available (a call takes at most as many as its buffer holds and leaves the rest),
  \<open>Fail e\<close> is an error of that call. \<open>Data []\<close> and the end of the script are end of
  file, \<open>Ok(0)\<close>. \<open>io::Cursor\<close> and a byte slice are scripts with one \<open>Data\<close>.
\<close>

datatype io_error =
    Interrupted | WouldBlock | TimedOut | NotFound | BrokenPipe | ConnectionRefused | ConnectionReset | OtherIo

datatype read_outcome = Data bytes | Fail io_error

type_synonym reader = "read_outcome list"

fun rd_read :: "reader \<Rightarrow> nat \<Rightarrow> (io_error + bytes) \<times> reader" where
  "rd_read [] n = (Inr [], [])"
| "rd_read (Data d # rs) n =
     (if length d \<le> n then (Inr d, rs) else (Inr (take n d), Data (drop n d) # rs))"
| "rd_read (Fail e # rs) n = (Inl e, rs)"

fun rd_bytes :: "reader \<Rightarrow> bytes" where
  "rd_bytes [] = []"
| "rd_bytes (Data d # rs) = d @ rd_bytes rs"
| "rd_bytes (Fail e # rs) = rd_bytes rs"

text \<open>A measure for loops that read until the end.\<close>

definition rd_size :: "reader \<Rightarrow> nat" where
  "rd_size rd = length rd + length (rd_bytes rd)"

definition cursor :: "bytes \<Rightarrow> reader" where
  "cursor bs = [Data bs]"

text \<open>A reader that delivers its bytes in any portions and fails by \<open>Interrupted\<close> only.\<close>

definition benign_outcome :: "read_outcome \<Rightarrow> bool" where
  "benign_outcome r \<longleftrightarrow> (case r of Data d \<Rightarrow> d \<noteq> [] | Fail e \<Rightarrow> e = Interrupted)"

definition benign :: "reader \<Rightarrow> bool" where
  "benign rd \<longleftrightarrow> list_all benign_outcome rd"

section \<open>Runs of a step function\<close>

fun run :: "('s \<Rightarrow> 'i \<Rightarrow> 's) \<Rightarrow> 's \<Rightarrow> 'i list \<Rightarrow> 's" where
  "run step s [] = s"
| "run step s (i # is) = run step (step s i) is"

section \<open>Lemmas on results and lists\<close>

lemma rbind_Inl [simp, result_simps]: "rbind (Inl e) f = Inl e"
  by (simp add: rbind_def)

lemma rbind_Inr [simp, result_simps]: "rbind (Inr x) f = f x"
  by (simp add: rbind_def)

lemma rbind_eq_Inr [result_simps]: "rbind r f = Inr y \<longleftrightarrow> (\<exists>x. r = Inr x \<and> f x = Inr y)"
  by (cases r) auto

lemma rbind_eq_Inl [result_simps]:
  "rbind r f = Inl e \<longleftrightarrow> r = Inl e \<or> (\<exists>x. r = Inr x \<and> f x = Inl e)"
  by (cases r) auto

lemma rbind_cong: "r = r' \<Longrightarrow> (\<And>x. r' = Inr x \<Longrightarrow> f x = g x) \<Longrightarrow> rbind r f = rbind r' g"
  by (cases r') auto

lemma ok_or_simps [simp]: "ok_or e None = Inl e" "ok_or e (Some x) = Inr x"
  by (simp_all add: ok_or_def)

lemma ok_or_eq_Inr [simp]: "ok_or e x = Inr y \<longleftrightarrow> x = Some y"
  by (cases x) auto

lemma map_err_simps [simp]:
  "map_err f (Inl e) = Inl (f e)" "map_err f (Inr x) = Inr x"
  "map_err f r = Inr y \<longleftrightarrow> r = Inr y" "is_ok (map_err f r) \<longleftrightarrow> is_ok r"
  by (cases r; simp add: map_err_def)+

lemma is_ok_iff: "is_ok r \<longleftrightarrow> (\<exists>x. r = Inr x)"
  by (cases r) auto

lemma append_Cons_fun: "(@) (x # xs) = (\<lambda>ys. x # xs @ ys)"
  by auto

lemma run_append: "run step s (xs @ ys) = run step (run step s xs) ys"
  by (induction xs arbitrary: s) auto

section \<open>Lemmas on byte orders\<close>

lemma length_u32_to_be_bytes [simp]: "length (u32_to_be_bytes w) = 4"
  by (simp add: u32_to_be_bytes_def)

lemma length_u16_to_be_bytes [simp]: "length (u16_to_be_bytes w) = 2"
  by (simp add: u16_to_be_bytes_def)

lemma u32_be_round_trip [simp, conv_simps]: "u32_from_be_bytes (u32_to_be_bytes w) = w"
proof -
  have b: "bit (push_bit 24 (ucast (ucast (drop_bit 24 w) :: u8)) OR
        push_bit 16 (ucast (ucast (drop_bit 16 w) :: u8)) OR
        push_bit 8 (ucast (ucast (drop_bit 8 w) :: u8)) OR ucast (ucast w :: u8) :: u32) n
      \<longleftrightarrow> bit w n" if n32: "n < 32" for n
  proof -
    consider "n < 8" | "8 \<le> n" "n < 16" | "16 \<le> n" "n < 24" | "24 \<le> n" "n < 32"
      using n32 by linarith
    then show ?thesis
      by cases (use n32 in \<open>auto simp: bit_simps\<close>)
  qed
  show ?thesis
    by (rule bit_word_eqI) (use b in \<open>simp add: u32_to_be_bytes_def\<close>)
qed

lemma list4_conv: "length xs = 4 \<longleftrightarrow> (\<exists>a b c d. xs = [a, b, c, d])"
  by (auto simp: length_Suc_conv numeral_eq_Suc)

lemma unat_of_nat_u32: "n < 2 ^ 32 \<Longrightarrow> unat (of_nat n :: u32) = n"
  by (simp add: unat_of_nat take_bit_nat_eq_self)

lemma unat_of_nat_u64: "n < 2 ^ 64 \<Longrightarrow> unat (of_nat n :: u64) = n"
  by (simp add: unat_of_nat take_bit_nat_eq_self)

lemma unat_u32_less: "unat (w :: u32) < 4294967296"
  using unsigned_less [of w] by simp

lemma unat_ucast_u32_u64 [simp]: "unat (ucast (w :: u32) :: u64) = unat w"
  using unat_u32_less [of w] by (simp add: unsigned_ucast_eq take_bit_nat_eq_self)

section \<open>Lemmas on text\<close>

lemma length_to_ascii_lowercase [simp]: "length (to_ascii_lowercase s) = length s"
  by (simp add: to_ascii_lowercase_def)

lemma eq_ignore_ascii_case_refl [simp]: "eq_ignore_ascii_case s s"
  by (simp add: eq_ignore_ascii_case_def)

lemma to_ascii_lowercase_byte_idem [simp]:
  "to_ascii_lowercase_byte (to_ascii_lowercase_byte b) = to_ascii_lowercase_byte b"
  by (simp add: to_ascii_lowercase_byte_def word_le_nat_alt unat_plus_if_size word_size)

lemma to_ascii_lowercase_idem [simp]:
  "to_ascii_lowercase (to_ascii_lowercase s) = to_ascii_lowercase s"
  by (simp add: to_ascii_lowercase_def)

lemma split_on_not_Nil [simp]: "split_on d s \<noteq> []"
  by (induction d s rule: split_on.induct) (auto split: list.splits)

lemma parse_digits_bound: "parse_digits bound acc s = Some n \<Longrightarrow> acc < bound \<Longrightarrow> n < bound"
  by (induction bound acc s rule: parse_digits.induct) (auto split: if_splits)

lemma parse_uint_bound: "parse_uint bound s = Some n \<Longrightarrow> n < bound"
proof -
  assume p: "parse_uint bound s = Some n"
  then obtain c cs where d: "parse_digits bound 0 (c # cs) = Some n"
    by (auto simp: parse_uint_def Let_def neq_Nil_conv split: if_splits list.splits)
  then have "0 < bound" by (auto split: if_splits)
  with d show ?thesis by (rule parse_digits_bound)
qed

lemma from_utf8_lossy_valid [simp]: "utf8_valid s \<Longrightarrow> from_utf8_lossy s = s"
proof (induction s rule: from_utf8_lossy.induct)
  case 1
  show ?case by simp
next
  case (2 a s)
  then obtain n where n: "utf8_step a s = Inr n" and "utf8_valid (drop n (a # s))"
    by (auto simp: utf8_valid.simps(2) split: sum.splits)
  with 2 show ?case
    by (simp add: from_utf8_lossy.simps(2))
qed

section \<open>Lemmas on byte streams\<close>

lemma rd_read_length:
  "rd_read rd n = (Inr d, rd') \<Longrightarrow> length d \<le> n \<and> length rd' \<le> length rd"
  by (induction rd n rule: rd_read.induct) (auto split: if_splits)

lemma rd_read_fail: "rd_read rd n = (Inl e, rd') \<Longrightarrow> length rd' < length rd"
  by (induction rd n rule: rd_read.induct) (auto split: if_splits)

lemma rd_read_bytes:
  "rd_read rd n = (Inr d, rd') \<Longrightarrow> rd_bytes rd = d @ rd_bytes rd'"
  "rd_read rd n = (Inl e, rd') \<Longrightarrow> rd_bytes rd = rd_bytes rd'"
  by (induction rd n rule: rd_read.induct) (auto split: if_splits)

lemma rd_read_size:
  "rd_read rd n = (Inr d, rd') \<Longrightarrow> d \<noteq> [] \<Longrightarrow> rd_size rd' < rd_size rd"
  "rd_read rd n = (Inl e, rd') \<Longrightarrow> rd_size rd' < rd_size rd"
  by (induction rd n rule: rd_read.induct) (auto simp: rd_size_def split: if_splits)

lemma rd_read_benign:
  assumes "benign rd" and "0 < n"
  shows "rd_read rd n = (Inr d, rd') \<Longrightarrow> benign rd' \<and> (d = [] \<longrightarrow> rd_bytes rd = [])"
    and "rd_read rd n = (Inl e, rd') \<Longrightarrow> benign rd' \<and> e = Interrupted"
  using assms by (cases "(rd, n)" rule: rd_read.cases;
      auto simp: benign_def benign_outcome_def split: if_splits)+

lemma rd_bytes_cursor [simp]: "rd_bytes (cursor bs) = bs"
  by (simp add: cursor_def)

lemma benign_cursor [simp]: "benign (cursor bs) \<longleftrightarrow> bs \<noteq> []"
  by (simp add: cursor_def benign_def benign_outcome_def)

section \<open>An interface for invariants\<close>

text \<open>
  A deterministic machine with an initial state, a step function over inputs and an invariant
  that the initial state has and every step keeps, on inputs the environment allows.
\<close>

locale step_invariant =
  fixes init :: 's
    and step :: "'s \<Rightarrow> 'i \<Rightarrow> 's"
    and allowed :: "'i \<Rightarrow> bool"
    and inv :: "'s \<Rightarrow> bool"
  assumes inv_init: "inv init"
    and inv_step: "inv s \<Longrightarrow> allowed i \<Longrightarrow> inv (step s i)"
begin

lemma inv_run_from: "inv s \<Longrightarrow> list_all allowed is \<Longrightarrow> inv (run step s is)"
  by (induction "is" arbitrary: s) (auto intro: inv_step)

lemma inv_run: "list_all allowed is \<Longrightarrow> inv (run step init is)"
  by (rule inv_run_from [OF inv_init])

end

end
