(* ===== verification/Text_Lemmas.thy ===== *)
theory Text_Lemmas
  imports Cast_Prelude "HOL-Library.AList"
begin

text \<open>
  Lemmas on the text functions of the prelude that the parsers share: decimal numbers and their
  printing, trimming and splitting of text without white space or separators; and association
  lists, which stand for the hash maps of the code.
\<close>

section \<open>Printed numbers\<close>

lemma unat_digit: "d < 10 \<Longrightarrow> unat (48 + of_nat d :: u8) = 48 + d"
  by (simp add: unat_word_ariths unat_of_nat)

lemma show_nat_not_Nil [simp]: "show_nat n \<noteq> []"
  by (subst show_nat.simps) simp

lemma show_nat_digits: "list_all is_ascii_digit (show_nat n)"
proof (induction n rule: show_nat.induct)
  case (1 n)
  have digit: "d < 10 \<Longrightarrow> is_ascii_digit (48 + of_nat d)" for d
    by (simp add: is_ascii_digit_def word_le_nat_alt unat_digit)
  show ?case
    using 1 by (subst show_nat.simps) (auto simp: digit)
qed

lemma parse_digits_snoc:
  "parse_digits b acc (xs @ [c]) =
     (case parse_digits b acc xs of None \<Rightarrow> None
      | Some v \<Rightarrow> if is_ascii_digit c \<and> v * 10 + unat (c - 48) < b then Some (v * 10 + unat (c - 48)) else None)"
  by (induction b acc xs rule: parse_digits.induct) auto

lemma parse_digits_show_nat: "n < b \<Longrightarrow> parse_digits b 0 (show_nat n) = Some n"
proof (induction n rule: show_nat.induct)
  case (1 n)
  have d: "is_ascii_digit (48 + of_nat d)" "unat ((of_nat d + 48 :: u8) - 48) = d" if "d < 10" for d
    using that by (simp_all add: is_ascii_digit_def word_le_nat_alt unat_digit unat_of_nat)
  show ?case
  proof (cases "n < 10")
    case True
    then show ?thesis
      using 1 d [of n] by (subst show_nat.simps) (simp add: add.commute)
  next
    case False
    then have "parse_digits b 0 (show_nat (n div 10)) = Some (n div 10)"
      using 1 by simp
    moreover have "n div 10 * 10 + n mod 10 = n" by simp
    ultimately show ?thesis
      using False 1 d [of "n mod 10"]
      by (subst show_nat.simps) (simp add: parse_digits_snoc add.commute)
  qed
qed

lemma digit_not_plus: "is_ascii_digit c \<Longrightarrow> c \<noteq> 43 \<and> c \<noteq> 44 \<and> c \<noteq> 45 \<and> c \<noteq> 47 \<and> c \<noteq> 58 \<and> c \<noteq> 10 \<and> c \<noteq> 13 \<and> c \<noteq> 32"
  by (auto simp: is_ascii_digit_def word_le_nat_alt)

lemma parse_uint_show_nat [simp]: "n < b \<Longrightarrow> parse_uint b (show_nat n) = Some n"
  using show_nat_digits [of n] parse_digits_show_nat [of n b]
  by (cases "show_nat n") (auto simp: parse_uint_def Let_def digit_not_plus)

section \<open>Numbers of machine width\<close>

definition parse_u64 :: "rstring \<Rightarrow> u64 option" where
  "parse_u64 s = map_option of_nat (parse_uint (2 ^ 64) s)"

definition fmt_u64 :: "u64 \<Rightarrow> rstring" where
  "fmt_u64 n = show_nat (unat n)"

lemma unat_u64_less: "unat (w :: u64) < 2 ^ 64"
  using unsigned_less [of w] by simp

lemma parse_fmt_u64 [simp]: "parse_u64 (fmt_u64 n) = Some n"
  using unat_u64_less [of n] by (simp add: parse_u64_def fmt_u64_def del: power_numeral)

lemma fmt_u64_digits: "list_all is_ascii_digit (fmt_u64 n)" "fmt_u64 n \<noteq> []"
  by (simp_all add: fmt_u64_def show_nat_digits)

section \<open>Trimming and splitting\<close>

definition solid_byte :: "u8 \<Rightarrow> bool" where
  "solid_byte b \<longleftrightarrow> 33 \<le> b \<and> b \<le> 126"

lemma strip_any_solid:
  "solid_byte c \<Longrightarrow> strip_any whitespace_chars (c # cs) = None"
  "solid_byte c \<Longrightarrow> strip_any (map rev whitespace_chars) (c # cs) = None"
  by (auto simp: solid_byte_def whitespace_chars_def word_le_nat_alt)

lemma trim_with_solid:
  "solid_byte c \<Longrightarrow> trim_with whitespace_chars (c # cs) = c # cs"
  "solid_byte c \<Longrightarrow> trim_with (map rev whitespace_chars) (c # cs) = c # cs"
proof -
  have f: "filter (\<lambda>p. p \<noteq> []) whitespace_chars = whitespace_chars"
    "filter (\<lambda>p. p \<noteq> []) (map rev whitespace_chars) = map rev whitespace_chars"
    by (simp_all add: whitespace_chars_def)
  show "solid_byte c \<Longrightarrow> trim_with whitespace_chars (c # cs) = c # cs"
    using strip_any_solid(1) [of c cs] by (subst trim_with.simps) (simp add: f)
  show "solid_byte c \<Longrightarrow> trim_with (map rev whitespace_chars) (c # cs) = c # cs"
    using strip_any_solid(2) [of c cs] by (subst trim_with.simps) (simp add: f)
qed

lemma trim_solid: "s \<noteq> [] \<Longrightarrow> solid_byte (hd s) \<Longrightarrow> solid_byte (last s) \<Longrightarrow> trim s = s"
proof -
  assume s: "s \<noteq> []" "solid_byte (hd s)" "solid_byte (last s)"
  then have "trim_with whitespace_chars s = s"
    using trim_with_solid(1) [of "hd s" "tl s"] by simp
  moreover have "trim_with (map rev whitespace_chars) (rev s) = rev s"
    using s trim_with_solid(2) [of "last s" "rev (butlast s)"]
    by (metis append_butlast_last_id rev.simps(2) rev_rev_ident rev_eq_Cons_iff)
  ultimately show ?thesis by (simp add: trim_def)
qed

lemma digit_solid: "is_ascii_digit c \<Longrightarrow> solid_byte c"
  by (auto simp: is_ascii_digit_def solid_byte_def word_le_nat_alt)

lemma trim_digits: "list_all is_ascii_digit s \<Longrightarrow> trim s = s"
proof (cases "s = []")
  case True
  then show ?thesis by (simp add: trim_def trim_with.simps whitespace_chars_def)
next
  case False
  then show "list_all is_ascii_digit s \<Longrightarrow> trim s = s"
    by (intro trim_solid) (auto simp: list_all_iff digit_solid)
qed

lemma trim_Nil [simp]: "trim [] = []"
  using trim_digits [of "[]"] by simp

text \<open>Spaces and tabs around a text are what \<open>trim\<close> takes away.\<close>

definition blank_byte :: "u8 \<Rightarrow> bool" where
  "blank_byte c \<longleftrightarrow> c = 9 \<or> c = 32"

lemma trim_with_blanks:
  "list_all blank_byte a \<Longrightarrow> trim_with whitespace_chars (a @ s) = trim_with whitespace_chars s"
  "list_all blank_byte a \<Longrightarrow> trim_with (map rev whitespace_chars) (a @ s) = trim_with (map rev whitespace_chars) s"
proof (induction a)
  case (Cons c a)
  {
    case 1
    then show ?case using Cons.IH(1)
      by (subst trim_with.simps) (auto simp: whitespace_chars_def blank_byte_def)
  next
    case 2
    then show ?case using Cons.IH(2)
      by (subst trim_with.simps) (auto simp: whitespace_chars_def blank_byte_def)
  }
qed simp_all

lemma trim_padded:
  assumes "list_all blank_byte a" "list_all blank_byte b" "s = [] \<or> solid_byte (hd s) \<and> solid_byte (last s)"
  shows "trim (a @ s @ b) = s"
proof (cases s)
  case Nil
  then show ?thesis
    using trim_with_blanks(1) [of "a @ b" "[]"] assms(1,2) trim_Nil by (simp add: trim_def)
next
  case (Cons c cs)
  then have "trim_with whitespace_chars (a @ s @ b) = s @ b"
    using trim_with_blanks(1) [OF assms(1)] trim_with_solid(1) [of c "cs @ b"] assms(3) by simp
  moreover have "trim_with (map rev whitespace_chars) (rev b @ rev s) = rev s"
    using trim_with_blanks(2) [of "rev b" "rev s"] assms(2,3) Cons trim_with_solid(2) [of "last s" "rev (butlast s)"]
    by (metis append_butlast_last_id list.distinct(1) list_all_rev rev.simps(2) rev_eq_Cons_iff rev_rev_ident)
  ultimately show ?thesis by (simp add: trim_def)
qed

lemma ascii_utf8: "list_all (\<lambda>c. c \<le> 0x7F) s \<Longrightarrow> utf8_valid s"
  by (induction s) (simp_all add: utf8_valid.simps(2) utf8_step_def utf8_width_def)

text \<open>The parts of a text that is put together around a separator.\<close>

lemma split_on_append: "split_on d (a @ d # b) = split_on d a @ split_on d b"
  by (induction a) (auto split: list.splits)

lemma split_on_single_Nil: "split_on d s = [[]] \<Longrightarrow> s = []"
  by (cases s) (auto split: list.splits if_splits)

text \<open>\<open>str::contains\<close>.\<close>

fun contains_sub :: "rstring \<Rightarrow> rstring \<Rightarrow> bool" where
  "contains_sub sub [] \<longleftrightarrow> sub = []"
| "contains_sub sub (c # cs) \<longleftrightarrow> strip_prefix sub (c # cs) \<noteq> None \<or> contains_sub sub cs"

lemma split_on_free: "d \<notin> set s \<Longrightarrow> split_on d s = [s]"
  by (induction s) auto

lemma split_once_free: "d \<notin> set a \<Longrightarrow> split_once d (a @ d # b) = Some (a, b)"
  by (induction a) auto

lemma digits_free: "list_all is_ascii_digit s \<Longrightarrow> c \<in> {43, 44, 45, 47, 58, 10, 13, 32} \<Longrightarrow> c \<notin> set s"
  by (auto simp: list_all_iff dest!: digit_not_plus)

lemma strip_prefix_append [simp]: "strip_prefix p (p @ s) = Some s"
  by (simp add: strip_prefix_Some)

section \<open>Literals\<close>

lemma of_char_u8_eq_iff: "(of_char c :: u8) = of_char d \<longleftrightarrow> c = d"
proof -
  have u: "unat (of_char c :: u8) = of_char c" for c
  proof -
    have "(of_char c :: u8) = of_nat (of_char c)" by (cases c) (simp add: of_char_def)
    then show ?thesis using nat_of_char_less_256 [of c] by (simp only: unat_of_nat) (simp add: take_bit_nat_eq_self)
  qed
  show ?thesis using u [of c] u [of d] by (metis of_char_eq_iff)
qed

lemma str_eq_iff: "str a = str b \<longleftrightarrow> a = b"
  unfolding str_def by (rule inj_map_eq_map) (simp add: inj_def of_char_u8_eq_iff)

section \<open>Association lists\<close>

lemma alist_update_fresh: "k \<notin> fst ` set al \<Longrightarrow> AList.update k v al = al @ [(k, v)]"
  by (induction al) auto

lemma map_of_None_fst: "map_of al k = None \<Longrightarrow> k \<notin> fst ` set al"
  by (simp add: map_of_eq_None_iff)

end
