(* ===== verification/App_State.thy ===== *)
theory App_State
  imports Text_Lemmas
begin

text \<open>
  The types the parts of the program share (\<open>src/src/state.rs\<close>) and the network addresses of the
  standard library. An \<open>Ipv4Addr\<close> is its 32 bits; a socket address is kept as its printed form,
  which is what the program compares and shows.
\<close>

section \<open>Addresses\<close>

type_synonym ipv4 = u32

definition ipv4_octets :: "ipv4 \<Rightarrow> bytes" where
  "ipv4_octets ip = u32_to_be_bytes ip"

definition show_ipv4 :: "ipv4 \<Rightarrow> rstring" where
  "show_ipv4 ip =
     (case map (\<lambda>b. show_nat (unat b)) (ipv4_octets ip) of
        [a, b, c, d] \<Rightarrow> a @ [46] @ b @ [46] @ c @ [46] @ d
      | _ \<Rightarrow> [])"

definition is_loopback :: "ipv4 \<Rightarrow> bool" where
  "is_loopback ip \<longleftrightarrow> drop_bit 24 ip = 127"

text \<open>\<open>format!("{ip}:{port}")\<close>, which is also how a \<open>SocketAddr\<close> with an IPv4 address prints.\<close>

definition show_addr :: "ipv4 \<Rightarrow> u16 \<Rightarrow> rstring" where
  "show_addr ip port = show_ipv4 ip @ [58] @ show_nat (unat port)"

section \<open>Devices\<close>

record cast_device =
  cd_id :: rstring
  cd_name :: rstring
  cd_addr :: rstring
  cd_tofu_key :: rstring

definition from_manual_addr :: "rstring \<Rightarrow> cast_device" where
  "from_manual_addr addr =
     \<lparr>cd_id = addr, cd_name = str ''Manual '' @ addr, cd_addr = addr, cd_tofu_key = addr\<rparr>"

section \<open>Commands and events\<close>

datatype source_tab = Display | LocalFile | WebUrl

text \<open>What the GUI asks of the backend. A volume is the bit pattern of an \<open>f32\<close>.\<close>

datatype app_command =
    SelectReceiver cast_device
  | ManualConnect rstring
  | SelectSource source_tab
  | SelectDisplay rstring
  | SelectFile bytes
  | SelectUrl rstring
  | PlayCommand
  | PauseCommand
  | StopCommand
  | SetVolumeCommand u32
  | Mute bool
  | SetProxyPort u16
  | Rescan
  | BindFallback bool

datatype backend_event =
    ReceiversUpdated "cast_device list"
  | DisplaysUpdated "rstring list"
  | ReceiverConnected cast_device
  | ReceiverDisconnected cast_device
  | ConnectionError rstring
  | StreamError rstring
  | MediaStatus bool bool
  | Volume u32 bool
  | BindFallbackRequested rstring
  | CertificateWarning rstring

section \<open>Printed addresses are unique\<close>

lemma digits_sep_inj:
  assumes "list_all is_ascii_digit xs" "list_all is_ascii_digit xs'" "\<not> is_ascii_digit d"
  shows "xs @ d # ys = xs' @ d # ys' \<longleftrightarrow> xs = xs' \<and> ys = ys'"
  using assms
proof (induction xs arbitrary: xs')
  case Nil
  then show ?case by (cases xs') auto
next
  case (Cons x xs)
  then show ?case by (cases xs') auto
qed

lemma show_nat_inj [simp]: "show_nat m = show_nat n \<longleftrightarrow> m = n"
proof
  assume eq: "show_nat m = show_nat n"
  have "Some m = parse_uint (Suc (m + n)) (show_nat m)" by (rule parse_uint_show_nat [symmetric]) simp
  also have "\<dots> = Some n" unfolding eq by (rule parse_uint_show_nat) simp
  finally show "m = n" by simp
qed simp

lemma not_digit_sep: "\<not> is_ascii_digit 46" "\<not> is_ascii_digit 58"
  by (simp_all add: is_ascii_digit_def)

lemma show_addr_inj: "show_addr ip port = show_addr ip' port' \<longleftrightarrow> ip = ip' \<and> port = port'"
proof
  assume eq: "show_addr ip port = show_addr ip' port'"
  have octets: "u32_to_be_bytes ip = u32_to_be_bytes ip' \<and> port = port'"
    using eq
    by (simp add: show_addr_def show_ipv4_def ipv4_octets_def u32_to_be_bytes_def
        digits_sep_inj show_nat_digits not_digit_sep word_unat_eq_iff [symmetric])
  then have "u32_from_be_bytes (u32_to_be_bytes ip) = u32_from_be_bytes (u32_to_be_bytes ip')"
    by (simp only:)
  then have "ip = ip'" by simp
  with octets show "ip = ip' \<and> port = port'" by simp
qed simp

end
