(* ===== verification/Framing.thy ===== *)
theory Framing
  imports Cast_Prelude
begin

text \<open>
  CastV2 framing (\<open>src/src/cast/framing.rs\<close>) and the reader side of a connection
  (\<open>src/src/cast/connection/reader.rs\<close>): a 4-byte big-endian length and the payload,
  \<open>read_frame\<close> on an arbitrary \<open>Read\<close>, the \<open>FrameAccumulator\<close> that reassembles
  frames from reads of any size, and the reader thread's loop.

  The interface between the two is the locale \<open>stream_codec\<close>: what reassembly needs of an
  encoder and a parser. It is interpreted on \<open>encode_frame\<close> and \<open>read_frame\<close>.
\<close>

section \<open>framing.rs\<close>

definition MAX_FRAME_SIZE :: nat where
  "MAX_FRAME_SIZE = 16 * 1024 * 1024"

datatype frame_error =
    Io io_error
  | FrameTooLarge u64
  | Truncated (expected: nat) (got: nat)

definition encode_frame :: "bytes \<Rightarrow> bytes" where
  "encode_frame payload = u32_to_be_bytes (of_nat (length payload)) @ payload"

text \<open>\<open>read_exact_or_eof\<close>: \<open>need\<close> is the room left in the buffer, \<open>acc\<close> what is filled.\<close>

function read_exact_or_eof :: "reader \<Rightarrow> nat \<Rightarrow> bytes \<Rightarrow> (io_error + bool \<times> bytes) \<times> reader" where
  "read_exact_or_eof rd need acc =
     (if need = 0 then (Inr (False, acc), rd)
      else (case rd_read rd need of
        (Inr d, rd') \<Rightarrow>
          if d = [] then (Inr (True, acc), rd')
          else read_exact_or_eof rd' (need - length d) (acc @ d)
      | (Inl e, rd') \<Rightarrow>
          if e = Interrupted then read_exact_or_eof rd' need acc else (Inl e, rd')))"
  by pat_completeness auto
termination
proof (relation "measure (\<lambda>(rd, need, acc). need + length rd)", goal_cases)
  case 1
  show ?case by simp
next
  case (2 rd need acc p q e)
  then have "length q < length rd"
    by (metis rd_read_fail)
  with 2 show ?case by auto
next
  case (3 rd need acc p q d)
  then have "length d \<le> need \<and> length q \<le> length rd"
    by (metis rd_read_length)
  with 3 show ?case by (cases d) auto
qed

declare read_exact_or_eof.simps [simp del]

definition read_frame :: "reader \<Rightarrow> (frame_error + bytes option) \<times> reader" where
  "read_frame rd =
     (case read_exact_or_eof rd 4 [] of
        (Inl e, rd1) \<Rightarrow> (Inl (Io e), rd1)
      | (Inr (eof, header), rd1) \<Rightarrow>
          if eof then
            (if length header = 0 then (Inr None, rd1)
             else (Inl (Truncated 4 (length header)), rd1))
          else
            let len = (ucast (u32_from_be_bytes header) :: u64) in
            if unat len > MAX_FRAME_SIZE then (Inl (FrameTooLarge len), rd1)
            else (case read_exact_or_eof rd1 (unat len) [] of
                (Inl e, rd2) \<Rightarrow> (Inl (Io e), rd2)
              | (Inr (eof2, payload), rd2) \<Rightarrow>
                  if eof2 then (Inl (Truncated (unat len) (length payload)), rd2)
                  else (Inr (Some payload), rd2)))"

text \<open>\<open>write_frame\<close> hands the whole frame to one \<open>write_all\<close>; \<open>sink\<close> is what was written.\<close>

definition write_frame :: "bytes \<Rightarrow> bytes \<Rightarrow> bytes" where
  "write_frame sink payload = sink @ encode_frame payload"

section \<open>What \<open>read_exact_or_eof\<close> and \<open>read_frame\<close> return\<close>

text \<open>The bytes accounted for: what was read is a prefix of what was there.\<close>

lemma read_exact_or_eof_split:
  "read_exact_or_eof rd need acc = (Inr (eof, out), rd') \<Longrightarrow>
     \<exists>d. out = acc @ d \<and> rd_bytes rd = d @ rd_bytes rd' \<and> length d \<le> need \<and>
         (\<not> eof \<longrightarrow> length d = need) \<and> (eof \<longrightarrow> length d < need)"
proof (induction rd need acc arbitrary: out rd' rule: read_exact_or_eof.induct)
  case (1 rd need acc)
  show ?case
  proof (cases "need = 0")
    case True
    with "1.prems" show ?thesis by (simp add: read_exact_or_eof.simps)
  next
    case False
    obtain r rd1 where r: "rd_read rd need = (r, rd1)" by fastforce
    show ?thesis
    proof (cases r)
      case (Inl e)
      with False r "1.prems"
      have "e = Interrupted" and "read_exact_or_eof rd1 need acc = (Inr (eof, out), rd')"
        by (auto simp: read_exact_or_eof.simps [of rd] split: if_splits)
      then show ?thesis
        using "1.IH"(1) [OF False r [symmetric] Inl] rd_read_bytes(2) [of rd need e rd1] r Inl
        by auto
    next
      case (Inr d)
      show ?thesis
      proof (cases "d = []")
        case True
        with False r Inr "1.prems" show ?thesis
          using rd_read_bytes(1) [of rd need d rd1]
          by (auto simp: read_exact_or_eof.simps [of rd])
      next
        case d: False
        have len: "length d \<le> need" using r Inr rd_read_length by blast
        from False r Inr d "1.prems"
        have "read_exact_or_eof rd1 (need - length d) (acc @ d) = (Inr (eof, out), rd')"
          by (auto simp: read_exact_or_eof.simps [of rd])
        from "1.IH"(2) [OF False r [symmetric] Inr d this]
        obtain d' where "out = (acc @ d) @ d'" "rd_bytes rd1 = d' @ rd_bytes rd'"
          "length d' \<le> need - length d" "\<not> eof \<longrightarrow> length d' = need - length d"
          "eof \<longrightarrow> length d' < need - length d"
          by blast
        with len rd_read_bytes(1) [of rd need d rd1] r Inr show ?thesis
          by (intro exI [of _ "d @ d'"]) auto
      qed
    qed
  qed
qed

text \<open>A benign reader is read in full: the outcome depends on its bytes alone.\<close>

lemma read_exact_or_eof_benign:
  "benign rd \<Longrightarrow>
     \<exists>rd'. read_exact_or_eof rd need acc =
         (Inr (length (rd_bytes rd) < need, acc @ take need (rd_bytes rd)), rd')
       \<and> benign rd' \<and> rd_bytes rd' = drop need (rd_bytes rd)"
proof (induction rd need acc rule: read_exact_or_eof.induct)
  case (1 rd need acc)
  show ?case
  proof (cases "need = 0")
    case True
    with "1.prems" show ?thesis by (simp add: read_exact_or_eof.simps)
  next
    case False
    then have pos: "0 < need" by simp
    obtain r rd1 where r: "rd_read rd need = (r, rd1)" by fastforce
    show ?thesis
    proof (cases r)
      case (Inl e)
      with rd_read_benign(2) [OF "1.prems" pos] r have "benign rd1" "e = Interrupted" by auto
      with "1.IH"(1) [OF False r [symmetric] Inl] rd_read_bytes(2) [of rd need e rd1] r Inl False
      show ?thesis by (auto simp: read_exact_or_eof.simps [of rd])
    next
      case (Inr d)
      from rd_read_benign(1) [OF "1.prems" pos] r Inr
      have b: "benign rd1" and e: "d = [] \<longrightarrow> rd_bytes rd = []" by auto
      have len: "length d \<le> need" and all: "rd_bytes rd = d @ rd_bytes rd1"
        using r Inr rd_read_length rd_read_bytes(1) by blast+
      show ?thesis
      proof (cases "d = []")
        case True
        with False r Inr b e all pos show ?thesis
          by (auto simp: read_exact_or_eof.simps [of rd])
      next
        case d: False
        from "1.IH"(2) [OF False r [symmetric] Inr d b] False r Inr d len all
        show ?thesis by (auto simp: read_exact_or_eof.simps [of rd])
      qed
    qed
  qed
qed

lemma read_frame_progress:
  assumes "read_frame rd = (Inr (Some p), rd')"
  shows "length (rd_bytes rd') + 4 \<le> length (rd_bytes rd)"
  using assms
  by (auto simp: read_frame_def Let_def split: prod.splits sum.splits if_splits
      dest!: read_exact_or_eof_split)

text \<open>
  The specification of \<open>read_frame\<close> on a plain byte string: the reference parser that the
  stateful reader refines.
\<close>

definition parse_frame :: "bytes \<Rightarrow> frame_error + (bytes \<times> bytes) option" where
  "parse_frame bs =
     (if bs = [] then Inr None
      else if length bs < 4 then Inl (Truncated 4 (length bs))
      else let len = (ucast (u32_from_be_bytes (take 4 bs)) :: u64); body = drop 4 bs in
        if unat len > MAX_FRAME_SIZE then Inl (FrameTooLarge len)
        else if length body < unat len then Inl (Truncated (unat len) (length body))
        else Inr (Some (take (unat len) body, drop (unat len) body)))"

lemma read_frame_benign:
  assumes "benign rd"
  shows "\<exists>rd'. read_frame rd = (map_sum id (map_option fst) (parse_frame (rd_bytes rd)), rd')
       \<and> (\<forall>p rest. parse_frame (rd_bytes rd) = Inr (Some (p, rest))
             \<longrightarrow> benign rd' \<and> rd_bytes rd' = rest)"
proof -
  obtain rd1 where h: "read_exact_or_eof rd 4 [] =
      (Inr (length (rd_bytes rd) < 4, take 4 (rd_bytes rd)), rd1)"
    and b1: "benign rd1" "rd_bytes rd1 = drop 4 (rd_bytes rd)"
    using read_exact_or_eof_benign [OF assms, of 4 "[]"] by auto
  let ?len = "unat (ucast (u32_from_be_bytes (take 4 (rd_bytes rd))) :: u64)"
  obtain rd2 where p: "read_exact_or_eof rd1 ?len [] =
      (Inr (length (rd_bytes rd1) < ?len, take ?len (rd_bytes rd1)), rd2)"
    and b2: "benign rd2" "rd_bytes rd2 = drop ?len (rd_bytes rd1)"
    using read_exact_or_eof_benign [OF b1(1), of ?len "[]"] by auto
  show ?thesis
    using h p b1 b2 by (auto simp: read_frame_def parse_frame_def Let_def)
qed

lemma read_frame_cursor:
  "\<exists>rd'. read_frame (cursor bs) = (map_sum id (map_option fst) (parse_frame bs), rd')
       \<and> (\<forall>p rest. parse_frame bs = Inr (Some (p, rest)) \<longrightarrow> rd_bytes rd' = rest)"
proof (cases "bs = []")
  case True
  then show ?thesis
    by (simp add: read_frame_def parse_frame_def cursor_def read_exact_or_eof.simps)
next
  case False
  then show ?thesis using read_frame_benign [of "cursor bs"] by auto
qed

lemma parse_frame_encode:
  assumes "length p \<le> MAX_FRAME_SIZE"
  shows "parse_frame (encode_frame p @ rest) = Inr (Some (p, rest))"
proof -
  have u: "unat (of_nat (length p) :: u32) = length p"
    using assms by (intro unat_of_nat_u32) (simp add: MAX_FRAME_SIZE_def)
  have "encode_frame p @ rest \<noteq> []" by (simp add: encode_frame_def u32_to_be_bytes_def)
  then show ?thesis
    using assms u by (simp add: parse_frame_def encode_frame_def Let_def)
qed

lemma parse_frame_split:
  assumes "parse_frame bs = Inr (Some (p, rest))"
  shows "drop 4 bs = p @ rest" and "4 \<le> length bs" and "length rest < length bs"
    and "length p \<le> MAX_FRAME_SIZE"
  using assms
  by (auto simp del: drop_drop simp add: parse_frame_def Let_def split: if_splits)

section \<open>reader.rs: frame accumulation\<close>

record frame_accumulator =
  buf :: bytes

definition accumulator_new :: frame_accumulator where
  "accumulator_new = \<lparr>buf = []\<rparr>"

text \<open>The loop of \<open>push_bytes\<close>: \<open>consumed\<close> grows by the cursor's position after each frame.\<close>

function push_loop :: "bytes \<Rightarrow> nat \<Rightarrow> bytes list \<Rightarrow> frame_error + nat \<times> bytes list" where
  "push_loop bs consumed frames =
     (case read_frame (cursor (drop consumed bs)) of
        (Inr (Some payload), rd) \<Rightarrow>
          push_loop bs (consumed + (length (drop consumed bs) - length (rd_bytes rd)))
            (frames @ [payload])
      | (Inr None, rd) \<Rightarrow> Inr (consumed, frames)
      | (Inl (Truncated _ _), rd) \<Rightarrow> Inr (consumed, frames)
      | (Inl e, rd) \<Rightarrow> Inl e)"
  by pat_completeness auto
termination
proof (relation "measure (\<lambda>(bs, c, fs). length bs - c)", goal_cases)
  case 1
  show ?case by simp
next
  case (2 bs c fs p rd q payload)
  then have "read_frame (cursor (drop c bs)) = (Inr (Some payload), rd)" by simp
  from read_frame_progress [OF this] show ?case by auto
qed

declare push_loop.simps [simp del]

definition push_bytes ::
  "frame_accumulator \<Rightarrow> bytes \<Rightarrow> (frame_error + bytes list) \<times> frame_accumulator" where
  "push_bytes acc bs =
     (let b = buf acc @ bs in
      case push_loop b 0 [] of
        Inl e \<Rightarrow> (Inl e, acc\<lparr>buf := b\<rparr>)
      | Inr (consumed, frames) \<Rightarrow> (Inr frames, acc\<lparr>buf := drop consumed b\<rparr>))"

text \<open>Successive reads, as the reader thread feeds them; the first error ends it.\<close>

fun push_chunks ::
  "frame_accumulator \<Rightarrow> bytes list \<Rightarrow> frame_error + bytes list \<times> frame_accumulator" where
  "push_chunks acc [] = Inr ([], acc)"
| "push_chunks acc (c # cs) =
     (case push_bytes acc c of
        (Inl e, _) \<Rightarrow> Inl e
      | (Inr fs, acc') \<Rightarrow> map_sum id (map_prod ((@) fs) id) (push_chunks acc' cs))"

section \<open>The interface of reassembly\<close>

text \<open>
  \<open>next\<close> looks for one frame at the front of a byte string (\<open>Inr None\<close>: not complete yet);
  \<open>drain\<close> takes every complete frame. Its laws: a frame is found whatever follows it, an
  incomplete frame is not an error, a decision is final.
\<close>

locale stream_codec =
  fixes encode :: "'p \<Rightarrow> 'b list"
    and valid :: "'p \<Rightarrow> bool"
    and "next" :: "'b list \<Rightarrow> 'e + ('p \<times> 'b list) option"
    and drain :: "'b list \<Rightarrow> 'e + 'p list \<times> 'b list"
  assumes next_encode: "valid p \<Longrightarrow> next (encode p @ rest) = Inr (Some (p, rest))"
    and next_partial: "valid p \<Longrightarrow> encode p = bs @ suf \<Longrightarrow> suf \<noteq> [] \<Longrightarrow> next bs = Inr None"
    and next_more: "next bs = Inr (Some (p, rest)) \<Longrightarrow> next (bs @ suf) = Inr (Some (p, rest @ suf))"
    and next_error: "next bs = Inl e \<Longrightarrow> next (bs @ suf) = Inl e"
    and next_shorter: "next bs = Inr (Some (p, rest)) \<Longrightarrow> length rest < length bs"
    and drain_rec: "drain bs =
      (case next bs of
         Inl e \<Rightarrow> Inl e
       | Inr None \<Rightarrow> Inr ([], bs)
       | Inr (Some (p, rest)) \<Rightarrow> map_sum id (map_prod ((#) p) id) (drain rest))"
begin

lemma drain_append:
  "drain (bs @ cs) =
     (case drain bs of
        Inl e \<Rightarrow> Inl e
      | Inr (ps, rest) \<Rightarrow> map_sum id (map_prod ((@) ps) id) (drain (rest @ cs)))"
proof (induction "length bs" arbitrary: bs rule: less_induct)
  case less
  show ?case
  proof (cases "next bs")
    case (Inl e)
    then show ?thesis using next_error by (simp add: drain_rec [of bs] drain_rec [of "bs @ cs"])
  next
    case (Inr r)
    show ?thesis
    proof (cases r)
      case None
      with Inr show ?thesis
        by (cases "drain (bs @ cs)") (auto simp: drain_rec [of bs])
    next
      case (Some pr)
      obtain p rest where pr: "pr = (p, rest)" by (cases pr)
      with Inr Some have n: "next bs = Inr (Some (p, rest))" by simp
      from less.hyps [OF next_shorter [OF n]] n next_more [OF n, of cs] show ?thesis
        by (cases "drain rest")
          (auto simp: drain_rec [of bs] drain_rec [of "bs @ cs"] sum.map_comp prod.map_comp o_def id_def
            append_Cons_fun)
    qed
  qed
qed

lemma drain_encoded:
  assumes "list_all valid ps" and "tail = [] \<or> (\<exists>p suf. valid p \<and> encode p = tail @ suf \<and> suf \<noteq> [])"
    and "next [] = Inr None"
  shows "drain (concat (map encode ps) @ tail) = Inr (ps, tail)"
  using assms(1)
proof (induction ps)
  case Nil
  from assms(2,3) have "next tail = Inr None" using next_partial by blast
  then show ?case by (simp add: drain_rec [of tail])
next
  case (Cons p ps)
  then show ?case
    using next_encode [of p "concat (map encode ps) @ tail"]
    by (simp add: drain_rec [of "encode p @ _"])
qed

end

section \<open>The interpretation on \<open>read_frame\<close>\<close>

text \<open>One step of the accumulator's loop and the loop itself, on plain byte strings.\<close>

definition next_frame :: "bytes \<Rightarrow> frame_error + (bytes \<times> bytes) option" where
  "next_frame bs = (case parse_frame bs of Inl (Truncated _ _) \<Rightarrow> Inr None | r \<Rightarrow> r)"

definition drain_frames :: "bytes \<Rightarrow> frame_error + bytes list \<times> bytes" where
  "drain_frames bs = map_sum id (\<lambda>(consumed, frames). (frames, drop consumed bs)) (push_loop bs 0 [])"

lemma push_loop_step:
  "push_loop bs c fs =
     (case next_frame (drop c bs) of
        Inl e \<Rightarrow> Inl e
      | Inr None \<Rightarrow> Inr (c, fs)
      | Inr (Some (p, rest)) \<Rightarrow>
          push_loop bs (c + (length (drop c bs) - length rest)) (fs @ [p]))"
proof -
  obtain rd' where
    "read_frame (cursor (drop c bs)) = (map_sum id (map_option fst) (parse_frame (drop c bs)), rd')"
    "\<forall>p rest. parse_frame (drop c bs) = Inr (Some (p, rest)) \<longrightarrow> rd_bytes rd' = rest"
    using read_frame_cursor by blast
  then show ?thesis
    by (subst push_loop.simps)
      (auto simp: next_frame_def split: sum.splits option.splits frame_error.splits)
qed

lemma next_frame_split:
  assumes "next_frame bs = Inr (Some (p, rest))"
  shows "drop 4 bs = p @ rest" "length rest < length bs" "drop (length bs - length rest) bs = rest"
proof -
  from assms have p: "parse_frame bs = Inr (Some (p, rest))"
    by (auto simp: next_frame_def split: sum.splits frame_error.splits)
  show d: "drop 4 bs = p @ rest" and l: "length rest < length bs"
    using parse_frame_split [OF p] by auto
  have "length bs = 4 + length p + length rest"
    using parse_frame_split(2) [OF p] arg_cong [OF d, of length] by simp
  then have "drop (length bs - length rest) bs = drop (length p) (drop 4 bs)"
    by (simp add: add.commute)
  then show "drop (length bs - length rest) bs = rest" by (simp add: d)
qed

lemma push_loop_shift:
  "push_loop bs c fs = map_sum id (\<lambda>(n, gs). (c + n, fs @ gs)) (push_loop (drop c bs) 0 [])"
proof (induction "length (drop c bs)" arbitrary: c fs bs rule: less_induct)
  case less
  show ?case
  proof (cases "next_frame (drop c bs)")
    case (Inl e)
    then show ?thesis
      by (simp add: push_loop_step [of bs c] push_loop_step [of "drop c bs" 0])
  next
    case (Inr r)
    show ?thesis
    proof (cases r)
      case None
      with Inr show ?thesis
        by (simp add: push_loop_step [of bs c] push_loop_step [of "drop c bs" 0])
    next
      case (Some pr)
      obtain p rest where "pr = (p, rest)" by (cases pr)
      with Inr Some have n: "next_frame (drop c bs) = Inr (Some (p, rest))" by simp
      let ?k = "length (drop c bs) - length rest"
      have rest: "drop ?k (drop c bs) = rest" by (rule next_frame_split(3) [OF n])
      have short: "length rest < length (drop c bs)" by (rule next_frame_split(2) [OF n])
      have e1: "push_loop bs (c + ?k) (fs @ [p]) =
          map_sum id (\<lambda>(n, gs). (c + ?k + n, (fs @ [p]) @ gs)) (push_loop rest 0 [])"
        using less.hyps [of "c + ?k" bs] rest short by (simp add: add.commute)
      have e2: "push_loop (drop c bs) (0 + ?k) ([] @ [p]) =
          map_sum id (\<lambda>(n, gs). (0 + ?k + n, ([] @ [p]) @ gs)) (push_loop rest 0 [])"
        using less.hyps [of "0 + ?k" "drop c bs"] rest short by simp
      show ?thesis
        using n e1 e2
        by (simp add: push_loop_step [of bs c] push_loop_step [of "drop c bs" 0])
          (cases "push_loop rest 0 []"; auto)
    qed
  qed
qed

lemma drain_frames_rec:
  "drain_frames bs =
     (case next_frame bs of
        Inl e \<Rightarrow> Inl e
      | Inr None \<Rightarrow> Inr ([], bs)
      | Inr (Some (p, rest)) \<Rightarrow> map_sum id (map_prod ((#) p) id) (drain_frames rest))"
proof (cases "next_frame bs")
  case (Inl e)
  then show ?thesis by (simp add: drain_frames_def push_loop_step [of bs 0])
next
  case (Inr r)
  show ?thesis
  proof (cases r)
    case None
    with Inr show ?thesis by (simp add: drain_frames_def push_loop_step [of bs 0])
  next
    case (Some pr)
    obtain p rest where "pr = (p, rest)" by (cases pr)
    with Inr Some have n: "next_frame bs = Inr (Some (p, rest))" by simp
    let ?k = "length bs - length rest"
    have rest: "drop ?k bs = rest" by (rule next_frame_split(3) [OF n])
    have "push_loop bs 0 [] = push_loop bs ?k [p]"
      using n by (simp add: push_loop_step [of bs 0])
    also have "\<dots> = map_sum id (\<lambda>(n, gs). (?k + n, [p] @ gs)) (push_loop rest 0 [])"
      using push_loop_shift [of bs ?k "[p]"] rest by simp
    finally have "drain_frames bs = map_sum id (map_prod ((#) p) id) (drain_frames rest)"
      unfolding drain_frames_def
      by (cases "push_loop rest 0 []") (auto simp: add.commute rest simp flip: drop_drop)
    with n show ?thesis by simp
  qed
qed

lemma parse_frame_more:
  "parse_frame bs = Inr (Some (p, rest)) \<Longrightarrow> parse_frame (bs @ suf) = Inr (Some (p, rest @ suf))"
  "parse_frame bs = Inl (FrameTooLarge n) \<Longrightarrow> parse_frame (bs @ suf) = Inl (FrameTooLarge n)"
  by (auto simp: parse_frame_def Let_def split: if_splits)

lemma parse_frame_no_io: "parse_frame bs \<noteq> Inl (Io e)"
  by (auto simp: parse_frame_def Let_def)

lemma parse_frame_partial:
  assumes "length p \<le> MAX_FRAME_SIZE" and "encode_frame p = bs @ suf" and "suf \<noteq> []"
  shows "next_frame bs = Inr None"
proof (cases "parse_frame bs")
  case (Inl e)
  then show ?thesis
    using parse_frame_more(2) [of bs _ suf] parse_frame_encode [OF assms(1), of "[]"] assms(2)
      parse_frame_no_io [of bs]
    by (cases e) (auto simp: next_frame_def)
next
  case (Inr r)
  then show ?thesis
    using parse_frame_more(1) [of bs _ _ suf] parse_frame_encode [OF assms(1), of "[]"] assms(2,3)
    by (cases r) (auto simp: next_frame_def)
qed

interpretation frames: stream_codec encode_frame "\<lambda>p. length p \<le> MAX_FRAME_SIZE" next_frame drain_frames
proof (unfold_locales, goal_cases)
  case (1 p rest)
  then show ?case by (simp add: next_frame_def parse_frame_encode)
next
  case (2 p bs suf)
  then show ?case by (rule parse_frame_partial)
next
  case (3 bs p rest suf)
  then show ?case
    by (auto simp: next_frame_def parse_frame_more split: sum.splits frame_error.splits)
next
  case (4 bs e suf)
  then show ?case
    using parse_frame_no_io [of bs]
    by (auto simp: next_frame_def parse_frame_more split: sum.splits frame_error.splits)
next
  case (5 bs p rest)
  then show ?case by (rule next_frame_split(2))
next
  case (6 bs)
  show ?case by (rule drain_frames_rec)
qed

section \<open>Reassembly\<close>

lemma push_bytes_drain:
  "push_bytes acc c =
     (case drain_frames (buf acc @ c) of
        Inl e \<Rightarrow> (Inl e, acc\<lparr>buf := buf acc @ c\<rparr>)
      | Inr (fs, rest) \<Rightarrow> (Inr fs, acc\<lparr>buf := rest\<rparr>))"
  by (auto simp: push_bytes_def drain_frames_def Let_def split: sum.splits)

lemma drain_frames_Nil: "drain_frames [] = Inr ([], [])"
  by (simp add: drain_frames_rec next_frame_def parse_frame_def)

text \<open>What is left after draining holds no complete frame.\<close>

lemma drain_frames_rest: "drain_frames bs = Inr (fs, rest) \<Longrightarrow> drain_frames rest = Inr ([], rest)"
  using frames.drain_append [of bs "[]"]
  by (cases "drain_frames rest") auto

lemma push_chunks_drain:
  "drain_frames (buf acc) = Inr ([], buf acc) \<Longrightarrow>
   push_chunks acc cs =
     map_sum id (\<lambda>(fs, rest). (fs, acc\<lparr>buf := rest\<rparr>)) (drain_frames (buf acc @ concat cs))"
proof (induction cs arbitrary: acc)
  case Nil
  then show ?case by simp
next
  case (Cons c cs)
  show ?case
  proof (cases "drain_frames (buf acc @ c)")
    case (Inl e)
    then show ?thesis
      using frames.drain_append [of "buf acc @ c" "concat cs"] by (simp add: push_bytes_drain)
  next
    case (Inr fr)
    obtain fs rest where fr: "fr = (fs, rest)" by (cases fr)
    with Inr have d: "drain_frames (buf acc @ c) = Inr (fs, rest)" by simp
    have ih: "push_chunks (acc\<lparr>buf := rest\<rparr>) cs =
        map_sum id (\<lambda>(gs, r). (gs, acc\<lparr>buf := r\<rparr>)) (drain_frames (rest @ concat cs))"
      using Cons.IH [of "acc\<lparr>buf := rest\<rparr>"] drain_frames_rest [OF d] by (simp add: id_def)
    show ?thesis
      using frames.drain_append [of "buf acc @ c" "concat cs"] d ih
      by (cases "drain_frames (rest @ concat cs)") (auto simp: push_bytes_drain)
  qed
qed

section \<open>reader.rs: the reader thread\<close>

text \<open>
  One turn of \<open>reader_loop\<close>: the shutdown flag it sees, the outcome of its \<open>read\<close>, whether
  the run task still holds the receiving end. The loop ends with \<open>None\<close> on the channel, or
  returns at once when a send finds the receiver gone; with the turns used up it is still running.
\<close>

record reader_turn =
  rt_shutdown :: bool
  rt_read :: "io_error + bytes"
  rt_open :: bool

datatype reader_exit = Running | Exited

definition send_all :: "bool \<Rightarrow> bytes list \<Rightarrow> bytes option list" where
  "send_all rx_open frames = (if rx_open then map Some frames else [])"

definition send_none :: "bool \<Rightarrow> bytes option list" where
  "send_none rx_open = (if rx_open then [None] else [])"

fun reader_loop :: "frame_accumulator \<Rightarrow> reader_turn list \<Rightarrow> bytes option list \<times> reader_exit" where
  "reader_loop acc [] = ([], Running)"
| "reader_loop acc (t # ts) =
     (if rt_shutdown t then (send_none (rt_open t), Exited)
      else (case rt_read t of
        Inr d \<Rightarrow>
          if d = [] then (send_none (rt_open t), Exited)
          else (case push_bytes acc d of
              (Inr frames, acc') \<Rightarrow>
                if frames \<noteq> [] \<and> \<not> rt_open t then ([], Exited)
                else map_prod ((@) (send_all (rt_open t) frames)) id (reader_loop acc' ts)
            | (Inl e, acc') \<Rightarrow> (send_none (rt_open t), Exited))
      | Inl e \<Rightarrow>
          if e = WouldBlock \<or> e = TimedOut then reader_loop acc ts
          else (send_none (rt_open t), Exited)))"

text \<open>Turns in which the connection is healthy: data or a read timeout, nobody stopped.\<close>

definition healthy_turn :: "reader_turn \<Rightarrow> bool" where
  "healthy_turn t \<longleftrightarrow> \<not> rt_shutdown t \<and> rt_open t \<and>
     (case rt_read t of Inr d \<Rightarrow> d \<noteq> [] | Inl e \<Rightarrow> e = WouldBlock \<or> e = TimedOut)"

definition turn_bytes :: "reader_turn \<Rightarrow> bytes" where
  "turn_bytes t = (case rt_read t of Inr d \<Rightarrow> d | Inl e \<Rightarrow> [])"

lemma reader_loop_drain:
  "list_all healthy_turn ts \<Longrightarrow> drain_frames (buf acc) = Inr ([], buf acc) \<Longrightarrow>
   drain_frames (buf acc @ concat (map turn_bytes ts)) = Inr (fs, rest) \<Longrightarrow>
   reader_loop acc ts = (map Some fs, Running)"
proof (induction ts arbitrary: acc fs)
  case Nil
  then show ?case by simp
next
  case (Cons t ts)
  show ?case
  proof (cases "rt_read t")
    case (Inl e)
    with Cons show ?thesis by (auto simp: healthy_turn_def turn_bytes_def)
  next
    case (Inr d)
    let ?more = "concat (map turn_bytes ts)"
    from Cons.prems(3) Inr
    have all: "drain_frames ((buf acc @ d) @ ?more) = Inr (fs, rest)" by (simp add: turn_bytes_def [of t])
    with frames.drain_append [of "buf acc @ d" ?more]
    obtain gs r hs where g: "drain_frames (buf acc @ d) = Inr (gs, r)"
      and h: "drain_frames (r @ ?more) = Inr (hs, rest)" and fs: "fs = gs @ hs"
      by (cases "drain_frames (buf acc @ d)")
        (auto simp: map_sum_def split: sum.splits prod.splits)
    have "reader_loop (acc\<lparr>buf := r\<rparr>) ts = (map Some hs, Running)"
      using Cons.IH [of "acc\<lparr>buf := r\<rparr>" hs] Cons.prems(1) h drain_frames_rest [OF g] by simp
    with Cons.prems(1) Inr g fs show ?thesis
      by (auto simp: healthy_turn_def push_bytes_drain send_all_def)
  qed
qed

section \<open>Properties\<close>

text \<open>C8: Reassembly does not depend on how the socket cuts the stream. If the reads \<open>chunks\<close>,
  in order, carry the frames of the payloads \<open>ps\<close> followed by an incomplete frame \<open>tail\<close>,
  then a fresh accumulator returns exactly \<open>ps\<close>, in order, and keeps \<open>tail\<close>.\<close>

theorem accumulator_reassembles:
  assumes "list_all (\<lambda>p. length p \<le> MAX_FRAME_SIZE) ps"
    and "concat chunks = concat (map encode_frame ps) @ tail"
    and "tail = [] \<or> (\<exists>p suf. length p \<le> MAX_FRAME_SIZE \<and> encode_frame p = tail @ suf \<and> suf \<noteq> [])"
  shows "push_chunks accumulator_new chunks = Inr (ps, \<lparr>buf = tail\<rparr>)"
proof -
  have "drain_frames (concat chunks) = Inr (ps, tail)"
    using frames.drain_encoded [OF assms(1,3)] assms(2)
    by (simp add: next_frame_def parse_frame_def)
  then show ?thesis
    using push_chunks_drain [of accumulator_new chunks]
    by (simp add: accumulator_new_def drain_frames_Nil)
qed

theorem accumulator_reassembles_witness:
  "push_chunks accumulator_new [[0, 0], [0, 2, 7], [8, 0, 0, 0, 1, 9, 0, 0]]
     = Inr ([[7, 8], [9]], \<lparr>buf = [0, 0]\<rparr>)"
  by (rule accumulator_reassembles)
    (simp_all add: MAX_FRAME_SIZE_def encode_frame_def u32_to_be_bytes_def,
      rule exI [of _ "[]"], simp)

text \<open>C22: \<open>read_frame\<close> refines the reference parser on plain byte strings: on a reader that
  delivers its bytes in any portions (with interrupted reads in between), the result (frame,
  clean end, oversize or truncation, with the numbers they carry) is that of the parser on the
  whole byte string, and after a frame the reader holds exactly the bytes behind it.\<close>

theorem read_frame_refines_parse:
  assumes "benign rd"
  shows "fst (read_frame rd) = map_sum id (map_option fst) (parse_frame (rd_bytes rd)) \<and>
     (\<forall>p rest. parse_frame (rd_bytes rd) = Inr (Some (p, rest)) \<longrightarrow>
        rd_bytes (snd (read_frame rd)) = rest)"
  using read_frame_benign [OF assms] by auto

theorem read_frame_refines_parse_witness:
  "fst (read_frame [Data [0, 0], Fail Interrupted, Data [0, 1, 5, 6]]) = Inr (Some [5])"
  using read_frame_refines_parse [of "[Data [0, 0], Fail Interrupted, Data [0, 1, 5, 6]]"]
  by (simp add: benign_def benign_outcome_def parse_frame_def MAX_FRAME_SIZE_def)

text \<open>The reader thread forwards exactly the frames of the stream, in order: over any
  sequence of successful reads and read timeouts that together carry the frames of \<open>ps\<close>, it
  sends \<open>ps\<close> to the run task and keeps running.\<close>

theorem reader_loop_delivers:
  assumes "list_all (\<lambda>p. length p \<le> MAX_FRAME_SIZE) ps"
    and "list_all healthy_turn ts"
    and "concat (map turn_bytes ts) = concat (map encode_frame ps)"
  shows "reader_loop accumulator_new ts = (map Some ps, Running)"
proof -
  have "drain_frames (concat (map turn_bytes ts)) = Inr (ps, [])"
    using frames.drain_encoded [OF assms(1), of "[]"] assms(3)
    by (simp add: next_frame_def parse_frame_def)
  then show ?thesis
    using reader_loop_drain [OF assms(2), of accumulator_new ps "[]"]
    by (simp add: accumulator_new_def drain_frames_Nil)
qed

theorem reader_loop_delivers_witness:
  "reader_loop accumulator_new
     [\<lparr>rt_shutdown = False, rt_read = Inr [0, 0, 0], rt_open = True\<rparr>,
      \<lparr>rt_shutdown = False, rt_read = Inl WouldBlock, rt_open = True\<rparr>,
      \<lparr>rt_shutdown = False, rt_read = Inr [1, 65], rt_open = True\<rparr>] = ([Some [65]], Running)"
  using reader_loop_delivers [of "[[65]]"
      "[\<lparr>rt_shutdown = False, rt_read = Inr [0, 0, 0], rt_open = True\<rparr>,
      \<lparr>rt_shutdown = False, rt_read = Inl WouldBlock, rt_open = True\<rparr>,
      \<lparr>rt_shutdown = False, rt_read = Inr [1, 65], rt_open = True\<rparr>]"]
  by (simp add: healthy_turn_def turn_bytes_def MAX_FRAME_SIZE_def encode_frame_def
      u32_to_be_bytes_def)

end
