(* ===== verification/Proto.thy ===== *)
theory Proto
  imports Cast_Prelude
begin

text \<open>
  The hand-rolled Protobuf codec of CastMessage (\<open>src/src/cast/proto.rs\<close>): LEB128 varints,
  the encoder of the messages this application sends, and the decoder, which skips unknown
  fields by wire type and turns every malformed payload into an error.
\<close>

section \<open>Definitions\<close>

definition MAX_FIELD_SIZE :: nat where
  "MAX_FIELD_SIZE = 16 * 1024 * 1024"

datatype wire_type = Varint | Fixed64 | LengthDelimited | Fixed32

definition wire_type_from_number :: "u8 \<Rightarrow> wire_type option" where
  "wire_type_from_number v =
     (if v = 0 then Some Varint else if v = 1 then Some Fixed64
      else if v = 2 then Some LengthDelimited else if v = 5 then Some Fixed32 else None)"

fun wire_type_number :: "wire_type \<Rightarrow> u64" where
  "wire_type_number Varint = 0"
| "wire_type_number Fixed64 = 1"
| "wire_type_number LengthDelimited = 2"
| "wire_type_number Fixed32 = 5"

datatype proto_error =
    UnexpectedEnd nat
  | VarintOverflow
  | UnknownWireType u8
  | MissingFieldNumber
  | TruncatedField nat nat
  | FieldTooLarge

function varint_encode :: "u64 \<Rightarrow> bytes" where
  "varint_encode v =
     (let byte = (ucast (v AND 0x7F) :: u8); v' = drop_bit 7 v in
      if v' = 0 then [byte] else (byte OR 0x80) # varint_encode v')"
  by pat_completeness auto
termination
proof (relation "measure unat", goal_cases)
  case 1
  show ?case by simp
next
  case (2 v x y)
  then have "drop_bit 7 v \<noteq> 0" by simp
  then have "v \<noteq> 0" by auto
  then have "0 < unat v" by (simp add: unat_gt_0)
  then have "unat v div 128 < unat v" by simp
  with 2 show ?case by (simp add: drop_bit_eq_div unat_div)
qed

declare varint_encode.simps [simp del]

text \<open>The loop of \<open>varint_decode\<close> over \<open>bytes.iter().enumerate()\<close>; \<open>tot\<close> is the slice's length.\<close>

fun varint_decode_loop :: "nat \<Rightarrow> nat \<Rightarrow> u64 \<Rightarrow> bytes \<Rightarrow> proto_error + u64 \<times> nat" where
  "varint_decode_loop tot index v [] = Inl (UnexpectedEnd tot)"
| "varint_decode_loop tot index v (byte # rest) =
     (if index \<ge> 10 then Inl VarintOverflow
      else if index = 9 \<and> (byte AND 0x7F) > 0x01 then Inl VarintOverflow
      else let v' = v OR push_bit (7 * index) (ucast (byte AND 0x7F)) in
        if byte AND 0x80 = 0 then Inr (v', index + 1)
        else varint_decode_loop tot (index + 1) v' rest)"

definition varint_decode :: "bytes \<Rightarrow> proto_error + u64 \<times> nat" where
  "varint_decode bs = varint_decode_loop (length bs) 0 0 bs"

datatype payload_type = PString | PBinary

record cast_message =
  protocol_version :: u32
  source_id :: rstring
  destination_id :: rstring
  namespace :: rstring
  payload_type :: payload_type
  payload_utf8 :: rstring

definition empty_message :: cast_message where
  "empty_message = \<lparr>protocol_version = 0, source_id = [], destination_id = [], namespace = [],
     payload_type = PString, payload_utf8 = []\<rparr>"

definition key :: "u32 \<Rightarrow> wire_type \<Rightarrow> u64" where
  "key field wire = push_bit 3 (ucast field) OR wire_type_number wire"

definition write_length_delimited :: "bytes \<Rightarrow> u32 \<Rightarrow> bytes \<Rightarrow> bytes" where
  "write_length_delimited out field d =
     out @ varint_encode (key field LengthDelimited) @ varint_encode (of_nat (length d)) @ d"

definition encode_cast_message :: "rstring \<Rightarrow> rstring \<Rightarrow> rstring \<Rightarrow> rstring \<Rightarrow> bytes" where
  "encode_cast_message source dest ns payload =
     (let out = varint_encode (key 1 Varint) @ [0];
          out = write_length_delimited out 2 source;
          out = write_length_delimited out 3 dest;
          out = write_length_delimited out 4 ns;
          out = out @ varint_encode (key 5 Varint) @ [0]
      in write_length_delimited out 6 payload)"

definition skip_fixed :: "nat \<Rightarrow> nat \<Rightarrow> nat \<Rightarrow> proto_error + nat" where
  "skip_fixed width pos len = (if pos + width > len then Inl (UnexpectedEnd (len - pos)) else Inr (pos + width))"

text \<open>The assignments of a decoded varint and of a decoded length-delimited field.\<close>

definition set_varint_field :: "u32 \<Rightarrow> u64 \<Rightarrow> cast_message \<Rightarrow> cast_message" where
  "set_varint_field field v m =
     (if field = 1 then m\<lparr>protocol_version := ucast v\<rparr>
      else if field = 5 then m\<lparr>payload_type := (if v = 1 then PBinary else PString)\<rparr>
      else m)"

definition set_bytes_field :: "u32 \<Rightarrow> bytes \<Rightarrow> cast_message \<Rightarrow> cast_message" where
  "set_bytes_field field d m =
     (if field = 2 then m\<lparr>source_id := from_utf8_lossy d\<rparr>
      else if field = 3 then m\<lparr>destination_id := from_utf8_lossy d\<rparr>
      else if field = 4 then m\<lparr>namespace := from_utf8_lossy d\<rparr>
      else if field = 6 then m\<lparr>payload_utf8 := from_utf8_lossy d\<rparr>
      else m)"

text \<open>The \<open>match wire\<close> of the decoder: the value behind a field key, by wire type.\<close>

fun decode_value :: "bytes \<Rightarrow> nat \<Rightarrow> u32 \<Rightarrow> cast_message \<Rightarrow> wire_type \<Rightarrow> proto_error + nat \<times> cast_message" where
  "decode_value bs pos field m Varint =
     rbind (varint_decode (drop pos bs)) (\<lambda>(v, consumed).
       Inr (pos + consumed, set_varint_field field v m))"
| "decode_value bs pos field m LengthDelimited =
     rbind (varint_decode (drop pos bs)) (\<lambda>(len, consumed).
       let pos = pos + consumed in
       if unat len > MAX_FIELD_SIZE then Inl FieldTooLarge
       else if pos + unat len > length bs then Inl (TruncatedField (unat len) (length bs - pos))
       else Inr (pos + unat len, set_bytes_field field (take (unat len) (drop pos bs)) m))"
| "decode_value bs pos field m Fixed64 =
     rbind (skip_fixed 8 pos (length bs)) (\<lambda>pos. Inr (pos, m))"
| "decode_value bs pos field m Fixed32 =
     rbind (skip_fixed 4 pos (length bs)) (\<lambda>pos. Inr (pos, m))"

text \<open>One turn of the decoder's \<open>while pos < bytes.len()\<close> loop: the new position and message.\<close>

definition decode_field :: "bytes \<Rightarrow> nat \<Rightarrow> cast_message \<Rightarrow> proto_error + nat \<times> cast_message" where
  "decode_field bs pos m =
     rbind (varint_decode (drop pos bs)) (\<lambda>(key_value, consumed).
       let field = (ucast (drop_bit 3 key_value) :: u32);
           wire_number = (ucast (key_value AND 0x07) :: u8)
       in rbind (ok_or (UnknownWireType wire_number) (wire_type_from_number wire_number)) (\<lambda>wire.
         if field = 0 then Inl MissingFieldNumber
         else decode_value bs (pos + consumed) field m wire))"

lemma varint_decode_loop_consumed:
  "varint_decode_loop tot index v bs = Inr (w, n) \<Longrightarrow> index < n \<and> n \<le> index + length bs \<and> n \<le> 10"
  by (induction tot index v bs rule: varint_decode_loop.induct)
    (auto simp: Let_def split: if_splits)

lemma varint_decode_consumed:
  "varint_decode bs = Inr (w, n) \<Longrightarrow> 0 < n \<and> n \<le> length bs \<and> n \<le> 10"
  using varint_decode_loop_consumed [of "length bs" 0 0 bs w n]
  by (simp add: varint_decode_def)

lemma decode_value_progress:
  "decode_value bs pos field m wire = Inr (pos', m') \<Longrightarrow>
     pos \<le> pos' \<and> (pos \<le> length bs \<longrightarrow> pos' \<le> length bs)"
  by (cases wire) (auto simp: rbind_eq_Inr Let_def skip_fixed_def split: if_split_asm
      dest!: varint_decode_consumed)

lemma decode_field_progress:
  "decode_field bs pos m = Inr (pos', m') \<Longrightarrow> pos < pos' \<and> (pos \<le> length bs \<longrightarrow> pos' \<le> length bs)"
  by (auto simp: decode_field_def rbind_eq_Inr Let_def split: if_split_asm
      dest!: varint_decode_consumed decode_value_progress)

function decode_loop :: "bytes \<Rightarrow> nat \<Rightarrow> cast_message \<Rightarrow> proto_error + cast_message" where
  "decode_loop bs pos m =
     (if pos < length bs then
        (case decode_field bs pos m of
           Inl e \<Rightarrow> Inl e
         | Inr (pos', m') \<Rightarrow> decode_loop bs pos' m')
      else Inr m)"
  by pat_completeness auto
termination
  by (relation "measure (\<lambda>(bs, pos, m). length bs - pos)") (auto dest!: decode_field_progress)

declare decode_loop.simps [simp del]

definition decode_cast_message :: "bytes \<Rightarrow> proto_error + cast_message" where
  "decode_cast_message bs = decode_loop bs 0 empty_message"

section \<open>Varints\<close>

lemma varint_digit:
  "push_bit k (ucast ((ucast (v AND 0x7F) :: u8) AND 0x7F)) OR push_bit (k + 7) (drop_bit 7 v)
     = push_bit k (v :: u64)"
proof (rule bit_word_eqI)
  fix n assume n: "n < LENGTH(64)"
  have m: "(0x7F :: u64) = mask 7" "(0x7F :: u8) = mask 7" by (simp_all add: mask_eq_exp_minus_1)
  show "bit (push_bit k (ucast ((ucast (v AND 0x7F) :: u8) AND 0x7F)) OR
        push_bit (k + 7) (drop_bit 7 v)) n = bit (push_bit k v :: u64) n"
    unfolding m using n by (cases "n < k + 7") (auto simp: bit_simps not_less)
qed

lemma bit_128: "bit (128 :: u8) n \<longleftrightarrow> n = 7"
proof -
  have "(128 :: u8) = 2 ^ 7" by simp
  then show ?thesis by (simp only: bit_exp_iff) auto
qed

lemma low_seven [simp]:
  "(ucast (v AND 0x7F :: u64) OR 0x80 :: u8) AND 0x7F = ucast (v AND 0x7F)"
  "(ucast (v AND 0x7F :: u64) :: u8) AND 0x7F = ucast (v AND 0x7F)"
  "(ucast (v AND 0x7F :: u64) OR 0x80 :: u8) AND 0x80 \<noteq> 0"
  "(ucast (v AND 0x7F :: u64) :: u8) AND 0x80 = 0"
proof -
  have m: "(0x7F :: u64) = mask 7" "(0x7F :: u8) = mask 7" 
    by (simp_all add: mask_eq_exp_minus_1)
  show "(ucast (v AND 0x7F :: u64) OR 0x80 :: u8) AND 0x7F = ucast (v AND 0x7F)"
  proof -
    have "take_bit 7 (ucast (take_bit 7 v) OR 0x80 :: u8) = take_bit 7 (ucast (take_bit 7 v) :: u8)"
      by (simp add: take_bit_or)
    also have "\<dots> = ucast (take_bit 7 v)"
      by (rule bit_word_eqI) (auto simp: bit_simps)
    finally show ?thesis unfolding m(1,2) by (simp flip: take_bit_eq_mask)
  qed
  show "(ucast (v AND 0x7F :: u64) :: u8) AND 0x7F = ucast (v AND 0x7F)"
    unfolding m by (rule bit_word_eqI) (auto simp: bit_simps)
  show "(ucast (v AND 0x7F :: u64) :: u8) AND 0x80 = 0"
    unfolding m(1) by (rule bit_word_eqI, simp only: bit_and_iff bit_128) (auto simp: bit_simps)
  have "bit ((ucast (v AND 0x7F :: u64) OR 0x80 :: u8) AND 0x80) 7"
    by (simp only: bit_and_iff bit_or_iff bit_128) simp
  then show "(ucast (v AND 0x7F :: u64) OR 0x80 :: u8) AND 0x80 \<noteq> 0" by auto
qed

lemma unat_drop7: "unat (drop_bit 7 v :: u64) = unat v div 128"
  by (simp add: drop_bit_eq_div unat_div)

lemma varint_digit_small: "drop_bit 7 v = 0 \<Longrightarrow> ucast (ucast (v AND 0x7F) :: u8) = (v :: u64)"
  using varint_digit [of 0 v] by simp

text \<open>
  The decoder on the encoder's output: at byte \<open>index\<close> the value left fits into the bits
  that remain, so no overflow check fires, and the seven-bit digits add up to the value.
\<close>

lemma varint_decode_loop_encode:
  "index \<le> 9 \<Longrightarrow> unat v < 2 ^ (64 - 7 * index) \<Longrightarrow>
   varint_decode_loop tot index acc (varint_encode v @ rest) =
     Inr (acc OR push_bit (7 * index) v, index + length (varint_encode v))"
proof (induction v arbitrary: index acc rule: varint_encode.induct)
  case (1 v)
  let ?d = "drop_bit 7 v"
  have small: "\<not> (index = 9 \<and> 1 < (ucast (v AND 0x7F) :: u8))"
  proof
    assume a: "index = 9 \<and> 1 < (ucast (v AND 0x7F) :: u8)"
    with "1.prems" have "unat v < 2" by simp
    then have "v = 0 \<or> v = 1"
      by (auto simp: word_unat_eq_iff)
    with a show False by auto
  qed
  show ?case
  proof (cases "?d = 0")
    case True
    with "1.prems" small varint_digit_small [OF True] show ?thesis
      by (simp add: varint_encode.simps [of v])
  next
    case False
    then have big: "128 \<le> unat v"
      by (metis div_less not_le unat_drop7 unat_0 word_unat_eq_iff)
    have index: "index + 1 \<le> 9"
    proof (rule ccontr)
      assume "\<not> index + 1 \<le> 9"
      with "1.prems" have "index = 9" by simp
      with "1.prems" big show False by simp
    qed
    have e: "64 - 7 * index = 7 + (64 - 7 * (index + 1))" using index by simp
    have "unat ?d < 2 ^ (64 - 7 * (index + 1))"
      using "1.prems"(2) unfolding e power_add unat_drop7 by (simp add: div_less_iff_less_mult mult.commute)
    from "1.IH" [OF refl refl False index this]
    show ?thesis
      using "1.prems" small False varint_digit [of "7 * index" v]
        low_seven(3) [of v]
      by (simp add: varint_encode.simps [of v] Let_def or.assoc add.commute)
  qed
qed

lemma varint_round_trip [simp]:
  "varint_decode (varint_encode v @ rest) = Inr (v, length (varint_encode v))"
proof -
  have "unat v < 2 ^ 64" using unsigned_less [of v] by simp
  then show ?thesis
    using varint_decode_loop_encode [of 0 v _ 0 rest] by (simp add: varint_decode_def)
qed

lemma varint_encode_length: "0 < length (varint_encode v) \<and> length (varint_encode v) \<le> 10"
  using varint_decode_consumed [OF varint_round_trip [of v "[]"]] by simp

section \<open>The decoder\<close>

text \<open>Decoding depends only on the bytes from the position on, and not on bytes behind a field.\<close>

lemma decode_value_shift:
  "pos \<le> length bs \<Longrightarrow> decode_value bs pos field m wire =
     map_sum id (map_prod ((+) pos) id) (decode_value (drop pos bs) 0 field m wire)"
  by (cases wire; cases "varint_decode (drop pos bs)")
    (auto simp: Let_def skip_fixed_def add.assoc add.commute dest!: varint_decode_consumed)

lemma decode_value_shift':
  "pos + c \<le> length bs \<Longrightarrow> decode_value bs (pos + c) field m wire =
     map_sum id (map_prod ((+) pos) id) (decode_value (drop pos bs) c field m wire)"
  using decode_value_shift [of "pos + c" bs field m wire]
    decode_value_shift [of c "drop pos bs" field m wire]
  by (cases "decode_value (drop (pos + c) bs) 0 field m wire") (auto simp: add.commute)

lemma decode_field_shift:
  assumes "pos \<le> length bs"
  shows "decode_field bs pos m = map_sum id (map_prod ((+) pos) id) (decode_field (drop pos bs) 0 m)"
proof (cases "varint_decode (drop pos bs)")
  case (Inl e)
  then show ?thesis by (simp add: decode_field_def)
next
  case (Inr kc)
  obtain k c where kc: "kc = (k, c)" by (cases kc)
  with Inr have "pos + c \<le> length bs" using assms varint_decode_consumed by fastforce
  with Inr kc show ?thesis
    by (cases "wire_type_from_number (ucast (k AND 7))")
      (auto simp: decode_field_def Let_def decode_value_shift')
qed

lemma decode_loop_shift:
  "pos \<le> length bs \<Longrightarrow> decode_loop bs pos m = decode_loop (drop pos bs) 0 m"
proof (induction "length bs - pos" arbitrary: pos bs m rule: less_induct)
  case less
  show ?case
  proof (cases "pos < length bs")
    case False
    with less.prems show ?thesis by (simp add: decode_loop.simps)
  next
    case True
    show ?thesis
    proof (cases "decode_field (drop pos bs) 0 m")
      case (Inl e)
      with True decode_field_shift [OF less.prems] show ?thesis
        by (simp add: decode_loop.simps [of bs] decode_loop.simps [of "drop pos bs"])
    next
      case (Inr r)
      obtain p m' where r: "r = (p, m')" by (cases r)
      with Inr have f: "decode_field (drop pos bs) 0 m = Inr (p, m')" by simp
      from decode_field_progress [OF f] have p: "0 < p" "p \<le> length (drop pos bs)" by auto
      have "decode_loop bs (pos + p) m' = decode_loop (drop (pos + p) bs) 0 m'"
        using less.hyps [of bs "pos + p" m'] p True by simp
      moreover have "decode_loop (drop pos bs) p m' = decode_loop (drop (p + pos) bs) 0 m'"
        using less.hyps [of "drop pos bs" p m'] p True by simp
      ultimately show ?thesis
        using True f decode_field_shift [OF less.prems]
        by (simp add: decode_loop.simps [of bs pos] decode_loop.simps [of "drop pos bs" 0] add.commute)
    qed
  qed
qed

lemma varint_decode_loop_append:
  "varint_decode_loop tot index v bs = Inr r \<Longrightarrow> varint_decode_loop tot' index v (bs @ cs) = Inr r"
  by (induction tot index v bs rule: varint_decode_loop.induct) (auto simp: Let_def split: if_splits)

lemma varint_decode_append: "varint_decode bs = Inr r \<Longrightarrow> varint_decode (bs @ cs) = Inr r"
  by (auto simp: varint_decode_def intro: varint_decode_loop_append)

lemma decode_value_append:
  assumes "decode_value bs pos field m wire = Inr r" and "pos \<le> length bs"
  shows "decode_value (bs @ cs) pos field m wire = Inr r"
proof (cases "wire = Fixed64 \<or> wire = Fixed32")
  case True
  with assms show ?thesis by (auto simp: rbind_eq_Inr skip_fixed_def split: if_splits)
next
  case False
  then obtain v n where v: "varint_decode (drop pos bs) = Inr (v, n)"
    using assms(1) by (cases wire) (auto simp: rbind_eq_Inr)
  have "varint_decode (drop pos (bs @ cs)) = Inr (v, n)" and "n \<le> length bs - pos"
    using varint_decode_append [OF v, of cs] varint_decode_consumed [OF v] assms(2) by auto
  with False v assms show ?thesis
    by (cases wire) (auto simp: Let_def split: if_splits)
qed

lemma decode_field_append:
  assumes "decode_field bs pos m = Inr r" and "pos \<le> length bs"
  shows "decode_field (bs @ cs) pos m = Inr r"
proof -
  from assms obtain k c w where v: "varint_decode (drop pos bs) = Inr (k, c)"
    and w: "ok_or (UnknownWireType (ucast (k AND 7))) (wire_type_from_number (ucast (k AND 7))) = Inr w"
    and f: "(ucast (drop_bit 3 k) :: u32) \<noteq> 0"
    and d: "decode_value bs (pos + c) (ucast (drop_bit 3 k)) m w = Inr r"
    by (auto simp: decode_field_def rbind_eq_Inr Let_def split: if_split_asm)
  have "pos + c \<le> length bs" using varint_decode_consumed [OF v] assms(2) by (simp, arith)
  with d have d': "decode_value (bs @ cs) (pos + c) (ucast (drop_bit 3 k)) m w = Inr r"
    by (rule decode_value_append)
  have "varint_decode (drop pos (bs @ cs)) = Inr (k, c)"
    using varint_decode_append [OF v, of cs] assms(2) by simp
  with w f d' show ?thesis by (simp add: decode_field_def Let_def)
qed

text \<open>A payload is decoded field by field: decoding a concatenation continues with the message
  the first part gave.\<close>

lemma decode_loop_append:
  assumes "decode_loop bs 0 m = Inr m'"
  shows "decode_loop (bs @ cs) 0 m = decode_loop cs 0 m'"
proof -
  have "pos \<le> length bs \<Longrightarrow> decode_loop bs pos m = Inr m' \<Longrightarrow>
      decode_loop (bs @ cs) pos m = decode_loop cs 0 m'" for pos
  proof (induction bs pos m rule: decode_loop.induct)
    case (1 bs pos m)
    show ?case
    proof (cases "pos < length bs")
      case False
      with "1.prems" have "pos = length bs" "m = m'" by (auto simp: decode_loop.simps)
      then show ?thesis using decode_loop_shift [of "length bs" "bs @ cs"] by simp
    next
      case True
      with "1.prems" obtain p mp where f: "decode_field bs pos m = Inr (p, mp)"
        and d: "decode_loop bs p mp = Inr m'"
        by (auto simp: decode_loop.simps [of bs pos] split: sum.splits)
      have "p \<le> length bs" using decode_field_progress [OF f] "1.prems"(1) by simp
      with "1.IH" [OF True f refl] d True f decode_field_append [OF f "1.prems"(1), of cs]
      show ?thesis by (simp add: decode_loop.simps [of "bs @ cs" pos])
    qed
  qed
  from this [of 0] assms show ?thesis by simp
qed

lemma key_parts [simp]:
  "drop_bit 3 (key f w) = ucast f" "wire_type_from_number (ucast (key f w AND 7)) = Some w"
proof -
  have s: "wire_type_number w AND mask 3 = wire_type_number w"
    by (cases w) (simp_all add: mask_eq_exp_minus_1)
  have m: "push_bit 3 x AND mask 3 = 0" for x :: u64
    by (rule bit_word_eqI) (auto simp: bit_simps)
  have "key f w AND mask 3 = wire_type_number w"
    unfolding key_def by (simp add: bit.conj_disj_distrib2 m s)
  then have "key f w AND 7 = wire_type_number w"
    by (simp add: mask_eq_exp_minus_1)
  then show "wire_type_from_number (ucast (key f w AND 7)) = Some w"
    by (cases w) (simp_all add: wire_type_from_number_def)
  have "drop_bit 3 (wire_type_number w) = 0" by (cases w) simp_all
  moreover have "drop_bit 3 (push_bit 3 (ucast f :: u64)) = ucast f"
    by (rule bit_word_eqI) (auto simp: bit_simps dest: bit_imp_le_length)
  ultimately show "drop_bit 3 (key f w) = ucast f" by (simp add: key_def)
qed

lemma ucast_u32_u64_u32 [simp]: "ucast (ucast (f :: u32) :: u64) = f"
  by (rule bit_word_eqI) (auto simp: bit_simps)

lemma decode_loop_one:
  assumes "decode_field bs 0 m = Inr (length bs, m')"
  shows "decode_loop bs 0 m = Inr m'"
proof -
  have "bs \<noteq> []" using decode_field_progress [OF assms] by auto
  with assms show ?thesis
    by (simp add: decode_loop.simps [of bs 0] decode_loop.simps [of bs "length bs"])
qed

lemma decode_bytes_field:
  assumes "f \<noteq> 0" and "length d \<le> MAX_FIELD_SIZE"
  shows "decode_loop (varint_encode (key f LengthDelimited) @ varint_encode (of_nat (length d)) @ d) 0 m
     = Inr (set_bytes_field f d m)"
proof (rule decode_loop_one)
  have "unat (of_nat (length d) :: u64) = length d"
    using assms(2) by (intro unat_of_nat_u64) (simp add: MAX_FIELD_SIZE_def)
  then show "decode_field
      (varint_encode (key f LengthDelimited) @ varint_encode (of_nat (length d)) @ d) 0 m =
    Inr (length (varint_encode (key f LengthDelimited) @ varint_encode (of_nat (length d)) @ d),
      set_bytes_field f d m)"
    using assms by (simp add: decode_field_def Let_def)
qed

lemma decode_varint_field:
  assumes "f \<noteq> 0"
  shows "decode_loop (varint_encode (key f Varint) @ varint_encode v) 0 m
     = Inr (set_varint_field f v m)"
proof (rule decode_loop_one)
  show "decode_field (varint_encode (key f Varint) @ varint_encode v) 0 m =
    Inr (length (varint_encode (key f Varint) @ varint_encode v), set_varint_field f v m)"
    using assms varint_round_trip [of v "[]"] by (simp add: decode_field_def Let_def)
qed

lemma varint_encode_0: "varint_encode 0 = [0]"
  by (simp add: varint_encode.simps)

lemma decode_encoded:
  assumes "length s \<le> MAX_FIELD_SIZE" "length d \<le> MAX_FIELD_SIZE"
    "length n \<le> MAX_FIELD_SIZE" "length p \<le> MAX_FIELD_SIZE"
  shows "decode_loop (encode_cast_message s d n p) 0 m =
    Inr (set_bytes_field 6 p (set_varint_field 5 0 (set_bytes_field 4 n
      (set_bytes_field 3 d (set_bytes_field 2 s (set_varint_field 1 0 m))))))"
proof -
  have split: "encode_cast_message s d n p =
      (varint_encode (key 1 Varint) @ varint_encode 0) @
      (varint_encode (key 2 LengthDelimited) @ varint_encode (of_nat (length s)) @ s) @
      (varint_encode (key 3 LengthDelimited) @ varint_encode (of_nat (length d)) @ d) @
      (varint_encode (key 4 LengthDelimited) @ varint_encode (of_nat (length n)) @ n) @
      (varint_encode (key 5 Varint) @ varint_encode 0) @
      (varint_encode (key 6 LengthDelimited) @ varint_encode (of_nat (length p)) @ p)"
    by (simp add: encode_cast_message_def write_length_delimited_def varint_encode_0 Let_def)
  show ?thesis
    unfolding split
    by (subst decode_loop_append [OF decode_varint_field], simp,
        subst decode_loop_append [OF decode_bytes_field], simp, rule assms,
        subst decode_loop_append [OF decode_bytes_field], simp, rule assms,
        subst decode_loop_append [OF decode_bytes_field], simp, rule assms,
        subst decode_loop_append [OF decode_varint_field], simp,
        rule decode_bytes_field, simp, rule assms)
qed

section \<open>Properties\<close>

text \<open>C15: Round trip of the wire format: the decoder gives back every message the encoder writes
  (the four texts are valid UTF-8, as every Rust string is, and at most 16 MiB long).\<close>

theorem cast_message_round_trip:
  assumes "utf8_valid source" "utf8_valid dest" "utf8_valid ns" "utf8_valid payload"
    and "length source \<le> MAX_FIELD_SIZE" "length dest \<le> MAX_FIELD_SIZE"
    and "length ns \<le> MAX_FIELD_SIZE" "length payload \<le> MAX_FIELD_SIZE"
  shows "decode_cast_message (encode_cast_message source dest ns payload) =
    Inr \<lparr>protocol_version = 0, source_id = source, destination_id = dest, namespace = ns,
      payload_type = PString, payload_utf8 = payload\<rparr>"
  using assms
  by (simp add: decode_cast_message_def decode_encoded empty_message_def set_bytes_field_def
      set_varint_field_def)

theorem cast_message_round_trip_witness:
  "decode_cast_message (encode_cast_message (str ''s'') (str ''d'') (str ''n'') (str ''{}'')) =
    Inr \<lparr>protocol_version = 0, source_id = str ''s'', destination_id = str ''d'',
      namespace = str ''n'', payload_type = PString, payload_utf8 = str ''{}''\<rparr>"
  by (rule cast_message_round_trip)
    (simp_all add: str_def MAX_FIELD_SIZE_def utf8_valid.simps(2) utf8_step_def utf8_width_def)

text \<open>The varint codec: \<open>varint_decode\<close> recovers any 64-bit value from its encoding,
  whatever bytes follow, and reports exactly the bytes the encoder wrote, between 1 and 10.\<close>

theorem varint_codec_correct:
  "varint_decode (varint_encode v @ rest) = Inr (v, length (varint_encode v)) \<and>
   1 \<le> length (varint_encode v) \<and> length (varint_encode v) \<le> 10"
  using varint_encode_length [of v] by (simp add: Suc_le_eq)

text \<open>Unknown fields do no harm: inserting, at a field boundary of a payload that decodes, a
  varint or a length-delimited field with a number the application does not use changes nothing
  of the decoded message, whatever follows.\<close>

theorem unknown_fields_skipped:
  assumes "decode_cast_message before = Inr m"
    and "f \<notin> {0, 1, 2, 3, 4, 5, 6}"
    and "length d \<le> MAX_FIELD_SIZE"
    and "unknown = varint_encode (key f Varint) @ varint_encode v \<or>
      unknown = varint_encode (key f LengthDelimited) @ varint_encode (of_nat (length d)) @ d"
  shows "decode_cast_message (before @ unknown @ after) = decode_cast_message (before @ after)"
proof -
  have "decode_loop unknown 0 m = Inr m"
    using assms(2-4) by (auto simp: decode_varint_field decode_bytes_field
        set_varint_field_def set_bytes_field_def)
  then show ?thesis
    using assms(1) by (simp add: decode_cast_message_def decode_loop_append)
qed

theorem unknown_fields_skipped_witness:
  "decode_cast_message ([] @ (varint_encode (key 100 Varint) @ varint_encode 42) @ [0x28, 1]) =
   decode_cast_message ([] @ [0x28, 1])"
  by (rule unknown_fields_skipped [where m = empty_message and f = 100 and v = 42 and d = "[]"])
    (simp_all add: decode_cast_message_def decode_loop.simps MAX_FIELD_SIZE_def)

text \<open>Every slice the decoder takes is in range. In each turn of its loop, started inside the
  payload, a decoded field leaves the position strictly further and still inside the payload, so
  \<open>&bytes[pos..]\<close> and \<open>&bytes[pos..pos + length]\<close> never panic and the loop ends.\<close>

theorem decode_position_in_bounds:
  assumes "pos \<le> length bs" and "decode_field bs pos m = Inr (pos', m')"
  shows "pos < pos' \<and> pos' \<le> length bs"
  using decode_field_progress [OF assms(2)] assms(1) by simp

theorem decode_position_in_bounds_witness:
  "(0 :: nat) < 2 \<and> (2 :: nat) \<le> length [0x28 :: u8, 1]"
proof -
  have "decode_field [0x28, 1] 0 empty_message = Inr (2, empty_message\<lparr>payload_type := PBinary\<rparr>)"
    by (simp add: decode_field_def varint_decode_def Let_def wire_type_from_number_def
        set_varint_field_def drop_bit_eq_div)
  from decode_position_in_bounds [OF _ this] show ?thesis by simp
qed

text \<open>The field number is cut to 32 bits before it is compared, so a field with number
  \<open>2 ^ 32 + 6\<close>, which the format reserves for nothing the application uses, is taken for field
  6: the decoder overwrites the payload instead of skipping an unknown field.\<close>

theorem field_number_truncated:
  "decode_cast_message ([0xB2, 0x80, 0x80, 0x80, 0x80, 0x01, 0x02, 0x7B, 0x7D]) =
   Inr (empty_message\<lparr>payload_utf8 := str ''{}''\<rparr>)"
  by (simp add: decode_cast_message_def decode_loop.simps decode_field_def varint_decode_def Let_def
      drop_bit_eq_div wire_type_from_number_def set_bytes_field_def MAX_FIELD_SIZE_def
      from_utf8_lossy.simps(2) utf8_step_def utf8_width_def str_def)

end
