(* ===== verification/Request_Id.thy ===== *)
theory Request_Id
  imports Cast_Prelude "HOL-Library.AList"
begin

text \<open>
  Request IDs and outstanding requests (\<open>src/src/cast/request_id.rs\<close>). The \<open>HashMap\<close> of
  pending requests is an association list with distinct keys; its order stands for the hash map's
  iteration order, on which no theorem depends. The allocator's loop is a
  \<open>partial_function (option)\<close>: \<open>None\<close> is a loop that does not end, \<open>Some (Inl ())\<close> the
  panic.
\<close>

section \<open>Outstanding requests\<close>

record pending_map =
  pending :: "(u32 \<times> instant) list"
  timeout :: duration

definition DEFAULT_REQUEST_TIMEOUT :: duration where
  "DEFAULT_REQUEST_TIMEOUT = from_secs 5"

definition pending_new :: "duration \<Rightarrow> pending_map" where
  "pending_new t = \<lparr>pending = [], timeout = t\<rparr>"

definition with_default_timeout :: pending_map where
  "with_default_timeout = pending_new DEFAULT_REQUEST_TIMEOUT"

definition is_pending :: "pending_map \<Rightarrow> u32 \<Rightarrow> bool" where
  "is_pending m i \<longleftrightarrow> i \<in> fst ` set (pending m)"

definition pending_insert :: "pending_map \<Rightarrow> u32 \<Rightarrow> instant \<Rightarrow> bool \<times> pending_map" where
  "pending_insert m i sent_at =
     (if is_pending m i then (False, m) else (True, m\<lparr>pending := (i, sent_at) # pending m\<rparr>))"

definition resolve :: "pending_map \<Rightarrow> u32 \<Rightarrow> bool \<times> pending_map" where
  "resolve m i = (is_pending m i, m\<lparr>pending := AList.delete i (pending m)\<rparr>)"

definition expired :: "pending_map \<Rightarrow> instant \<Rightarrow> u32 \<times> instant \<Rightarrow> bool" where
  "expired m now e \<longleftrightarrow> now \<ge> snd e + timeout m"

definition expire :: "pending_map \<Rightarrow> instant \<Rightarrow> u32 list \<times> pending_map" where
  "expire m now =
     (map fst (filter (expired m now) (pending m)),
      m\<lparr>pending := filter (\<lambda>e. \<not> expired m now e) (pending m)\<rparr>)"

definition pending_len :: "pending_map \<Rightarrow> nat" where
  "pending_len m = length (pending m)"

text \<open>The invariant of the map: keys are distinct.\<close>

definition pending_inv :: "pending_map \<Rightarrow> bool" where
  "pending_inv m \<longleftrightarrow> distinct (map fst (pending m))"

section \<open>The allocator\<close>

record request_id =
  next_id :: u32

definition request_id_new :: request_id where
  "request_id_new = \<lparr>next_id = 1\<rparr>"

text \<open>The derived \<open>Default\<close> starts at 0.\<close>

definition request_id_default :: request_id where
  "request_id_default = \<lparr>next_id = 0\<rparr>"

definition next_in_cycle :: "u32 \<Rightarrow> u32" where
  "next_in_cycle n = (if n = 0xFFFFFFFF then 1 else n + 1)"

partial_function (option) allocate_loop ::
  "pending_map \<Rightarrow> u32 \<Rightarrow> u32 \<Rightarrow> (unit + u32 \<times> u32) option" where
  "allocate_loop m start n =
     (let i = n; n' = next_in_cycle n in
      if \<not> is_pending m i then Some (Inr (i, n'))
      else if n' = start then Some (Inl ())
      else allocate_loop m start n')"

definition allocate :: "request_id \<Rightarrow> pending_map \<Rightarrow> (unit + u32 \<times> request_id) option" where
  "allocate r m =
     map_option (map_sum id (\<lambda>(i, n). (i, r\<lparr>next_id := n\<rparr>))) (allocate_loop m (next_id r) (next_id r))"

section \<open>The interface of correlation\<close>

text \<open>
  What the connection needs of the map: a fresh request becomes pending and only it, a response
  resolves its request once, everything else is untouched.
\<close>

locale request_store =
  fixes is_out :: "'m \<Rightarrow> 'k \<Rightarrow> bool"
    and insert :: "'m \<Rightarrow> 'k \<Rightarrow> 't \<Rightarrow> bool \<times> 'm"
    and resolve :: "'m \<Rightarrow> 'k \<Rightarrow> bool \<times> 'm"
    and inv :: "'m \<Rightarrow> bool"
  assumes insert_dup: "is_out m k \<Longrightarrow> insert m k t = (False, m)"
    and insert_new: "\<not> is_out m k \<Longrightarrow> fst (insert m k t)"
    and is_out_insert: "is_out (snd (insert m k t)) j \<longleftrightarrow> j = k \<or> is_out m j"
    and resolve_hit: "fst (resolve m k) \<longleftrightarrow> is_out m k"
    and is_out_resolve: "is_out (snd (resolve m k)) j \<longleftrightarrow> j \<noteq> k \<and> is_out m j"
    and inv_insert: "inv m \<Longrightarrow> inv (snd (insert m k t))"
    and inv_resolve: "inv m \<Longrightarrow> inv (snd (resolve m k))"
begin

text \<open>A request is answered exactly once, by its own ID, and answers to others do not touch it.\<close>

lemma correlation:
  assumes "\<not> is_out m k"
  shows "fst (resolve (snd (insert m k t)) k)"
    and "\<not> fst (resolve (snd (resolve (snd (insert m k t)) k)) k)"
    and "j \<noteq> k \<Longrightarrow> fst (resolve (snd (resolve (snd (insert m k t)) j)) k)"
    and "is_out (snd (resolve (snd (insert m k t)) k)) j \<longleftrightarrow> is_out m j"
  using assms by (auto simp: resolve_hit is_out_resolve is_out_insert)

end

interpretation store: request_store is_pending pending_insert resolve pending_inv
proof (unfold_locales, goal_cases)
  case (1 m k t)
  then show ?case by (simp add: pending_insert_def)
next
  case (2 m k t)
  then show ?case by (simp add: pending_insert_def)
next
  case (3 m k t j)
  then show ?case by (auto simp: pending_insert_def is_pending_def)
next
  case (4 m k)
  then show ?case by (simp add: resolve_def)
next
  case (5 m k j)
  then show ?case by (force simp: resolve_def is_pending_def AList.delete_eq)
next
  case (6 m k t)
  then show ?case by (auto simp: pending_inv_def pending_insert_def is_pending_def)
next
  case (7 m k)
  then show ?case by (auto simp: pending_inv_def resolve_def distinct_delete)
qed

lemma pending_inv_new [simp]: "pending_inv (pending_new t)"
  by (simp add: pending_inv_def pending_new_def)

lemma is_pending_new [simp]: "\<not> is_pending (pending_new t) i"
  by (simp add: is_pending_def pending_new_def)

lemma pending_inv_expire: "pending_inv m \<Longrightarrow> pending_inv (snd (expire m now))"
  by (simp add: pending_inv_def expire_def distinct_map_filter)

section \<open>The cycle of IDs\<close>

definition ID_CYCLE :: nat where
  "ID_CYCLE = 2 ^ 32 - 1"

lemma unat_next_in_cycle:
  assumes "n \<noteq> 0"
  shows "unat (next_in_cycle n) = unat n mod ID_CYCLE + 1" and "next_in_cycle n \<noteq> 0"
proof -
  have n: "0 < unat n" "unat n < 2 ^ 32"
    using assms unsigned_less [of n] by (auto simp: unat_gt_0)
  show u: "unat (next_in_cycle n) = unat n mod ID_CYCLE + 1"
  proof (cases "n = 0xFFFFFFFF")
    case True
    then show ?thesis by (simp add: next_in_cycle_def ID_CYCLE_def)
  next
    case False
    then have "unat n \<noteq> unat (0xFFFFFFFF :: u32)" by (simp add: word_unat_eq_iff)
    with n have "unat n < ID_CYCLE" by (simp add: ID_CYCLE_def)
    with n False show ?thesis
      by (simp add: next_in_cycle_def ID_CYCLE_def unat_word_ariths)
  qed
  show "next_in_cycle n \<noteq> 0"
    using u by (metis add_is_0 unat_0 zero_neq_one)
qed

lemma unat_funpow_cycle:
  assumes "n \<noteq> 0"
  shows "unat ((next_in_cycle ^^ k) n) = (unat n - 1 + k) mod ID_CYCLE + 1 \<and> (next_in_cycle ^^ k) n \<noteq> 0"
proof (induction k)
  case 0
  have "unat n < 2 ^ 32" "0 < unat n" using assms unsigned_less [of n] by (auto simp: unat_gt_0)
  then have "unat n - 1 < ID_CYCLE" by (simp add: ID_CYCLE_def)
  with \<open>0 < unat n\<close> assms show ?case by simp
next
  case (Suc k)
  then show ?case
    using unat_next_in_cycle [of "(next_in_cycle ^^ k) n"]
    by (simp add: mod_Suc_eq)
qed

lemma mod_add_inj:
  assumes "(a + i) mod n = (a + j) mod (n :: nat)" "i < n" "j < n"
  shows "i = j"
proof -
  have le: "i = j" if "(a + i) mod n = (a + j) mod n" "i \<le> j" "j < n" for i j
  proof -
    from that have "n dvd (a + j) - (a + i)"
      by (metis add_le_cancel_left mod_eq_dvd_iff_nat)
    with that show "i = j"
      using nat_dvd_not_less [of "j - i" n] by (cases "i = j") auto
  qed
  show ?thesis
  proof (cases "i \<le> j")
    case True
    then show ?thesis by (rule le [OF assms(1) _ assms(3)])
  next
    case False
    then have "j \<le> i" by simp
    then have "j = i" by (rule le [OF assms(1) [symmetric] _ assms(2)])
    then show ?thesis by simp
  qed
qed

lemma funpow_cycle_inj:
  assumes "n \<noteq> 0" and "i < ID_CYCLE" "j < ID_CYCLE"
    and "(next_in_cycle ^^ i) n = (next_in_cycle ^^ j) n"
  shows "i = j"
proof -
  have "(unat n - 1 + i) mod ID_CYCLE = (unat n - 1 + j) mod ID_CYCLE"
    using unat_funpow_cycle [OF assms(1)] assms(4) by (metis add_right_cancel)
  then show ?thesis using assms(2,3) by (rule mod_add_inj)
qed

lemma allocate_loop_first_free:
  "(\<forall>i<k. is_pending m ((next_in_cycle ^^ i) n)) \<Longrightarrow> \<not> is_pending m ((next_in_cycle ^^ k) n) \<Longrightarrow>
   (\<forall>i. 0 < i \<and> i \<le> k \<longrightarrow> (next_in_cycle ^^ i) n \<noteq> start) \<Longrightarrow>
   allocate_loop m start n =
     Some (Inr ((next_in_cycle ^^ k) n, next_in_cycle ((next_in_cycle ^^ k) n)))"
proof (induction k arbitrary: n)
  case 0
  then show ?case by (simp add: allocate_loop.simps)
next
  case (Suc k)
  have sw: "(next_in_cycle ^^ i) (next_in_cycle n) = (next_in_cycle ^^ Suc i) n" for i
    by (simp add: funpow_swap1)
  have "is_pending m n" using Suc.prems(1) by (metis funpow_0 zero_less_Suc)
  moreover have "next_in_cycle n \<noteq> start" using Suc.prems(3) [rule_format, of 1] by simp
  moreover have "allocate_loop m start (next_in_cycle n) =
      Some (Inr ((next_in_cycle ^^ k) (next_in_cycle n),
        next_in_cycle ((next_in_cycle ^^ k) (next_in_cycle n))))"
  proof (rule Suc.IH)
    show "\<forall>i<k. is_pending m ((next_in_cycle ^^ i) (next_in_cycle n))"
      using Suc.prems(1) unfolding sw by (metis Suc_less_eq)
    show "\<not> is_pending m ((next_in_cycle ^^ k) (next_in_cycle n))"
      using Suc.prems(2) unfolding sw .
    show "\<forall>i. 0 < i \<and> i \<le> k \<longrightarrow> (next_in_cycle ^^ i) (next_in_cycle n) \<noteq> start"
      using Suc.prems(3) unfolding sw by (metis Suc_le_mono zero_less_Suc)
  qed
  ultimately show ?case
    by (simp add: allocate_loop.simps [of m start n] sw del: funpow.simps(2))
qed

lemma free_id_in_cycle:
  assumes "n \<noteq> 0" and "length (pending m) < ID_CYCLE"
  shows "\<exists>k<ID_CYCLE. \<not> is_pending m ((next_in_cycle ^^ k) n)"
proof (rule ccontr)
  assume "\<not> ?thesis"
  then have "(\<lambda>k. (next_in_cycle ^^ k) n) ` {..<ID_CYCLE} \<subseteq> fst ` set (pending m)"
    by (auto simp: is_pending_def)
  moreover have "inj_on (\<lambda>k. (next_in_cycle ^^ k) n) {..<ID_CYCLE}"
    by (auto intro!: inj_onI dest: funpow_cycle_inj [OF assms(1)])
  ultimately have "card {..<ID_CYCLE} \<le> card (fst ` set (pending m))"
    by (intro card_inj_on_le) auto
  also have "\<dots> \<le> length (pending m)"
    using card_image_le [of "set (pending m)" fst] card_length [of "pending m"] by simp
  finally show False using assms(2) by (simp only: card_lessThan)
qed

lemma allocate_total:
  assumes "next_id r \<noteq> 0" and "length (pending m) < ID_CYCLE"
  obtains k where "k < ID_CYCLE"
    and "\<forall>i<k. is_pending m ((next_in_cycle ^^ i) (next_id r))"
    and "\<not> is_pending m ((next_in_cycle ^^ k) (next_id r))"
    and "allocate r m = Some (Inr ((next_in_cycle ^^ k) (next_id r),
        r\<lparr>next_id := next_in_cycle ((next_in_cycle ^^ k) (next_id r))\<rparr>))"
proof -
  define k where "k = (LEAST k. \<not> is_pending m ((next_in_cycle ^^ k) (next_id r)))"
  obtain k0 where k0: "k0 < ID_CYCLE" "\<not> is_pending m ((next_in_cycle ^^ k0) (next_id r))"
    using free_id_in_cycle [OF assms] by blast
  have free: "\<not> is_pending m ((next_in_cycle ^^ k) (next_id r))"
    unfolding k_def by (rule LeastI) (rule k0(2))
  have "k \<le> k0" unfolding k_def by (rule Least_le) (rule k0(2))
  with k0(1) have k: "k < ID_CYCLE" by simp
  have before: "\<forall>i<k. is_pending m ((next_in_cycle ^^ i) (next_id r))"
    unfolding k_def using not_less_Least by blast
  have "\<forall>i. 0 < i \<and> i \<le> k \<longrightarrow> (next_in_cycle ^^ i) (next_id r) \<noteq> next_id r"
  proof (intro allI impI notI)
    fix i assume i: "0 < i \<and> i \<le> k" and e: "(next_in_cycle ^^ i) (next_id r) = next_id r"
    have "i = 0"
      by (rule funpow_cycle_inj [OF assms(1)]) (use i k e in \<open>auto simp: ID_CYCLE_def\<close>)
    with i show False by simp
  qed
  from allocate_loop_first_free [OF before free this] that [OF k before free]
  show ?thesis by (simp add: allocate_def)
qed

section \<open>Properties\<close>

text \<open>C25: Allocation always returns (the loop ends and does not panic) while fewer than
  \<open>2 ^ 32 - 1\<close> requests are outstanding, and the ID it returns is the first one at or after the
  counter, in the cycle that wraps from \<open>u32::MAX\<close> to 1, that has no outstanding request; it is
  never 0, and the counter moves behind it and is never 0 either.\<close>

theorem allocate_fresh:
  assumes "next_id r \<noteq> 0" and "length (pending m) < 2 ^ 32 - 1"
  shows "\<exists>k i r'. allocate r m = Some (Inr (i, r')) \<and>
     i = (next_in_cycle ^^ k) (next_id r) \<and> (\<forall>j<k. is_pending m ((next_in_cycle ^^ j) (next_id r))) \<and>
     \<not> is_pending m i \<and> i \<noteq> 0 \<and> next_id r' = next_in_cycle i \<and> next_id r' \<noteq> 0"
proof -
  from assms(2) have "length (pending m) < ID_CYCLE" by (simp add: ID_CYCLE_def)
  from allocate_total [OF assms(1) this] obtain k where k:
    "\<forall>i<k. is_pending m ((next_in_cycle ^^ i) (next_id r))"
    "\<not> is_pending m ((next_in_cycle ^^ k) (next_id r))"
    "allocate r m = Some (Inr ((next_in_cycle ^^ k) (next_id r),
        r\<lparr>next_id := next_in_cycle ((next_in_cycle ^^ k) (next_id r))\<rparr>))" by metis
  moreover have "(next_in_cycle ^^ k) (next_id r) \<noteq> 0"
    using unat_funpow_cycle [OF assms(1)] by blast
  moreover from this have "next_in_cycle ((next_in_cycle ^^ k) (next_id r)) \<noteq> 0"
    by (rule unat_next_in_cycle(2))
  ultimately show ?thesis by auto
qed

theorem allocate_fresh_witness:
  "\<exists>k i r'. allocate \<lparr>next_id = 0xFFFFFFFF\<rparr> \<lparr>pending = [(0xFFFFFFFF, 7)], timeout = 5\<rparr> = Some (Inr (i, r')) \<and>
     i = (next_in_cycle ^^ k) 0xFFFFFFFF \<and> i \<noteq> 0"
  using allocate_fresh [of "\<lparr>next_id = 0xFFFFFFFF\<rparr>" "\<lparr>pending = [(0xFFFFFFFF, 7)], timeout = 5\<rparr>"]
  by auto

text \<open>Correlation: a request registered under an ID that is not outstanding is resolved by the
  first response with that ID and by no second one; a response with another ID leaves it
  outstanding; and resolving it leaves the other requests as they were.\<close>

theorem request_resolved_once:
  assumes "\<not> is_pending m i"
  shows "fst (resolve (snd (pending_insert m i t)) i) \<and>
     \<not> fst (resolve (snd (resolve (snd (pending_insert m i t)) i)) i) \<and>
     (\<forall>j. j \<noteq> i \<longrightarrow> fst (resolve (snd (resolve (snd (pending_insert m i t)) j)) i)) \<and>
     (\<forall>j. is_pending (snd (resolve (snd (pending_insert m i t)) i)) j \<longleftrightarrow> is_pending m j)"
  using store.correlation [OF assms] by blast

theorem request_resolved_once_witness:
  "fst (resolve (snd (pending_insert (pending_new 5) 7 0)) 7)"
  using request_resolved_once [of "pending_new 5" 7 0] by simp

text \<open>Expiry is exact: the IDs returned are those of the requests whose sent time plus timeout
  has come, each once, and exactly the other requests stay outstanding.\<close>

theorem expire_exact:
  assumes "pending_inv m"
  shows "set (fst (expire m now)) = {i. \<exists>t. (i, t) \<in> set (pending m) \<and> t + timeout m \<le> now} \<and>
     distinct (fst (expire m now)) \<and>
     (\<forall>i. is_pending (snd (expire m now)) i \<longleftrightarrow> is_pending m i \<and> i \<notin> set (fst (expire m now)))"
proof -
  have "(i, t) \<in> set (pending m) \<Longrightarrow> (i, t') \<in> set (pending m) \<Longrightarrow> t = t'" for i t t'
    using assms by (auto simp: pending_inv_def intro: eq_key_imp_eq_value)
  moreover have "distinct (fst (expire m now))"
    using assms by (simp add: pending_inv_def expire_def distinct_map_filter)
  moreover have "is_pending (snd (expire m now)) i \<longleftrightarrow>
      (\<exists>t. (i, t) \<in> set (pending m) \<and> \<not> t + timeout m \<le> now)" for i
    by (force simp: expire_def expired_def is_pending_def)
  moreover have "set (fst (expire m now)) = {i. \<exists>t. (i, t) \<in> set (pending m) \<and> t + timeout m \<le> now}"
    by (force simp: expire_def expired_def)
  moreover have "is_pending m i \<longleftrightarrow> (\<exists>t. (i, t) \<in> set (pending m))" for i
    by (force simp: is_pending_def)
  ultimately show ?thesis by simp blast
qed

theorem expire_exact_witness:
  "set (fst (expire \<lparr>pending = [(1, 0), (2, 3)], timeout = 5\<rparr> 6)) =
     {i. \<exists>t. (i, t) \<in> set [(1, 0), (2, 3 :: nat)] \<and> t + 5 \<le> 6}"
  using expire_exact [of "\<lparr>pending = [(1, 0), (2, 3)], timeout = 5\<rparr>" 6]
  by (simp add: pending_inv_def)

text \<open>\<open>RequestId::default()\<close> breaks the promise that ID 0 is never handed out: its first
  allocation is 0, while \<open>RequestId::new()\<close> starts at 1.\<close>

theorem default_allocates_zero:
  "allocate request_id_default with_default_timeout = Some (Inr (0, \<lparr>next_id = 1\<rparr>)) \<and>
   allocate request_id_new with_default_timeout = Some (Inr (1, \<lparr>next_id = 2\<rparr>))"
  by (simp add: allocate_def allocate_loop.simps request_id_default_def request_id_new_def
      next_in_cycle_def with_default_timeout_def)

end
