(* ===== verification/Namespaces.thy ===== *)
theory Namespaces
  imports Text_Lemmas
begin

text \<open>
  The JSON messages of the Cast namespaces (\<open>src/src/cast/namespaces.rs\<close>). The JSON library is a
  parameter: a record with the operations the code uses of \<open>serde_json\<close> on values of a type
  \<open>'v\<close>. A single-precision number is the 32-bit word of its IEEE 754 encoding; the widening of an
  \<open>f32\<close> into a JSON number and back is part of the parameter.
\<close>

section \<open>The JSON operations the code uses\<close>

record 'v json_api =
  j_from_str :: "rstring \<Rightarrow> 'v option"
  j_to_string :: "'v \<Rightarrow> rstring"
  j_get :: "'v \<Rightarrow> rstring \<Rightarrow> 'v option"
  j_is_object :: "'v \<Rightarrow> bool"
  j_as_str :: "'v \<Rightarrow> rstring option"
  j_as_u64 :: "'v \<Rightarrow> u64 option"
  j_as_f32 :: "'v \<Rightarrow> u32 option"
  j_as_bool :: "'v \<Rightarrow> bool option"
  j_as_array :: "'v \<Rightarrow> 'v list option"
  j_object :: "(rstring \<times> 'v) list \<Rightarrow> 'v"
  j_str :: "rstring \<Rightarrow> 'v"
  j_u32 :: "u32 \<Rightarrow> 'v"
  j_f32 :: "u32 \<Rightarrow> 'v"
  j_bool :: "bool \<Rightarrow> 'v"

definition obind :: "'a option \<Rightarrow> ('a \<Rightarrow> 'b option) \<Rightarrow> 'b option" where
  "obind x f = (case x of None \<Rightarrow> None | Some y \<Rightarrow> f y)"

lemma obind_simps [simp]: "obind None f = None" "obind (Some x) f = f x"
  by (simp_all add: obind_def)

lemma obind_eq_Some: "obind x f = Some z \<longleftrightarrow> (\<exists>y. x = Some y \<and> f y = Some z)"
  by (cases x) auto

section \<open>Addressing\<close>

definition SOURCE_ID :: rstring where "SOURCE_ID = str ''source-0''"
definition TRANSPORT_ID :: rstring where "TRANSPORT_ID = str ''transport-0''"
definition RECEIVER_ID :: rstring where "RECEIVER_ID = str ''receiver-0''"
definition DEFAULT_MEDIA_RECEIVER_APP_ID :: rstring where
  "DEFAULT_MEDIA_RECEIVER_APP_ID = str ''CC1AD845''"
definition CONNECTION_NS :: rstring where
  "CONNECTION_NS = str ''urn:x-cast:com.google.cast.tp.connection''"
definition HEARTBEAT_NS :: rstring where
  "HEARTBEAT_NS = str ''urn:x-cast:com.google.cast.tp.heartbeat''"
definition RECEIVER_NS :: rstring where
  "RECEIVER_NS = str ''urn:x-cast:com.google.cast.receiver''"
definition MEDIA_NS :: rstring where
  "MEDIA_NS = str ''urn:x-cast:com.google.cast.media''"

definition uuid_dashes :: "nat list" where
  "uuid_dashes = [8, 13, 18, 23]"

definition is_uuid_transport_id :: "rstring \<Rightarrow> bool" where
  "is_uuid_transport_id i \<longleftrightarrow>
     length i = 36 \<and> list_all (\<lambda>p. i ! p = 45) uuid_dashes \<and>
     list_all (\<lambda>p. p \<in> set uuid_dashes \<or> is_ascii_hexdigit (i ! p)) [0..<36]"

definition media_destination_id :: "rstring \<Rightarrow> rstring" where
  "media_destination_id transport_id =
     (if is_uuid_transport_id transport_id then transport_id
      else str ''transport-'' @ transport_id)"

section \<open>Builders\<close>

datatype stream_type = Buffered | Live

fun stream_type_as_str :: "stream_type \<Rightarrow> rstring" where
  "stream_type_as_str Buffered = str ''BUFFERED''"
| "stream_type_as_str Live = str ''LIVE''"

text \<open>The version of the package, which the build passes in.\<close>

definition typed :: "'v json_api \<Rightarrow> string \<Rightarrow> (rstring \<times> 'v) list \<Rightarrow> rstring" where
  "typed js t fs = j_to_string js (j_object js ((str ''type'', j_str js (str t)) # fs))"

definition connect_msg :: "'v json_api \<Rightarrow> rstring \<Rightarrow> rstring" where
  "connect_msg js version =
     typed js ''CONNECT''
       [(str ''origin'', j_object js []),
        (str ''userAgent'', j_str js (str ''cast-app/'' @ version)),
        (str ''connType'', j_u32 js 0),
        (str ''senderInfo'', j_object js
           [(str ''sdkType'', j_u32 js 2), (str ''version'', j_str js version),
            (str ''browserVersion'', j_str js version), (str ''platform'', j_u32 js 6),
            (str ''connectionType'', j_u32 js 1)])]"

definition ping :: "'v json_api \<Rightarrow> rstring" where
  "ping js = typed js ''PING'' []"

definition launch :: "'v json_api \<Rightarrow> u32 \<Rightarrow> rstring" where
  "launch js request_id =
     typed js ''LAUNCH''
       [(str ''requestId'', j_u32 js request_id), (str ''appId'', j_str js DEFAULT_MEDIA_RECEIVER_APP_ID)]"

definition get_status :: "'v json_api \<Rightarrow> u32 \<Rightarrow> rstring" where
  "get_status js request_id = typed js ''GET_STATUS'' [(str ''requestId'', j_u32 js request_id)]"

text \<open>
  \<open>f32::is_finite\<close>: the exponent is not all ones. \<open>f32::clamp(0.0, 1.0)\<close> on a finite number:
  a negative number other than \<open>-0.0\<close> is below 0, and non-negative numbers are ordered like
  their encodings.
\<close>

definition F32_ONE :: u32 where "F32_ONE = 0x3F800000"
definition F32_NEG_ZERO :: u32 where "F32_NEG_ZERO = 0x80000000"

definition f32_is_finite :: "u32 \<Rightarrow> bool" where
  "f32_is_finite x \<longleftrightarrow> x AND 0x7F800000 \<noteq> 0x7F800000"

definition f32_clamp_unit :: "u32 \<Rightarrow> u32" where
  "f32_clamp_unit x =
     (if F32_NEG_ZERO < x then 0
      else if x = F32_NEG_ZERO then x
      else if F32_ONE < x then F32_ONE
      else x)"

definition volume_level :: "u32 \<Rightarrow> u32" where
  "volume_level level = (if f32_is_finite level then f32_clamp_unit level else 0)"

definition set_volume :: "'v json_api \<Rightarrow> u32 \<Rightarrow> u32 \<Rightarrow> bool \<Rightarrow> rstring" where
  "set_volume js request_id level muted =
     typed js ''SET_VOLUME''
       [(str ''requestId'', j_u32 js request_id),
        (str ''volume'', j_object js
           [(str ''level'', j_f32 js (volume_level level)), (str ''muted'', j_bool js muted)])]"

definition stop_app :: "'v json_api \<Rightarrow> u32 \<Rightarrow> rstring \<Rightarrow> rstring" where
  "stop_app js request_id session_id =
     typed js ''STOP_APP''
       [(str ''requestId'', j_u32 js request_id), (str ''sessionId'', j_str js session_id)]"

definition load :: "'v json_api \<Rightarrow> u32 \<Rightarrow> rstring \<Rightarrow> rstring \<Rightarrow> rstring \<Rightarrow> stream_type \<Rightarrow> rstring" where
  "load js request_id session_id content_id content_type st =
     typed js ''LOAD''
       [(str ''requestId'', j_u32 js request_id),
        (str ''media'', j_object js
           [(str ''contentId'', j_str js content_id), (str ''contentType'', j_str js content_type),
            (str ''streamType'', j_str js (stream_type_as_str st))]),
        (str ''autoplay'', j_bool js True), (str ''currentTime'', j_u32 js 0),
        (str ''sessionId'', j_str js session_id)]"

definition play :: "'v json_api \<Rightarrow> u32 \<Rightarrow> rstring" where
  "play js request_id = typed js ''PLAY'' [(str ''requestId'', j_u32 js request_id)]"

definition pause :: "'v json_api \<Rightarrow> u32 \<Rightarrow> rstring" where
  "pause js request_id = typed js ''PAUSE'' [(str ''requestId'', j_u32 js request_id)]"

definition stop_msg :: "'v json_api \<Rightarrow> u32 \<Rightarrow> rstring" where
  "stop_msg js request_id = typed js ''STOP'' [(str ''requestId'', j_u32 js request_id)]"

section \<open>Parsers\<close>

record volume_info =
  vi_level :: u32
  vi_muted :: bool

record receiver_status =
  rs_transport_id :: "rstring option"
  rs_session_id :: "rstring option"
  rs_volume :: "volume_info option"

datatype player_state = Idle | Playing | Paused | Buffering | OtherState rstring

definition player_state_parse :: "rstring \<Rightarrow> player_state" where
  "player_state_parse v =
     (if v = str ''IDLE'' then Idle else if v = str ''PLAYING'' then Playing
      else if v = str ''PAUSED'' then Paused else if v = str ''BUFFERING'' then Buffering
      else OtherState v)"

record media_status_info =
  mi_player_state :: player_state
  mi_idle_reason :: "rstring option"

definition as_object :: "'v json_api \<Rightarrow> 'v \<Rightarrow> 'v option" where
  "as_object js v = (if j_is_object js v then Some v else None)"

definition get_str :: "'v json_api \<Rightarrow> 'v \<Rightarrow> string \<Rightarrow> rstring option" where
  "get_str js v k = obind (j_get js v (str k)) (j_as_str js)"

definition status_volume :: "'v json_api \<Rightarrow> 'v \<Rightarrow> volume_info option" where
  "status_volume js status =
     map_option (\<lambda>volume.
       \<lparr>vi_level = (case obind (j_get js volume (str ''level'')) (j_as_f32 js) of Some l \<Rightarrow> l | None \<Rightarrow> F32_ONE),
        vi_muted = (case obind (j_get js volume (str ''muted'')) (j_as_bool js) of Some m \<Rightarrow> m | None \<Rightarrow> False)\<rparr>)
       (obind (j_get js status (str ''volume'')) (as_object js))"

definition status_application :: "'v json_api \<Rightarrow> 'v \<Rightarrow> 'v option" where
  "status_application js status =
     obind (obind (j_get js status (str ''applications'')) (j_as_array js)) (\<lambda>applications.
       case find (\<lambda>a. get_str js a ''appId'' = Some DEFAULT_MEDIA_RECEIVER_APP_ID) applications of
         Some a \<Rightarrow> Some a
       | None \<Rightarrow> (case applications of [] \<Rightarrow> None | a # _ \<Rightarrow> Some a))"

definition parse_receiver_status :: "'v json_api \<Rightarrow> rstring \<Rightarrow> receiver_status option" where
  "parse_receiver_status js payload =
     obind (j_from_str js payload) (\<lambda>v.
       obind (j_get js v (str ''type'')) (\<lambda>t.
         if j_as_str js t \<noteq> Some (str ''RECEIVER_STATUS'') then None
         else obind (j_get js v (str ''status'')) (\<lambda>st.
           obind (as_object js st) (\<lambda>status.
             let application = status_application js status
             in Some \<lparr>rs_transport_id = obind application (\<lambda>a. get_str js a ''transportId''),
                      rs_session_id = obind application (\<lambda>a. get_str js a ''sessionId''),
                      rs_volume = status_volume js status\<rparr>))))"

definition parse_media_status :: "'v json_api \<Rightarrow> rstring \<Rightarrow> media_status_info option" where
  "parse_media_status js payload =
     obind (j_from_str js payload) (\<lambda>v.
       obind (j_get js v (str ''type'')) (\<lambda>t.
         if j_as_str js t \<noteq> Some (str ''MEDIA_STATUS'') then None
         else obind (obind (j_get js v (str ''status'')) (j_as_array js)) (\<lambda>entries.
           obind (case entries of [] \<Rightarrow> None | e # _ \<Rightarrow> Some e) (\<lambda>e.
             obind (as_object js e) (\<lambda>status.
               obind (get_str js status ''playerState'') (\<lambda>s.
                 Some \<lparr>mi_player_state = player_state_parse s,
                       mi_idle_reason = get_str js status ''idleReason''\<rparr>))))))"

definition is_pong :: "'v json_api \<Rightarrow> rstring \<Rightarrow> bool" where
  "is_pong js payload \<longleftrightarrow>
     obind (j_from_str js payload) (\<lambda>v. get_str js v ''type'') = Some (str ''PONG'')"

section \<open>Properties\<close>

text \<open>Encodings of numbers between 0 and 1, \<open>-0.0\<close> included.\<close>

definition f32_in_unit :: "u32 \<Rightarrow> bool" where
  "f32_in_unit x \<longleftrightarrow> x \<le> F32_ONE \<or> x = F32_NEG_ZERO"

text \<open>Whatever 32 bits the caller passes as a volume, infinities and NaNs included, the level in
  the message is between 0 and 1, and a level that is already in range is sent unchanged.\<close>

theorem volume_always_in_range:
  "f32_in_unit (volume_level level) \<and> (f32_in_unit level \<longrightarrow> volume_level level = level)"
proof -
  have "f32_is_finite level" if "level \<le> F32_ONE"
  proof (rule ccontr)
    assume "\<not> f32_is_finite level"
    then have "level AND 0x7F800000 = 0x7F800000" by (simp add: f32_is_finite_def)
    moreover have "level AND 0x7F800000 \<le> level" by (rule word_and_le2)
    ultimately have "0x7F800000 \<le> level" by simp
    with that show False by (simp add: F32_ONE_def word_le_nat_alt)
  qed
  moreover have "f32_is_finite F32_NEG_ZERO" by (simp add: f32_is_finite_def F32_NEG_ZERO_def)
  ultimately show ?thesis
    by (auto simp: volume_level_def f32_in_unit_def f32_clamp_unit_def F32_ONE_def F32_NEG_ZERO_def
        word_le_nat_alt word_less_nat_alt)
qed

theorem volume_always_in_range_witness: "volume_level 0x3F000000 = 0x3F000000"
  using volume_always_in_range [of "0x3F000000"] by (simp add: f32_in_unit_def F32_ONE_def word_le_nat_alt)

end
