(* ===== verification/Media_Range.thy ===== *)
theory Media_Range
  imports Text_Lemmas
begin

text \<open>
  The \<open>Range\<close> header (\<open>src/src/media/range.rs\<close>), the table of MIME types
  (\<open>src/src/media/mime.rs\<close>) and the active source (\<open>src/src/media/source.rs\<close>). Sizes and
  positions are \<open>u64\<close> words as in the code, so the subtractions wrap where a guard is missing.
\<close>

section \<open>Definitions\<close>

datatype range_decision = Full | Partial u64 u64 | Unsatisfiable

definition parse_single_range :: "rstring \<Rightarrow> u64 \<Rightarrow> range_decision" where
  "parse_single_range spec sz =
     (case split_once 45 spec of
        None \<Rightarrow> Unsatisfiable
      | Some (start_text, end_text) \<Rightarrow>
          if start_text = [] then
            (case parse_u64 (trim end_text) of
               None \<Rightarrow> Unsatisfiable
             | Some suffix \<Rightarrow>
                 if suffix = 0 \<or> sz = 0 then Unsatisfiable
                 else if suffix \<ge> sz then Partial 0 (sz - 1)
                 else Partial (sz - suffix) (sz - 1))
          else
            (case parse_u64 (trim start_text) of
               None \<Rightarrow> Unsatisfiable
             | Some start \<Rightarrow>
                 if end_text = [] then
                   (if sz = 0 \<or> start \<ge> sz then Unsatisfiable else Partial start (sz - 1))
                 else
                   (case parse_u64 (trim end_text) of
                      None \<Rightarrow> Unsatisfiable
                    | Some stop \<Rightarrow>
                        if start > stop then Unsatisfiable
                        else if start \<ge> sz then Unsatisfiable
                        else Partial start (min stop (sz - 1)))))"

definition parse_range :: "rstring option \<Rightarrow> u64 \<Rightarrow> range_decision" where
  "parse_range header sz =
     (case header of
        None \<Rightarrow> Full
      | Some h \<Rightarrow>
          (case strip_prefix (str ''bytes='') (trim h) of
             None \<Rightarrow> Full
           | Some rest \<Rightarrow>
               let ranges = map trim (split_on 44 rest)
               in if ranges = [] \<or> list_all (\<lambda>r. r = []) ranges then Unsatisfiable
                  else if length ranges > 1 then Full
                  else parse_single_range (ranges ! 0) sz))"

definition content_range :: "u64 \<Rightarrow> u64 \<Rightarrow> u64 \<Rightarrow> rstring" where
  "content_range start stop sz =
     str ''bytes '' @ fmt_u64 start @ str ''-'' @ fmt_u64 stop @ str ''/'' @ fmt_u64 sz"

definition unsatisfiable_content_range :: "u64 \<Rightarrow> rstring" where
  "unsatisfiable_content_range sz = str ''bytes */'' @ fmt_u64 sz"

definition MIME_TABLE :: "(rstring \<times> rstring) list" where
  "MIME_TABLE = map (\<lambda>(e, m). (str e, str m))
     [(''mp4'', ''video/mp4''), (''webm'', ''video/webm''), (''mkv'', ''video/x-matroska''),
      (''mov'', ''video/quicktime''), (''mp3'', ''audio/mpeg''), (''aac'', ''audio/aac''),
      (''m4a'', ''audio/mp4''), (''flac'', ''audio/flac''), (''wav'', ''audio/wav'')]"

definition DEFAULT_MIME :: rstring where
  "DEFAULT_MIME = str ''application/octet-stream''"

definition mime_for_extension :: "rstring \<Rightarrow> rstring" where
  "mime_for_extension extension =
     (case find (\<lambda>(ext, _). eq_ignore_ascii_case ext extension) MIME_TABLE of
        Some (_, mime) \<Rightarrow> mime | None \<Rightarrow> DEFAULT_MIME)"

text \<open>
  \<open>Path::file_name\<close> and \<open>Path::extension\<close>: the last component that is not empty and not
  \<open>.\<close>, unless it is \<open>..\<close>; the part behind the last dot of a name that does not start there.
\<close>

definition path_file_name :: "bytes \<Rightarrow> bytes option" where
  "path_file_name path =
     (let parts = filter (\<lambda>p. p \<noteq> [] \<and> p \<noteq> str ''.'') (split_on 47 path)
      in if parts = [] \<or> last parts = str ''..'' then None else Some (last parts))"

definition path_extension :: "bytes \<Rightarrow> bytes option" where
  "path_extension path =
     (case path_file_name path of
        None \<Rightarrow> None
      | Some name \<Rightarrow>
          let parts = split_on 46 name
          in if length parts < 2 \<or> length parts = 2 \<and> hd parts = [] then None
             else Some (last parts))"

definition mime_for_path :: "bytes \<Rightarrow> rstring" where
  "mime_for_path path =
     (case path_extension path of
        None \<Rightarrow> DEFAULT_MIME
      | Some ext \<Rightarrow> if utf8_valid ext then mime_for_extension ext else DEFAULT_MIME)"

datatype active_source = File bytes | Url rstring | Screen rstring

fun source_label :: "active_source \<Rightarrow> rstring" where
  "source_label (File path) = from_utf8_lossy path"
| "source_label (Url url) = url"
| "source_label (Screen monitor) = str ''screen: '' @ monitor"

fun is_live :: "active_source \<Rightarrow> bool" where
  "is_live (Screen _) = True"
| "is_live _ = False"

section \<open>The single-range forms\<close>

text \<open>
  The three forms a single range can have, how a client prints them, and the positions of a
  resource of \<open>sz\<close> bytes each asks for.
\<close>

datatype byte_range = Closed u64 u64 | From u64 | Suffix u64

fun render_range :: "byte_range \<Rightarrow> rstring" where
  "render_range (Closed a b) = str ''bytes='' @ fmt_u64 a @ str ''-'' @ fmt_u64 b"
| "render_range (From a) = str ''bytes='' @ fmt_u64 a @ str ''-''"
| "render_range (Suffix n) = str ''bytes='' @ str ''-'' @ fmt_u64 n"

fun requested :: "byte_range \<Rightarrow> nat \<Rightarrow> nat set" where
  "requested (Closed a b) sz = {p. unat a \<le> p \<and> p \<le> unat b \<and> p < sz}"
| "requested (From a) sz = {p. unat a \<le> p \<and> p < sz}"
| "requested (Suffix n) sz = {p. p < sz \<and> sz \<le> p + unat n}"

lemmas range_word_simps = word_le_nat_alt word_less_nat_alt unat_sub_if_size word_size
  word_unat_eq_iff

lemma last_byte: "sz \<noteq> 0 \<Longrightarrow> unat (sz - 1 :: u64) = unat sz - 1"
  by (rule unat_minus_one)

lemma unat_pos_u64: "sz \<noteq> 0 \<Longrightarrow> 0 < unat (sz :: u64)"
  by (simp add: unat_gt_0)

lemma parse_single_range_bounds:
  assumes "parse_single_range spec sz = Partial start stop"
  shows "start \<le> stop \<and> stop < sz"
  using assms
  by (auto simp: parse_single_range_def min_def split: option.splits if_splits) unat_arith+

lemma parse_single_closed:
  "parse_single_range (fmt_u64 a @ 45 # fmt_u64 b) sz =
     (if a > b \<or> a \<ge> sz then Unsatisfiable else Partial a (min b (sz - 1)))"
  using digits_free [OF fmt_u64_digits(1), of 45 a]
  by (simp add: parse_single_range_def split_once_free trim_digits fmt_u64_digits)

lemma parse_single_from:
  "parse_single_range (fmt_u64 a @ [45]) sz =
     (if sz = 0 \<or> a \<ge> sz then Unsatisfiable else Partial a (sz - 1))"
  using digits_free [OF fmt_u64_digits(1), of 45 a]
  by (simp add: parse_single_range_def split_once_free trim_digits fmt_u64_digits)

lemma parse_single_suffix:
  "parse_single_range (45 # fmt_u64 n) sz =
     (if n = 0 \<or> sz = 0 then Unsatisfiable else if n \<ge> sz then Partial 0 (sz - 1)
      else Partial (sz - n) (sz - 1))"
  by (simp add: parse_single_range_def trim_digits fmt_u64_digits)

lemma parse_range_single:
  assumes "spec \<noteq> []" "list_all (\<lambda>c. is_ascii_digit c \<or> c = 45) spec"
  shows "parse_range (Some (str ''bytes='' @ spec)) sz = parse_single_range spec sz"
proof -
  have solid: "solid_byte c" if "c \<in> set spec" for c
    using assms(2) that digit_solid [of c] by (auto simp: list_all_iff solid_byte_def word_le_nat_alt)
  have comma: "44 \<notin> set spec"
    using assms(2) by (auto simp: list_all_iff is_ascii_digit_def)
  have "solid_byte (hd (str ''bytes=''))" by (simp add: str_def solid_byte_def word_le_nat_alt)
  moreover have "str ''bytes='' \<noteq> []" by (simp add: str_def)
  ultimately have "trim (str ''bytes='' @ spec) = str ''bytes='' @ spec"
    using assms(1) solid [of "last spec"] by (intro trim_solid) auto
  moreover have "trim spec = spec"
    using assms(1) solid by (intro trim_solid) auto
  ultimately show ?thesis
    using assms(1) comma by (simp add: parse_range_def split_on_free Let_def)
qed

lemma parse_range_render:
  "parse_range (Some (render_range r)) sz =
     (case r of
        Closed a b \<Rightarrow> parse_single_range (fmt_u64 a @ 45 # fmt_u64 b) sz
      | From a \<Rightarrow> parse_single_range (fmt_u64 a @ [45]) sz
      | Suffix n \<Rightarrow> parse_single_range (45 # fmt_u64 n) sz)"
proof -
  have dash: "str ''-'' = [45]" by (simp add: str_def)
  have d: "list_all (\<lambda>c. is_ascii_digit c \<or> c = 45) (fmt_u64 n)" for n
    using fmt_u64_digits(1) [of n] by (auto simp: list_all_iff)
  show ?thesis
    using parse_range_single by (cases r) (simp_all add: dash d)
qed

section \<open>Properties\<close>

text \<open>Whatever the header says, a \<open>206\<close> decision names a non-empty range inside the
  resource: \<open>start \<le> end < size\<close>, so the length \<open>end - start + 1\<close> and every position read are
  in bounds and no subtraction wraps.\<close>

theorem partial_range_in_bounds:
  assumes "parse_range header sz = Partial start stop"
  shows "start \<le> stop \<and> stop < sz \<and> unat (stop - start + 1) = unat stop - unat start + 1"
proof -
  obtain spec where "parse_single_range spec sz = Partial start stop"
    using assms by (auto simp: parse_range_def Let_def split: option.splits if_splits)
  then have b: "start \<le> stop" "stop < sz" using parse_single_range_bounds by blast+
  have "unat stop < 2 ^ 64 - 1"
    using b(2) unat_u64_less [of sz] by (simp add: word_less_nat_alt)
  with b show ?thesis
    by (auto simp: word_le_nat_alt word_less_nat_alt unat_word_ariths unat_sub_if_size)
qed

theorem partial_range_in_bounds_witness:
  "(95 :: u64) \<le> 99 \<and> 99 < (100 :: u64) \<and> unat (99 - 95 + 1 :: u64) = unat (99 :: u64) - unat (95 :: u64) + 1"
proof (rule partial_range_in_bounds)
  show "parse_range (Some (render_range (Suffix 5))) 100 = Partial 95 99"
    by (simp only: parse_range_render byte_range.case parse_single_suffix) simp
qed

text \<open>C10: a request for a single range, in each of the three forms and as any client prints it, is
  decided by the positions it names: exactly these are served when there are any, and the request
  is unsatisfiable when there are none.\<close>

theorem single_range_served_exactly:
  "case parse_range (Some (render_range r)) sz of
     Full \<Rightarrow> False
   | Partial start stop \<Rightarrow> requested r (unat sz) = {unat start..unat stop} \<and> start \<le> stop
   | Unsatisfiable \<Rightarrow> requested r (unat sz) = {}"
proof (cases r)
  case (Closed a b)
  then show ?thesis
    using last_byte [of sz] unat_pos_u64 [of sz]
    unfolding Closed parse_range_render byte_range.case parse_single_closed
    by (cases "sz = 0") (auto simp: min_def word_le_nat_alt word_less_nat_alt)
next
  case (From a)
  then show ?thesis
    using last_byte [of sz] unat_pos_u64 [of sz]
    unfolding From parse_range_render byte_range.case parse_single_from
    by (auto simp: word_le_nat_alt)
next
  case (Suffix n)
  then show ?thesis
    using last_byte [of sz] unat_pos_u64 [of sz] unat_pos_u64 [of n]
    unfolding Suffix parse_range_render byte_range.case parse_single_suffix
    by (auto simp: word_le_nat_alt unat_sub_if_size)
qed

lemma parse_u64_plus: "parse_u64 (43 # fmt_u64 n) = Some n"
proof -
  have "parse_uint (2 ^ 64) (43 # fmt_u64 n) = parse_uint (2 ^ 64) (fmt_u64 n)"
    using fmt_u64_digits [of n]
    by (cases "fmt_u64 n") (auto simp: parse_uint_def Let_def digit_not_plus)
  then show ?thesis using parse_fmt_u64 [of n] by (simp only: parse_u64_def)
qed

lemma trim_plus: "trim (43 # fmt_u64 n) = 43 # fmt_u64 n"
proof -
  have "solid_byte (last (fmt_u64 n))"
    using fmt_u64_digits [of n] by (auto simp: list_all_iff digit_solid)
  then show ?thesis
    by (intro trim_solid) (auto simp: solid_byte_def word_le_nat_alt fmt_u64_digits)
qed

text \<open>A signed position is not part of the header's grammar, but the number parser accepts a
  leading \<open>+\<close>: \<open>bytes=+a-+b\<close> is served like \<open>bytes=a-b\<close> instead of being refused as malformed.\<close>

theorem signed_range_accepted:
  "parse_range (Some (str ''bytes=+'' @ fmt_u64 a @ str ''-+'' @ fmt_u64 b)) sz =
   parse_range (Some (render_range (Closed a b))) sz"
proof -
  let ?spec = "43 # fmt_u64 a @ 45 # 43 # fmt_u64 b"
  have solid: "solid_byte c" if "c \<in> set ?spec" for c
    using that fmt_u64_digits(1) [of a] fmt_u64_digits(1) [of b]
    by (auto simp: list_all_iff digit_solid) (simp_all add: solid_byte_def word_le_nat_alt)
  have comma: "44 \<notin> set ?spec"
    using digits_free [OF fmt_u64_digits(1), of 44 a] digits_free [OF fmt_u64_digits(1), of 44 b]
    by simp
  have "solid_byte (hd (str ''bytes=''))" by (simp add: str_def solid_byte_def word_le_nat_alt)
  moreover have ne: "str ''bytes='' \<noteq> []" by (simp add: str_def)
  ultimately have "trim (str ''bytes='' @ ?spec) = str ''bytes='' @ ?spec"
    using solid [of "last ?spec"] by (intro trim_solid) (auto simp: fmt_u64_digits)
  moreover have "trim ?spec = ?spec"
    using solid [of "hd ?spec"] solid [of "last ?spec"] by (intro trim_solid) auto
  ultimately have "parse_range (Some (str ''bytes='' @ ?spec)) sz = parse_single_range ?spec sz"
    using comma by (simp add: parse_range_def split_on_free Let_def)
  also have "\<dots> = (if a > b \<or> a \<ge> sz then Unsatisfiable else Partial a (min b (sz - 1)))"
    using digits_free [OF fmt_u64_digits(1), of 45 a] split_once_free [of 45 "43 # fmt_u64 a"]
    by (simp add: parse_single_range_def trim_plus parse_u64_plus)
  also have "\<dots> = parse_range (Some (render_range (Closed a b))) sz"
    by (simp only: parse_range_render byte_range.case parse_single_closed)
  finally show ?thesis by (simp add: str_def)
qed

end
