(* ===== verification/Tofu.thy ===== *)
theory Tofu
  imports Media_Range
begin

text \<open>
  Trust on first use (\<open>src/src/cast/tofu.rs\<close>): the store of certificate pins, its JSON file and
  the hexadecimal form of a fingerprint. The map of pins is an association list with distinct
  keys. The JSON library is a parameter (\<open>to_vec\<close>, \<open>from_slice\<close>); a disk is a map from paths to
  contents, and each file operation of a save has an outcome of its own, a write that fails after
  a part of the bytes included.
\<close>

section \<open>Fingerprints\<close>

type_synonym fingerprint = bytes

definition hex_digit :: "u8 \<Rightarrow> u8" where
  "hex_digit n = (if n < 10 then 48 + n else 87 + n)"

definition hex_byte :: "u8 \<Rightarrow> rstring" where
  "hex_byte b = [hex_digit (b div 16), hex_digit (b mod 16)]"

definition fingerprint_to_hex :: "fingerprint \<Rightarrow> rstring" where
  "fingerprint_to_hex fp = concat (map hex_byte fp)"

definition hex_nibble :: "u8 \<Rightarrow> u8 option" where
  "hex_nibble b =
     (if 48 \<le> b \<and> b \<le> 57 then Some (b - 48)
      else if 97 \<le> b \<and> b \<le> 102 then Some (b - 97 + 10)
      else None)"

fun hex_pairs :: "rstring \<Rightarrow> bytes option" where
  "hex_pairs [] = Some []"
| "hex_pairs [_] = None"
| "hex_pairs (hi # lo # rest) =
     (case hex_nibble hi of None \<Rightarrow> None
      | Some h \<Rightarrow> (case hex_nibble lo of None \<Rightarrow> None
        | Some l \<Rightarrow> map_option ((#) (push_bit 4 h OR l)) (hex_pairs rest)))"

definition hex_to_fingerprint :: "rstring \<Rightarrow> fingerprint option" where
  "hex_to_fingerprint hex = (if length hex \<noteq> 64 then None else hex_pairs hex)"

section \<open>The store\<close>

datatype pin_check = Disabled | Pinned | Matched | Mismatch fingerprint fingerprint

record tofu_store =
  ts_pins :: "(rstring \<times> fingerprint) list"
  ts_path :: "bytes option"

definition in_memory :: tofu_store where
  "in_memory = \<lparr>ts_pins = [], ts_path = None\<rparr>"

type_synonym disk = "bytes \<rightharpoonup> bytes"

text \<open>The entries of the file, malformed ones skipped.\<close>

fun insert_pins :: "(rstring \<times> rstring) list \<Rightarrow> (rstring \<times> fingerprint) list \<Rightarrow> (rstring \<times> fingerprint) list" where
  "insert_pins [] pins = pins"
| "insert_pins ((key, hex) # entries) pins =
     (case hex_to_fingerprint hex of
        Some fp \<Rightarrow> insert_pins entries (AList.update key fp pins)
      | None \<Rightarrow> insert_pins entries pins)"

definition load_store ::
  "(bytes \<Rightarrow> (rstring \<times> rstring) list option) \<Rightarrow> disk \<Rightarrow> bytes \<Rightarrow> tofu_store" where
  "load_store from_slice disk path =
     \<lparr>ts_pins = (case disk path of
        None \<Rightarrow> []
      | Some content \<Rightarrow>
          (case from_slice content of None \<Rightarrow> [] | Some entries \<Rightarrow> insert_pins entries [])),
      ts_path = Some path\<rparr>"

text \<open>\<open>Path::with_extension\<close>: the extension of the file name replaced, or appended.\<close>

function strip_trailing :: "bytes \<Rightarrow> bytes" where
  "strip_trailing p =
     (if length p > 1 \<and> last p = 47 then strip_trailing (butlast p)
      else if length p > 2 \<and> last p = 46 \<and> last (butlast p) = 47 then strip_trailing (butlast p)
      else p)"
  by pat_completeness auto
termination
  by (relation "measure length") auto

declare strip_trailing.simps [simp del]

definition with_extension :: "bytes \<Rightarrow> rstring \<Rightarrow> bytes" where
  "with_extension path ext =
     (let p = strip_trailing path in
      case path_file_name p of
        None \<Rightarrow> path
      | Some _ \<Rightarrow>
          (case path_extension p of
             None \<Rightarrow> p @ 46 # ext
           | Some old \<Rightarrow> take (length p - length old - 1) p @ 46 # ext))"

record save_outcome =
  so_mkdir :: bool
  so_write :: "nat option"
  so_rename :: bool
  so_remove :: bool

definition pins_file :: "tofu_store \<Rightarrow> (rstring \<times> rstring) list" where
  "pins_file store = map (\<lambda>(key, fp). (key, fingerprint_to_hex fp)) (ts_pins store)"

definition save ::
  "((rstring \<times> rstring) list \<Rightarrow> bytes option) \<Rightarrow> save_outcome \<Rightarrow> tofu_store \<Rightarrow> disk \<Rightarrow> disk" where
  "save to_vec oc store disk =
     (case ts_path store of
        None \<Rightarrow> disk
      | Some path \<Rightarrow>
          (case to_vec (pins_file store) of
             None \<Rightarrow> disk
           | Some content \<Rightarrow>
               if \<not> so_mkdir oc then disk
               else
                 let tmp = with_extension path (str ''json.tmp'') in
                 (case so_write oc of
                    Some k \<Rightarrow> disk(tmp \<mapsto> take k content)
                  | None \<Rightarrow>
                      if so_rename oc then disk(tmp := None, path \<mapsto> content)
                      else if so_remove oc then disk(tmp := None)
                      else disk(tmp \<mapsto> content))))"

definition check ::
  "((rstring \<times> rstring) list \<Rightarrow> bytes option) \<Rightarrow> save_outcome \<Rightarrow> rstring \<Rightarrow> fingerprint \<Rightarrow>
   tofu_store \<times> disk \<Rightarrow> pin_check \<times> tofu_store \<times> disk" where
  "check to_vec oc key fp s =
     (case s of (store, disk) \<Rightarrow>
       (case map_of (ts_pins store) key of
          None \<Rightarrow>
            let store' = store\<lparr>ts_pins := AList.update key fp (ts_pins store)\<rparr>
            in (Pinned, store', save to_vec oc store' disk)
        | Some previous \<Rightarrow>
            if previous = fp then (Matched, store, disk)
            else (Mismatch previous fp, store, disk)))"

definition receiver_key :: "rstring option \<Rightarrow> rstring \<Rightarrow> rstring \<Rightarrow> rstring" where
  "receiver_key device_id name ip =
     (case device_id of
        Some i \<Rightarrow> if i \<noteq> [] then i else name @ str ''+'' @ ip
      | None \<Rightarrow> name @ str ''+'' @ ip)"

text \<open>A history of presented certificates.\<close>

fun check_all ::
  "((rstring \<times> rstring) list \<Rightarrow> bytes option) \<Rightarrow> (rstring \<times> fingerprint \<times> save_outcome) list \<Rightarrow>
   tofu_store \<times> disk \<Rightarrow> pin_check list \<times> tofu_store \<times> disk" where
  "check_all to_vec [] s = ([], s)"
| "check_all to_vec ((key, fp, oc) # cs) s =
     (case check to_vec oc key fp s of (r, s') \<Rightarrow> map_prod ((#) r) id (check_all to_vec cs s'))"

section \<open>The hexadecimal form\<close>

lemma nibble_split: "push_bit 4 (b div 16) OR (b mod 16) = (b :: u8)"
proof -
  have "b div 16 = drop_bit 4 b" "b mod 16 = take_bit 4 b"
    by (simp_all add: drop_bit_eq_div take_bit_eq_mod)
  then show ?thesis
    by (auto intro!: bit_eqI simp: bit_simps)
qed

lemma hex_nibble_digit: "n < 16 \<Longrightarrow> hex_nibble (hex_digit n) = Some n"
  by (auto simp: hex_nibble_def hex_digit_def word_less_nat_alt word_le_nat_alt unat_word_ariths
      unat_sub_if_size word_unat_eq_iff)

lemma hex_digit_nibble: "hex_nibble c = Some n \<Longrightarrow> n < 16 \<and> hex_digit n = c"
  by (auto simp: hex_nibble_def hex_digit_def word_less_nat_alt word_le_nat_alt unat_word_ariths
      unat_sub_if_size word_unat_eq_iff split: if_splits)

lemma unat_u8_less: "unat (b :: u8) < 256"
  using unsigned_less [of b] by simp

lemma byte_nibbles: "(b :: u8) div 16 < 16" "(b :: u8) mod 16 < 16"
  using unat_u8_less [of b] by (simp_all add: word_less_nat_alt unat_div unat_mod)

lemma hex_pairs_encode: "hex_pairs (fingerprint_to_hex fp) = Some fp"
  by (induction fp)
    (simp_all add: fingerprint_to_hex_def hex_byte_def hex_nibble_digit byte_nibbles nibble_split)

lemma low_nibble_bits: "x < (16 :: u8) \<Longrightarrow> bit x n \<Longrightarrow> n < 4"
proof -
  assume "x < 16" "bit x n"
  then have "take_bit 4 x = x" by (simp add: take_bit_eq_mod word_unat_eq_iff unat_mod word_less_nat_alt)
  with \<open>bit x n\<close> show "n < 4" by (metis bit_take_bit_iff)
qed

lemma nibble_join:
  assumes "h < 16" "l < (16 :: u8)"
  shows "(push_bit 4 h OR l) div 16 = h \<and> (push_bit 4 h OR l) mod 16 = l"
proof -
  let ?b = "push_bit 4 h OR l"
  have "?b div 16 = drop_bit 4 ?b" "?b mod 16 = take_bit 4 ?b"
    by (simp_all add: drop_bit_eq_div take_bit_eq_mod)
  moreover have "drop_bit 4 ?b = h"
    by (rule bit_eqI) (use low_nibble_bits [OF assms(1)] low_nibble_bits [OF assms(2)] in
      \<open>force simp: bit_simps\<close>)
  moreover have "take_bit 4 ?b = l"
    by (rule bit_eqI) (use low_nibble_bits [OF assms(2)] in \<open>auto simp: bit_simps\<close>)
  ultimately show ?thesis by simp
qed

lemma hex_pairs_decode: "hex_pairs s = Some fp \<Longrightarrow> fingerprint_to_hex fp = s"
proof (induction s arbitrary: fp rule: hex_pairs.induct)
  case (3 hi lo rest)
  then obtain h l fp' where "hex_nibble hi = Some h" "hex_nibble lo = Some l" "hex_pairs rest = Some fp'"
    "fp = (push_bit 4 h OR l) # fp'" by (auto split: option.splits)
  with 3 hex_digit_nibble [of hi h] hex_digit_nibble [of lo l] nibble_join [of h l] show ?case
    by (simp add: fingerprint_to_hex_def hex_byte_def)
qed (simp_all add: fingerprint_to_hex_def)

lemma length_fingerprint_to_hex [simp]: "length (fingerprint_to_hex fp) = 2 * length fp"
  by (induction fp) (simp_all add: fingerprint_to_hex_def hex_byte_def)

section \<open>Saving and loading\<close>

lemma insert_pins_all:
  assumes "distinct (map fst pins)" "\<forall>(k, fp) \<in> set pins. length fp = 32"
    "fst ` set acc \<inter> fst ` set pins = {}"
  shows "insert_pins (map (\<lambda>(key, fp). (key, fingerprint_to_hex fp)) pins) acc = acc @ pins"
  using assms
proof (induction pins arbitrary: acc)
  case (Cons e pins)
  obtain k fp where e: "e = (k, fp)" by fastforce
  have "AList.update k fp acc = acc @ [(k, fp)]"
    using Cons.prems(3) e by (intro alist_update_fresh) auto
  moreover have "hex_to_fingerprint (fingerprint_to_hex fp) = Some fp"
    using Cons.prems(2) e by (simp add: hex_to_fingerprint_def hex_pairs_encode)
  ultimately show ?case
    using Cons.IH [of "acc @ [(k, fp)]"] Cons.prems e by (auto simp: image_iff)
qed simp

definition store_inv :: "tofu_store \<Rightarrow> bool" where
  "store_inv s \<longleftrightarrow> distinct (map fst (ts_pins s)) \<and> (\<forall>(k, fp) \<in> set (ts_pins s). length fp = 32)"

lemma store_inv_check:
  "store_inv s \<Longrightarrow> length fp = 32 \<Longrightarrow> check to_vec oc key fp (s, d) = (r, s', d') \<Longrightarrow>
   store_inv s' \<and> ts_path s' = ts_path s"
  by (auto simp: check_def store_inv_def Let_def alist_update_fresh [OF map_of_None_fst] map_of_eq_None_iff
      split: option.splits if_splits)

lemma store_inv_check_all:
  "store_inv s \<Longrightarrow> \<forall>(key, fp, oc) \<in> set cs. length fp = 32 \<Longrightarrow>
   check_all to_vec cs (s, d) = (rs, s', d') \<Longrightarrow> store_inv s' \<and> ts_path s' = ts_path s"
proof (induction cs arbitrary: s d rs)
  case (Cons c cs)
  obtain key fp oc where c: "c = (key, fp, oc)" by (cases c)
  obtain r s1 d1 where k: "check to_vec oc key fp (s, d) = (r, s1, d1)" by (metis prod_cases3)
  obtain rs1 where "check_all to_vec cs (s1, d1) = (rs1, s', d')"
    using Cons.prems(3) c k by (cases "check_all to_vec cs (s1, d1)") auto
  with Cons.IH [of s1 d1 rs1] store_inv_check [OF Cons.prems(1) _ k] Cons.prems(2) c show ?case by auto
qed simp

text \<open>The first fingerprint presented for a key, after what the store already holds.\<close>

fun first_seen :: "(rstring \<times> fingerprint \<times> save_outcome) list \<Rightarrow> rstring \<Rightarrow> fingerprint option" where
  "first_seen [] key = None"
| "first_seen ((k, fp, oc) # cs) key = (if k = key then Some fp else first_seen cs key)"

fun first_or :: "fingerprint option \<Rightarrow> fingerprint option \<Rightarrow> fingerprint option" where
  "first_or (Some fp) _ = Some fp"
| "first_or None x = x"

lemma check_pins:
  "map_of (ts_pins (fst (snd (check to_vec oc key fp (s, d))))) =
     (map_of (ts_pins s))(key := first_or (map_of (ts_pins s) key) (Some fp))"
  by (cases "map_of (ts_pins s) key")
    (auto simp: check_def Let_def update_conv' fun_upd_idem split: if_splits)

lemma check_all_pins:
  "map_of (ts_pins (fst (snd (check_all to_vec cs (s, d))))) key = first_or (map_of (ts_pins s) key) (first_seen cs key)"
proof (induction cs arbitrary: s d)
  case Nil
  then show ?case by (cases "map_of (ts_pins s) key") auto
next
  case (Cons c cs)
  obtain k fp oc where c: "c = (k, fp, oc)" by (cases c)
  obtain r s1 d1 where k: "check to_vec oc k fp (s, d) = (r, s1, d1)" by (metis prod_cases3)
  have "map_of (ts_pins s1) = (map_of (ts_pins s))(k := first_or (map_of (ts_pins s) k) (Some fp))"
    using check_pins [of to_vec oc k fp s d] k by simp
  then show ?case
    using Cons.IH [of s1 d1] c k by (cases "map_of (ts_pins s) k") (auto simp: case_prod_unfold)
qed

section \<open>Properties\<close>

text \<open>Trust on first use. After any history of presented certificates, a further one is pinned
  if its key was never seen, accepted if it equals the first certificate ever presented for that
  key, and reported as a mismatch with that first one otherwise; a mismatch never replaces the
  pin.\<close>

theorem trust_on_first_use:
  assumes "check_all to_vec history (in_memory\<lparr>ts_path := path\<rparr>, d) = (rs, s)"
  shows "fst (check to_vec oc key fp s) =
      (case first_seen history key of
         None \<Rightarrow> Pinned
       | Some first \<Rightarrow> if first = fp then Matched else Mismatch first fp) \<and>
    map_of (ts_pins (fst (snd (check to_vec oc key fp s)))) key =
      first_or (first_seen history key) (Some fp)"
proof -
  obtain st d' where s: "s = (st, d')" by fastforce
  have pins: "map_of (ts_pins st) key = first_seen history key"
    using check_all_pins [of to_vec history "in_memory\<lparr>ts_path := path\<rparr>" d key] assms s
    by (simp add: in_memory_def)
  then have "fst (check to_vec oc key fp s) =
      (case first_seen history key of
         None \<Rightarrow> Pinned | Some first \<Rightarrow> if first = fp then Matched else Mismatch first fp)"
    by (simp add: s check_def Let_def split: option.splits)
  moreover have "map_of (ts_pins (fst (snd (check to_vec oc key fp s)))) key =
      first_or (first_seen history key) (Some fp)"
    using check_pins [of to_vec oc key fp st d'] pins s by simp
  ultimately show ?thesis by simp
qed

theorem trust_on_first_use_witness:
  "let oc = \<lparr>so_mkdir = True, so_write = None, so_rename = True, so_remove = True\<rparr>;
       s = snd (check_all (\<lambda>_. None) [(str ''tv'', [1], oc), (str ''tv'', [2], oc)] (in_memory, \<lambda>_. None))
   in fst (check (\<lambda>_. None) oc (str ''tv'') [2] s) = Mismatch [1] [2]"
  using trust_on_first_use [of "\<lambda>_. None"
      "[(str ''tv'', [1], \<lparr>so_mkdir = True, so_write = None, so_rename = True, so_remove = True\<rparr>),
        (str ''tv'', [2], \<lparr>so_mkdir = True, so_write = None, so_rename = True, so_remove = True\<rparr>)]"
      None "\<lambda>_. None" _ _ "\<lparr>so_mkdir = True, so_write = None, so_rename = True, so_remove = True\<rparr>"
      "str ''tv''" "[2]", OF surjective_pairing]
  by (simp add: in_memory_def Let_def)

text \<open>The hexadecimal form of a fingerprint is a faithful encoding: a 32-byte fingerprint is
  read back from its text, and the text of whatever was read is the text that was read, so two
  spellings never stand for the same pin.\<close>

theorem fingerprint_hex_round_trip:
  "hex_to_fingerprint hex = Some fp \<longleftrightarrow> hex = fingerprint_to_hex fp \<and> length fp = 32"
  using hex_pairs_decode [of hex fp] hex_pairs_encode [of fp]
  by (auto simp: hex_to_fingerprint_def split: if_splits)

text \<open>A store read back, and what every loaded store satisfies.\<close>

lemma load_saved:
  assumes "store_inv s" "ts_path s = Some path" "from_slice b = Some (pins_file s)" "disk path = Some b"
  shows "load_store from_slice disk path = s"
  using insert_pins_all [of "ts_pins s" "[]"] assms
  by (cases s) (simp add: store_inv_def pins_file_def load_store_def)

lemma save_complete:
  assumes "ts_path s = Some path" "to_vec (pins_file s) = Some b" "so_mkdir oc" "so_write oc = None" "so_rename oc"
  shows "save to_vec oc s disk path = Some b"
  using assms by (simp add: save_def Let_def)

lemma set_alist_update: "set (AList.update k v al) \<subseteq> insert (k, v) (set al)"
  by (induction al) auto

lemma insert_pins_inv:
  "distinct (map fst pins) \<Longrightarrow> \<forall>(k, fp) \<in> set pins. length fp = 32 \<Longrightarrow>
   distinct (map fst (insert_pins entries pins)) \<and> (\<forall>(k, fp) \<in> set (insert_pins entries pins). length fp = 32)"
proof (induction entries pins rule: insert_pins.induct)
  case (2 key hex entries pins)
  have "\<forall>(k, fp) \<in> set (AList.update key fp pins). length fp = 32" if "hex_to_fingerprint hex = Some fp" for fp
    using that "2.prems"(2) set_alist_update [of key fp pins] hex_pairs_decode [of hex fp]
    by (fastforce simp: hex_to_fingerprint_def split: if_splits)
  with 2 show ?case by (auto simp: AList.distinct_update split: option.splits)
qed simp

lemma store_inv_load: "store_inv (load_store from_slice disk path)"
  using insert_pins_inv [of "[]"] by (auto simp: store_inv_def load_store_def split: option.splits)

text \<open>C40: saving never damages the store: whatever step of a save fails, and however much of the
  temporary file was written, the store's file holds either what it held before or the complete
  new content; and a successful save is read back by the next start, pin for pin.\<close>

theorem save_is_atomic:
  assumes "store_inv s" "ts_path s = Some path" "with_extension path (str ''json.tmp'') \<noteq> path"
    and b: "to_vec (pins_file s) = Some b" "from_slice b = Some (pins_file s)"
  shows "(save to_vec oc s d path = d path \<or>
      load_store from_slice (save to_vec oc s d) path = s) \<and>
    (so_mkdir oc \<and> so_write oc = None \<and> so_rename oc \<longrightarrow>
      load_store from_slice (save to_vec oc s d) path = s)"
proof -
  have "save to_vec oc s d path = d path \<or> save to_vec oc s d path = Some b"
    using assms(2,3) b by (auto simp: save_def Let_def split: option.splits)
  with load_saved [of s path from_slice b, OF assms(1,2) b(2)] save_complete [of s path to_vec b oc d, OF assms(2) b(1)] show ?thesis by blast
qed

theorem save_is_atomic_witness:
  "let path = str ''/s/known_hosts.json'';
       s = \<lparr>ts_pins = [(str ''tv'', replicate 32 7)], ts_path = Some path\<rparr>;
       oc = \<lparr>so_mkdir = True, so_write = None, so_rename = True, so_remove = True\<rparr>
   in load_store (\<lambda>_. Some (pins_file s)) (save (\<lambda>_. Some [9]) oc s (\<lambda>_. None)) path = s"
proof -
  let ?path = "str ''/s/known_hosts.json''"
  let ?s = "\<lparr>ts_pins = [(str ''tv'', replicate 32 7)], ts_path = Some ?path\<rparr>"
  let ?oc = "\<lparr>so_mkdir = True, so_write = None, so_rename = True, so_remove = True\<rparr>"
  have "strip_trailing ?path = ?path" by (simp add: strip_trailing.simps str_def)
  then have "with_extension ?path (str ''json.tmp'') \<noteq> ?path"
    by (simp add: with_extension_def Let_def path_extension_def path_file_name_def) (simp add: str_def)
  then show ?thesis
    using save_is_atomic [of ?s ?path "\<lambda>_. Some [9]" "[9]" "\<lambda>_. Some (pins_file ?s)" ?oc "\<lambda>_. None"]
    by (simp add: store_inv_def Let_def)
qed

end
