(* ===== verification/Util.thy ===== *)
theory Util
  imports Cast_Prelude
begin

text \<open>
  The shared utilities: the reconnect policy (\<open>src/src/util/retry.rs\<close>), the bounded
  drop-oldest queue (\<open>src/src/util/backpressure.rs\<close>), the shutdown token
  (\<open>src/src/util/shutdown.rs\<close>) and the flush cadence of the streaming handlers
  (\<open>src/src/media/flush.rs\<close>).

  The queue is shared behind a mutex and every operation holds the lock from start to end, so an
  operation is one atomic step on the list of buffered items, oldest first. What its clients may
  rely on is the locale \<open>bounded_queue\<close>.
\<close>

section \<open>retry.rs: exponential backoff\<close>

definition DEFAULT_INITIAL :: duration where
  "DEFAULT_INITIAL = from_secs 1"

definition DEFAULT_CAP :: duration where
  "DEFAULT_CAP = from_secs 30"

definition DEFAULT_MAX :: nat where
  "DEFAULT_MAX = 5"

text \<open>The largest \<open>Duration\<close>: \<open>u64::MAX\<close> seconds and 999 999 999 nanoseconds.\<close>

definition DURATION_MAX :: duration where
  "DURATION_MAX = (2 ^ 64 - 1) * 1000000000 + 999999999"

definition saturating_mul :: "duration \<Rightarrow> nat \<Rightarrow> duration" where
  "saturating_mul d n = min (d * n) DURATION_MAX"

record backoff =
  bo_next :: duration
  bo_cap :: duration
  bo_remaining :: nat

definition with_params :: "duration \<Rightarrow> duration \<Rightarrow> nat \<Rightarrow> backoff" where
  "with_params initial c n = \<lparr>bo_next = initial, bo_cap = c, bo_remaining = n\<rparr>"

definition backoff_new :: backoff where
  "backoff_new = with_params DEFAULT_INITIAL DEFAULT_CAP DEFAULT_MAX"

definition backoff_next :: "backoff \<Rightarrow> duration option \<times> backoff" where
  "backoff_next b =
     (if bo_remaining b = 0 then (None, b)
      else (Some (bo_next b),
        b\<lparr>bo_remaining := bo_remaining b - 1,
          bo_next := min (saturating_mul (bo_next b) 2) (bo_cap b)\<rparr>))"

text \<open>The delays the iterator yields, in order.\<close>

function delays :: "backoff \<Rightarrow> duration list" where
  "delays b = (case backoff_next b of (None, _) \<Rightarrow> [] | (Some d, b') \<Rightarrow> d # delays b')"
  by pat_completeness auto
termination
  by (relation "measure bo_remaining") (auto simp: backoff_next_def split: if_splits)

declare delays.simps [simp del]

lemma length_delays: "length (delays b) = bo_remaining b"
proof (induction b rule: delays.induct)
  case (1 b)
  then show ?case
    by (subst delays.simps) (auto simp: backoff_next_def split: prod.splits option.splits if_splits)
qed

lemma delays_Cons:
  "0 < bo_remaining b \<Longrightarrow> delays b = bo_next b # delays (snd (backoff_next b))"
  by (subst delays.simps) (simp add: backoff_next_def)

lemma min_saturating_mul: "c \<le> DURATION_MAX \<Longrightarrow> min (saturating_mul d 2) c = min (2 * d) c"
  by (simp add: saturating_mul_def mult.commute)

text \<open>The \<open>k\<close>-th delay is the initial one doubled \<open>k\<close> times, never above the cap.\<close>

lemma nth_delays:
  "k < bo_remaining b \<Longrightarrow> bo_next b \<le> bo_cap b \<Longrightarrow> bo_cap b \<le> DURATION_MAX \<Longrightarrow>
   delays b ! k = min (2 ^ k * bo_next b) (bo_cap b)"
proof (induction k arbitrary: b)
  case 0
  then show ?case by (simp add: delays_Cons)
next
  case (Suc k)
  let ?b = "snd (backoff_next b)"
  have b: "bo_remaining ?b = bo_remaining b - 1" "bo_cap ?b = bo_cap b"
    "bo_next ?b = min (2 * bo_next b) (bo_cap b)"
    using Suc.prems by (simp_all add: backoff_next_def min_saturating_mul)
  have "delays b ! Suc k = min (2 ^ k * bo_next ?b) (bo_cap ?b)"
    using Suc.IH [of ?b] Suc.prems b by (simp add: delays_Cons)
  also have "\<dots> = min (2 ^ Suc k * bo_next b) (bo_cap b)"
  proof (cases "2 * bo_next b \<le> bo_cap b")
    case True
    then show ?thesis by (simp add: b mult.left_commute)
  next
    case False
    have "bo_cap b \<le> 2 ^ k * bo_cap b" by simp
    moreover have "2 * bo_next b \<le> 2 ^ k * (2 * bo_next b)" by simp
    moreover have "2 ^ Suc k * bo_next b = 2 ^ k * (2 * bo_next b)" by simp
    ultimately have "bo_cap b \<le> 2 ^ k * bo_cap b" "bo_cap b \<le> 2 ^ Suc k * bo_next b"
      using False by linarith+
    moreover have "bo_next ?b = bo_cap b" using False b(3) by simp
    ultimately show ?thesis by (simp only: b(2) min_absorb2)
  qed
  finally show ?case .
qed

section \<open>backpressure.rs: the bounded queue\<close>

record 'a bounded_drop_oldest =
  items :: "'a list"
  capacity :: nat

text \<open>\<open>new\<close> panics (\<open>None\<close>) on capacity 0.\<close>

definition queue_new :: "nat \<Rightarrow> 'a bounded_drop_oldest option" where
  "queue_new cap = (if cap > 0 then Some \<lparr>items = [], capacity = cap\<rparr> else None)"

definition push :: "'a bounded_drop_oldest \<Rightarrow> 'a \<Rightarrow> 'a bounded_drop_oldest" where
  "push q x =
     (let xs = (if length (items q) \<ge> capacity q then tl (items q) else items q)
      in q\<lparr>items := xs @ [x]\<rparr>)"

fun position :: "('a \<Rightarrow> bool) \<Rightarrow> 'a list \<Rightarrow> nat option" where
  "position p [] = None"
| "position p (x # xs) = (if p x then Some 0 else map_option Suc (position p xs))"

definition remove_at :: "nat \<Rightarrow> 'a list \<Rightarrow> 'a list" where
  "remove_at i xs = take i xs @ drop (Suc i) xs"

definition push_or ::
  "'a bounded_drop_oldest \<Rightarrow> 'a \<Rightarrow> ('a \<Rightarrow> bool) \<Rightarrow> 'a option \<times> 'a bounded_drop_oldest" where
  "push_or q x evictable =
     (if length (items q) < capacity q then (None, q\<lparr>items := items q @ [x]\<rparr>)
      else (case position evictable (items q) of
          Some i \<Rightarrow> (None, q\<lparr>items := remove_at i (items q) @ [x]\<rparr>)
        | None \<Rightarrow> (Some x, q)))"

definition queue_clear :: "'a bounded_drop_oldest \<Rightarrow> 'a bounded_drop_oldest" where
  "queue_clear q = q\<lparr>items := []\<rparr>"

definition try_pop :: "'a bounded_drop_oldest \<Rightarrow> 'a option \<times> 'a bounded_drop_oldest" where
  "try_pop q = (case items q of [] \<Rightarrow> (None, q) | x # xs \<Rightarrow> (Some x, q\<lparr>items := xs\<rparr>))"

definition queue_len :: "'a bounded_drop_oldest \<Rightarrow> nat" where
  "queue_len q = length (items q)"

definition queue_is_empty :: "'a bounded_drop_oldest \<Rightarrow> bool" where
  "queue_is_empty q \<longleftrightarrow> queue_len q = 0"

definition queue_inv :: "'a bounded_drop_oldest \<Rightarrow> bool" where
  "queue_inv q \<longleftrightarrow> 0 < capacity q \<and> length (items q) \<le> capacity q"

section \<open>The interface of the queue\<close>

locale bounded_queue =
  fixes content :: "'q \<Rightarrow> 'a list"
    and cap :: "'q \<Rightarrow> nat"
    and push :: "'q \<Rightarrow> 'a \<Rightarrow> 'q"
    and pop :: "'q \<Rightarrow> 'a option \<times> 'q"
    and inv :: "'q \<Rightarrow> bool"
  assumes content_push: "inv q \<Longrightarrow> content (push q x) = drop (Suc (length (content q)) - cap q) (content q @ [x])"
    and cap_push: "cap (push q x) = cap q"
    and pop_Nil: "content q = [] \<Longrightarrow> pop q = (None, q)"
    and pop_Cons: "content q = x # xs \<Longrightarrow> fst (pop q) = Some x \<and> content (snd (pop q)) = xs"
    and cap_pop: "cap (snd (pop q)) = cap q"
    and inv_iff: "inv q \<longleftrightarrow> 0 < cap q \<and> length (content q) \<le> cap q"
begin

lemma inv_push: "inv q \<Longrightarrow> inv (push q x)"
  by (simp add: inv_iff cap_push content_push) arith

lemma inv_pop: "inv q \<Longrightarrow> inv (snd (pop q))"
  using pop_Nil [of q] pop_Cons [of q] by (cases "content q") (auto simp: inv_iff cap_pop)

text \<open>After any number of pushes the queue holds the newest items, in order.\<close>

lemma content_pushes:
  "inv q \<Longrightarrow> content (foldl push q xs) =
     drop (length (content q) + length xs - cap q) (content q @ xs) \<and> inv (foldl push q xs)
     \<and> cap (foldl push q xs) = cap q"
proof (induction xs arbitrary: q)
  case Nil
  then show ?case by (simp add: inv_iff)
next
  case (Cons x xs)
  have i: "inv (push q x)" using Cons.prems by (rule inv_push)
  have l: "length (content (push q x)) = min (Suc (length (content q))) (cap q)"
    using Cons.prems by (auto simp: content_push inv_iff)
  have k: "length (content (push q x)) + length xs - cap q + (Suc (length (content q)) - cap q)
      = length (content q) + length (x # xs) - cap q"
    using Cons.prems unfolding l by (auto simp: inv_iff)
  have split: "content (push q x) @ xs = drop (Suc (length (content q)) - cap q) (content q @ x # xs)"
    using Cons.prems by (auto simp: content_push inv_iff drop_append split: nat_diff_split)
  have "content (foldl push (push q x) xs) =
      drop (length (content (push q x)) + length xs - cap q) (content (push q x) @ xs)"
    using Cons.IH [OF i] by (simp add: cap_push)
  also have "\<dots> = drop (length (content q) + length (x # xs) - cap q) (content q @ x # xs)"
    unfolding split drop_drop k ..
  finally show ?case
    using Cons.IH [OF i] by (simp add: cap_push)
qed

end

interpretation queue: bounded_queue items capacity push try_pop queue_inv
proof (unfold_locales, goal_cases)
  case (1 q x)
  then show ?case
    by (cases "items q") (auto simp: push_def queue_inv_def Let_def drop_append Suc_diff_le)
next
  case (2 q x)
  show ?case by (simp add: push_def)
next
  case (3 q)
  then show ?case by (simp add: try_pop_def)
next
  case (4 q x xs)
  then show ?case by (simp add: try_pop_def)
next
  case (5 q)
  show ?case by (simp add: try_pop_def split: list.splits)
next
  case (6 q)
  show ?case by (simp add: queue_inv_def)
qed

lemma position_Some:
  "position p xs = Some i \<Longrightarrow> i < length xs \<and> p (xs ! i) \<and> (\<forall>j<i. \<not> p (xs ! j))"
  by (induction xs arbitrary: i) (auto simp: nth_Cons' less_Suc_eq_0_disj split: if_splits)

lemma position_None: "position p xs = None \<longleftrightarrow> (\<forall>x \<in> set xs. \<not> p x)"
  by (induction xs) auto

lemma filter_remove_at:
  assumes "i < length xs" and "\<not> p (xs ! i)"
  shows "filter p (remove_at i xs) = filter p xs"
proof -
  have "filter p xs = filter p (take i xs @ xs ! i # drop (Suc i) xs)"
    using assms(1) by (simp flip: id_take_nth_drop)
  with assms(2) show ?thesis by (simp add: remove_at_def)
qed

lemma length_remove_at: "i < length xs \<Longrightarrow> length (remove_at i xs) = length xs - 1"
  by (simp add: remove_at_def)

lemma queue_inv_push_or: "queue_inv q \<Longrightarrow> queue_inv (snd (push_or q x p))"
  by (auto simp: push_or_def queue_inv_def length_remove_at dest!: position_Some split: option.splits)

lemma push_or_protected:
  "filter (\<lambda>y. \<not> p y) (items (snd (push_or q x p))) =
     filter (\<lambda>y. \<not> p y) (items q) @
       (if fst (push_or q x p) = None \<and> \<not> p x then [x] else [])"
  by (auto simp: push_or_def filter_remove_at dest!: position_Some split: option.splits)

section \<open>shutdown.rs\<close>

text \<open>
  The token is a \<open>watch\<close> channel: the current value and its version; a receiver remembers the
  version it has seen. \<open>changed()\<close> completes when the versions differ.
\<close>

record shutdown =
  sd_value :: bool
  sd_version :: nat

record watch_receiver =
  wr_seen :: nat

definition shutdown_new :: shutdown where
  "shutdown_new = \<lparr>sd_value = False, sd_version = 0\<rparr>"

definition subscribe :: "shutdown \<Rightarrow> watch_receiver" where
  "subscribe s = \<lparr>wr_seen = sd_version s\<rparr>"

definition is_shutting_down :: "shutdown \<Rightarrow> bool" where
  "is_shutting_down s \<longleftrightarrow> sd_value s"

definition trigger :: "shutdown \<Rightarrow> shutdown" where
  "trigger s = s\<lparr>sd_value := True, sd_version := Suc (sd_version s)\<rparr>"

definition changed_ready :: "shutdown \<Rightarrow> watch_receiver \<Rightarrow> bool" where
  "changed_ready s r \<longleftrightarrow> sd_version s \<noteq> wr_seen r"

section \<open>flush.rs\<close>

record flush_tracker =
  bytes_since_flush :: nat
  last_flush :: instant
  byte_threshold :: nat
  time_threshold :: duration

definition flush_new :: "nat \<Rightarrow> duration \<Rightarrow> instant \<Rightarrow> flush_tracker" where
  "flush_new bt tt now =
     \<lparr>bytes_since_flush = 0, last_flush = now, byte_threshold = bt, time_threshold = tt\<rparr>"

definition flush_reset :: "flush_tracker \<Rightarrow> instant \<Rightarrow> flush_tracker" where
  "flush_reset f now = f\<lparr>bytes_since_flush := 0, last_flush := now\<rparr>"

text \<open>\<open>now\<close> is read by \<open>elapsed()\<close> (which saturates at 0) and by the reset.\<close>

definition should_flush :: "flush_tracker \<Rightarrow> instant \<Rightarrow> nat \<Rightarrow> bool \<times> flush_tracker" where
  "should_flush f now written =
     (let f = f\<lparr>bytes_since_flush := bytes_since_flush f + written\<rparr> in
      if bytes_since_flush f \<ge> byte_threshold f \<or> now - last_flush f \<ge> time_threshold f
      then (True, flush_reset f now) else (False, f))"

definition next_deadline :: "flush_tracker \<Rightarrow> instant" where
  "next_deadline f = last_flush f + time_threshold f"

definition has_pending :: "flush_tracker \<Rightarrow> bool" where
  "has_pending f \<longleftrightarrow> bytes_since_flush f > 0"

text \<open>A stream of writes at given times: how often it flushed, and the tracker at the end.\<close>

fun flush_writes :: "flush_tracker \<Rightarrow> (instant \<times> nat) list \<Rightarrow> bool list \<times> flush_tracker" where
  "flush_writes f [] = ([], f)"
| "flush_writes f ((now, n) # ws) =
     (case should_flush f now n of (b, f') \<Rightarrow> map_prod ((#) b) id (flush_writes f' ws))"

definition flush_inv :: "flush_tracker \<Rightarrow> bool" where
  "flush_inv f \<longleftrightarrow> bytes_since_flush f < byte_threshold f \<or> bytes_since_flush f = 0"

lemma flush_inv_step: "flush_inv f \<Longrightarrow> flush_inv (snd (should_flush f now n))"
  by (auto simp: flush_inv_def should_flush_def flush_reset_def Let_def)

interpretation flush: step_invariant "flush_new bt tt t0" "\<lambda>f (now, n). snd (should_flush f now n)"
    "\<lambda>_. True" flush_inv
proof (unfold_locales, goal_cases)
  case 1
  show ?case by (simp add: flush_inv_def flush_new_def)
next
  case (2 s i)
  then show ?case by (cases i) (simp add: flush_inv_step)
qed

lemma flush_writes_run:
  "snd (flush_writes f ws) = run (\<lambda>f (now, n). snd (should_flush f now n)) f ws"
  by (induction f ws rule: flush_writes.induct) (auto split: prod.splits)

section \<open>Properties\<close>

text \<open>The drop-oldest queue keeps the newest items: after pushing \<open>xs\<close> onto a queue of
  capacity \<open>n\<close> that held \<open>ys\<close>, it holds the last \<open>n\<close> items of \<open>ys\<close> followed by
  \<open>xs\<close>, in order, and it is never over its capacity.\<close>

theorem queue_keeps_newest:
  assumes "queue_inv q"
  shows "items (foldl push q xs) =
       drop (length (items q) + length xs - capacity q) (items q @ xs) \<and>
     length (items (foldl push q xs)) \<le> capacity q"
  using queue.content_pushes [OF assms, of xs] by (simp add: queue_inv_def)

theorem queue_keeps_newest_witness:
  "items (foldl push \<lparr>items = [], capacity = 2\<rparr> [0, 1, 2, 3, 4 :: nat]) = [3, 4]"
  using queue_keeps_newest [of "\<lparr>items = [], capacity = 2\<rparr>" "[0, 1, 2, 3, 4 :: nat]"]
  by (simp add: queue_inv_def)

text \<open>\<open>push_or\<close> never drops a protected item: whatever is pushed, the protected items of the
  queue stay in it, in order, with the new item behind them if it is protected and was accepted;
  an item is returned only when the queue is full of protected items; the bound holds.\<close>

theorem push_or_keeps_protected:
  assumes "queue_inv q"
  shows "filter (\<lambda>y. \<not> p y) (items (snd (push_or q x p))) =
       filter (\<lambda>y. \<not> p y) (items q) @ (if fst (push_or q x p) = None \<and> \<not> p x then [x] else []) \<and>
     (fst (push_or q x p) \<noteq> None \<longleftrightarrow>
        length (items q) = capacity q \<and> (\<forall>y \<in> set (items q). \<not> p y)) \<and>
     queue_inv (snd (push_or q x p))"
proof (intro conjI)
  show "fst (push_or q x p) \<noteq> None \<longleftrightarrow>
      length (items q) = capacity q \<and> (\<forall>y \<in> set (items q). \<not> p y)"
    using assms position_None [of p "items q"]
    by (auto simp: push_or_def queue_inv_def split: option.splits)
qed (rule push_or_protected, rule queue_inv_push_or [OF assms])

theorem push_or_keeps_protected_witness:
  "filter (\<lambda>y. \<not> odd y) (items (snd (push_or \<lparr>items = [2, 1], capacity = 2\<rparr> (4 :: nat) odd))) = [2, 4]"
  using push_or_keeps_protected [of "\<lparr>items = [2, 1], capacity = 2\<rparr>" odd "4 :: nat"]
  by (simp add: queue_inv_def push_or_def)

text \<open>The backoff policy: the iterator ends after exactly the configured number of delays, and
  delay number \<open>k\<close> is the initial delay doubled \<open>k\<close> times, cut at the cap (for a cap
  that is a \<open>Duration\<close> and an initial delay up to it).\<close>

theorem backoff_delays:
  assumes "initial \<le> cap" and "cap \<le> DURATION_MAX"
  shows "length (delays (with_params initial cap n)) = n \<and>
     (\<forall>k<n. delays (with_params initial cap n) ! k = min (2 ^ k * initial) cap)"
  using assms nth_delays [of _ "with_params initial cap n"]
  by (simp add: length_delays with_params_def)

theorem backoff_delays_witness:
  "length (delays (with_params DEFAULT_INITIAL DEFAULT_CAP DEFAULT_MAX)) = 5 \<and>
   delays (with_params DEFAULT_INITIAL DEFAULT_CAP DEFAULT_MAX) ! 4 = from_secs 16"
  using backoff_delays [of DEFAULT_INITIAL DEFAULT_CAP DEFAULT_MAX]
  by (simp add: DEFAULT_INITIAL_def DEFAULT_CAP_def DEFAULT_MAX_def DURATION_MAX_def from_secs_def)

text \<open>The flush cadence bounds what may sit in the buffer: over any sequence of writes the
  bytes accounted since the last flush stay below the byte threshold (or are 0), and a write
  that comes when the time threshold has passed flushes.\<close>

theorem flush_bounded:
  "(bytes_since_flush (snd (flush_writes (flush_new bt tt t0) ws)) < bt \<or>
    bytes_since_flush (snd (flush_writes (flush_new bt tt t0) ws)) = 0) \<and>
   (next_deadline f \<le> now \<longrightarrow> fst (should_flush f now n) \<and>
      \<not> has_pending (snd (should_flush f now n)))"
proof -
  have bt: "byte_threshold (snd (flush_writes f ws)) = byte_threshold f" for f
    by (induction f ws rule: flush_writes.induct)
      (auto simp: should_flush_def flush_reset_def Let_def split: prod.splits if_splits)
  have "flush_inv (snd (flush_writes (flush_new bt tt t0) ws))"
    unfolding flush_writes_run by (rule flush.inv_run) (simp add: list_all_iff)
  then show ?thesis
    using bt [of "flush_new bt tt t0"]
    by (auto simp: flush_inv_def flush_new_def next_deadline_def should_flush_def flush_reset_def
        has_pending_def Let_def)
qed

theorem flush_bounded_witness:
  "fst (should_flush (flush_new 65536 200 0) 200 10)"
  using flush_bounded [of 65536 200 0 "[]" "flush_new 65536 200 0" 200 10]
  by (simp add: next_deadline_def flush_new_def)

end
