(* ===== verification/Connection.thy ===== *)
theory Connection
  imports App_State Framing Proto Request_Id Namespaces Tofu Util
begin

text \<open>
  The connection state machine (\<open>src/src/cast/connection/state_machine.rs\<close>, \<open>teardown.rs\<close>,
  \<open>writer.rs\<close>): phases, command dispatch, inbound routing, the heartbeat and its watchdog, the
  reconnect policy and the run loop.

  A transport is the bytes written to it, whether it was closed, and the script of the outcomes
  of its next writes. A turn of the run loop is one input (the branch of the \<open>select!\<close> that was
  taken) with its time and with the outcome of the connect it may cause. Panics of the code are
  the left values of \<open>crash + 'a\<close>. Events sent to the backend are kept in order in the state, as
  are the transports of the sessions torn down.
\<close>

section \<open>Data\<close>

datatype phase = Disconnected | Connecting | Connected | Launching | Ready | Streaming | Teardown

datatype command =
    Select cast_device
  | LaunchDefaultReceiver
  | Load rstring rstring stream_type
  | Play
  | Pause
  | Stop
  | SetVolume u32 bool
  | GetStatus
  | Shutdown

datatype connection_error =
    TlsFailed rstring
  | ReconnectExhausted rstring rstring nat
  | ReaderThread

datatype connection_event =
    EvConnected cast_device
  | EvDisconnected cast_device
  | EvError connection_error
  | EvReady rstring rstring
  | EvMediaStatus bool bool
  | EvVolume u32 bool
  | EvCertificateMismatch cast_device fingerprint fingerprint

record connection_config =
  heartbeat_interval :: duration
  watchdog_timeout :: duration
  request_timeout :: duration
  cfg_backoff :: backoff

definition default_config :: connection_config where
  "default_config =
     \<lparr>heartbeat_interval = from_secs 5, watchdog_timeout = from_secs 10,
      request_timeout = from_secs 5, cfg_backoff = backoff_new\<rparr>"

datatype send_outcome = SendOk | SendFail nat io_error

record transport =
  tr_sent :: bytes
  tr_closed :: bool
  tr_script :: "send_outcome list"

datatype pending_command = PendingLoad rstring rstring stream_type

record session =
  ss_phase :: phase
  ss_device :: cast_device
  ss_transport :: transport
  ss_request_id :: request_id
  ss_pending :: pending_map
  ss_transport_id :: "rstring option"
  ss_session_id :: "rstring option"
  ss_pending_command :: "pending_command option"

definition session_new :: "cast_device \<Rightarrow> transport \<Rightarrow> duration \<Rightarrow> session" where
  "session_new device tr rt =
     \<lparr>ss_phase = Connected, ss_device = device, ss_transport = tr, ss_request_id = request_id_new,
      ss_pending = pending_new rt, ss_transport_id = None, ss_session_id = None,
      ss_pending_command = None\<rparr>"

datatype crash = ExpectFailed | IdsExhausted | UnreachableCommand

record 'v cast_env =
  ce_json :: "'v json_api"
  ce_version :: rstring

section \<open>Writing\<close>

definition send_payload :: "transport \<Rightarrow> bytes \<Rightarrow> (io_error + unit) \<times> transport" where
  "send_payload tr payload =
     (let frame = encode_frame payload in
      case tr_script tr of
        [] \<Rightarrow> (Inr (), tr\<lparr>tr_sent := tr_sent tr @ frame\<rparr>)
      | SendOk # sc \<Rightarrow> (Inr (), tr\<lparr>tr_sent := tr_sent tr @ frame, tr_script := sc\<rparr>)
      | SendFail k e # sc \<Rightarrow> (Inl e, tr\<lparr>tr_sent := tr_sent tr @ take k frame, tr_script := sc\<rparr>))"

definition session_send :: "session \<Rightarrow> bytes \<Rightarrow> (io_error + unit) \<times> session" where
  "session_send s payload =
     (case send_payload (ss_transport s) payload of (r, tr) \<Rightarrow> (r, s\<lparr>ss_transport := tr\<rparr>))"

definition next_request :: "instant \<Rightarrow> session \<Rightarrow> crash + (u32 \<times> session)" where
  "next_request now s =
     (case allocate (ss_request_id s) (ss_pending s) of
        Some (Inr (i, r)) \<Rightarrow>
          Inr (i, s\<lparr>ss_request_id := r, ss_pending := snd (pending_insert (ss_pending s) i now)\<rparr>)
      | _ \<Rightarrow> Inl IdsExhausted)"

definition media_destination :: "session \<Rightarrow> rstring" where
  "media_destination s =
     (case ss_transport_id s of Some t \<Rightarrow> media_destination_id t | None \<Rightarrow> TRANSPORT_ID)"

definition expect :: "crash \<Rightarrow> 'a option \<Rightarrow> crash + 'a" where
  "expect c x = (case x of Some y \<Rightarrow> Inr y | None \<Rightarrow> Inl c)"

section \<open>Inbound routing\<close>

datatype inbound_action = ActPong | ActEvents "connection_event list" | ActIgnore

definition correlate :: "'v cast_env \<Rightarrow> 'v \<Rightarrow> session \<Rightarrow> session" where
  "correlate env v s =
     (case obind (j_get (ce_json env) v (str ''requestId'')) (j_as_u64 (ce_json env)) of
        Some i \<Rightarrow> s\<lparr>ss_pending := snd (resolve (ss_pending s) (ucast i))\<rparr>
      | None \<Rightarrow> s)"

definition apply_receiver_status :: "receiver_status \<Rightarrow> session \<Rightarrow> connection_event list \<times> session" where
  "apply_receiver_status status s =
     (let s1 = (case rs_transport_id status of Some t \<Rightarrow> s\<lparr>ss_transport_id := Some t\<rparr> | None \<Rightarrow> s);
          s2 = (case rs_session_id status of Some i \<Rightarrow> s1\<lparr>ss_session_id := Some i\<rparr> | None \<Rightarrow> s1);
          (ready, s3) = (case (ss_phase s2, ss_transport_id s2, ss_session_id s2) of
             (Launching, Some t, Some i) \<Rightarrow> ([EvReady t i], s2\<lparr>ss_phase := Ready\<rparr>)
           | _ \<Rightarrow> ([], s2));
          volume = (case rs_volume status of Some v \<Rightarrow> [EvVolume (vi_level v) (vi_muted v)] | None \<Rightarrow> [])
      in (ready @ volume, s3))"

definition apply_media_status :: "media_status_info \<Rightarrow> connection_event list" where
  "apply_media_status info =
     [EvMediaStatus (mi_player_state info = Playing \<or> mi_player_state info = Buffering)
        (mi_player_state info = Buffering)]"

definition route_inbound :: "'v cast_env \<Rightarrow> bytes \<Rightarrow> session \<Rightarrow> inbound_action \<times> session" where
  "route_inbound env payload s =
     (case decode_cast_message payload of
        Inl _ \<Rightarrow> (ActIgnore, s)
      | Inr message \<Rightarrow>
          let content = payload_utf8 message in
          (case j_from_str (ce_json env) content of
             None \<Rightarrow> (ActIgnore, s)
           | Some v \<Rightarrow>
               (case get_str (ce_json env) v ''type'' of
                  None \<Rightarrow> (ActIgnore, s)
                | Some t \<Rightarrow>
                    if t = str ''PONG'' then (ActPong, s)
                    else if t = str ''RECEIVER_STATUS'' then
                      (let s1 = correlate env v s in
                       case parse_receiver_status (ce_json env) content of
                         Some status \<Rightarrow> (case apply_receiver_status status s1 of (evs, s2) \<Rightarrow> (ActEvents evs, s2))
                       | None \<Rightarrow> (ActIgnore, s1))
                    else if t = str ''MEDIA_STATUS'' then
                      (let s1 = correlate env v s in
                       case parse_media_status (ce_json env) content of
                         Some info \<Rightarrow> (ActEvents (apply_media_status info), s1)
                       | None \<Rightarrow> (ActIgnore, s1))
                    else (ActIgnore, s))))"

section \<open>Commands\<close>

definition receiver_request ::
  "instant \<Rightarrow> (u32 \<Rightarrow> rstring) \<Rightarrow> (session \<Rightarrow> session) \<Rightarrow> session \<Rightarrow> crash + (io_error + unit) \<times> session" where
  "receiver_request now msg upd s =
     rbind (next_request now s) (\<lambda>(i, s1).
       Inr (session_send (upd s1) (encode_cast_message SOURCE_ID RECEIVER_ID RECEIVER_NS (msg i))))"

text \<open>The load sequence, shared by \<open>handle_command\<close> and \<open>dispatch_pending\<close> as in the code: a
  virtual connection to the media channel, then \<open>LOAD\<close>.\<close>

definition send_load ::
  "'v cast_env \<Rightarrow> instant \<Rightarrow> rstring \<Rightarrow> rstring \<Rightarrow> stream_type \<Rightarrow> session \<Rightarrow> crash + (io_error + unit) \<times> session" where
  "send_load env now content_id content_type st s =
     (let dest = media_destination s in
      case session_send s (encode_cast_message SOURCE_ID dest CONNECTION_NS
             (connect_msg (ce_json env) (ce_version env))) of
        (Inl e, s1) \<Rightarrow> Inr (Inl e, s1)
      | (Inr _, s1) \<Rightarrow>
          rbind (next_request now s1) (\<lambda>(i, s2).
            rbind (expect ExpectFailed (ss_session_id s2)) (\<lambda>sid.
              Inr (session_send (s2\<lparr>ss_phase := Streaming\<rparr>)
                (encode_cast_message SOURCE_ID dest MEDIA_NS
                  (load (ce_json env) i sid content_id content_type st))))))"

definition media_request ::
  "instant \<Rightarrow> (u32 \<Rightarrow> rstring) \<Rightarrow> (session \<Rightarrow> session) \<Rightarrow> session \<Rightarrow> crash + (io_error + unit) \<times> session" where
  "media_request now msg upd s =
     (if ss_phase s \<noteq> Ready \<and> ss_phase s \<noteq> Streaming then Inr (Inr (), s)
      else rbind (next_request now s) (\<lambda>(i, s1).
        Inr (session_send (upd s1)
          (encode_cast_message SOURCE_ID (media_destination s1) MEDIA_NS (msg i)))))"

fun handle_command ::
  "'v cast_env \<Rightarrow> instant \<Rightarrow> command \<Rightarrow> session \<Rightarrow> crash + (io_error + unit) \<times> session" where
  "handle_command env now LaunchDefaultReceiver s =
     (if ss_phase s \<noteq> Connected then Inr (Inr (), s)
      else receiver_request now (launch (ce_json env)) (\<lambda>s. s\<lparr>ss_phase := Launching\<rparr>) s)"
| "handle_command env now (Load content_id content_type st) s =
     (if ss_phase s = Ready \<or> ss_phase s = Streaming then send_load env now content_id content_type st s
      else if ss_phase s = Connected then
        receiver_request now (launch (ce_json env))
          (\<lambda>s. s\<lparr>ss_phase := Launching, ss_pending_command := Some (PendingLoad content_id content_type st)\<rparr>) s
      else Inr (Inr (), s))"
| "handle_command env now Play s = media_request now (play (ce_json env)) id s"
| "handle_command env now Pause s = media_request now (pause (ce_json env)) id s"
| "handle_command env now Stop s = media_request now (stop_msg (ce_json env)) (\<lambda>s. s\<lparr>ss_phase := Ready\<rparr>) s"
| "handle_command env now (SetVolume level muted) s =
     receiver_request now (\<lambda>i. set_volume (ce_json env) i level muted) id s"
| "handle_command env now GetStatus s = receiver_request now (get_status (ce_json env)) id s"
| "handle_command env now (Select d) s = Inl UnreachableCommand"
| "handle_command env now Shutdown s = Inl UnreachableCommand"

fun dispatch_pending ::
  "'v cast_env \<Rightarrow> instant \<Rightarrow> pending_command \<Rightarrow> session \<Rightarrow> crash + (io_error + unit) \<times> session" where
  "dispatch_pending env now (PendingLoad content_id content_type st) s =
     send_load env now content_id content_type st s"

section \<open>The state of the run loop\<close>

record reconnect =
  rc_delay :: instant
  rc_device :: cast_device
  rc_backoff :: backoff
  rc_attempts :: nat

record run_state =
  st_session :: "session option"
  st_desired :: "cast_device option"
  st_inbound :: bool
  st_heartbeat :: "instant option"
  st_watchdog :: "instant option"
  st_reconnect :: "reconnect option"
  st_events :: "connection_event list"
  st_retired :: "transport list"
  st_triggered :: bool
  st_running :: bool

definition run_state_new :: run_state where
  "run_state_new =
     \<lparr>st_session = None, st_desired = None, st_inbound = False, st_heartbeat = None,
      st_watchdog = None, st_reconnect = None, st_events = [], st_retired = [],
      st_triggered = False, st_running = True\<rparr>"

definition emit :: "connection_event list \<Rightarrow> run_state \<Rightarrow> run_state" where
  "emit evs st = st\<lparr>st_events := st_events st @ evs\<rparr>"

text \<open>Teardown: media \<open>STOP\<close> while streaming, \<open>STOP_APP\<close>, close; failures of the writes are
  ignored.\<close>

definition teardown_messages :: "'v cast_env \<Rightarrow> instant \<Rightarrow> session \<Rightarrow> crash + session" where
  "teardown_messages env now s =
     (case ss_session_id s of
        None \<Rightarrow> Inr s
      | Some sid \<Rightarrow>
          rbind
            (if ss_phase s = Streaming then
               rbind (next_request now s) (\<lambda>(i, s1).
                 Inr (snd (session_send s1 (encode_cast_message SOURCE_ID (media_destination s1) MEDIA_NS
                   (stop_msg (ce_json env) i)))))
             else Inr s)
            (\<lambda>s2. rbind (next_request now s2) (\<lambda>(i, s3).
               Inr (snd (session_send s3 (encode_cast_message SOURCE_ID RECEIVER_ID RECEIVER_NS
                 (stop_app (ce_json env) i sid)))))))"

definition teardown_session :: "'v cast_env \<Rightarrow> instant \<Rightarrow> run_state \<Rightarrow> crash + run_state" where
  "teardown_session env now st =
     (case st_session st of
        None \<Rightarrow> Inr st
      | Some s \<Rightarrow>
          rbind (teardown_messages env now s) (\<lambda>s'.
            Inr (emit [EvDisconnected (ss_device s')]
              (st\<lparr>st_session := None, st_inbound := False, st_heartbeat := None, st_watchdog := None,
                  st_retired := st_retired st @ [(ss_transport s')\<lparr>tr_closed := True\<rparr>]\<rparr>))))"

definition schedule ::
  "instant \<Rightarrow> cast_device \<Rightarrow> backoff \<Rightarrow> nat \<Rightarrow> run_state \<Rightarrow> run_state" where
  "schedule now device bo attempts st =
     (case backoff_next bo of
        (Some delay, bo') \<Rightarrow>
          st\<lparr>st_reconnect := Some \<lparr>rc_delay = now + delay, rc_device = device, rc_backoff = bo',
             rc_attempts = attempts\<rparr>\<rparr>
      | (None, _) \<Rightarrow>
          (emit [EvError (ReconnectExhausted (cd_name device) (cd_addr device) attempts)] st)
            \<lparr>st_desired := None\<rparr>)"

definition connection_lost ::
  "'v cast_env \<Rightarrow> connection_config \<Rightarrow> instant \<Rightarrow> run_state \<Rightarrow> crash + run_state" where
  "connection_lost env cfg now st =
     rbind (teardown_session env now st) (\<lambda>st1.
       case st_desired st1 of
         None \<Rightarrow> Inr st1
       | Some device \<Rightarrow> Inr (schedule now device (cfg_backoff cfg) 0 st1))"

text \<open>What a connect attempt meets: a failure, or a transport with the outcome of the pin check,
  and whether the reader thread could be spawned.\<close>

record attempt =
  at_connect :: "(transport \<times> pin_check) option"
  at_spawn :: bool

definition establish ::
  "'v cast_env \<Rightarrow> connection_config \<Rightarrow> instant \<Rightarrow> attempt \<Rightarrow> cast_device \<Rightarrow> run_state \<Rightarrow>
   (connection_error + unit) \<times> run_state" where
  "establish env cfg now at device st =
     (case at_connect at of
        None \<Rightarrow> (Inl (TlsFailed (cd_addr device)), st)
      | Some (tr, pin) \<Rightarrow>
          let st1 = (case pin of
                Mismatch previous current \<Rightarrow> emit [EvCertificateMismatch device previous current] st
              | _ \<Rightarrow> st)
          in (case send_payload tr (encode_cast_message SOURCE_ID RECEIVER_ID CONNECTION_NS
                     (connect_msg (ce_json env) (ce_version env))) of
                (Inl e, _) \<Rightarrow> (Inl (TlsFailed (cd_addr device)), st1)
              | (Inr _, tr1) \<Rightarrow>
                  if \<not> at_spawn at then (Inl ReaderThread, st1)
                  else (Inr (), emit [EvConnected device]
                    (st1\<lparr>st_inbound := True, st_session := Some (session_new device tr1 (request_timeout cfg)),
                         st_heartbeat := Some (now + heartbeat_interval cfg),
                         st_watchdog := Some (now + watchdog_timeout cfg)\<rparr>))))"

section \<open>The run loop\<close>

datatype conn_input =
    InCommand command
  | InCommandsClosed
  | InFrame bytes
  | InReaderGone
  | InHeartbeat
  | InWatchdog
  | InReconnect
  | InShutdown
  | InTriggerWhileBusy

text \<open>The guards of the \<open>select!\<close> branches. The shutdown branch is armed only while the token has
  not been triggered; a trigger that comes while a handler runs is a step of its own.\<close>

definition enabled :: "run_state \<Rightarrow> conn_input \<Rightarrow> bool" where
  "enabled st i \<longleftrightarrow> st_running st \<and>
     (case i of
        InFrame _ \<Rightarrow> st_inbound st
      | InReaderGone \<Rightarrow> st_inbound st
      | InHeartbeat \<Rightarrow> st_heartbeat st \<noteq> None
      | InWatchdog \<Rightarrow> st_watchdog st \<noteq> None
      | InReconnect \<Rightarrow> st_reconnect st \<noteq> None
      | InShutdown \<Rightarrow> \<not> st_triggered st
      | _ \<Rightarrow> True)"

definition lost_on_error ::
  "'v cast_env \<Rightarrow> connection_config \<Rightarrow> instant \<Rightarrow> io_error + unit \<Rightarrow> run_state \<Rightarrow> crash + run_state" where
  "lost_on_error env cfg now r st =
     (case r of Inl _ \<Rightarrow> connection_lost env cfg now st | Inr _ \<Rightarrow> Inr st)"

definition on_command ::
  "'v cast_env \<Rightarrow> connection_config \<Rightarrow> instant \<Rightarrow> attempt \<Rightarrow> command \<Rightarrow> run_state \<Rightarrow> crash + run_state" where
  "on_command env cfg now at c st =
     (case c of
        Shutdown \<Rightarrow> rbind (teardown_session env now st) (\<lambda>st1. Inr (st1\<lparr>st_running := False\<rparr>))
      | Select device \<Rightarrow>
          rbind (teardown_session env now st) (\<lambda>st1.
            case establish env cfg now at device (st1\<lparr>st_reconnect := None, st_desired := Some device\<rparr>) of
              (Inl err, st2) \<Rightarrow> Inr ((emit [EvError err] st2)\<lparr>st_desired := None\<rparr>)
            | (Inr _, st2) \<Rightarrow> Inr st2)
      | _ \<Rightarrow>
          (case st_session st of
             None \<Rightarrow> Inr st
           | Some s \<Rightarrow>
               rbind (handle_command env now c s) (\<lambda>(r, s1).
                 lost_on_error env cfg now r (st\<lparr>st_session := Some s1\<rparr>))))"

definition on_frame ::
  "'v cast_env \<Rightarrow> connection_config \<Rightarrow> instant \<Rightarrow> bytes \<Rightarrow> run_state \<Rightarrow> crash + run_state" where
  "on_frame env cfg now payload st =
     (case st_session st of
        None \<Rightarrow> Inr st
      | Some s \<Rightarrow>
          (case route_inbound env payload s of
             (action, s1) \<Rightarrow>
               let st1 = (case action of
                     ActPong \<Rightarrow> st\<lparr>st_watchdog := map_option (\<lambda>_. now + watchdog_timeout cfg) (st_watchdog st)\<rparr>
                   | ActEvents evs \<Rightarrow> emit evs st
                   | ActIgnore \<Rightarrow> st)
               in if ss_phase s1 = Ready then
                    (case ss_pending_command s1 of
                       None \<Rightarrow> Inr (st1\<lparr>st_session := Some s1\<rparr>)
                     | Some p \<Rightarrow>
                         rbind (dispatch_pending env now p (s1\<lparr>ss_pending_command := None\<rparr>)) (\<lambda>(r, s2).
                           lost_on_error env cfg now r (st1\<lparr>st_session := Some s2\<rparr>)))
                  else Inr (st1\<lparr>st_session := Some s1\<rparr>)))"

definition on_reader_gone ::
  "'v cast_env \<Rightarrow> connection_config \<Rightarrow> instant \<Rightarrow> run_state \<Rightarrow> crash + run_state" where
  "on_reader_gone env cfg now st =
     (if st_session st \<noteq> None then connection_lost env cfg now st else Inr (st\<lparr>st_inbound := False\<rparr>))"

definition on_heartbeat ::
  "'v cast_env \<Rightarrow> connection_config \<Rightarrow> instant \<Rightarrow> run_state \<Rightarrow> crash + run_state" where
  "on_heartbeat env cfg now st =
     (case st_session st of
        None \<Rightarrow> Inr (st\<lparr>st_heartbeat := None\<rparr>)
      | Some s \<Rightarrow>
          (case session_send s (encode_cast_message SOURCE_ID TRANSPORT_ID HEARTBEAT_NS (ping (ce_json env))) of
             (Inl _, s1) \<Rightarrow> connection_lost env cfg now (st\<lparr>st_session := Some s1\<rparr>)
           | (Inr _, s1) \<Rightarrow>
               Inr (st\<lparr>st_session := Some s1, st_heartbeat := Some (now + heartbeat_interval cfg)\<rparr>)))"

definition on_watchdog ::
  "'v cast_env \<Rightarrow> connection_config \<Rightarrow> instant \<Rightarrow> run_state \<Rightarrow> crash + run_state" where
  "on_watchdog env cfg now st =
     (if st_session st \<noteq> None then connection_lost env cfg now st else Inr (st\<lparr>st_watchdog := None\<rparr>))"

definition on_reconnect ::
  "'v cast_env \<Rightarrow> connection_config \<Rightarrow> instant \<Rightarrow> attempt \<Rightarrow> run_state \<Rightarrow> crash + run_state" where
  "on_reconnect env cfg now at st =
     (case st_reconnect st of
        None \<Rightarrow> Inr st
      | Some r \<Rightarrow>
          (case establish env cfg now at (rc_device r) (st\<lparr>st_reconnect := None\<rparr>) of
             (Inr _, st1) \<Rightarrow> Inr st1
           | (Inl _, st1) \<Rightarrow> Inr (schedule now (rc_device r) (rc_backoff r) (rc_attempts r + 1) st1)))"

text \<open>After every turn that does not leave the loop, overdue requests are dropped.\<close>

definition reap :: "instant \<Rightarrow> run_state \<Rightarrow> run_state" where
  "reap now st =
     (if st_running st then
        st\<lparr>st_session := map_option (\<lambda>s. s\<lparr>ss_pending := snd (expire (ss_pending s) now)\<rparr>) (st_session st)\<rparr>
      else st)"

definition conn_step ::
  "'v cast_env \<Rightarrow> connection_config \<Rightarrow> run_state \<Rightarrow> instant \<times> attempt \<times> conn_input \<Rightarrow> crash + run_state" where
  "conn_step env cfg st inp =
     (case inp of (now, at, i) \<Rightarrow>
       if \<not> enabled st i then Inr st
       else if i = InTriggerWhileBusy then Inr (st\<lparr>st_triggered := True\<rparr>)
       else rbind
         (case i of
            InCommand c \<Rightarrow> on_command env cfg now at c st
          | InCommandsClosed \<Rightarrow> Inr (st\<lparr>st_running := False\<rparr>)
          | InFrame payload \<Rightarrow> on_frame env cfg now payload st
          | InReaderGone \<Rightarrow> on_reader_gone env cfg now st
          | InHeartbeat \<Rightarrow> on_heartbeat env cfg now st
          | InWatchdog \<Rightarrow> on_watchdog env cfg now st
          | InReconnect \<Rightarrow> on_reconnect env cfg now at st
          | InShutdown \<Rightarrow> rbind (teardown_session env now st) (\<lambda>st1. Inr (st1\<lparr>st_triggered := True, st_running := False\<rparr>))
          | InTriggerWhileBusy \<Rightarrow> Inr st)
         (\<lambda>st1. Inr (reap now st1)))"

fun conn_run ::
  "'v cast_env \<Rightarrow> connection_config \<Rightarrow> run_state \<Rightarrow> (instant \<times> attempt \<times> conn_input) list \<Rightarrow> crash + run_state" where
  "conn_run env cfg st [] = Inr st"
| "conn_run env cfg st (i # is) = rbind (conn_step env cfg st i) (\<lambda>st1. conn_run env cfg st1 is)"

section \<open>The invariant\<close>

text \<open>
  A session is in one of four phases; media commands are accepted only when the application's IDs
  are known; a queued command waits for the launch; request IDs are never 0; at most \<open>n\<close> requests
  are outstanding.
\<close>

definition session_ok :: "nat \<Rightarrow> session \<Rightarrow> bool" where
  "session_ok n s \<longleftrightarrow>
     ss_phase s \<in> {Connected, Launching, Ready, Streaming} \<and>
     (ss_phase s \<in> {Ready, Streaming} \<longrightarrow> ss_transport_id s \<noteq> None \<and> ss_session_id s \<noteq> None) \<and>
     (ss_pending_command s \<noteq> None \<longrightarrow> ss_phase s = Launching) \<and>
     next_id (ss_request_id s) \<noteq> 0 \<and> pending_inv (ss_pending s) \<and> length (pending (ss_pending s)) \<le> n"

text \<open>The sessions the backend has been told about: connects and disconnects alternate and name
  the same device.\<close>

fun session_log :: "cast_device option \<Rightarrow> connection_event list \<Rightarrow> cast_device option option" where
  "session_log cur [] = Some cur"
| "session_log cur (EvConnected d # evs) = (if cur = None then session_log (Some d) evs else None)"
| "session_log cur (EvDisconnected d # evs) = (if cur = Some d then session_log None evs else None)"
| "session_log cur (_ # evs) = session_log cur evs"

definition conn_inv :: "nat \<Rightarrow> run_state \<Rightarrow> bool" where
  "conn_inv n st \<longleftrightarrow>
     (case st_session st of
        None \<Rightarrow> \<not> st_inbound st \<and> st_heartbeat st = None \<and> st_watchdog st = None
      | Some s \<Rightarrow> session_ok n s \<and> st_inbound st \<and> st_heartbeat st \<noteq> None \<and> st_watchdog st \<noteq> None \<and>
          st_reconnect st = None \<and> st_desired st = Some (ss_device s)) \<and>
     (\<forall>r. st_reconnect st = Some r \<longrightarrow> st_desired st = Some (rc_device r)) \<and>
     list_all tr_closed (st_retired st) \<and>
     session_log None (st_events st) = Some (map_option ss_device (st_session st))"

definition succeeds :: "('a \<Rightarrow> bool) \<Rightarrow> crash + 'a \<Rightarrow> bool" where
  "succeeds P r \<longleftrightarrow> (\<exists>x. r = Inr x \<and> P x)"

lemma succeeds_Inr [simp]: "succeeds P (Inr x) = P x"
  by (simp add: succeeds_def)

lemma succeeds_rbind: "succeeds P m \<Longrightarrow> (\<And>x. P x \<Longrightarrow> succeeds Q (f x)) \<Longrightarrow> succeeds Q (rbind m f)"
  by (auto simp: succeeds_def)

lemma succeeds_mono: "succeeds P m \<Longrightarrow> (\<And>x. P x \<Longrightarrow> Q x) \<Longrightarrow> succeeds Q m"
  by (auto simp: succeeds_def)

lemma session_log_append:
  "session_log cur (xs @ ys) = (case session_log cur xs of None \<Rightarrow> None | Some c \<Rightarrow> session_log c ys)"
  by (induction cur xs rule: session_log.induct) auto

lemma session_ok_mono: "session_ok n s \<Longrightarrow> n \<le> m \<Longrightarrow> session_ok m s"
  by (auto simp: session_ok_def)

lemma session_ok_transport [simp]: "session_ok n (s\<lparr>ss_transport := tr\<rparr>) = session_ok n s"
  by (simp add: session_ok_def)

lemma session_send_cases:
  obtains r tr where "session_send s payload = (r, s\<lparr>ss_transport := tr\<rparr>)"
  by (cases "send_payload (ss_transport s) payload") (simp add: session_send_def)

text \<open>A fresh ID is always found while fewer than \<open>2 ^ 32 - 1\<close> requests are outstanding.\<close>

lemma next_request_ok:
  assumes "session_ok n s" "n < ID_CYCLE"
  obtains i r p where "next_request now s = Inr (i, s\<lparr>ss_request_id := r, ss_pending := p\<rparr>)"
    and "session_ok (Suc n) (s\<lparr>ss_request_id := r, ss_pending := p\<rparr>)"
    and "i \<noteq> 0" "\<not> is_pending (ss_pending s) i" "p = snd (pending_insert (ss_pending s) i now)"
proof -
  have "next_id (ss_request_id s) \<noteq> 0" "length (pending (ss_pending s)) < ID_CYCLE"
    using assms by (auto simp: session_ok_def)
  from allocate_total [OF this] obtain k where k:
    "\<not> is_pending (ss_pending s) ((next_in_cycle ^^ k) (next_id (ss_request_id s)))"
    "allocate (ss_request_id s) (ss_pending s) = Some (Inr ((next_in_cycle ^^ k) (next_id (ss_request_id s)),
        (ss_request_id s)\<lparr>next_id := next_in_cycle ((next_in_cycle ^^ k) (next_id (ss_request_id s)))\<rparr>))"
    by metis
  let ?i = "(next_in_cycle ^^ k) (next_id (ss_request_id s))"
  let ?r = "(ss_request_id s)\<lparr>next_id := next_in_cycle ?i\<rparr>"
  let ?p = "snd (pending_insert (ss_pending s) ?i now)"
  have i: "?i \<noteq> 0" using unat_funpow_cycle [of "next_id (ss_request_id s)"] assms(1)
    by (auto simp: session_ok_def)
  have "next_id ?r \<noteq> 0" using unat_next_in_cycle(2) [OF i] by simp
  moreover have "pending_inv ?p" using assms(1) store.inv_insert by (auto simp: session_ok_def)
  moreover have "length (pending ?p) \<le> Suc n"
    using assms(1) by (auto simp: session_ok_def pending_insert_def)
  ultimately have "session_ok (Suc n) (s\<lparr>ss_request_id := ?r, ss_pending := ?p\<rparr>)"
    using assms(1) by (auto simp: session_ok_def)
  then show thesis
    using k i by (intro that [where i = ?i and r = ?r and p = ?p]) (simp_all add: next_request_def)
qed

text \<open>The writers keep a session in order and never panic.\<close>

definition write_ok :: "nat \<Rightarrow> session \<Rightarrow> (io_error + unit) \<times> session \<Rightarrow> bool" where
  "write_ok n s x \<longleftrightarrow> session_ok n (snd x) \<and> ss_device (snd x) = ss_device s"

lemma write_okI:
  assumes "session_ok n s'" "ss_device s' = ss_device s"
  shows "write_ok n s (session_send s' payload)"
  using assms by (cases rule: session_send_cases [of s' payload]) (simp add: write_ok_def)

lemma receiver_request_ok:
  assumes "session_ok n s" "n < ID_CYCLE"
    and "\<And>s'. session_ok (Suc n) s' \<Longrightarrow> ss_phase s' = ss_phase s \<Longrightarrow> session_ok (Suc n) (upd s') \<and> ss_device (upd s') = ss_device s'"
  shows "succeeds (write_ok (Suc n) s) (receiver_request now msg upd s)"
proof -
  obtain i r p where nr: "next_request now s = Inr (i, s\<lparr>ss_request_id := r, ss_pending := p\<rparr>)"
    "session_ok (Suc n) (s\<lparr>ss_request_id := r, ss_pending := p\<rparr>)"
    using next_request_ok [OF assms(1,2)] by metis
  then show ?thesis
    using assms(3) [OF nr(2)] by (auto simp: receiver_request_def intro!: write_okI)
qed

lemma media_request_ok:
  assumes "session_ok n s" "n < ID_CYCLE"
    and "\<And>s'. session_ok (Suc n) s' \<Longrightarrow> ss_phase s' \<in> {Ready, Streaming} \<Longrightarrow>
      session_ok (Suc n) (upd s') \<and> ss_device (upd s') = ss_device s'"
  shows "succeeds (write_ok (Suc n) s) (media_request now msg upd s)"
proof (cases "ss_phase s = Ready \<or> ss_phase s = Streaming")
  case True
  obtain i r p where nr: "next_request now s = Inr (i, s\<lparr>ss_request_id := r, ss_pending := p\<rparr>)"
    "session_ok (Suc n) (s\<lparr>ss_request_id := r, ss_pending := p\<rparr>)"
    using next_request_ok [OF assms(1,2)] by metis
  then show ?thesis
    using True assms(3) [OF nr(2)] by (auto simp: media_request_def intro!: write_okI)
next
  case False
  then show ?thesis using assms(1) by (auto simp: media_request_def write_ok_def intro: session_ok_mono)
qed

lemma send_load_ok:
  assumes "session_ok n s" "n < ID_CYCLE" "ss_phase s = Ready \<or> ss_phase s = Streaming" "ss_pending_command s = None"
  shows "succeeds (write_ok (Suc n) s) (send_load env now c t k s)"
proof -
  obtain r tr where send: "session_send s (encode_cast_message SOURCE_ID (media_destination s) CONNECTION_NS
      (connect_msg (ce_json env) (ce_version env))) = (r, s\<lparr>ss_transport := tr\<rparr>)"
    by (rule session_send_cases)
  have ok: "session_ok n (s\<lparr>ss_transport := tr\<rparr>)" using assms(1) by simp
  obtain i rq p where nr: "next_request now (s\<lparr>ss_transport := tr\<rparr>) =
      Inr (i, s\<lparr>ss_transport := tr, ss_request_id := rq, ss_pending := p\<rparr>)"
    "session_ok (Suc n) (s\<lparr>ss_transport := tr, ss_request_id := rq, ss_pending := p\<rparr>)"
    using next_request_ok [OF ok assms(2)] by metis
  obtain sid where sid: "ss_session_id s = Some sid" using assms(1,3) by (auto simp: session_ok_def)
  have "session_ok (Suc n) (s\<lparr>ss_transport := tr, ss_request_id := rq, ss_pending := p, ss_phase := Streaming\<rparr>)"
    using nr(2) assms(3,4) by (auto simp: session_ok_def)
  then have "write_ok (Suc n) s (session_send
      (s\<lparr>ss_transport := tr, ss_request_id := rq, ss_pending := p, ss_phase := Streaming\<rparr>) payload)" for payload
    by (rule write_okI) simp
  moreover have "write_ok (Suc n) s (Inl e, s\<lparr>ss_transport := tr\<rparr>)" for e
    using session_ok_mono [OF assms(1), of "Suc n"] by (simp add: write_ok_def)
  ultimately show ?thesis
    using send nr sid by (cases r) (auto simp: send_load_def Let_def expect_def)
qed

lemma handle_command_ok:
  assumes "session_ok n s" "n < ID_CYCLE" "c \<noteq> Shutdown" "\<And>d. c \<noteq> Select d"
  shows "succeeds (write_ok (Suc n) s) (handle_command env now c s)"
proof -
  have same: "succeeds (write_ok (Suc n) s) (Inr (Inr (), s))"
    using assms(1) by (auto simp: write_ok_def intro: session_ok_mono)
  show ?thesis
  proof (cases c)
    case LaunchDefaultReceiver
    show ?thesis
    proof (cases "ss_phase s = Connected")
      case True
      have "succeeds (write_ok (Suc n) s)
          (receiver_request now (launch (ce_json env)) (\<lambda>s. s\<lparr>ss_phase := Launching\<rparr>) s)"
        by (rule receiver_request_ok [OF assms(1,2)]) (use True in \<open>auto simp: session_ok_def\<close>)
      with True LaunchDefaultReceiver show ?thesis by simp
    qed (use same LaunchDefaultReceiver in simp)
  next
    case (Load a b k)
    show ?thesis
    proof (cases "ss_phase s = Ready \<or> ss_phase s = Streaming")
      case True
      then have "ss_pending_command s = None" using assms(1) by (auto simp: session_ok_def)
      with True Load assms(1,2) show ?thesis by (auto intro!: send_load_ok)
    next
      case False
      have "succeeds (write_ok (Suc n) s) (receiver_request now (launch (ce_json env))
          (\<lambda>s. s\<lparr>ss_phase := Launching, ss_pending_command := Some (PendingLoad a b k)\<rparr>) s)"
        if "ss_phase s = Connected"
        by (rule receiver_request_ok [OF assms(1,2)]) (use that in \<open>auto simp: session_ok_def\<close>)
      with False Load same show ?thesis by simp
    qed
  next
    case Stop
    have "succeeds (write_ok (Suc n) s)
        (media_request now (stop_msg (ce_json env)) (\<lambda>s. s\<lparr>ss_phase := Ready\<rparr>) s)"
      by (rule media_request_ok [OF assms(1,2)]) (auto simp: session_ok_def)
    with Stop show ?thesis by simp
  qed (use assms in \<open>auto intro!: media_request_ok receiver_request_ok\<close>)
qed

lemma pending_inv_resolve [simp]: "pending_inv m \<Longrightarrow> pending_inv (snd (resolve m i))"
  by (rule store.inv_resolve)

lemma length_resolve: "length (pending (snd (resolve m i))) \<le> length (pending m)"
  by (simp add: resolve_def AList.delete_eq)

lemma correlate_ok: "session_ok n s \<Longrightarrow> session_ok n (correlate env v s)"
  using length_resolve by (auto simp: correlate_def session_ok_def split: option.splits intro: order_trans)

lemma correlate_same [simp]:
  "ss_device (correlate env v s) = ss_device s" "ss_phase (correlate env v s) = ss_phase s"
  "ss_transport (correlate env v s) = ss_transport s"
  "ss_pending_command (correlate env v s) = ss_pending_command s"
  "ss_request_id (correlate env v s) = ss_request_id s"
  by (auto simp: correlate_def split: option.splits)

text \<open>A routed message keeps the session in order, up to a command that is now due.\<close>

definition routed_ok :: "nat \<Rightarrow> session \<Rightarrow> session \<Rightarrow> bool" where
  "routed_ok n s s' \<longleftrightarrow> session_ok n (s'\<lparr>ss_pending_command := None\<rparr>) \<and> (ss_phase s' \<noteq> Ready \<longrightarrow> session_ok n s') \<and>
     ss_device s' = ss_device s \<and> ss_pending_command s' = ss_pending_command s"

lemma routed_ok_refl: "session_ok n s \<Longrightarrow> routed_ok n s s"
  by (auto simp: routed_ok_def session_ok_def)

definition or_else :: "'a option \<Rightarrow> 'a option \<Rightarrow> 'a option" where
  "or_else x y = (case x of Some _ \<Rightarrow> x | None \<Rightarrow> y)"

lemma or_else_None [simp]: "or_else x y = None \<longleftrightarrow> x = None \<and> y = None"
  by (cases x) (simp_all add: or_else_def)

text \<open>What a receiver status does to the session, in one line.\<close>

lemma apply_receiver_status_session:
  "snd (apply_receiver_status status s) =
     s\<lparr>ss_transport_id := or_else (rs_transport_id status) (ss_transport_id s),
       ss_session_id := or_else (rs_session_id status) (ss_session_id s),
       ss_phase := (if ss_phase s = Launching \<and>
           or_else (rs_transport_id status) (ss_transport_id s) \<noteq> None \<and>
           or_else (rs_session_id status) (ss_session_id s) \<noteq> None then Ready else ss_phase s)\<rparr>"
  by (cases s; cases "rs_transport_id status"; cases "rs_session_id status";
      cases "ss_phase s"; cases "ss_transport_id s"; cases "ss_session_id s")
    (simp_all add: apply_receiver_status_def or_else_def Let_def)

lemma apply_receiver_status_ok:
  assumes "session_ok n s"
  shows "routed_ok n s (snd (apply_receiver_status status s))"
proof -
  have "ss_phase s \<in> {Connected, Launching, Ready, Streaming}" using assms by (simp add: session_ok_def)
  then show ?thesis
    using assms unfolding apply_receiver_status_session
    by (auto simp: routed_ok_def session_ok_def)
qed

lemma route_inbound_ok:
  assumes "session_ok n s" "route_inbound env payload s = (a, s')"
  shows "routed_ok n s s'"
proof -
  have 1: "routed_ok n s (correlate env v s)" for v
    using routed_ok_refl [OF correlate_ok [OF assms(1)]] by (simp add: routed_ok_def)
  have 2: "routed_ok n s (snd (apply_receiver_status status (correlate env v s)))" for status v
    using apply_receiver_status_ok [OF correlate_ok [OF assms(1), of env v], of status]
    by (simp add: routed_ok_def)
  show ?thesis
    using assms(2) 1 2 routed_ok_refl [OF assms(1)]
    by (auto simp: route_inbound_def Let_def case_prod_unfold split: sum.splits option.splits if_splits)
qed

text \<open>Events that do not open or close a session leave the log as it is.\<close>

fun bracketing :: "connection_event \<Rightarrow> bool" where
  "bracketing (EvConnected _) = True"
| "bracketing (EvDisconnected _) = True"
| "bracketing _ = False"

lemma session_log_neutral: "\<forall>e \<in> set evs. \<not> bracketing e \<Longrightarrow> session_log cur evs = Some cur"
proof (induction evs)
  case (Cons e evs)
  then show ?case by (cases e) auto
qed simp

lemma route_inbound_events:
  "route_inbound env payload s = (ActEvents evs, s') \<Longrightarrow> \<forall>e \<in> set evs. \<not> bracketing e"
  by (auto simp: route_inbound_def apply_receiver_status_def apply_media_status_def Let_def
      split: sum.splits option.splits if_splits phase.splits)

lemma teardown_messages_ok:
  assumes "session_ok n s" "n + 1 < ID_CYCLE"
  shows "succeeds (\<lambda>s'. ss_device s' = ss_device s) (teardown_messages env now s)"
proof (cases "ss_session_id s")
  case (Some sid)
  have first: "succeeds (\<lambda>s'. session_ok (Suc n) s' \<and> ss_device s' = ss_device s)
     (if ss_phase s = Streaming then
        rbind (next_request now s) (\<lambda>(i, s1).
          Inr (snd (session_send s1 (encode_cast_message SOURCE_ID (media_destination s1) MEDIA_NS
            (stop_msg (ce_json env) i)))))
      else Inr s)"
  proof -
    obtain i r p where nr: "next_request now s = Inr (i, s\<lparr>ss_request_id := r, ss_pending := p\<rparr>)"
      "session_ok (Suc n) (s\<lparr>ss_request_id := r, ss_pending := p\<rparr>)"
      using next_request_ok [OF assms(1)] assms(2) by (metis add_lessD1)
    have "write_ok (Suc n) s (session_send (s\<lparr>ss_request_id := r, ss_pending := p\<rparr>) payload)" for payload
      using nr(2) by (rule write_okI) simp
    with nr(1) session_ok_mono [OF assms(1), of "Suc n"] show ?thesis by (simp add: write_ok_def)
  qed
  show ?thesis
    unfolding teardown_messages_def Some option.case
  proof (rule succeeds_rbind [OF first])
    fix s2 assume s2: "session_ok (Suc n) s2 \<and> ss_device s2 = ss_device s"
    obtain i r p where nr: "next_request now s2 = Inr (i, s2\<lparr>ss_request_id := r, ss_pending := p\<rparr>)"
      using next_request_ok [of "Suc n" s2] s2 assms(2) by (metis Suc_eq_plus1)
    show "succeeds (\<lambda>s'. ss_device s' = ss_device s) (rbind (next_request now s2) (\<lambda>(i, s3).
        Inr (snd (session_send s3 (encode_cast_message SOURCE_ID RECEIVER_ID RECEIVER_NS
          (stop_app (ce_json env) i sid))))))"
      using s2 by (simp add: nr session_send_def split: prod.splits)
  qed
qed (simp add: teardown_messages_def)

text \<open>After a teardown there is no session, whatever the writes did.\<close>

definition torn_down :: "run_state \<Rightarrow> run_state \<Rightarrow> bool" where
  "torn_down st st' \<longleftrightarrow> conn_inv 0 st' \<and> st_session st' = None \<and> st_desired st' = st_desired st \<and>
     st_reconnect st' = st_reconnect st \<and> st_running st' = st_running st \<and> st_triggered st' = st_triggered st"

lemma teardown_session_ok:
  assumes "conn_inv n st" "n + 1 < ID_CYCLE"
  shows "succeeds (torn_down st) (teardown_session env now st)"
proof (cases "st_session st")
  case None
  then show ?thesis using assms(1) by (simp add: teardown_session_def torn_down_def conn_inv_def)
next
  case (Some s)
  then have "session_ok n s" using assms(1) by (simp add: conn_inv_def)
  from teardown_messages_ok [OF this assms(2), of env now] Some assms(1) show ?thesis
    by (auto simp: teardown_session_def torn_down_def conn_inv_def succeeds_def emit_def session_log_append)
qed

lemma conn_inv_mono: "conn_inv n st \<Longrightarrow> n \<le> m \<Longrightarrow> conn_inv m st"
  by (auto simp: conn_inv_def intro: session_ok_mono split: option.splits)

lemma schedule_ok:
  assumes "conn_inv n st" "st_session st = None" "st_desired st = Some device" "st_reconnect st = None"
  shows "conn_inv n (schedule now device bo k st)"
  using assms by (auto simp: schedule_def conn_inv_def emit_def session_log_append split: prod.splits option.splits)

lemma connection_lost_ok:
  assumes "conn_inv n st" "n + 1 < ID_CYCLE" "st_session st \<noteq> None"
  shows "succeeds (conn_inv 0) (connection_lost env cfg now st)"
  unfolding connection_lost_def
proof (rule succeeds_rbind [OF teardown_session_ok [OF assms(1,2)]])
  fix st1 assume "torn_down st st1"
  moreover have "st_reconnect st = None" using assms(1,3) by (auto simp: conn_inv_def)
  ultimately show "succeeds (conn_inv 0) (case st_desired st1 of None \<Rightarrow> Inr st1
      | Some device \<Rightarrow> Inr (schedule now device (cfg_backoff cfg) 0 st1))"
    by (auto simp: torn_down_def schedule_ok split: option.splits)
qed

lemma session_new_ok: "session_ok n (session_new device tr rt)"
  by (simp add: session_ok_def session_new_def request_id_new_def pending_new_def pending_inv_def)

lemma establish_ok:
  assumes "conn_inv n st" "st_session st = None" "st_reconnect st = None" "st_desired st = Some device"
    and "establish env cfg now at device st = (r, st')"
  shows "(r = Inr () \<longrightarrow> conn_inv 0 st') \<and>
    (r \<noteq> Inr () \<longrightarrow> conn_inv 0 st' \<and> st_session st' = None \<and> st_desired st' = Some device \<and> st_reconnect st' = None)"
proof -
  have "\<not> st_inbound st" "st_heartbeat st = None" "st_watchdog st = None" "list_all tr_closed (st_retired st)"
    "session_log None (st_events st) = Some None"
    using assms(1,2) by (auto simp: conn_inv_def)
  then show ?thesis
    using assms(2-5) session_new_ok [of 0 device _ "request_timeout cfg"]
    by (auto simp: establish_def conn_inv_def emit_def session_log_append session_new_def Let_def
        split: option.splits prod.splits sum.splits if_splits pin_check.splits)
qed

lemma conn_inv_session:
  assumes "conn_inv n st" "st_session st = Some s" "session_ok m s'" "ss_device s' = ss_device s"
  shows "conn_inv m (st\<lparr>st_session := Some s'\<rparr>)"
  using assms by (simp add: conn_inv_def)

lemma lost_on_error_ok:
  assumes "conn_inv m st" "m + 1 < ID_CYCLE" "st_session st \<noteq> None"
  shows "succeeds (conn_inv m) (lost_on_error env cfg now r st)"
  using assms connection_lost_ok [OF assms, of env cfg now]
  by (auto simp: lost_on_error_def intro: succeeds_mono conn_inv_mono split: sum.splits)

lemma write_then_lost_ok:
  assumes "conn_inv n st" "st_session st = Some s" "n + 2 < ID_CYCLE"
    and "succeeds (write_ok (Suc n) s) m"
  shows "succeeds (conn_inv (Suc n)) (rbind m (\<lambda>(r, s1). lost_on_error env cfg now r (st\<lparr>st_session := Some s1\<rparr>)))"
proof (rule succeeds_rbind [OF assms(4)])
  fix x assume "write_ok (Suc n) s x"
  then have "conn_inv (Suc n) (st\<lparr>st_session := Some (snd x)\<rparr>)"
    using conn_inv_session [OF assms(1,2)] by (simp add: write_ok_def)
  then show "succeeds (conn_inv (Suc n))
      (case x of (r, s1) \<Rightarrow> lost_on_error env cfg now r (st\<lparr>st_session := Some s1\<rparr>))"
    using assms(3) by (auto simp: case_prod_unfold intro!: lost_on_error_ok)
qed

lemma on_command_ok:
  assumes "conn_inv n st" "n + 2 < ID_CYCLE"
  shows "succeeds (conn_inv (Suc n)) (on_command env cfg now at c st)"
proof -
  have td: "succeeds (torn_down st) (teardown_session env now st)"
    using teardown_session_ok [OF assms(1)] assms(2) by simp
  have other: "succeeds (conn_inv (Suc n)) (case st_session st of None \<Rightarrow> Inr st
      | Some s \<Rightarrow> rbind (handle_command env now c' s) (\<lambda>(r, s1).
          lost_on_error env cfg now r (st\<lparr>st_session := Some s1\<rparr>)))"
    if "c' \<noteq> Shutdown" "\<And>d. c' \<noteq> Select d" for c'
  proof (cases "st_session st")
    case None
    then show ?thesis using conn_inv_mono [OF assms(1), of "Suc n"] by simp
  next
    case (Some s)
    then have "session_ok n s" using assms(1) by (simp add: conn_inv_def)
    then have "succeeds (write_ok (Suc n) s) (handle_command env now c' s)"
      using assms(2) that by (intro handle_command_ok) auto
    then show ?thesis
      using write_then_lost_ok [OF assms(1) Some assms(2)] Some by simp
  qed
  show ?thesis
  proof (cases c)
    case (Select device)
    have "succeeds (conn_inv (Suc n)) (rbind (teardown_session env now st) (\<lambda>st1.
        case establish env cfg now at device (st1\<lparr>st_reconnect := None, st_desired := Some device\<rparr>) of
          (Inl err, st2) \<Rightarrow> Inr ((emit [EvError err] st2)\<lparr>st_desired := None\<rparr>)
        | (Inr _, st2) \<Rightarrow> Inr st2))"
    proof (rule succeeds_rbind [OF td])
      fix st1 assume t: "torn_down st st1"
      let ?st1 = "st1\<lparr>st_reconnect := None, st_desired := Some device\<rparr>"
      have i: "conn_inv 0 ?st1" "st_session ?st1 = None" "st_reconnect ?st1 = None" "st_desired ?st1 = Some device"
        using t by (auto simp: torn_down_def conn_inv_def)
      obtain r st2 where e: "establish env cfg now at device ?st1 = (r, st2)" by fastforce
      show "succeeds (conn_inv (Suc n)) (case establish env cfg now at device ?st1 of
          (Inl err, st2) \<Rightarrow> Inr ((emit [EvError err] st2)\<lparr>st_desired := None\<rparr>) | (Inr _, st2) \<Rightarrow> Inr st2)"
        using establish_ok [OF i e] conn_inv_mono [of 0 st2 "Suc n"] e
        by (cases r) (auto simp: conn_inv_def emit_def session_log_append)
    qed
    with Select show ?thesis by (simp add: on_command_def)
  next
    case Shutdown
    have "succeeds (conn_inv (Suc n)) (rbind (teardown_session env now st) (\<lambda>st1. Inr (st1\<lparr>st_running := False\<rparr>)))"
      by (rule succeeds_rbind [OF td]) (auto simp: torn_down_def conn_inv_def)
    with Shutdown show ?thesis by (simp add: on_command_def)
  qed (auto simp: on_command_def intro!: other)
qed

lemma on_frame_ok:
  assumes "conn_inv n st" "n + 2 < ID_CYCLE"
  shows "succeeds (conn_inv (Suc n)) (on_frame env cfg now payload st)"
proof (cases "st_session st")
  case None
  then show ?thesis using conn_inv_mono [OF assms(1), of "Suc n"] by (simp add: on_frame_def)
next
  case (Some s)
  then have s: "session_ok n s" using assms(1) by (simp add: conn_inv_def)
  obtain a s1 where r: "route_inbound env payload s = (a, s1)" by fastforce
  note ok = route_inbound_ok [OF s r]
  define st1 where "st1 = (case a of
      ActPong \<Rightarrow> st\<lparr>st_watchdog := map_option (\<lambda>_. now + watchdog_timeout cfg) (st_watchdog st)\<rparr>
    | ActEvents evs \<Rightarrow> emit evs st | ActIgnore \<Rightarrow> st)"
  have st1: "conn_inv n st1" "st_session st1 = Some s"
    using assms(1) Some
      route_inbound_events [of env payload s _ s1] r session_log_neutral
    by (auto simp: st1_def conn_inv_def emit_def session_log_append split: inbound_action.splits)
  have due: "succeeds (write_ok (Suc n) s) (dispatch_pending env now p (s1\<lparr>ss_pending_command := None\<rparr>))"
    if "ss_phase s1 = Ready" for p
  proof (cases p)
    case (PendingLoad c t k)
    have "succeeds (write_ok (Suc n) (s1\<lparr>ss_pending_command := None\<rparr>))
        (send_load env now c t k (s1\<lparr>ss_pending_command := None\<rparr>))"
      using ok that assms(2) by (intro send_load_ok) (auto simp: routed_ok_def)
    then show ?thesis
      unfolding PendingLoad dispatch_pending.simps
      by (rule succeeds_mono) (use ok in \<open>auto simp: write_ok_def routed_ok_def\<close>)
  qed
  show ?thesis
  proof (cases "ss_phase s1 = Ready \<and> ss_pending_command s1 \<noteq> None")
    case True
    then show ?thesis
      using Some r write_then_lost_ok [OF st1 assms(2) due] by (auto simp: on_frame_def st1_def [symmetric])
  next
    case False
    then have "session_ok n s1"
      using ok by (cases s1) (auto simp: routed_ok_def)
    then have "conn_inv (Suc n) (st1\<lparr>st_session := Some s1\<rparr>)"
      using conn_inv_session [OF st1, of n s1] ok conn_inv_mono [of n _ "Suc n"] by (simp add: routed_ok_def)
    then show ?thesis
      using False Some r by (auto simp: on_frame_def st1_def [symmetric] split: option.splits)
  qed
qed

lemma timers_ok:
  assumes "conn_inv n st" "n + 2 < ID_CYCLE"
  shows "succeeds (conn_inv (Suc n)) (on_reader_gone env cfg now st)"
    and "succeeds (conn_inv (Suc n)) (on_watchdog env cfg now st)"
    and "succeeds (conn_inv (Suc n)) (on_heartbeat env cfg now st)"
proof -
  have lost: "succeeds (conn_inv (Suc n)) (connection_lost env cfg now st')"
    if "conn_inv n st'" "st_session st' \<noteq> None" for st'
    using connection_lost_ok [OF that(1) _ that(2), of env cfg now] assms(2)
    by (auto intro: succeeds_mono conn_inv_mono)
  show "succeeds (conn_inv (Suc n)) (on_reader_gone env cfg now st)"
    "succeeds (conn_inv (Suc n)) (on_watchdog env cfg now st)"
    using lost [OF assms(1)] assms(1) by (auto simp: on_reader_gone_def on_watchdog_def conn_inv_def)
  show "succeeds (conn_inv (Suc n)) (on_heartbeat env cfg now st)"
  proof (cases "st_session st")
    case None
    then show ?thesis using assms(1) by (simp add: on_heartbeat_def conn_inv_def)
  next
    case (Some s)
    obtain r tr where send: "session_send s (encode_cast_message SOURCE_ID TRANSPORT_ID HEARTBEAT_NS
        (ping (ce_json env))) = (r, s\<lparr>ss_transport := tr\<rparr>)" by (rule session_send_cases)
    have i: "conn_inv n (st\<lparr>st_session := Some (s\<lparr>ss_transport := tr\<rparr>)\<rparr>)"
      using assms(1) Some by (simp add: conn_inv_def)
    show ?thesis
    proof (cases r)
      case (Inl e)
      then show ?thesis using lost [OF i] Some send by (simp add: on_heartbeat_def)
    next
      case (Inr u)
      then show ?thesis
        using conn_inv_mono [OF i, of "Suc n"] Some send by (simp add: on_heartbeat_def conn_inv_def)
    qed
  qed
qed

lemma on_reconnect_ok:
  assumes "conn_inv n st"
  shows "succeeds (conn_inv (Suc n)) (on_reconnect env cfg now at st)"
proof (cases "st_reconnect st")
  case None
  then show ?thesis using conn_inv_mono [OF assms, of "Suc n"] by (simp add: on_reconnect_def)
next
  case (Some r)
  let ?st = "st\<lparr>st_reconnect := None\<rparr>"
  have i: "conn_inv n ?st" "st_session ?st = None" "st_reconnect ?st = None" "st_desired ?st = Some (rc_device r)"
    using assms Some by (auto simp: conn_inv_def split: option.splits)
  obtain res st1 where e: "establish env cfg now at (rc_device r) ?st = (res, st1)" by fastforce
  show ?thesis
    using establish_ok [OF i e] e Some conn_inv_mono [of 0 _ "Suc n"] schedule_ok [of 0 st1 "rc_device r"]
    by (cases res) (auto simp: on_reconnect_def)
qed

lemma expire_ok: "session_ok n s \<Longrightarrow> session_ok n (s\<lparr>ss_pending := snd (expire (ss_pending s) now)\<rparr>)"
  using pending_inv_expire [of "ss_pending s" now]
  by (auto simp: session_ok_def expire_def intro: order_trans [OF length_filter_le])

lemma reap_ok: "conn_inv n st \<Longrightarrow> conn_inv n (reap now st)"
  using expire_ok by (cases "st_session st") (auto simp: reap_def conn_inv_def)

lemma conn_step_ok:
  assumes "conn_inv n st" "n + 2 < ID_CYCLE"
  shows "succeeds (conn_inv (Suc n)) (conn_step env cfg st inp)"
proof -
  obtain now at i where inp: "inp = (now, at, i)" by (cases inp)
  have "succeeds (conn_inv (Suc n)) (rbind (teardown_session env now st)
      (\<lambda>st1. Inr (st1\<lparr>st_triggered := True, st_running := False\<rparr>)))"
    using assms by (intro succeeds_rbind [OF teardown_session_ok [OF assms(1)]])
      (auto simp: torn_down_def conn_inv_def)
  moreover have "conn_inv (Suc n) st" "conn_inv (Suc n) (st\<lparr>st_running := False\<rparr>)"
    "conn_inv (Suc n) (st\<lparr>st_triggered := True\<rparr>)"
    using conn_inv_mono [OF assms(1), of "Suc n"] by (cases "st_session st"; simp add: conn_inv_def)+
  ultimately show ?thesis
    using on_command_ok [OF assms] on_frame_ok [OF assms] timers_ok [OF assms] on_reconnect_ok [OF assms(1)]
    by (cases i) (auto simp: inp conn_step_def intro!: reap_ok succeeds_rbind [where P = "conn_inv (Suc n)"])
qed

lemma conn_run_ok:
  "conn_inv n st \<Longrightarrow> n + length is + 2 < ID_CYCLE \<Longrightarrow>
   succeeds (conn_inv (n + length is)) (conn_run env cfg st is)"
proof (induction "is" arbitrary: n st)
  case (Cons i "is")
  have "succeeds (conn_inv (n + length (i # is))) (rbind (conn_step env cfg st i) (\<lambda>st1. conn_run env cfg st1 is))"
    using Cons.prems Cons.IH [of "Suc n"]
    by (intro succeeds_rbind [OF conn_step_ok [OF Cons.prems(1)]]) auto
  then show ?case by simp
qed simp

lemma conn_inv_new: "conn_inv n run_state_new"
  by (simp add: conn_inv_def run_state_new_def)

end
