(* ===== verification/Connection_Properties.thy ===== *)
theory Connection_Properties
  imports Connection
begin

text \<open>
  What the connection state machine guarantees: it never panics and keeps its timers with its
  session, the backend sees matching connects and disconnects, a lost connection is retried
  exactly as often as the policy says, a \<open>LOAD\<close> issued before the launch reaches the receiver,
  teardown sends its messages in order, and what does and does not feed the watchdog.
\<close>

section \<open>Safety of all runs\<close>

lemma conn_run_reachable:
  assumes "length inputs + 2 < ID_CYCLE"
  obtains st where "conn_run env cfg run_state_new inputs = Inr st" "conn_inv (length inputs) st"
  using conn_run_ok [OF conn_inv_new [of 0], of inputs env cfg] assms by (auto simp: succeeds_def)

text \<open>C1: the connection task never panics: for every sequence of commands, frames, timer firings,
  write failures and connect outcomes, fewer than \<open>2 ^ 32 - 3\<close> of them, the loop's state is
  defined, and it keeps its invariant: with a session come its heartbeat, watchdog and inbound
  channel and no pending reconnect; without one, none of these; media commands run only when the
  application's transport and session IDs are known; a queued \<open>LOAD\<close> exists only while
  launching.\<close>

theorem connection_never_panics:
  assumes "length inputs + 2 < 2 ^ 32 - 1"
  shows "\<exists>st. conn_run env cfg run_state_new inputs = Inr st \<and> conn_inv (length inputs) st"
  using conn_run_reachable [of inputs env cfg] assms by (auto simp: ID_CYCLE_def)

text \<open>A concrete run: a receiver is selected, a \<open>LOAD\<close> is issued, the watchdog fires.\<close>

definition toy_json :: "unit json_api" where
  "toy_json = \<lparr>j_from_str = (\<lambda>_. None), j_to_string = (\<lambda>_. []), j_get = (\<lambda>_ _. None),
     j_is_object = (\<lambda>_. False), j_as_str = (\<lambda>_. None), j_as_u64 = (\<lambda>_. None), j_as_f32 = (\<lambda>_. None),
     j_as_bool = (\<lambda>_. None), j_as_array = (\<lambda>_. None), j_object = (\<lambda>_. ()), j_str = (\<lambda>_. ()),
     j_u32 = (\<lambda>_. ()), j_f32 = (\<lambda>_. ()), j_bool = (\<lambda>_. ())\<rparr>"

definition toy_env :: "unit cast_env" where
  "toy_env = \<lparr>ce_json = toy_json, ce_version = str ''0.1.0''\<rparr>"

definition toy_device :: cast_device where
  "toy_device = from_manual_addr (str ''10.0.0.7:8009'')"

definition no_attempt :: attempt where
  "no_attempt = \<lparr>at_connect = None, at_spawn = False\<rparr>"

definition toy_attempt :: attempt where
  "toy_attempt = \<lparr>at_connect = Some (\<lparr>tr_sent = [], tr_closed = False, tr_script = []\<rparr>, Pinned), at_spawn = True\<rparr>"

theorem connection_never_panics_witness:
  "\<exists>st. conn_run toy_env default_config run_state_new
     [(0, toy_attempt, InCommand (Select toy_device)), (1, no_attempt, InCommand (Load [] [] Live)),
      (2, no_attempt, InWatchdog)] = Inr st \<and> conn_inv 3 st"
  using connection_never_panics [of "[(0, toy_attempt, InCommand (Select toy_device)),
      (1, no_attempt, InCommand (Load [] [] Live)), (2, no_attempt, InWatchdog)]" toy_env default_config]
  by (simp add: numeral_3_eq_3)

text \<open>The backend's view of sessions is consistent: in the events of every run, connects and
  disconnects alternate, a disconnect names the device of the connect before it, and the last
  connect is open exactly while the task holds a session, for that device.\<close>

theorem connects_and_disconnects_match:
  assumes "length inputs + 2 < 2 ^ 32 - 1"
    and "conn_run env cfg run_state_new inputs = Inr st"
  shows "session_log None (st_events st) = Some (map_option ss_device (st_session st))"
proof -
  obtain st' where "conn_run env cfg run_state_new inputs = Inr st'" "conn_inv (length inputs) st'"
    using conn_run_reachable [of inputs env cfg] assms(1) by (auto simp: ID_CYCLE_def)
  with assms(2) show ?thesis by (simp add: conn_inv_def)
qed

theorem connects_and_disconnects_match_witness:
  "session_log None (st_events run_state_new) = Some (map_option ss_device (st_session run_state_new))"
  by (rule connects_and_disconnects_match [of "[]" toy_env default_config]) simp_all

section \<open>Reconnecting\<close>

definition advance :: "backoff \<Rightarrow> backoff" where
  "advance b = snd (backoff_next b)"

lemma failed_reconnect:
  assumes "st_running st" "st_session st = None" "st_reconnect st = Some r" "at_connect at = None"
  shows "conn_step env cfg st (now, at, InReconnect) =
    Inr (schedule now (rc_device r) (rc_backoff r) (rc_attempts r + 1) (st\<lparr>st_reconnect := None\<rparr>))"
  using assms
  by (auto simp: conn_step_def enabled_def on_reconnect_def establish_def reap_def schedule_def emit_def
      split: prod.splits option.splits)

lemma schedule_fields:
  "st_running (schedule now d bo k st) = st_running st" "st_session (schedule now d bo k st) = st_session st"
  by (auto simp: schedule_def emit_def split: prod.splits option.splits)

lemma schedule_Some:
  "0 < bo_remaining bo \<Longrightarrow> schedule now d bo k st = st\<lparr>st_reconnect := Some \<lparr>rc_delay = now + bo_next bo,
     rc_device = d, rc_backoff = advance bo, rc_attempts = k\<rparr>\<rparr>"
  by (simp add: schedule_def backoff_next_def advance_def)

lemma schedule_None:
  "bo_remaining bo = 0 \<Longrightarrow> schedule now d bo k st =
     (emit [EvError (ReconnectExhausted (cd_name d) (cd_addr d) k)] st)\<lparr>st_desired := None\<rparr>"
  by (simp add: schedule_def backoff_next_def)

definition fail_at :: "instant \<Rightarrow> instant \<times> attempt \<times> conn_input" where
  "fail_at t = (t, no_attempt, InReconnect)"

text \<open>The state after the first \<open>k\<close> of a series of failing attempts.\<close>

lemma failing_attempts:
  assumes "st_running st" "st_session st = None" "st_reconnect st = Some r"
    and "length ts \<le> bo_remaining (rc_backoff r)"
  shows "\<exists>st'. conn_run env cfg st (map fail_at ts) = Inr st' \<and> st_running st' \<and> st_session st' = None \<and>
    st_events st' = st_events st \<and> st_desired st' = st_desired st \<and>
    (\<exists>r'. st_reconnect st' = Some r' \<and> rc_device r' = rc_device r \<and> rc_attempts r' = rc_attempts r + length ts \<and>
      rc_backoff r' = (advance ^^ length ts) (rc_backoff r) \<and>
      (ts \<noteq> [] \<longrightarrow> rc_delay r' = last ts + bo_next ((advance ^^ (length ts - 1)) (rc_backoff r))))"
  using assms
proof (induction ts arbitrary: st r)
  case (Cons t ts)
  have pos: "0 < bo_remaining (rc_backoff r)" using Cons.prems(4) by simp
  let ?r1 = "\<lparr>rc_delay = t + bo_next (rc_backoff r), rc_device = rc_device r, rc_backoff = advance (rc_backoff r),
    rc_attempts = rc_attempts r + 1\<rparr>"
  let ?st1 = "st\<lparr>st_reconnect := Some ?r1\<rparr>"
  have step: "conn_step env cfg st (fail_at t) = Inr ?st1"
    using failed_reconnect [OF Cons.prems(1-3), of no_attempt env cfg t] schedule_Some [OF pos]
    by (simp add: fail_at_def no_attempt_def)
  have "bo_remaining (advance (rc_backoff r)) = bo_remaining (rc_backoff r) - 1"
    using pos by (simp add: backoff_next_def advance_def)
  then have le: "length ts \<le> bo_remaining (rc_backoff ?r1)" using Cons.prems(4) by simp
  obtain st' r' where ih: "conn_run env cfg ?st1 (map fail_at ts) = Inr st'" "st_running st'"
    "st_session st' = None" "st_events st' = st_events st" "st_desired st' = st_desired st"
    "st_reconnect st' = Some r'" "rc_device r' = rc_device r" "rc_attempts r' = rc_attempts r + 1 + length ts"
    "rc_backoff r' = (advance ^^ length ts) (advance (rc_backoff r))"
    "ts \<noteq> [] \<longrightarrow> rc_delay r' = last ts + bo_next ((advance ^^ (length ts - 1)) (advance (rc_backoff r)))"
    using Cons.IH [of ?st1 ?r1, OF _ _ _ le] Cons.prems by auto
  have delay: "rc_delay r' = last (t # ts) + bo_next ((advance ^^ length ts) (rc_backoff r))"
  proof (cases ts)
    case Nil
    then show ?thesis using ih(1,6) by auto
  next
    case (Cons u us)
    then show ?thesis using ih(10) by (simp add: funpow_swap1)
  qed
  show ?case
    using step ih delay by (intro exI [of _ st']) (auto simp: funpow_swap1)
qed simp

lemma conn_run_append:
  "conn_run env cfg st (xs @ ys) = rbind (conn_run env cfg st xs) (\<lambda>st1. conn_run env cfg st1 ys)"
proof (induction xs arbitrary: st)
  case (Cons x xs)
  then show ?case by (cases "conn_step env cfg st x") auto
qed simp

lemma advance_default:
  "k \<le> 4 \<Longrightarrow> (advance ^^ k) backoff_new =
     \<lparr>bo_next = from_secs (2 ^ k), bo_cap = from_secs 30, bo_remaining = 5 - k\<rparr>"
proof (induction k)
  case 0
  then show ?case by (simp add: backoff_new_def with_params_def DEFAULT_INITIAL_def DEFAULT_CAP_def DEFAULT_MAX_def)
next
  case (Suc k)
  then have "k \<in> {0, 1, 2, 3}" by auto
  then have "min (saturating_mul (from_secs (2 ^ k)) 2) (from_secs 30) = from_secs (2 ^ Suc k)"
    by (auto simp: from_secs_def saturating_mul_def DURATION_MAX_def)
  with Suc show ?case by (simp add: advance_def backoff_next_def Suc_diff_Suc)
qed

lemma teardown_fields:
  "teardown_session env now st = Inr st' \<Longrightarrow> st_session st' = None \<and> st_desired st' = st_desired st \<and>
     st_reconnect st' = st_reconnect st \<and> st_running st' = st_running st"
  by (auto simp: teardown_session_def emit_def rbind_eq_Inr split: option.splits)

text \<open>The first five schedules after a loss, under the default configuration.\<close>

lemma attempts_after_loss:
  assumes "connection_lost env default_config t0 st0 = Inr st" "st_running st0" "st_desired st0 = Some d"
    and "length ts = 4" "k \<le> 4"
  shows "\<exists>st' r. conn_run env default_config st (map fail_at (take k ts)) = Inr st' \<and> st_running st' \<and>
      st_session st' = None \<and> st_desired st' = Some d \<and>
      st_reconnect st' = Some r \<and> rc_device r = d \<and> rc_attempts r = k \<and> st_events st' = st_events st \<and>
      rc_backoff r = (advance ^^ Suc k) backoff_new \<and> rc_delay r = (t0 # ts) ! k + from_secs (2 ^ k)"
proof -
  obtain st1 where td: "teardown_session env t0 st0 = Inr st1"
    using assms(1) by (auto simp: connection_lost_def rbind_eq_Inr)
  note f = teardown_fields [OF td]
  have st1: "st = schedule t0 d backoff_new 0 st1"
    using assms(1,3) td f by (simp add: connection_lost_def default_config_def)
  have new: "bo_remaining backoff_new = 5" "bo_next backoff_new = from_secs (2 ^ 0)"
    by (simp_all add: backoff_new_def with_params_def DEFAULT_INITIAL_def DEFAULT_MAX_def)
  define r where "r = \<lparr>rc_delay = t0 + from_secs (2 ^ 0), rc_device = d, rc_backoff = advance backoff_new, rc_attempts = 0\<rparr>"
  have st: "st = st1\<lparr>st_reconnect := Some r\<rparr>"
    using st1 schedule_Some [of backoff_new t0 d 0 st1] new by (simp add: r_def)
  then have r: "st_reconnect st = Some r" and live: "st_running st" "st_session st = None" "st_desired st = Some d"
    using assms(2,3) f by simp_all
  have rem: "bo_remaining (rc_backoff r) = 4"
    using advance_default [of 1] by (simp add: r_def)
  have pow: "(advance ^^ k) (rc_backoff r) = (advance ^^ Suc k) backoff_new" for k
    by (simp add: r_def funpow_swap1)
  have len: "length (take k ts) = k" using assms(4,5) by simp
  obtain st' r' where s: "conn_run env default_config st (map fail_at (take k ts)) = Inr st'" "st_running st'"
    "st_session st' = None" "st_events st' = st_events st" "st_desired st' = st_desired st"
    "st_reconnect st' = Some r'" "rc_device r' = rc_device r" "rc_attempts r' = rc_attempts r + k"
    "rc_backoff r' = (advance ^^ k) (rc_backoff r)"
    "take k ts \<noteq> [] \<longrightarrow> rc_delay r' = last (take k ts) + bo_next ((advance ^^ (k - 1)) (rc_backoff r))"
    using failing_attempts [OF live(1,2) r, of "take k ts" env default_config] rem assms(5) len by auto
  have "rc_delay r' = (t0 # ts) ! k + from_secs (2 ^ k)"
  proof (cases k)
    case 0
    then show ?thesis using s(1,6) r by (auto simp: r_def)
  next
    case (Suc j)
    have "last (take k ts) = ts ! j" using Suc assms(4,5) by (simp add: take_Suc_conv_app_nth)
    then show ?thesis using s(10) Suc pow [of j] advance_default [of k] assms(4,5) by auto
  qed
  with s pow live(3) show ?thesis by (auto simp: r_def)
qed

text \<open>C14: a lost connection is retried exactly five times. Under the default configuration, after a
  loss attempt \<open>k + 1\<close> is scheduled \<open>2 ^ k\<close> seconds after the failure before it (1, 2, 4, 8 and
  16 s), with the same device and nothing told to the backend; when the fifth attempt fails too,
  the one error reported says 5 attempts, and the task waits for a new selection.\<close>

theorem reconnect_five_times:
  assumes "connection_lost env default_config t0 st0 = Inr st" "st_running st0" "st_desired st0 = Some d"
    and "length ts = 4"
  shows "(\<forall>k \<le> 4. \<exists>st' r. conn_run env default_config st (map fail_at (take k ts)) = Inr st' \<and>
      st_reconnect st' = Some r \<and> rc_device r = d \<and> rc_attempts r = k \<and> st_events st' = st_events st \<and>
      rc_delay r = (t0 # ts) ! k + from_secs (2 ^ k)) \<and>
    (\<exists>st'. conn_run env default_config st (map fail_at (ts @ [t5])) = Inr st' \<and> st_reconnect st' = None \<and>
      st_desired st' = None \<and> st_session st' = None \<and>
      st_events st' = st_events st @ [EvError (ReconnectExhausted (cd_name d) (cd_addr d) 5)])"
proof -
  note each = attempts_after_loss [OF assms]
  obtain st4 r4 where s4: "conn_run env default_config st (map fail_at ts) = Inr st4" "st_running st4"
    "st_session st4 = None" "st_reconnect st4 = Some r4" "rc_device r4 = d" "rc_attempts r4 = 4"
    "st_events st4 = st_events st" "rc_backoff r4 = (advance ^^ 5) backoff_new"
    using each [of 4] assms(4) by (auto simp: numeral_eq_Suc)
  have "(advance ^^ 5) backoff_new = advance ((advance ^^ 4) backoff_new)" by (simp add: numeral_eq_Suc)
  then have "bo_remaining (rc_backoff r4) = 0"
    using s4(8) advance_default [of 4] by (simp add: advance_def backoff_next_def)
  then have "conn_step env default_config st4 (fail_at t5) =
      Inr ((emit [EvError (ReconnectExhausted (cd_name d) (cd_addr d) 5)] (st4\<lparr>st_reconnect := None\<rparr>))\<lparr>st_desired := None\<rparr>)"
    using failed_reconnect [OF s4(2-4), of no_attempt env default_config t5] s4(5,6)
      schedule_None [of "rc_backoff r4" t5 d 5]
    by (simp add: fail_at_def no_attempt_def)
  then show ?thesis
    using each s4 by (auto simp: conn_run_append emit_def) blast
qed

theorem reconnect_five_times_witness:
  "\<exists>st'. conn_run toy_env default_config
      (schedule 0 toy_device backoff_new 0 (run_state_new\<lparr>st_desired := Some toy_device\<rparr>))
      (map fail_at ([1, 3, 7, 15] @ [31])) = Inr st' \<and>
    st_events st' = [EvError (ReconnectExhausted (cd_name toy_device) (cd_addr toy_device) 5)]"
proof -
  let ?st0 = "run_state_new\<lparr>st_desired := Some toy_device\<rparr>"
  have "connection_lost toy_env default_config 0 ?st0 = Inr (schedule 0 toy_device backoff_new 0 ?st0)"
    by (simp add: connection_lost_def teardown_session_def run_state_new_def default_config_def)
  note five = reconnect_five_times [OF this, of toy_device "[1, 3, 7, 15]" 31, THEN conjunct2]
  have "st_events (schedule 0 toy_device backoff_new 0 ?st0) = []" "st_running ?st0"
    by (simp_all add: schedule_def backoff_next_def backoff_new_def with_params_def DEFAULT_MAX_def run_state_new_def)
  with five show ?thesis by force
qed

section \<open>What is written\<close>

definition quiet :: "transport \<Rightarrow> bool" where
  "quiet tr \<longleftrightarrow> list_all (\<lambda>x. x = SendOk) (tr_script tr)"

definition framed :: "rstring \<Rightarrow> rstring \<Rightarrow> rstring \<Rightarrow> bytes" where
  "framed dest ns msg = encode_frame (encode_cast_message SOURCE_ID dest ns msg)"

text \<open>On a transport that takes all writes, a send appends one frame.\<close>

lemma session_send_quiet:
  assumes "quiet (ss_transport s)"
  obtains tr where "session_send s (encode_cast_message SOURCE_ID dest ns msg) = (Inr (), s\<lparr>ss_transport := tr\<rparr>)"
    and "tr_sent tr = tr_sent (ss_transport s) @ framed dest ns msg" "quiet tr"
proof (cases "tr_script (ss_transport s)")
  case Nil
  then show ?thesis
    by (intro that [of "(ss_transport s)\<lparr>tr_sent := tr_sent (ss_transport s) @ framed dest ns msg\<rparr>"])
      (simp_all add: session_send_def send_payload_def framed_def quiet_def)
next
  case (Cons a sc)
  then show ?thesis using assms
    by (intro that [of "(ss_transport s)\<lparr>tr_sent := tr_sent (ss_transport s) @ framed dest ns msg, tr_script := sc\<rparr>"])
      (simp_all add: session_send_def send_payload_def framed_def quiet_def)
qed

lemma teardown_messages_quiet:
  assumes "session_ok n s" "n + 1 < ID_CYCLE" "quiet (ss_transport s)" "ss_session_id s = Some sid"
  shows "\<exists>i j s'. teardown_messages env now s = Inr s' \<and> ss_device s' = ss_device s \<and> j \<noteq> 0 \<and>
    tr_sent (ss_transport s') = tr_sent (ss_transport s) @
      (if ss_phase s = Streaming then framed (media_destination s) MEDIA_NS (stop_msg (ce_json env) i) else []) @
      framed RECEIVER_ID RECEIVER_NS (stop_app (ce_json env) j sid)"
proof -
  have "\<exists>i s2. (if ss_phase s = Streaming then
        rbind (next_request now s) (\<lambda>(i, s1).
          Inr (snd (session_send s1 (encode_cast_message SOURCE_ID (media_destination s1) MEDIA_NS
            (stop_msg (ce_json env) i)))))
      else Inr s) = Inr s2 \<and> session_ok (Suc n) s2 \<and> ss_device s2 = ss_device s \<and> quiet (ss_transport s2) \<and>
      tr_sent (ss_transport s2) = tr_sent (ss_transport s) @
        (if ss_phase s = Streaming then framed (media_destination s) MEDIA_NS (stop_msg (ce_json env) i) else [])"
  proof (cases "ss_phase s = Streaming")
    case True
    obtain i r p where nr: "next_request now s = Inr (i, s\<lparr>ss_request_id := r, ss_pending := p\<rparr>)"
      "session_ok (Suc n) (s\<lparr>ss_request_id := r, ss_pending := p\<rparr>)"
      using next_request_ok [OF assms(1)] assms(2) by (metis add_lessD1)
    let ?s1 = "s\<lparr>ss_request_id := r, ss_pending := p\<rparr>"
    have q: "quiet (ss_transport ?s1)" using assms(3) by simp
    obtain tr where "session_send ?s1 (encode_cast_message SOURCE_ID (media_destination ?s1) MEDIA_NS
        (stop_msg (ce_json env) i)) = (Inr (), ?s1\<lparr>ss_transport := tr\<rparr>)"
      "tr_sent tr = tr_sent (ss_transport ?s1) @ framed (media_destination ?s1) MEDIA_NS (stop_msg (ce_json env) i)"
      "quiet tr" by (rule session_send_quiet [OF q])
    moreover have "media_destination ?s1 = media_destination s" by (simp add: media_destination_def)
    ultimately show ?thesis
      using True nr by (intro exI [of _ i] exI [of _ "?s1\<lparr>ss_transport := tr\<rparr>"]) simp
  next
    case False
    then show ?thesis using assms(1,3) session_ok_mono by (auto simp: le_Suc_eq)
  qed
  then obtain i s2 where s2: "(if ss_phase s = Streaming then
        rbind (next_request now s) (\<lambda>(i, s1).
          Inr (snd (session_send s1 (encode_cast_message SOURCE_ID (media_destination s1) MEDIA_NS
            (stop_msg (ce_json env) i)))))
      else Inr s) = Inr s2" "session_ok (Suc n) s2" "ss_device s2 = ss_device s" "quiet (ss_transport s2)"
      "tr_sent (ss_transport s2) = tr_sent (ss_transport s) @
        (if ss_phase s = Streaming then framed (media_destination s) MEDIA_NS (stop_msg (ce_json env) i) else [])"
    by blast
  obtain j r p where nr: "next_request now s2 = Inr (j, s2\<lparr>ss_request_id := r, ss_pending := p\<rparr>)" "j \<noteq> 0"
    using next_request_ok [OF s2(2)] assms(2) by (metis Suc_eq_plus1)
  let ?s3 = "s2\<lparr>ss_request_id := r, ss_pending := p\<rparr>"
  have q: "quiet (ss_transport ?s3)" using s2(4) by simp
  obtain tr where "session_send ?s3 (encode_cast_message SOURCE_ID RECEIVER_ID RECEIVER_NS
      (stop_app (ce_json env) j sid)) = (Inr (), ?s3\<lparr>ss_transport := tr\<rparr>)"
    "tr_sent tr = tr_sent (ss_transport ?s3) @ framed RECEIVER_ID RECEIVER_NS (stop_app (ce_json env) j sid)"
    by (rule session_send_quiet [OF q])
  then show ?thesis
    using assms(4) s2 nr
    by (intro exI [of _ i] exI [of _ j] exI [of _ "?s3\<lparr>ss_transport := tr\<rparr>"])
      (simp add: teardown_messages_def)
qed

text \<open>Teardown is orderly. When a session with a launched application ends, for whatever reason,
  the receiver is sent the media \<open>STOP\<close> if media was streaming, then \<open>STOP_APP\<close> for the
  application's session, then the transport is closed; the session, its timers and its inbound
  channel are gone and the backend is told.\<close>

theorem teardown_in_order:
  assumes "conn_inv n st" "n + 1 < 2 ^ 32 - 1" "st_session st = Some s" "ss_session_id s = Some sid"
    and "quiet (ss_transport s)"
  shows "\<exists>st' tr i j. teardown_session env now st = Inr st' \<and>
    st_retired st' = st_retired st @ [tr] \<and> tr_closed tr \<and>
    tr_sent tr = tr_sent (ss_transport s) @
      (if ss_phase s = Streaming then framed (media_destination s) MEDIA_NS (stop_msg (ce_json env) i) else []) @
      framed RECEIVER_ID RECEIVER_NS (stop_app (ce_json env) j sid) \<and>
    st_session st' = None \<and> \<not> st_inbound st' \<and> st_heartbeat st' = None \<and> st_watchdog st' = None \<and>
    st_events st' = st_events st @ [EvDisconnected (ss_device s)]"
proof -
  have "session_ok n s" using assms(1,3) by (simp add: conn_inv_def)
  moreover have "n + 1 < ID_CYCLE" using assms(2) by (simp add: ID_CYCLE_def)
  ultimately obtain i j s' where m: "teardown_messages env now s = Inr s'" "ss_device s' = ss_device s"
    "tr_sent (ss_transport s') = tr_sent (ss_transport s) @
      (if ss_phase s = Streaming then framed (media_destination s) MEDIA_NS (stop_msg (ce_json env) i) else []) @
      framed RECEIVER_ID RECEIVER_NS (stop_app (ce_json env) j sid)"
    using teardown_messages_quiet [OF _ _ assms(5,4), of n env now] by blast
  let ?st' = "emit [EvDisconnected (ss_device s')] (st\<lparr>st_session := None, st_inbound := False,
    st_heartbeat := None, st_watchdog := None, st_retired := st_retired st @ [(ss_transport s')\<lparr>tr_closed := True\<rparr>]\<rparr>)"
  have "teardown_session env now st = Inr ?st'"
    using assms(3) m(1) by (simp add: teardown_session_def)
  then show ?thesis
    using m(2,3)
    by (intro exI [of _ ?st'] exI [of _ "(ss_transport s')\<lparr>tr_closed := True\<rparr>"] exI [of _ i] exI [of _ j])
      (simp add: emit_def)
qed

definition toy_session :: "phase \<Rightarrow> session" where
  "toy_session ph = (session_new toy_device \<lparr>tr_sent = [], tr_closed = False, tr_script = []\<rparr> 5)
     \<lparr>ss_phase := ph, ss_transport_id := Some (str ''web-9''), ss_session_id := Some (str ''s1'')\<rparr>"

definition toy_state :: "phase \<Rightarrow> run_state" where
  "toy_state ph = run_state_new\<lparr>st_session := Some (toy_session ph), st_desired := Some toy_device,
     st_inbound := True, st_heartbeat := Some 5, st_watchdog := Some 10, st_events := [EvConnected toy_device]\<rparr>"

lemma toy_state_inv: "ph \<in> {Connected, Launching, Ready, Streaming} \<Longrightarrow> conn_inv 0 (toy_state ph)"
  by (auto simp: toy_state_def toy_session_def conn_inv_def run_state_new_def session_ok_def session_new_def
      request_id_new_def pending_new_def pending_inv_def)

theorem teardown_in_order_witness:
  "\<exists>st' tr i j. teardown_session toy_env 0 (toy_state Streaming) = Inr st' \<and> st_retired st' = [tr] \<and>
    tr_closed tr \<and> tr_sent tr =
      framed (media_destination (toy_session Streaming)) MEDIA_NS (stop_msg (ce_json toy_env) i) @
      framed RECEIVER_ID RECEIVER_NS (stop_app (ce_json toy_env) j (str ''s1''))"
proof -
  have "st_session (toy_state Streaming) = Some (toy_session Streaming)" "st_retired (toy_state Streaming) = []"
    "ss_session_id (toy_session Streaming) = Some (str ''s1'')" "quiet (ss_transport (toy_session Streaming))"
    "ss_phase (toy_session Streaming) = Streaming" "tr_sent (ss_transport (toy_session Streaming)) = []"
    by (simp_all add: toy_state_def toy_session_def session_new_def run_state_new_def quiet_def)
  with teardown_in_order [of 0 "toy_state Streaming" "toy_session Streaming" "str ''s1''" toy_env 0]
    toy_state_inv [of Streaming] show ?thesis by auto
qed

section \<open>Loading before the launch\<close>

lemma reap_same:
  "st_running (reap now st) = st_running st" "st_events (reap now st) = st_events st"
  by (simp_all add: reap_def)

lemma route_receiver_status:
  assumes "decode_cast_message payload = Inr m"
    and "parse_receiver_status (ce_json env) (payload_utf8 m) = Some status"
  shows "\<exists>v. route_inbound env payload s =
    (ActEvents (fst (apply_receiver_status status (correlate env v s))),
     snd (apply_receiver_status status (correlate env v s)))"
proof -
  obtain v t where v: "j_from_str (ce_json env) (payload_utf8 m) = Some v"
    "j_get (ce_json env) v (str ''type'') = Some t" "j_as_str (ce_json env) t = Some (str ''RECEIVER_STATUS'')"
    using assms(2) by (auto simp: parse_receiver_status_def obind_eq_Some split: if_splits)
  have ne: "str ''RECEIVER_STATUS'' \<noteq> str ''PONG''" by (simp add: str_def)
  show ?thesis
    using assms v ne by (intro exI [of _ v]) (simp add: route_inbound_def get_str_def case_prod_unfold Let_def)
qed

text \<open>The launch that a \<open>LOAD\<close> in the phase \<open>Connected\<close> causes, up to the end of its turn.\<close>

lemma load_launches:
  assumes "conn_inv n st" "n < ID_CYCLE" "st_running st" "st_session st = Some s" "ss_phase s = Connected"
    and "quiet (ss_transport s)"
  shows "\<exists>i s' st'. conn_step env cfg st (t, at, InCommand (Load c ty k)) = Inr st' \<and> st_session st' = Some s' \<and>
    st_running st' \<and> st_inbound st' \<and> ss_phase s' = Launching \<and> ss_pending_command s' = Some (PendingLoad c ty k) \<and>
    quiet (ss_transport s') \<and> i \<noteq> 0 \<and>
    tr_sent (ss_transport s') = tr_sent (ss_transport s) @ framed RECEIVER_ID RECEIVER_NS (launch (ce_json env) i)"
proof -
  have ok: "session_ok n s" using assms(1,4) by (simp add: conn_inv_def)
  obtain i r p where nr: "next_request t s = Inr (i, s\<lparr>ss_request_id := r, ss_pending := p\<rparr>)" "i \<noteq> 0"
    using next_request_ok [OF ok assms(2)] by metis
  let ?s1 = "s\<lparr>ss_request_id := r, ss_pending := p, ss_phase := Launching,
    ss_pending_command := Some (PendingLoad c ty k)\<rparr>"
  have q: "quiet (ss_transport ?s1)" using assms(6) by simp
  obtain tr where tr: "session_send ?s1 (encode_cast_message SOURCE_ID RECEIVER_ID RECEIVER_NS (launch (ce_json env) i)) =
      (Inr (), ?s1\<lparr>ss_transport := tr\<rparr>)"
    "tr_sent tr = tr_sent (ss_transport ?s1) @ framed RECEIVER_ID RECEIVER_NS (launch (ce_json env) i)" "quiet tr"
    by (rule session_send_quiet [OF q])
  have "handle_command env t (Load c ty k) s = Inr (Inr (), ?s1\<lparr>ss_transport := tr\<rparr>)"
    using assms(5) nr(1) tr(1) by (simp add: receiver_request_def)
  then have "conn_step env cfg st (t, at, InCommand (Load c ty k)) =
      Inr (reap t (st\<lparr>st_session := Some (?s1\<lparr>ss_transport := tr\<rparr>)\<rparr>))"
    using assms(3,4) by (simp add: conn_step_def enabled_def on_command_def lost_on_error_def)
  then show ?thesis
    using assms(1,3,4) tr(2,3) nr(2) by (auto simp: reap_def conn_inv_def)
qed

text \<open>The dispatch of the queued \<open>LOAD\<close> when the receiver's status names the application.\<close>

lemma status_dispatches:
  assumes "session_ok n s" "n < ID_CYCLE" "st_running st" "st_inbound st" "st_session st = Some s"
    and "ss_phase s = Launching" "ss_pending_command s = Some (PendingLoad c ty k)" "quiet (ss_transport s)"
    and "decode_cast_message payload = Inr m"
    and "parse_receiver_status (ce_json env) (payload_utf8 m) = Some status"
    and "rs_transport_id status = Some tid" "rs_session_id status = Some sid"
  shows "\<exists>j s' st'. conn_step env cfg st (t, at, InFrame payload) = Inr st' \<and> st_session st' = Some s' \<and>
    ss_phase s' = Streaming \<and> ss_pending_command s' = None \<and> j \<noteq> 0 \<and> EvReady tid sid \<in> set (st_events st') \<and>
    tr_sent (ss_transport s') = tr_sent (ss_transport s) @
      framed (media_destination_id tid) CONNECTION_NS (connect_msg (ce_json env) (ce_version env)) @
      framed (media_destination_id tid) MEDIA_NS (load (ce_json env) j sid c ty k)"
proof -
  obtain v where route: "route_inbound env payload s =
      (ActEvents (fst (apply_receiver_status status (correlate env v s))),
       snd (apply_receiver_status status (correlate env v s)))"
    using route_receiver_status [OF assms(9,10)] by blast
  let ?a = "apply_receiver_status status (correlate env v s)"
  have ready: "EvReady tid sid \<in> set (fst ?a)"
    using assms(6,11,12) by (simp add: apply_receiver_status_def Let_def)
  have s1: "ss_phase (snd ?a) = Ready" "ss_pending_command (snd ?a) = Some (PendingLoad c ty k)"
    "ss_transport (snd ?a) = ss_transport s" "ss_transport_id (snd ?a) = Some tid" "ss_session_id (snd ?a) = Some sid"
    using assms(6,7,11,12) by (simp_all add: apply_receiver_status_session or_else_def)
  let ?s2 = "(snd ?a)\<lparr>ss_pending_command := None\<rparr>"
  have ok: "session_ok n ?s2" using route_inbound_ok [OF assms(1) route] by (simp add: routed_ok_def)
  have dest: "media_destination ?s2 = media_destination_id tid" using s1(4) by (simp add: media_destination_def)
  have q: "quiet (ss_transport ?s2)" using s1(3) assms(8) by simp
  obtain tr where tr: "session_send ?s2 (encode_cast_message SOURCE_ID (media_destination ?s2) CONNECTION_NS
      (connect_msg (ce_json env) (ce_version env))) = (Inr (), ?s2\<lparr>ss_transport := tr\<rparr>)"
    "tr_sent tr = tr_sent (ss_transport ?s2) @
      framed (media_destination ?s2) CONNECTION_NS (connect_msg (ce_json env) (ce_version env))" "quiet tr"
    by (rule session_send_quiet [OF q])
  have ok3: "session_ok n (?s2\<lparr>ss_transport := tr\<rparr>)" using ok by simp
  obtain j r p where nr: "next_request t (?s2\<lparr>ss_transport := tr\<rparr>) =
      Inr (j, ?s2\<lparr>ss_transport := tr, ss_request_id := r, ss_pending := p\<rparr>)" "j \<noteq> 0"
    using next_request_ok [OF ok3 assms(2)] by metis
  let ?s4 = "?s2\<lparr>ss_transport := tr, ss_request_id := r, ss_pending := p, ss_phase := Streaming\<rparr>"
  have q4: "quiet (ss_transport ?s4)" using tr(3) by simp
  obtain tr' where tr': "session_send ?s4 (encode_cast_message SOURCE_ID (media_destination ?s2) MEDIA_NS
      (load (ce_json env) j sid c ty k)) = (Inr (), ?s4\<lparr>ss_transport := tr'\<rparr>)"
    "tr_sent tr' = tr_sent (ss_transport ?s4) @ framed (media_destination ?s2) MEDIA_NS (load (ce_json env) j sid c ty k)"
    by (rule session_send_quiet [OF q4])
  have "send_load env t c ty k ?s2 = Inr (Inr (), ?s4\<lparr>ss_transport := tr'\<rparr>)"
    unfolding send_load_def Let_def tr(1) using nr(1) s1(5) tr'(1) by (simp add: expect_def)
  then have "conn_step env cfg st (t, at, InFrame payload) =
      Inr (reap t ((emit (fst ?a) st)\<lparr>st_session := Some (?s4\<lparr>ss_transport := tr'\<rparr>)\<rparr>))"
    using assms(3-5) route s1(1,2)
    by (simp add: conn_step_def enabled_def on_frame_def lost_on_error_def Let_def)
  then show ?thesis
    using tr(2) tr'(2) dest s1(3) nr(2) ready assms(3)
    by (auto simp: reap_def emit_def intro!: exI [of _ j])
qed

text \<open>C7: \<open>select then play\<close> works: a \<open>LOAD\<close> issued on a connected session before the receiver
  application runs sends \<open>LAUNCH\<close>, and the status that names the application's transport and
  session makes the task announce \<open>Ready\<close>, open the virtual connection to the media channel and
  send the \<open>LOAD\<close> there with that session and the media the user asked for.\<close>

theorem load_before_launch_reaches_receiver:
  assumes "conn_inv n st" "n + 2 < 2 ^ 32 - 1" "st_running st" "st_session st = Some s" "ss_phase s = Connected"
    and "quiet (ss_transport s)"
    and "decode_cast_message payload = Inr m"
    and "parse_receiver_status (ce_json env) (payload_utf8 m) = Some status"
    and "rs_transport_id status = Some tid" "rs_session_id status = Some sid"
  shows "\<exists>i j s' st'. conn_run env cfg st
      [(t1, at1, InCommand (Load c ty k)), (t2, at2, InFrame payload)] = Inr st' \<and>
    st_session st' = Some s' \<and> ss_phase s' = Streaming \<and> ss_pending_command s' = None \<and>
    EvReady tid sid \<in> set (st_events st') \<and> i \<noteq> 0 \<and> j \<noteq> 0 \<and>
    tr_sent (ss_transport s') = tr_sent (ss_transport s) @
      framed RECEIVER_ID RECEIVER_NS (launch (ce_json env) i) @
      framed (media_destination_id tid) CONNECTION_NS (connect_msg (ce_json env) (ce_version env)) @
      framed (media_destination_id tid) MEDIA_NS (load (ce_json env) j sid c ty k)"
proof -
  have n: "n + 2 < ID_CYCLE" "n < ID_CYCLE" "Suc n < ID_CYCLE" using assms(2) by (simp_all add: ID_CYCLE_def)
  obtain i s1 st1 where one: "conn_step env cfg st (t1, at1, InCommand (Load c ty k)) = Inr st1"
    "st_session st1 = Some s1" "st_running st1" "st_inbound st1" "ss_phase s1 = Launching"
    "ss_pending_command s1 = Some (PendingLoad c ty k)" "quiet (ss_transport s1)" "i \<noteq> 0"
    "tr_sent (ss_transport s1) = tr_sent (ss_transport s) @ framed RECEIVER_ID RECEIVER_NS (launch (ce_json env) i)"
    using load_launches [OF assms(1) n(2) assms(3-6)] by metis
  have "conn_inv (Suc n) st1"
    using conn_step_ok [OF assms(1) n(1), of env cfg "(t1, at1, InCommand (Load c ty k))"] one(1) by simp
  then have ok: "session_ok (Suc n) s1" using one(2) by (simp add: conn_inv_def)
  obtain j s2 st2 where two: "conn_step env cfg st1 (t2, at2, InFrame payload) = Inr st2" "st_session st2 = Some s2"
    "ss_phase s2 = Streaming" "ss_pending_command s2 = None" "j \<noteq> 0" "EvReady tid sid \<in> set (st_events st2)"
    "tr_sent (ss_transport s2) = tr_sent (ss_transport s1) @
      framed (media_destination_id tid) CONNECTION_NS (connect_msg (ce_json env) (ce_version env)) @
      framed (media_destination_id tid) MEDIA_NS (load (ce_json env) j sid c ty k)"
    using status_dispatches [OF ok n(3) one(3,4,2,5-7) assms(7-10), of cfg t2 at2] by blast
  show ?thesis
    using one two by (intro exI [of _ i] exI [of _ j] exI [of _ s2] exI [of _ st2]) simp
qed

text \<open>A JSON library whose values are texts and whose every document is the status of one
  application.\<close>

definition status_json :: "rstring json_api" where
  "status_json = \<lparr>j_from_str = (\<lambda>_. Some (str ''root'')), j_to_string = id,
     j_get = (\<lambda>v k. if v = str ''root'' \<and> k = str ''type'' then Some (str ''RECEIVER_STATUS'')
       else if v = str ''root'' then Some (str ''status'')
       else if k = str ''appId'' \<or> k = str ''volume'' then None
       else if k = str ''transportId'' then Some (str ''web-9'')
       else if k = str ''sessionId'' then Some (str ''s1'') else Some (str ''apps'')),
     j_is_object = (\<lambda>_. True), j_as_str = Some, j_as_u64 = (\<lambda>_. None), j_as_f32 = (\<lambda>_. None),
     j_as_bool = (\<lambda>_. None), j_as_array = (\<lambda>_. Some [str ''app'']), j_object = (\<lambda>_. []), j_str = id,
     j_u32 = (\<lambda>_. []), j_f32 = (\<lambda>_. []), j_bool = (\<lambda>_. [])\<rparr>"

definition status_env :: "rstring cast_env" where
  "status_env = \<lparr>ce_json = status_json, ce_version = str ''0.1.0''\<rparr>"

theorem load_before_launch_reaches_receiver_witness:
  "\<exists>s' st'. conn_run status_env default_config (toy_state Connected)
      [(1, no_attempt, InCommand (Load (str ''u'') (str ''video/mp4'') Buffered)), (2, no_attempt, InFrame [])] = Inr st' \<and>
    st_session st' = Some s' \<and> ss_phase s' = Streaming \<and> EvReady (str ''web-9'') (str ''s1'') \<in> set (st_events st')"
proof -
  have m: "decode_cast_message [] = Inr empty_message" by (simp add: decode_cast_message_def decode_loop.simps)
  have p: "parse_receiver_status (ce_json status_env) (payload_utf8 empty_message) =
      Some \<lparr>rs_transport_id = Some (str ''web-9''), rs_session_id = Some (str ''s1''), rs_volume = None\<rparr>"
    by (simp add: parse_receiver_status_def status_env_def status_json_def as_object_def status_application_def
        status_volume_def get_str_def DEFAULT_MEDIA_RECEIVER_APP_ID_def Let_def str_eq_iff)
  have st: "st_running (toy_state Connected)" "st_session (toy_state Connected) = Some (toy_session Connected)"
    "ss_phase (toy_session Connected) = Connected" "quiet (ss_transport (toy_session Connected))"
    by (simp_all add: toy_state_def toy_session_def session_new_def run_state_new_def quiet_def)
  show ?thesis
    using load_before_launch_reaches_receiver [OF toy_state_inv [of Connected] _ st m p,
        of "str ''web-9''" "str ''s1''" default_config 1 no_attempt "str ''u''" "str ''video/mp4''" Buffered 2 no_attempt]
    by auto
qed

text \<open>A \<open>LOAD\<close> that comes while the launch is still under way is dropped: nothing is written,
  nothing is queued, and a \<open>LOAD\<close> queued earlier stays the one that will be sent.\<close>

theorem load_dropped_while_launching:
  assumes "st_running st" "st_session st = Some s" "ss_phase s = Launching"
  shows "conn_step env cfg st (t, at, InCommand (Load c ty k)) = Inr (reap t st)"
  using assms by (cases st) (simp add: conn_step_def enabled_def on_command_def lost_on_error_def)

theorem load_dropped_while_launching_witness:
  "conn_step toy_env default_config (toy_state Launching) (0, no_attempt, InCommand (Load [] [] Live)) =
   Inr (reap 0 (toy_state Launching))"
  by (rule load_dropped_while_launching [where s = "toy_session Launching"])
    (simp_all add: toy_state_def toy_session_def run_state_new_def)

section \<open>The watchdog\<close>

lemma reap_watchdog [simp]: "st_watchdog (reap now st) = st_watchdog st"
  by (simp add: reap_def)

lemma lost_no_session:
  assumes "connection_lost env cfg now st = Inr st'"
  shows "st_session st' = None"
proof -
  obtain st1 where "teardown_session env now st = Inr st1"
    "st' = (case st_desired st1 of None \<Rightarrow> st1 | Some device \<Rightarrow> schedule now device (cfg_backoff cfg) 0 st1)"
    using assms by (auto simp: connection_lost_def rbind_eq_Inr split: option.splits)
  then show ?thesis using teardown_fields by (auto simp: schedule_fields split: option.splits)
qed

lemma lost_on_error_session:
  "lost_on_error env cfg now r st = Inr st' \<Longrightarrow> st_session st' \<noteq> None \<Longrightarrow> st' = st"
  by (auto simp: lost_on_error_def dest: lost_no_session split: sum.splits)

text \<open>Only a \<open>PONG\<close> feeds the watchdog: a frame that is anything else, a status of the receiver
  or of the media included, leaves the watchdog's deadline where it was, and a \<open>PONG\<close> moves it to
  one full timeout from now.\<close>

theorem only_pong_feeds_watchdog:
  assumes "st_running st" "st_inbound st" "st_session st = Some s" "route_inbound env payload s = (a, s1)"
    and "conn_step env cfg st (now, at, InFrame payload) = Inr st'" "st_session st' \<noteq> None"
  shows "st_watchdog st' =
    (if a = ActPong then map_option (\<lambda>_. now + watchdog_timeout cfg) (st_watchdog st) else st_watchdog st)"
proof -
  obtain st2 where st2: "on_frame env cfg now payload st = Inr st2" "st' = reap now st2"
    using assms(1,2,5) by (auto simp: conn_step_def enabled_def rbind_eq_Inr)
  then have "st_session st2 \<noteq> None" using assms(6) by (auto simp: reap_def split: if_splits)
  then have "st_watchdog st2 =
      (if a = ActPong then map_option (\<lambda>_. now + watchdog_timeout cfg) (st_watchdog st) else st_watchdog st)"
    using st2(1) assms(3,4)
    by (cases a)
      (auto simp: on_frame_def emit_def Let_def rbind_eq_Inr split: if_splits option.splits
        dest!: lost_on_error_session)
  with st2(2) show ?thesis by simp
qed

theorem only_pong_feeds_watchdog_witness:
  "st_watchdog (reap 7 (toy_state Ready)) = Some 10"
proof -
  have r: "route_inbound toy_env [] (toy_session Ready) = (ActIgnore, toy_session Ready)"
    by (simp add: route_inbound_def decode_cast_message_def decode_loop.simps toy_env_def toy_json_def Let_def)
  have f: "st_running (toy_state Ready)" "st_inbound (toy_state Ready)" "st_watchdog (toy_state Ready) = Some 10"
    "st_session (toy_state Ready) = Some (toy_session Ready)"
    "ss_pending_command (toy_session Ready) = None"
    by (simp_all add: toy_state_def toy_session_def session_new_def run_state_new_def)
  have "reap 7 ((toy_state Ready)\<lparr>st_session := Some (toy_session Ready)\<rparr>) = reap 7 (toy_state Ready)"
    by (simp add: toy_state_def run_state_new_def)
  with f have "conn_step toy_env default_config (toy_state Ready) (7, no_attempt, InFrame []) = Inr (reap 7 (toy_state Ready))"
    using r by (simp add: conn_step_def enabled_def on_frame_def Let_def)
  from only_pong_feeds_watchdog [OF f(1,2,4) r this] f show ?thesis by (simp add: reap_def)
qed

section \<open>Shutdown\<close>

lemma schedule_running [simp]:
  "st_running (schedule now d bo k st) = st_running st" "st_triggered (schedule now d bo k st) = st_triggered st"
  by (auto simp: schedule_def emit_def split: prod.splits option.splits)

lemma establish_running:
  "establish env cfg now at d st = (r, st') \<Longrightarrow> st_running st' = st_running st \<and> st_triggered st' = st_triggered st"
  by (auto simp: establish_def emit_def Let_def split: option.splits prod.splits sum.splits if_splits pin_check.splits)

definition same_mode :: "run_state \<Rightarrow> run_state \<Rightarrow> bool" where
  "same_mode st st' \<longleftrightarrow> st_running st' = st_running st \<and> st_triggered st' = st_triggered st"

lemma teardown_mode: "teardown_session env now st = Inr st' \<Longrightarrow> same_mode st st'"
  by (auto simp: teardown_session_def same_mode_def emit_def rbind_eq_Inr split: option.splits)

lemma lost_mode: "connection_lost env cfg now st = Inr st' \<Longrightarrow> same_mode st st'"
  by (auto simp: connection_lost_def same_mode_def rbind_eq_Inr split: option.splits dest!: teardown_mode)

lemma lost_on_error_mode: "lost_on_error env cfg now r st = Inr st' \<Longrightarrow> same_mode st st'"
  by (auto simp: lost_on_error_def same_mode_def split: sum.splits dest: lost_mode [unfolded same_mode_def])

lemma on_command_mode:
  "on_command env cfg now at c st = Inr st' \<Longrightarrow> c \<noteq> Shutdown \<Longrightarrow> same_mode st st'"
proof -
  assume c: "c \<noteq> Shutdown" and r: "on_command env cfg now at c st = Inr st'"
  have sel: "same_mode st st'" if "c = Select d" for d
  proof -
    have r': "on_command env cfg now at (Select d) st = Inr st'" using r that by simp
    obtain st1 where t: "teardown_session env now st = Inr st1"
      using r' by (auto simp: on_command_def rbind_eq_Inr)
    obtain e st2 where e: "establish env cfg now at d (st1\<lparr>st_reconnect := None, st_desired := Some d\<rparr>) = (e, st2)"
      by fastforce
    from r' t e establish_running [OF e] teardown_mode [OF t] show ?thesis
      by (cases e) (auto simp: on_command_def same_mode_def emit_def)
  qed
  have other: "same_mode st st'" if "(case st_session st of None \<Rightarrow> Inr st
      | Some s \<Rightarrow> rbind (handle_command env now c' s) (\<lambda>(r, s1).
          lost_on_error env cfg now r (st\<lparr>st_session := Some s1\<rparr>))) = Inr st'" for c'
    using that by (auto simp: rbind_eq_Inr split: option.splits dest!: lost_on_error_mode)
      (auto simp: same_mode_def)
  show ?thesis
    using r c sel other by (cases c) (auto simp: on_command_def)
qed

lemma on_frame_mode:
  assumes "on_frame env cfg now payload st = Inr st'"
  shows "same_mode st st'"
proof (cases "st_session st")
  case None
  then show ?thesis using assms by (auto simp: on_frame_def same_mode_def)
next
  case (Some s)
  obtain a s1 where "route_inbound env payload s = (a, s1)" by fastforce
  with assms Some show ?thesis
    by (cases a)
      (auto simp: on_frame_def emit_def Let_def rbind_eq_Inr split: if_splits option.splits
        dest!: lost_on_error_mode, auto simp: same_mode_def)
qed

lemma timers_mode:
  "on_reader_gone env cfg now st = Inr st' \<Longrightarrow> same_mode st st'"
  "on_watchdog env cfg now st = Inr st' \<Longrightarrow> same_mode st st'"
  "on_heartbeat env cfg now st = Inr st' \<Longrightarrow> same_mode st st'"
  "on_reconnect env cfg now at st = Inr st' \<Longrightarrow> same_mode st st'"
proof -
  show "on_reader_gone env cfg now st = Inr st' \<Longrightarrow> same_mode st st'"
    "on_watchdog env cfg now st = Inr st' \<Longrightarrow> same_mode st st'"
    by (auto simp: on_reader_gone_def on_watchdog_def split: if_splits dest!: lost_mode)
      (auto simp: same_mode_def)
  show "on_heartbeat env cfg now st = Inr st' \<Longrightarrow> same_mode st st'"
    by (auto simp: on_heartbeat_def split: option.splits prod.splits sum.splits dest!: lost_mode)
      (auto simp: same_mode_def)
  show "on_reconnect env cfg now at st = Inr st' \<Longrightarrow> same_mode st st'"
    by (auto simp: on_reconnect_def same_mode_def split: option.splits prod.splits sum.splits
        dest!: establish_running)
qed

definition leaves_loop :: "conn_input \<Rightarrow> bool" where
  "leaves_loop i \<longleftrightarrow> i = InCommand Shutdown \<or> i = InCommandsClosed"

lemma triggered_step:
  assumes "st_running st" "st_triggered st" "\<not> leaves_loop i" "conn_step env cfg st (now, at, i) = Inr st'"
  shows "st_running st' \<and> st_triggered st'"
proof -
  have r: "st_running (reap now x) = st_running x" "st_triggered (reap now x) = st_triggered x" for x
    by (simp_all add: reap_def)
  show ?thesis
    using assms
    by (cases i)
      (auto simp: conn_step_def enabled_def leaves_loop_def rbind_eq_Inr r split: if_splits
        dest!: on_command_mode on_frame_mode timers_mode, auto simp: same_mode_def)
qed

text \<open>A shutdown that is triggered while the task is inside a handler is lost: the branch that
  waits for it is disarmed once the token is set, so the task keeps running, whatever happens,
  until it is sent the shutdown command or its command channel closes.\<close>

theorem trigger_while_busy_is_lost:
  assumes "st_running st" "\<forall>i \<in> set inputs. \<not> leaves_loop (snd (snd i))"
    and "conn_run env cfg st ((t, at, InTriggerWhileBusy) # inputs) = Inr st'"
  shows "st_running st'"
proof -
  have "conn_run env cfg st1 is = Inr st2 \<Longrightarrow> st_running st1 \<Longrightarrow> st_triggered st1 \<Longrightarrow>
      \<forall>i \<in> set is. \<not> leaves_loop (snd (snd i)) \<Longrightarrow> st_running st2" for st1 st2 "is"
  proof (induction "is" arbitrary: st1)
    case (Cons i "is")
    obtain now a x where i: "i = (now, a, x)" by (cases i)
    obtain st3 where "conn_step env cfg st1 i = Inr st3" "conn_run env cfg st3 is = Inr st2"
      using Cons.prems(1) by (auto simp: rbind_eq_Inr)
    with Cons.IH [of st3] Cons.prems(2-4) triggered_step [of st1 x env cfg now a st3] i show ?case by auto
  qed simp
  moreover have "conn_run env cfg (st\<lparr>st_triggered := True\<rparr>) inputs = Inr st'"
    using assms(1,3) by (simp add: conn_step_def enabled_def)
  ultimately show ?thesis using assms(1,2) by force
qed

theorem trigger_while_busy_is_lost_witness:
  "st_running (run_state_new\<lparr>st_triggered := True\<rparr>)"
  by (rule trigger_while_busy_is_lost [of run_state_new "[(1, no_attempt, InShutdown)]" toy_env default_config 0 no_attempt])
    (simp_all add: run_state_new_def leaves_loop_def conn_step_def enabled_def)

end
