(* ===== verification/Mdns.thy ===== *)
theory Mdns
  imports App_State Tofu "HOL-Library.List_Lexorder"
begin

text \<open>
  Receiver discovery (\<open>src/src/cast/mdns.rs\<close>): the DNS packet parser with its compression pointers,
  the correlation of records into devices, the device table and the discovery loop.

  A parser is the packet and a position. The two ways in which the code could panic, a subtraction
  that underflows in \<open>take\<close> and an overflow of the miss counter, are values of the model
  (\<open>DnsPanic\<close>, and \<open>None\<close> for the counter). Hash maps are association lists.
\<close>

section \<open>Data\<close>

definition GOOGLECAST_SERVICE :: rstring where
  "GOOGLECAST_SERVICE = str ''_googlecast._tcp.local''"

definition REQUERY_INTERVAL :: duration where
  "REQUERY_INTERVAL = from_secs 10"

definition MISSED_CYCLES_TO_EXPIRE :: u8 where
  "MISSED_CYCLES_TO_EXPIRE = 3"

definition MAX_POINTER_DEPTH :: nat where
  "MAX_POINTER_DEPTH = 4"

definition RECEIVE_BUFFER_SIZE :: nat where
  "RECEIVE_BUFFER_SIZE = 4096"

definition TYPE_A :: u16 where "TYPE_A = 1"
definition TYPE_PTR :: u16 where "TYPE_PTR = 12"
definition TYPE_TXT :: u16 where "TYPE_TXT = 16"
definition TYPE_SRV :: u16 where "TYPE_SRV = 33"

datatype dns_error =
    DnsTruncated nat
  | PointerOutOfBounds nat
  | PointerCycle
  | PointerDepthExceeded
  | BadLabelLength u8
  | DnsPanic

datatype record_data =
    Ptr rstring
  | Srv u16 u16 u16 rstring
  | Txt "bytes list"
  | ARecord ipv4
  | OtherRecord

record dns_record =
  dr_owner :: rstring
  dr_type :: u16
  dr_ttl :: u32
  dr_rdata :: record_data

record discovered_device =
  dd_ip :: ipv4
  dd_port :: u16
  dd_name :: rstring
  dd_device_id :: "rstring option"

section \<open>The query\<close>

fun name_labels :: "rstring list \<Rightarrow> bytes" where
  "name_labels [] = [0]"
| "name_labels (l # ls) = of_nat (length l) # l @ name_labels ls"

text \<open>\<open>None\<close> is the failed assertion on a label of more than 63 bytes.\<close>

definition name_bytes :: "rstring \<Rightarrow> bytes option" where
  "name_bytes name =
     (if list_all (\<lambda>l. length l \<le> 63) (split_on 46 name) then Some (name_labels (split_on 46 name)) else None)"

definition build_ptr_query :: "bytes option" where
  "build_ptr_query =
     map_option (\<lambda>name. [0, 0] @ [0, 0] @ u16_to_be_bytes 1 @ [0, 0, 0, 0, 0, 0] @ name @
         u16_to_be_bytes TYPE_PTR @ u16_to_be_bytes 1)
       (name_bytes GOOGLECAST_SERVICE)"

section \<open>The packet parser\<close>

definition read_u8 :: "bytes \<Rightarrow> nat \<Rightarrow> dns_error + (u8 \<times> nat)" where
  "read_u8 data pos =
     (if length data \<le> pos then Inl (DnsTruncated (length data)) else Inr (data ! pos, pos + 1))"

definition read_u16 :: "bytes \<Rightarrow> nat \<Rightarrow> dns_error + (u16 \<times> nat)" where
  "read_u16 data pos =
     rbind (read_u8 data pos) (\<lambda>(hi, p1).
     rbind (read_u8 data p1) (\<lambda>(lo, p2).
       Inr (push_bit 8 (ucast hi) OR ucast lo, p2)))"

definition read_u32 :: "bytes \<Rightarrow> nat \<Rightarrow> dns_error + (u32 \<times> nat)" where
  "read_u32 data pos =
     rbind (read_u8 data pos) (\<lambda>(a, p1).
     rbind (read_u8 data p1) (\<lambda>(b, p2).
     rbind (read_u8 data p2) (\<lambda>(c, p3).
     rbind (read_u8 data p3) (\<lambda>(d, p4).
       Inr (push_bit 24 (ucast a) OR push_bit 16 (ucast b) OR push_bit 8 (ucast c) OR ucast d, p4)))))"

definition take_slice :: "bytes \<Rightarrow> nat \<Rightarrow> nat \<Rightarrow> dns_error + (bytes \<times> nat)" where
  "take_slice data pos len =
     (if length data < pos then Inl DnsPanic
      else if length data - pos < len then Inl (DnsTruncated (length data))
      else Inr (take len (drop pos data), pos + len))"

lemma read_u8_Inr:
  "read_u8 data pos = Inr (b, p) \<longleftrightarrow> pos < length data \<and> b = data ! pos \<and> p = pos + 1"
  by (auto simp: read_u8_def)

lemma take_slice_Inr:
  "take_slice data pos len = Inr (s, p) \<longleftrightarrow>
     pos + len \<le> length data \<and> s = take len (drop pos data) \<and> p = pos + len"
  by (auto simp: take_slice_def)

declare rbind_cong [fundef_cong]

text \<open>
  Every pointer restarts the label loop elsewhere with the depth increased; every label moves the
  position forward.
\<close>

function read_name_into ::
  "bytes \<Rightarrow> nat \<Rightarrow> rstring list \<Rightarrow> nat \<Rightarrow> nat list \<Rightarrow> dns_error + (rstring list \<times> nat)" where
  "read_name_into data pos labels depth visited =
     rbind (read_u8 data pos) (\<lambda>(b, p1).
       if b = 0 then Inr (labels, p1)
       else if b AND 0xC0 = 0xC0 then
         if MAX_POINTER_DEPTH \<le> depth then Inl PointerDepthExceeded
         else rbind (read_u8 data p1) (\<lambda>(c, p2).
           let offset = push_bit 8 (unat (b AND 0x3F)) OR unat c in
           if length data \<le> offset then Inl (PointerOutOfBounds offset)
           else if offset \<in> set visited then Inl PointerCycle
           else rbind (read_name_into data offset labels (depth + 1) (visited @ [offset])) (\<lambda>(ls, _).
             Inr (ls, p2)))
       else if b AND 0xC0 \<noteq> 0 then Inl (BadLabelLength b)
       else rbind (take_slice data p1 (unat b)) (\<lambda>(s, p2).
         read_name_into data p2 (labels @ [from_utf8_lossy s]) depth visited))"
  by pat_completeness auto
termination
  by (relation "measures [\<lambda>(data, pos, labels, depth, visited). MAX_POINTER_DEPTH - depth,
        \<lambda>(data, pos, labels, depth, visited). length data - pos]")
    (auto simp: read_u8_Inr take_slice_Inr)

declare read_name_into.simps [simp del]

fun join_dot :: "rstring list \<Rightarrow> rstring" where
  "join_dot [] = []"
| "join_dot [l] = l"
| "join_dot (l # ls) = l @ [46] @ join_dot ls"

definition read_name :: "bytes \<Rightarrow> nat \<Rightarrow> dns_error + (rstring \<times> nat)" where
  "read_name data pos =
     rbind (read_name_into data pos [] 0 []) (\<lambda>(labels, p). Inr (join_dot labels, p))"

function txt_strings :: "bytes \<Rightarrow> nat \<Rightarrow> nat \<Rightarrow> bytes list \<Rightarrow> dns_error + bytes list" where
  "txt_strings data pos stop strings =
     (if stop \<le> pos then Inr strings
      else rbind (read_u8 data pos) (\<lambda>(len, p1).
           rbind (take_slice data p1 (unat len)) (\<lambda>(s, p2).
             txt_strings data p2 stop (strings @ [s]))))"
  by pat_completeness auto
termination
  by (relation "measure (\<lambda>(data, pos, stop, strings). length data - pos)")
    (auto simp: read_u8_Inr take_slice_Inr)

declare txt_strings.simps [simp del]

definition read_rdata :: "bytes \<Rightarrow> u16 \<Rightarrow> nat \<Rightarrow> nat \<Rightarrow> dns_error + record_data" where
  "read_rdata data record_type rdata_start rdlength =
     (if record_type = TYPE_PTR then
        rbind (read_name data rdata_start) (\<lambda>(name, _). Inr (Ptr name))
      else if record_type = TYPE_SRV then
        rbind (read_u16 data rdata_start) (\<lambda>(priority, p1).
        rbind (read_u16 data p1) (\<lambda>(weight, p2).
        rbind (read_u16 data p2) (\<lambda>(port, p3).
        rbind (read_name data p3) (\<lambda>(target, _).
          Inr (Srv priority weight port target)))))
      else if record_type = TYPE_TXT then
        rbind (txt_strings data rdata_start (rdata_start + rdlength) []) (\<lambda>strings. Inr (Txt strings))
      else if record_type = TYPE_A then
        rbind (take_slice data rdata_start 4) (\<lambda>(octets, _). Inr (ARecord (u32_from_be_bytes octets)))
      else Inr OtherRecord)"

definition read_record :: "bytes \<Rightarrow> nat \<Rightarrow> dns_error + (dns_record \<times> nat)" where
  "read_record data pos =
     rbind (read_name data pos) (\<lambda>(owner, p1).
     rbind (read_u16 data p1) (\<lambda>(record_type, p2).
     rbind (read_u16 data p2) (\<lambda>(_, p3).
     rbind (read_u32 data p3) (\<lambda>(ttl, p4).
     rbind (read_u16 data p4) (\<lambda>(rdlength, rdata_start).
     rbind (take_slice data rdata_start (unat rdlength)) (\<lambda>(_, p6).
     rbind (read_rdata data record_type rdata_start (unat rdlength)) (\<lambda>rdata.
       Inr (\<lparr>dr_owner = owner, dr_type = record_type, dr_ttl = ttl, dr_rdata = rdata\<rparr>, p6))))))))"

fun skip_questions :: "bytes \<Rightarrow> nat \<Rightarrow> nat \<Rightarrow> dns_error + nat" where
  "skip_questions data 0 pos = Inr pos"
| "skip_questions data (Suc n) pos =
     rbind (read_name data pos) (\<lambda>(_, p1).
     rbind (read_u16 data p1) (\<lambda>(_, p2).
     rbind (read_u16 data p2) (\<lambda>(_, p3). skip_questions data n p3)))"

fun read_records :: "bytes \<Rightarrow> nat \<Rightarrow> nat \<Rightarrow> dns_error + dns_record list" where
  "read_records data 0 pos = Inr []"
| "read_records data (Suc n) pos =
     rbind (read_record data pos) (\<lambda>(r, p). rbind (read_records data n p) (\<lambda>rs. Inr (r # rs)))"

section \<open>Correlation\<close>

record record_index =
  ix_instances :: "rstring list"
  ix_srv :: "(rstring \<times> dns_record) list"
  ix_txt :: "(rstring \<times> dns_record) list"
  ix_a :: "(rstring \<times> dns_record) list"

definition index_record :: "record_index \<Rightarrow> dns_record \<Rightarrow> record_index" where
  "index_record ix r =
     (case dr_rdata r of
        Ptr inst \<Rightarrow>
          if eq_ignore_ascii_case (dr_owner r) GOOGLECAST_SERVICE
          then ix\<lparr>ix_instances := ix_instances ix @ [inst]\<rparr> else ix
      | Srv _ _ _ _ \<Rightarrow> ix\<lparr>ix_srv := AList.update (to_ascii_lowercase (dr_owner r)) r (ix_srv ix)\<rparr>
      | Txt _ \<Rightarrow> ix\<lparr>ix_txt := AList.update (to_ascii_lowercase (dr_owner r)) r (ix_txt ix)\<rparr>
      | ARecord _ \<Rightarrow> ix\<lparr>ix_a := AList.update (to_ascii_lowercase (dr_owner r)) r (ix_a ix)\<rparr>
      | OtherRecord \<Rightarrow> ix)"

text \<open>The value of the first \<open>key=value\<close> entry whose key matches.\<close>

fun txt_value :: "rstring \<Rightarrow> bytes list \<Rightarrow> rstring option" where
  "txt_value key [] = None"
| "txt_value key (entry # es) =
     (case split_once 61 entry of
        None \<Rightarrow> txt_value key es
      | Some (k, v) \<Rightarrow> if eq_ignore_ascii_case k key then Some (from_utf8_lossy v) else txt_value key es)"

definition friendly_name_from_txt :: "dns_record \<Rightarrow> rstring option" where
  "friendly_name_from_txt r = (case dr_rdata r of Txt strings \<Rightarrow> txt_value (str ''fn'') strings | _ \<Rightarrow> None)"

definition id_from_txt :: "dns_record \<Rightarrow> rstring option" where
  "id_from_txt r = (case dr_rdata r of Txt strings \<Rightarrow> txt_value (str ''id'') strings | _ \<Rightarrow> None)"

definition instance_label :: "rstring \<Rightarrow> rstring" where
  "instance_label inst = hd (split_on 46 inst)"

definition or_else_option :: "'a option \<Rightarrow> 'a option \<Rightarrow> 'a option" where
  "or_else_option a b = (case a of Some x \<Rightarrow> Some x | None \<Rightarrow> b)"

definition device_of_instance :: "record_index \<Rightarrow> rstring \<Rightarrow> discovered_device option" where
  "device_of_instance ix inst =
     (let key = to_ascii_lowercase inst in
      case map_of (ix_srv ix) key of
        None \<Rightarrow> None
      | Some srv \<Rightarrow>
          (case dr_rdata srv of
             Srv _ _ port target \<Rightarrow>
               (case or_else_option (map_of (ix_a ix) (to_ascii_lowercase target)) (map_of (ix_a ix) key) of
                  None \<Rightarrow> None
                | Some a \<Rightarrow>
                    (case dr_rdata a of
                       ARecord ip \<Rightarrow>
                         Some \<lparr>dd_ip = ip, dd_port = port,
                           dd_name = (case Option.bind (map_of (ix_txt ix) key) friendly_name_from_txt of
                              Some name \<Rightarrow> name | None \<Rightarrow> instance_label inst),
                           dd_device_id = Option.bind (map_of (ix_txt ix) key) id_from_txt\<rparr>
                     | _ \<Rightarrow> None))
           | _ \<Rightarrow> None))"

definition index_records :: "dns_record list \<Rightarrow> record_index" where
  "index_records records =
     foldl index_record \<lparr>ix_instances = [], ix_srv = [], ix_txt = [], ix_a = []\<rparr> records"

definition correlate_records :: "dns_record list \<Rightarrow> discovered_device list" where
  "correlate_records records =
     (let ix = index_records records in List.map_filter (device_of_instance ix) (ix_instances ix))"

definition parse_packet :: "bytes \<Rightarrow> dns_error + discovered_device list" where
  "parse_packet data =
     rbind (read_u16 data 0) (\<lambda>(_, p1).
     rbind (read_u16 data p1) (\<lambda>(_, p2).
     rbind (read_u16 data p2) (\<lambda>(qdcount, p3).
     rbind (read_u16 data p3) (\<lambda>(ancount, p4).
     rbind (read_u16 data p4) (\<lambda>(nscount, p5).
     rbind (read_u16 data p5) (\<lambda>(arcount, p6).
     rbind (skip_questions data (unat qdcount) p6) (\<lambda>p7.
     rbind (read_records data (unat ancount + unat nscount + unat arcount) p7) (\<lambda>records.
       Inr (correlate_records records)))))))))"

section \<open>The device table\<close>

record device_entry =
  de_name :: rstring
  de_device_id :: "rstring option"
  de_missed :: u8

type_synonym device_table = "((ipv4 \<times> u16) \<times> device_entry) list"

definition upsert_device :: "device_table \<Rightarrow> discovered_device \<Rightarrow> bool \<times> device_table" where
  "upsert_device devices d =
     (let k = (dd_ip d, dd_port d) in
      case map_of devices k of
        Some e \<Rightarrow>
          if de_name e \<noteq> dd_name d \<or> de_device_id e \<noteq> dd_device_id d then
            (True, AList.update k \<lparr>de_name = dd_name d, de_device_id = dd_device_id d, de_missed = 0\<rparr> devices)
          else (False, AList.update k (e\<lparr>de_missed := 0\<rparr>) devices)
      | None \<Rightarrow>
          (True, AList.update k \<lparr>de_name = dd_name d, de_device_id = dd_device_id d, de_missed = 0\<rparr> devices))"

fun upsert_all :: "device_table \<Rightarrow> discovered_device list \<Rightarrow> bool \<times> device_table" where
  "upsert_all devices [] = (False, devices)"
| "upsert_all devices (d # ds) =
     (case upsert_device devices d of (c, devices1) \<Rightarrow>
        (case upsert_all devices1 ds of (c', devices2) \<Rightarrow> (c \<or> c', devices2)))"

text \<open>One more missed cycle for every device; \<open>None\<close> is the overflow of a counter. The flag says
  whether a device was removed.\<close>

fun retain_cycle :: "device_table \<Rightarrow> (bool \<times> device_table) option" where
  "retain_cycle [] = Some (False, [])"
| "retain_cycle ((k, e) # rest) =
     (if de_missed e = 255 then None
      else map_option
        (\<lambda>(c, rest'). if MISSED_CYCLES_TO_EXPIRE \<le> de_missed e + 1 then (True, rest')
           else (c, (k, e\<lparr>de_missed := de_missed e + 1\<rparr>) # rest'))
        (retain_cycle rest))"

definition device_of_entry :: "(ipv4 \<times> u16) \<times> device_entry \<Rightarrow> cast_device" where
  "device_of_entry ke =
     (case ke of ((ip, port), e) \<Rightarrow>
        \<lparr>cd_id = show_addr ip port, cd_name = de_name e, cd_addr = show_addr ip port,
         cd_tofu_key = receiver_key (de_device_id e) (de_name e) (show_ipv4 ip)\<rparr>)"

definition push_snapshot :: "device_table \<Rightarrow> cast_device list" where
  "push_snapshot devices = sort_key cd_id (map device_of_entry devices)"

section \<open>The discovery loop\<close>

record discovery =
  dv_devices :: device_table
  dv_snapshots :: "cast_device list list"
  dv_queries :: "bytes list"
  dv_running :: bool

definition discovery_start :: discovery where
  "discovery_start = \<lparr>dv_devices = [], dv_snapshots = [], dv_queries = [], dv_running = True\<rparr>"

text \<open>The inputs: the shutdown token (with the value it has, or its sender gone), the interval, a
  rescan request or the end of its sender, a datagram or a receive error. A query carries whether
  its send succeeded.\<close>

datatype discovery_input =
    ShutdownChanged "bool option"
  | IntervalTick bool
  | RescanChanged "bool option"
  | Datagram bytes
  | RecvError

definition send_query :: "bool \<Rightarrow> discovery \<Rightarrow> discovery option" where
  "send_query sent s =
     map_option (\<lambda>q. if sent then s\<lparr>dv_queries := dv_queries s @ [q]\<rparr> else s) build_ptr_query"

definition expire_cycle :: "discovery \<Rightarrow> discovery option" where
  "expire_cycle s =
     (if dv_devices s = [] then Some s
      else map_option
        (\<lambda>(changed, devices).
          let s1 = s\<lparr>dv_devices := devices\<rparr> in
          if changed then s1\<lparr>dv_snapshots := dv_snapshots s1 @ [push_snapshot devices]\<rparr> else s1)
        (retain_cycle (dv_devices s)))"

definition on_datagram :: "bytes \<Rightarrow> discovery \<Rightarrow> discovery" where
  "on_datagram data s =
     (case parse_packet (take RECEIVE_BUFFER_SIZE data) of
        Inl _ \<Rightarrow> s
      | Inr found \<Rightarrow>
          (case upsert_all (dv_devices s) found of (changed, devices) \<Rightarrow>
             let s1 = s\<lparr>dv_devices := devices\<rparr> in
             if changed then s1\<lparr>dv_snapshots := dv_snapshots s1 @ [push_snapshot devices]\<rparr> else s1))"

text \<open>One turn of the loop; \<open>None\<close> is a panic.\<close>

definition discovery_step :: "discovery \<Rightarrow> discovery_input \<Rightarrow> discovery option" where
  "discovery_step s i =
     (if \<not> dv_running s then Some s
      else (case i of
        ShutdownChanged v \<Rightarrow> Some (if v = Some False then s else s\<lparr>dv_running := False\<rparr>)
      | IntervalTick sent \<Rightarrow> Option.bind (send_query sent s) expire_cycle
      | RescanChanged None \<Rightarrow> Some (s\<lparr>dv_running := False\<rparr>)
      | RescanChanged (Some sent) \<Rightarrow> send_query sent s
      | Datagram data \<Rightarrow>
          if parse_packet (take RECEIVE_BUFFER_SIZE data) = Inl DnsPanic then None else Some (on_datagram data s)
      | RecvError \<Rightarrow> Some s))"

fun discovery_run :: "discovery \<Rightarrow> discovery_input list \<Rightarrow> discovery option" where
  "discovery_run s [] = Some s"
| "discovery_run s (i # is) = Option.bind (discovery_step s i) (\<lambda>s'. discovery_run s' is)"

end
