(* ===== verification/Mdns_Properties.thy ===== *)
theory Mdns_Properties
  imports Mdns "HOL-Library.Multiset"
begin

text \<open>
  What discovery guarantees: no packet makes the parser panic, compressed names are decoded as the
  format defines them, a device is reported exactly when the packet describes it, the table is
  always what the last snapshot said, and a device expires after three silent cycles.
\<close>

section \<open>No panic\<close>

definition no_panic :: "('a \<Rightarrow> bool) \<Rightarrow> dns_error + 'a \<Rightarrow> bool" where
  "no_panic P r \<longleftrightarrow> (case r of Inl e \<Rightarrow> e \<noteq> DnsPanic | Inr x \<Rightarrow> P x)"

lemma no_panic_simps [simp]: "no_panic P (Inl e) \<longleftrightarrow> e \<noteq> DnsPanic" "no_panic P (Inr x) \<longleftrightarrow> P x"
  by (simp_all add: no_panic_def)

lemma no_panic_rbind:
  "no_panic P m \<Longrightarrow> (\<And>x. m = Inr x \<Longrightarrow> P x \<Longrightarrow> no_panic Q (f x)) \<Longrightarrow> no_panic Q (rbind m f)"
  by (cases m) auto

text \<open>A result that leaves the parser inside the packet.\<close>

definition inside :: "bytes \<Rightarrow> dns_error + 'a \<times> nat \<Rightarrow> bool" where
  "inside data = no_panic (\<lambda>(_, p). p \<le> length data)"

lemma inside_simps [simp]:
  "inside data (Inl e) \<longleftrightarrow> e \<noteq> DnsPanic" "inside data (Inr (x, p)) \<longleftrightarrow> p \<le> length data"
  by (simp_all add: inside_def)

lemma inside_rbind:
  assumes "inside data m" "\<And>x p. p \<le> length data \<Longrightarrow> no_panic Q (f (x, p))"
  shows "no_panic Q (rbind m f)"
  using assms by (cases m) (auto simp: inside_def)

lemma inside_rbindI:
  assumes "inside data m" "\<And>x p. m = Inr (x, p) \<Longrightarrow> p \<le> length data \<Longrightarrow> inside data (f (x, p))"
  shows "inside data (rbind m f)"
  using assms by (cases m) (auto simp: inside_def)

lemma inside_read_u8 [simp]: "inside data (read_u8 data pos)"
  by (simp add: read_u8_def)

lemma inside_read_u16 [simp]: "inside data (read_u16 data pos)"
  by (auto simp: read_u16_def intro!: inside_rbindI)

lemma inside_read_u32 [simp]: "inside data (read_u32 data pos)"
  by (auto simp: read_u32_def intro!: inside_rbindI)

lemma inside_take_slice [simp]: "pos \<le> length data \<Longrightarrow> inside data (take_slice data pos len)"
  by (auto simp: take_slice_def)

lemma inside_read_name_into [simp]: "inside data (read_name_into data pos labels depth visited)"
proof (induction data pos labels depth visited rule: read_name_into.induct)
  case (1 data pos labels depth visited)
  show ?case
    using 1 by (subst read_name_into.simps) (auto simp: Let_def intro!: inside_rbindI)
qed

lemma inside_read_name [simp]: "inside data (read_name data pos)"
  by (auto simp: read_name_def intro!: inside_rbindI)

lemma no_panic_txt_strings: "pos \<le> length data \<Longrightarrow> no_panic (\<lambda>_. True) (txt_strings data pos stop strings)"
proof (induction data pos stop strings rule: txt_strings.induct)
  case (1 data pos stop strings)
  show ?case
    by (subst txt_strings.simps) (auto intro!: no_panic_rbind [where P = "\<lambda>(_, p). p \<le> length data"]
        simp flip: inside_def intro: 1)
qed

lemma no_panic_read_rdata: "start \<le> length data \<Longrightarrow> no_panic (\<lambda>_. True) (read_rdata data ty start len)"
  by (auto simp: read_rdata_def intro!: inside_rbind [where data = data] no_panic_rbind [OF no_panic_txt_strings])

lemma no_panic_inside: "no_panic (\<lambda>_. True) m \<Longrightarrow> (\<And>x. inside data (f x)) \<Longrightarrow> inside data (rbind m f)"
  by (cases m) (auto simp: inside_def)

lemma inside_read_record [simp]: "inside data (read_record data pos)"
  by (auto simp: read_record_def intro!: inside_rbindI no_panic_inside [OF no_panic_read_rdata])

lemma no_panic_skip_questions: "no_panic (\<lambda>_. True) (skip_questions data n pos)"
  by (induction n arbitrary: pos) (auto intro!: inside_rbind [where data = data])

lemma no_panic_read_records: "no_panic (\<lambda>_. True) (read_records data n pos)"
  by (induction n arbitrary: pos)
    (auto intro!: inside_rbind [where data = data and m = "read_record data _"] no_panic_rbind [where P = "\<lambda>_. True" and m = "read_records data _ _"])

lemma parse_packet_no_panic: "parse_packet data \<noteq> Inl DnsPanic"
proof -
  have "no_panic (\<lambda>_. True) (parse_packet data)"
    unfolding parse_packet_def
    by (auto intro!: inside_rbind [where data = data] no_panic_rbind [OF no_panic_skip_questions]
        no_panic_rbind [OF no_panic_read_records])
  then show ?thesis by auto
qed

section \<open>Compressed names\<close>

text \<open>
  The format's own reading of a name: a zero byte ends it, a length byte below 64 introduces a
  label, two bytes with the upper bits set point to the rest of the name. \<open>name_at data pos ls h e n\<close>
  says that the name at \<open>pos\<close> has labels \<open>ls\<close>, follows \<open>h\<close> pointers, ends at \<open>e\<close> in the
  record it starts in, and takes \<open>n\<close> steps to read.
\<close>

inductive name_at :: "bytes \<Rightarrow> nat \<Rightarrow> rstring list \<Rightarrow> nat \<Rightarrow> nat \<Rightarrow> nat \<Rightarrow> bool" for data where
  name_end: "pos < length data \<Longrightarrow> data ! pos = 0 \<Longrightarrow> name_at data pos [] 0 (pos + 1) 0"
| name_label: "name_at data (pos + 1 + unat (data ! pos)) ls h e n \<Longrightarrow>
    pos < length data \<Longrightarrow> data ! pos \<noteq> 0 \<Longrightarrow> (data ! pos) AND 0xC0 = 0 \<Longrightarrow>
    pos + 1 + unat (data ! pos) \<le> length data \<Longrightarrow>
    s = take (unat (data ! pos)) (drop (pos + 1) data) \<Longrightarrow>
    name_at data pos (from_utf8_lossy s # ls) h e (Suc n)"
| name_pointer: "name_at data offset ls h e n \<Longrightarrow>
    pos + 1 < length data \<Longrightarrow> (data ! pos) AND 0xC0 = 0xC0 \<Longrightarrow>
    offset = push_bit 8 (unat ((data ! pos) AND 0x3F)) OR unat (data ! (pos + 1)) \<Longrightarrow>
    offset < length data \<Longrightarrow>
    name_at data pos ls (Suc h) (pos + 2) (Suc n)"

inductive_cases name_at_elim: "name_at data pos ls h e n"

lemma zero_not_pointer: "(b :: u8) AND 0xC0 = 0xC0 \<Longrightarrow> b \<noteq> 0"
  by auto

lemma name_at_unique:
  "name_at data pos ls h e n \<Longrightarrow> name_at data pos ls' h' e' n' \<Longrightarrow> ls' = ls \<and> h' = h \<and> e' = e \<and> n' = n"
proof (induction arbitrary: ls' h' e' n' rule: name_at.induct)
  case (name_end pos)
  from name_end.prems show ?case by (rule name_at_elim) (use name_end.hyps in auto)
next
  case (name_label pos ls h e n s)
  from name_label.prems show ?case
    by (rule name_at_elim) (use name_label.hyps(2-6) in \<open>auto dest: name_label.IH [simplified]\<close>)
next
  case (name_pointer offset ls h e n pos)
  from name_pointer.prems show ?case
    by (rule name_at_elim) (use name_pointer.hyps(2-5) in \<open>auto dest: name_pointer.IH [unfolded name_pointer.hyps(4), simplified]\<close>)
qed

lemma read_name_into_sound:
  "read_name_into data pos labels depth visited = Inr (ls', e) \<Longrightarrow> depth \<le> MAX_POINTER_DEPTH \<Longrightarrow>
   \<exists>ls h n. ls' = labels @ ls \<and> name_at data pos ls h e n \<and> depth + h \<le> MAX_POINTER_DEPTH"
proof (induction data pos labels depth visited arbitrary: ls' e rule: read_name_into.induct)
  case (1 data pos labels depth visited)
  obtain b where b: "read_u8 data pos = Inr (b, pos + 1)" "pos < length data" "b = data ! pos"
    using 1(3) by (subst (asm) read_name_into.simps) (auto simp: rbind_eq_Inr read_u8_Inr)
  consider (zero) "b = 0" | (pointer) "b \<noteq> 0" "b AND 0xC0 = 0xC0" | (label) "b \<noteq> 0" "b AND 0xC0 = 0"
    using 1(3) b by (subst (asm) read_name_into.simps) (auto split: if_splits)
  then show ?case
  proof cases
    case zero
    with 1(3) b have "ls' = labels" "e = pos + 1"
      by (subst (asm) read_name_into.simps, simp)+
    moreover have "name_at data pos [] 0 (pos + 1) 0"
      by (rule name_at.name_end) (use b zero in simp_all)
    ultimately show ?thesis using 1(4) by (metis add.right_neutral append_Nil2)
  next
    case pointer
    define offset where "offset = push_bit 8 (unat (b AND 0x3F)) OR unat (data ! (pos + 1))"
    from 1(3) b pointer obtain e' where p: "pos + 1 < length data" "depth < MAX_POINTER_DEPTH"
      "offset < length data" "offset \<notin> set visited" "e = pos + 2"
      "read_name_into data offset labels (depth + 1) (visited @ [offset]) = Inr (ls', e')"
      by (subst (asm) read_name_into.simps)
        (auto simp: Let_def rbind_eq_Inr read_u8_Inr offset_def split: if_splits)
    have next_byte: "read_u8 data (pos + 1) = Inr (data ! (pos + 1), pos + 2)" using p by (simp add: read_u8_def)
    have "\<exists>ls h n. ls' = labels @ ls \<and> name_at data offset ls h e' n \<and> depth + 1 + h \<le> MAX_POINTER_DEPTH"
      by (rule 1(1) [OF b(1) refl _ _ _ next_byte refl, of offset]) (use pointer p in \<open>simp_all add: offset_def\<close>)
    then obtain ls h n where ls: "ls' = labels @ ls" "name_at data offset ls h e' n" "depth + 1 + h \<le> MAX_POINTER_DEPTH"
      by blast
    have "name_at data pos ls (Suc h) (pos + 2) (Suc n)"
      by (rule name_at.name_pointer [OF ls(2)]) (use p pointer b in \<open>simp_all add: offset_def\<close>)
    with ls p show ?thesis by auto
  next
    case label
    from 1(3) b label have p: "pos + 1 + unat b \<le> length data"
      "read_name_into data (pos + 1 + unat b) (labels @ [from_utf8_lossy (take (unat b) (drop (pos + 1) data))])
         depth visited = Inr (ls', e)"
      by (subst (asm) read_name_into.simps, auto simp: rbind_eq_Inr take_slice_Inr)+
    have "\<exists>ls h n. ls' = (labels @ [from_utf8_lossy (take (unat b) (drop (pos + 1) data))]) @ ls \<and>
        name_at data (pos + 1 + unat b) ls h e n \<and> depth + h \<le> MAX_POINTER_DEPTH"
      using label p 1(4)
      by (intro 1(2) [OF b(1) refl]) (simp_all add: take_slice_def)
    then obtain ls h n where ls: "ls' = (labels @ [from_utf8_lossy (take (unat b) (drop (pos + 1) data))]) @ ls"
      "name_at data (pos + 1 + unat b) ls h e n" "depth + h \<le> MAX_POINTER_DEPTH" by blast
    have "name_at data pos (from_utf8_lossy (take (unat b) (drop (pos + 1) data)) # ls) h e (Suc n)"
      by (rule name_at.name_label [where n = n]) (use ls p label b in simp_all)
    with ls show ?thesis by auto
  qed
qed

lemma read_name_into_complete:
  "name_at data pos ls h e n \<Longrightarrow> depth + h \<le> MAX_POINTER_DEPTH \<Longrightarrow>
   \<forall>v \<in> set visited. \<exists>ls' h' e' m. name_at data v ls' h' e' m \<and> n \<le> m \<Longrightarrow>
   read_name_into data pos labels depth visited = Inr (labels @ ls, e)"
proof (induction arbitrary: labels depth visited rule: name_at.induct)
  case (name_end pos)
  then show ?case by (subst read_name_into.simps) (simp add: read_u8_def)
next
  case (name_label pos ls h e n s)
  have "\<forall>v \<in> set visited. \<exists>ls' h' e' m. name_at data v ls' h' e' m \<and> n \<le> m"
    using name_label.prems(2) by (meson Suc_leD)
  then show ?case
    using name_label by (subst read_name_into.simps) (simp add: read_u8_def take_slice_def)
next
  case (name_pointer offset ls h e n pos)
  have fresh: "offset \<notin> set visited"
  proof
    assume "offset \<in> set visited"
    then obtain m ls' h' e' where "name_at data offset ls' h' e' m" "Suc n \<le> m"
      using name_pointer.prems(2) by blast
    with name_at_unique [OF name_pointer.hyps(1)] show False by fastforce
  qed
  have "\<forall>v \<in> set visited. \<exists>ls' h' e' m. name_at data v ls' h' e' m \<and> n \<le> m"
    using name_pointer.prems(2) by (meson Suc_leD)
  then have "\<forall>v \<in> set (visited @ [offset]). \<exists>ls' h' e' m. name_at data v ls' h' e' m \<and> n \<le> m"
    using name_pointer.hyps(1) by auto
  then have "read_name_into data offset labels (depth + 1) (visited @ [offset]) = Inr (labels @ ls, e)"
    using name_pointer.prems(1) by (intro name_pointer.IH) simp_all
  moreover have "data ! pos \<noteq> 0" using name_pointer.hyps(3) by auto
  ultimately show ?case
    using fresh name_pointer.hyps name_pointer.prems(1)
    by (subst read_name_into.simps) (simp add: read_u8_def Let_def)
qed

text \<open>C11: names are decoded exactly as the format defines them: \<open>read_name\<close> returns a name, and the
  position behind it, if and only if that is the name the format assigns to the position and at
  most four pointers lead through it. The guard against pointer cycles rejects no such name.\<close>

theorem name_decoded_iff:
  "read_name data pos = Inr (name, e) \<longleftrightarrow>
   (\<exists>ls h n. name_at data pos ls h e n \<and> h \<le> MAX_POINTER_DEPTH \<and> name = join_dot ls)"
proof
  assume "read_name data pos = Inr (name, e)"
  then obtain labels where "read_name_into data pos [] 0 [] = Inr (labels, e)" "name = join_dot labels"
    by (auto simp: read_name_def rbind_eq_Inr)
  with read_name_into_sound [of data pos "[]" 0 "[]" labels e] show
    "\<exists>ls h n. name_at data pos ls h e n \<and> h \<le> MAX_POINTER_DEPTH \<and> name = join_dot ls" by auto
next
  assume "\<exists>ls h n. name_at data pos ls h e n \<and> h \<le> MAX_POINTER_DEPTH \<and> name = join_dot ls"
  then obtain ls h n where n: "name_at data pos ls h e n" "h \<le> MAX_POINTER_DEPTH" "name = join_dot ls" by blast
  from read_name_into_complete [OF n(1), of 0 "[]" "[]"] n(2,3) show "read_name data pos = Inr (name, e)"
    by (simp add: read_name_def)
qed

section \<open>Correlation\<close>

fun is_srv :: "record_data \<Rightarrow> bool" where "is_srv (Srv _ _ _ _) = True" | "is_srv _ = False"
fun is_txt :: "record_data \<Rightarrow> bool" where "is_txt (Txt _) = True" | "is_txt _ = False"
fun is_a :: "record_data \<Rightarrow> bool" where "is_a (ARecord _) = True" | "is_a _ = False"

text \<open>The last record of a kind whose owner is a given name, up to case.\<close>

definition latest :: "(record_data \<Rightarrow> bool) \<Rightarrow> rstring \<Rightarrow> dns_record list \<Rightarrow> dns_record option" where
  "latest kind name rs = find (\<lambda>r. kind (dr_rdata r) \<and> eq_ignore_ascii_case (dr_owner r) name) (rev rs)"

lemma latest_snoc:
  "latest kind name (rs @ [r]) =
     (if kind (dr_rdata r) \<and> eq_ignore_ascii_case (dr_owner r) name then Some r else latest kind name rs)"
  by (simp add: latest_def)

lemma index_records_snoc: "index_records (rs @ [r]) = index_record (index_records rs) r"
  by (simp add: index_records_def)

lemma index_lookup:
  "map_of (ix_srv (index_records rs)) (to_ascii_lowercase name) = latest is_srv name rs"
  "map_of (ix_txt (index_records rs)) (to_ascii_lowercase name) = latest is_txt name rs"
  "map_of (ix_a (index_records rs)) (to_ascii_lowercase name) = latest is_a name rs"
proof (induction rs rule: rev_induct)
  case Nil
  show "map_of (ix_srv (index_records [])) (to_ascii_lowercase name) = latest is_srv name []"
    "map_of (ix_txt (index_records [])) (to_ascii_lowercase name) = latest is_txt name []"
    "map_of (ix_a (index_records [])) (to_ascii_lowercase name) = latest is_a name []"
    by (simp_all add: index_records_def latest_def)
next
  case (snoc r rs)
  show "map_of (ix_srv (index_records (rs @ [r]))) (to_ascii_lowercase name) = latest is_srv name (rs @ [r])"
    "map_of (ix_txt (index_records (rs @ [r]))) (to_ascii_lowercase name) = latest is_txt name (rs @ [r])"
    "map_of (ix_a (index_records (rs @ [r]))) (to_ascii_lowercase name) = latest is_a name (rs @ [r])"
    using snoc
    by (cases "dr_rdata r";
        simp add: index_records_snoc index_record_def latest_snoc update_conv' eq_ignore_ascii_case_def; fail)+
qed

lemma instances_indexed:
  "inst \<in> set (ix_instances (index_records rs)) \<longleftrightarrow>
     (\<exists>ptr. ptr \<in> set rs \<and> dr_rdata ptr = Ptr inst \<and> eq_ignore_ascii_case (dr_owner ptr) GOOGLECAST_SERVICE)"
proof (induction rs rule: rev_induct)
  case Nil
  then show ?case by (simp add: index_records_def)
next
  case (snoc r rs)
  then show ?case
    by (cases "dr_rdata r") (auto simp: index_records_snoc index_record_def)
qed

lemma device_of_instance_Some:
  "device_of_instance ix inst = Some d \<longleftrightarrow>
   (\<exists>srv priority weight port target a ip.
      map_of (ix_srv ix) (to_ascii_lowercase inst) = Some srv \<and> dr_rdata srv = Srv priority weight port target \<and>
      or_else_option (map_of (ix_a ix) (to_ascii_lowercase target)) (map_of (ix_a ix) (to_ascii_lowercase inst)) = Some a \<and>
      dr_rdata a = ARecord ip \<and>
      d = \<lparr>dd_ip = ip, dd_port = port,
        dd_name = (case Option.bind (map_of (ix_txt ix) (to_ascii_lowercase inst)) friendly_name_from_txt of
           Some name \<Rightarrow> name | None \<Rightarrow> instance_label inst),
        dd_device_id = Option.bind (map_of (ix_txt ix) (to_ascii_lowercase inst)) id_from_txt\<rparr>)"
proof (cases "map_of (ix_srv ix) (to_ascii_lowercase inst)")
  case None
  then show ?thesis by (simp add: device_of_instance_def)
next
  case srv: (Some srv)
  show ?thesis
  proof (cases "dr_rdata srv")
    case (Srv priority weight port target)
    show ?thesis
    proof (cases "or_else_option (map_of (ix_a ix) (to_ascii_lowercase target))
        (map_of (ix_a ix) (to_ascii_lowercase inst))")
      case None
      with srv Srv show ?thesis by (simp add: device_of_instance_def)
    next
      case (Some a)
      with srv Srv show ?thesis by (cases "dr_rdata a") (auto simp: device_of_instance_def Let_def)
    qed
  qed (use srv in \<open>simp_all add: device_of_instance_def\<close>)
qed

text \<open>C32: a response describes a device exactly when it holds a pointer from the Cast service to an
  instance, a service record of that instance, and an address record of the service's host or else
  of the instance itself; names are compared without case and the last record wins. The device has
  that address and port, the name and identifier its text record gives, and without a name there
  the instance's first label.\<close>

theorem device_reported_iff:
  "d \<in> set (correlate_records rs) \<longleftrightarrow>
   (\<exists>ptr inst srv priority weight port target a ip.
      ptr \<in> set rs \<and> dr_rdata ptr = Ptr inst \<and> eq_ignore_ascii_case (dr_owner ptr) GOOGLECAST_SERVICE \<and>
      latest is_srv inst rs = Some srv \<and> dr_rdata srv = Srv priority weight port target \<and>
      or_else_option (latest is_a target rs) (latest is_a inst rs) = Some a \<and> dr_rdata a = ARecord ip \<and>
      d = \<lparr>dd_ip = ip, dd_port = port,
        dd_name = (case Option.bind (latest is_txt inst rs) friendly_name_from_txt of
           Some name \<Rightarrow> name | None \<Rightarrow> instance_label inst),
        dd_device_id = Option.bind (latest is_txt inst rs) id_from_txt\<rparr>)"
proof -
  have "d \<in> set (correlate_records rs) \<longleftrightarrow>
      (\<exists>inst \<in> set (ix_instances (index_records rs)). device_of_instance (index_records rs) inst = Some d)"
    by (auto simp: correlate_records_def Let_def map_filter_def image_iff)
  then show ?thesis
    unfolding device_of_instance_Some index_lookup Bex_def instances_indexed by blast
qed

section \<open>The device table\<close>

lemma u8_less_3: "(w :: u8) < 3 \<longleftrightarrow> w = 0 \<or> w = 1 \<or> w = 2"
proof -
  have "unat w < 3 \<longleftrightarrow> unat w = 0 \<or> unat w = 1 \<or> unat w = 2" by arith
  then show ?thesis by (simp add: word_less_nat_alt word_unat_eq_iff)
qed

lemma device_of_entry_missed [simp]: "device_of_entry (k, e\<lparr>de_missed := m\<rparr>) = device_of_entry (k, e)"
  by (cases k) (simp add: device_of_entry_def)

lemma map_update_same:
  "map_of xs k = Some e \<Longrightarrow> f (k, e') = f (k, e) \<Longrightarrow> map f (AList.update k e' xs) = map f xs"
  by (induction xs) auto

definition table_ok :: "device_table \<Rightarrow> bool" where
  "table_ok devices \<longleftrightarrow> distinct (map fst devices) \<and> (\<forall>ke \<in> set devices. de_missed (snd ke) < 3)"

lemma set_update: "set (AList.update k v xs) \<subseteq> insert (k, v) (set xs)"
  by (induction xs) auto

lemma table_ok_update: "table_ok devices \<Longrightarrow> de_missed e < 3 \<Longrightarrow> table_ok (AList.update k e devices)"
  using set_update [of k e devices] by (auto simp: table_ok_def distinct_update)

lemma upsert_device_ok: "upsert_device devices d = (c, devices') \<Longrightarrow> table_ok devices \<Longrightarrow> table_ok devices'"
  by (auto simp: upsert_device_def Let_def intro!: table_ok_update split: option.splits if_splits)

lemma upsert_device_same:
  "upsert_device devices d = (False, devices') \<Longrightarrow> map device_of_entry devices' = map device_of_entry devices"
  by (auto simp: upsert_device_def Let_def intro!: map_update_same split: option.splits if_splits)

lemma upsert_all_ok: "upsert_all devices ds = (c, devices') \<Longrightarrow> table_ok devices \<Longrightarrow> table_ok devices'"
  by (induction ds arbitrary: devices c) (auto split: prod.splits dest: upsert_device_ok)

lemma upsert_all_same:
  "upsert_all devices ds = (False, devices') \<Longrightarrow> map device_of_entry devices' = map device_of_entry devices"
  by (induction ds arbitrary: devices) (auto split: prod.splits dest!: upsert_device_same)

lemma retain_cycle_ok:
  assumes "table_ok devices"
  shows "\<exists>changed devices'. retain_cycle devices = Some (changed, devices') \<and> table_ok devices' \<and>
    set (map fst devices') \<subseteq> set (map fst devices) \<and>
    (changed \<or> map device_of_entry devices' = map device_of_entry devices)"
  using assms
proof (induction devices)
  case Nil
  then show ?case by simp blast
next
  case (Cons ke rest)
  obtain k e where ke: "ke = (k, e)" by (cases ke)
  obtain c rest' where r: "retain_cycle rest = Some (c, rest')" "table_ok rest'"
    "set (map fst rest') \<subseteq> set (map fst rest)" "c \<or> map device_of_entry rest' = map device_of_entry rest"
    using Cons by (auto simp: table_ok_def)
  have "de_missed e = 0 \<or> de_missed e = 1 \<or> de_missed e = 2"
    using Cons.prems ke by (simp add: table_ok_def u8_less_3)
  then show ?case
    using r Cons.prems ke by (auto simp: MISSED_CYCLES_TO_EXPIRE_def table_ok_def)
qed

section \<open>The discovery loop\<close>

lemma build_ptr_query_Some: "build_ptr_query \<noteq> None"
  by (simp add: build_ptr_query_def name_bytes_def GOOGLECAST_SERVICE_def str_def)

text \<open>What the user interface shows: the last snapshot it was sent.\<close>

definition latest_snapshot :: "discovery \<Rightarrow> cast_device list" where
  "latest_snapshot s = last ([] # dv_snapshots s)"

definition discovery_inv :: "discovery \<Rightarrow> bool" where
  "discovery_inv s \<longleftrightarrow> table_ok (dv_devices s) \<and> latest_snapshot s = push_snapshot (dv_devices s)"

lemma discovery_inv_update [simp]:
  "discovery_inv (s\<lparr>dv_queries := q\<rparr>) = discovery_inv s" "discovery_inv (s\<lparr>dv_running := b\<rparr>) = discovery_inv s"
  by (simp_all add: discovery_inv_def latest_snapshot_def)

lemma expire_cycle_ok:
  assumes "discovery_inv s"
  shows "\<exists>s'. expire_cycle s = Some s' \<and> discovery_inv s' \<and> dv_running s' = dv_running s"
proof -
  obtain changed devices' where "retain_cycle (dv_devices s) = Some (changed, devices')" "table_ok devices'"
    "changed \<or> map device_of_entry devices' = map device_of_entry (dv_devices s)"
    using retain_cycle_ok [of "dv_devices s"] assms by (auto simp: discovery_inv_def)
  then show ?thesis
    using assms by (auto simp: expire_cycle_def discovery_inv_def latest_snapshot_def push_snapshot_def Let_def)
qed

lemma on_datagram_ok:
  assumes "discovery_inv s"
  shows "discovery_inv (on_datagram data s)" "dv_running (on_datagram data s) = dv_running s"
proof -
  show "discovery_inv (on_datagram data s)"
  proof (cases "parse_packet (take RECEIVE_BUFFER_SIZE data)")
    case (Inl e)
    with assms show ?thesis by (simp add: on_datagram_def)
  next
    case (Inr found)
    obtain changed devices where u: "upsert_all (dv_devices s) found = (changed, devices)" by (cases "upsert_all (dv_devices s) found")
    with Inr assms upsert_all_ok [OF u] upsert_all_same [of "dv_devices s" found devices] show ?thesis
      by (auto simp: on_datagram_def discovery_inv_def latest_snapshot_def push_snapshot_def Let_def)
  qed
  show "dv_running (on_datagram data s) = dv_running s"
    by (auto simp: on_datagram_def Let_def split: sum.splits prod.splits)
qed

lemma send_query_ok:
  assumes "discovery_inv s"
  shows "\<exists>s'. send_query sent s = Some s' \<and> discovery_inv s' \<and> dv_devices s' = dv_devices s \<and>
    dv_running s' = dv_running s"
proof -
  obtain q where "build_ptr_query = Some q" using build_ptr_query_Some by blast
  with assms show ?thesis by (cases sent) (auto simp: send_query_def)
qed

lemma discovery_step_ok:
  assumes "discovery_inv s"
  shows "\<exists>s'. discovery_step s i = Some s' \<and> discovery_inv s'"
proof (cases i)
  case (IntervalTick sent)
  obtain s1 where s1: "send_query sent s = Some s1" "discovery_inv s1" using send_query_ok [OF assms] by blast
  with expire_cycle_ok [OF s1(2)] assms IntervalTick show ?thesis by (auto simp: discovery_step_def)
next
  case (RescanChanged r)
  with send_query_ok [OF assms] assms show ?thesis
    by (cases r) (fastforce simp: discovery_step_def)+
next
  case (Datagram data)
  with on_datagram_ok [OF assms] assms parse_packet_no_panic show ?thesis
    by (auto simp: discovery_step_def)
qed (use assms in \<open>auto simp: discovery_step_def\<close>)

lemma discovery_run_ok: "discovery_inv s \<Longrightarrow> \<exists>s'. discovery_run s is = Some s' \<and> discovery_inv s'"
proof (induction "is" arbitrary: s)
  case (Cons i "is")
  obtain s1 where "discovery_step s i = Some s1" "discovery_inv s1" using discovery_step_ok [OF Cons.prems] by blast
  with Cons.IH [of s1] show ?case by auto
qed simp

lemma discovery_inv_start: "discovery_inv discovery_start"
  by (simp add: discovery_inv_def discovery_start_def latest_snapshot_def push_snapshot_def table_ok_def)

lemma device_ids: "map (cd_id \<circ> device_of_entry) devices = map (\<lambda>(ip, port). show_addr ip port) (map fst devices)"
  by (auto simp: device_of_entry_def)

text \<open>C16: discovery never panics, whatever datagrams arrive and in whatever order the timer, rescans
  and errors come; and the list the user interface was last sent is exactly the current table,
  sorted by identifier, with no identifier twice.\<close>

theorem receivers_shown_are_current:
  "\<exists>s. discovery_run discovery_start inputs = Some s \<and>
     last ([] # dv_snapshots s) = push_snapshot (dv_devices s) \<and>
     mset (push_snapshot (dv_devices s)) = mset (map device_of_entry (dv_devices s)) \<and>
     sorted_wrt (<) (map cd_id (push_snapshot (dv_devices s)))"
proof -
  obtain s where s: "discovery_run discovery_start inputs = Some s" "discovery_inv s"
    using discovery_run_ok [OF discovery_inv_start] by blast
  have m: "mset (push_snapshot (dv_devices s)) = mset (map device_of_entry (dv_devices s))"
    by (simp add: push_snapshot_def)
  have "inj_on (\<lambda>(ip, port). show_addr ip port) X" for X
    by (auto simp: inj_on_def show_addr_inj)
  then have "distinct (map (cd_id \<circ> device_of_entry) (dv_devices s))"
    using s(2) unfolding device_ids by (subst distinct_map) (simp add: discovery_inv_def table_ok_def)
  then have "distinct (map cd_id (map device_of_entry (dv_devices s)))" by simp
  then have "distinct (map cd_id (push_snapshot (dv_devices s)))"
    using m by (metis mset_eq_imp_distinct_iff mset_map)
  moreover have "sorted (map cd_id (push_snapshot (dv_devices s)))"
    by (simp add: push_snapshot_def)
  ultimately have "sorted_wrt (<) (map cd_id (push_snapshot (dv_devices s)))"
    by (simp add: strict_sorted_iff)
  with s m show ?thesis by (auto simp: discovery_inv_def latest_snapshot_def)
qed

section \<open>Expiry\<close>

fun announces :: "ipv4 \<times> u16 \<Rightarrow> discovery_input \<Rightarrow> bool" where
  "announces k (Datagram data) =
     (case parse_packet (take RECEIVE_BUFFER_SIZE data) of
        Inl _ \<Rightarrow> False | Inr found \<Rightarrow> k \<in> (\<lambda>d. (dd_ip d, dd_port d)) ` set found)"
| "announces k _ = False"

fun ends_discovery :: "discovery_input \<Rightarrow> bool" where
  "ends_discovery (ShutdownChanged v) = (v \<noteq> Some False)"
| "ends_discovery (RescanChanged v) = (v = None)"
| "ends_discovery _ = False"

fun is_tick :: "discovery_input \<Rightarrow> bool" where
  "is_tick (IntervalTick _) = True"
| "is_tick _ = False"

text \<open>How many cycles ago a device was last announced; \<open>None\<close> when it is not in the table.\<close>

definition misses :: "device_table \<Rightarrow> ipv4 \<times> u16 \<Rightarrow> nat option" where
  "misses devices k = map_option (\<lambda>e. unat (de_missed e)) (map_of devices k)"

definition one_miss :: "nat option \<Rightarrow> nat option" where
  "one_miss m = (case m of Some n \<Rightarrow> if n + 1 < 3 then Some (n + 1) else None | None \<Rightarrow> None)"

lemma one_miss_simps [simp]:
  "one_miss None = None" "one_miss (Some n) = (if n < 2 then Some (Suc n) else None)"
  by (auto simp: one_miss_def)

lemma misses_Cons [simp]: "misses ((k', e) # ds) k = (if k = k' then Some (unat (de_missed e)) else misses ds k)"
  by (simp add: misses_def)

lemma misses_retain:
  assumes "retain_cycle devices = Some (c, devices')" "table_ok devices"
  shows "misses devices' k = one_miss (misses devices k)"
  using assms
proof (induction devices arbitrary: c devices')
  case Nil
  then show ?case by (simp add: misses_def)
next
  case (Cons ke rest)
  obtain k' e where ke: "ke = (k', e)" by (cases ke)
  have e: "de_missed e = 0 \<or> de_missed e = 1 \<or> de_missed e = 2"
    using Cons.prems(2) ke by (simp add: table_ok_def u8_less_3)
  have ok: "table_ok rest" using Cons.prems(2) by (simp add: table_ok_def)
  obtain c1 rest' where r: "retain_cycle rest = Some (c1, rest')" using retain_cycle_ok [OF ok] by blast
  have sub: "misses rest' k' = None"
    using retain_cycle_ok [OF ok] r Cons.prems(2) ke by (auto simp: misses_def table_ok_def map_of_eq_None_iff)
  note ih = Cons.IH [OF r ok]
  from e show ?case
  proof (elim disjE)
    assume "de_missed e = 2"
    then show ?thesis
      using Cons.prems(1) ke r ih sub by (auto simp: MISSED_CYCLES_TO_EXPIRE_def)
  qed (use Cons.prems(1) ke r ih sub in \<open>auto simp: MISSED_CYCLES_TO_EXPIRE_def word_le_nat_alt\<close>)
qed

lemma misses_upsert:
  assumes "upsert_device devices d = (c, devices')"
  shows "misses devices' k = (if k = (dd_ip d, dd_port d) then Some 0 else misses devices k)"
  using assms
  by (auto simp: upsert_device_def Let_def misses_def update_conv' split: option.splits if_splits)

lemma misses_upsert_all:
  "upsert_all devices ds = (c, devices') \<Longrightarrow>
   misses devices' k = (if k \<in> (\<lambda>d. (dd_ip d, dd_port d)) ` set ds then Some 0 else misses devices k)"
  by (induction ds arbitrary: devices c) (auto split: prod.splits simp: misses_upsert)

lemma misses_step:
  assumes "discovery_inv s" "dv_running s" "\<not> ends_discovery i" "discovery_step s i = Some s'"
  shows "dv_running s'" and "misses (dv_devices s') k =
    (if announces k i then Some 0
     else if is_tick i then one_miss (misses (dv_devices s) k) else misses (dv_devices s) k)"
proof -
  have "dv_running s' \<and> misses (dv_devices s') k =
    (if announces k i then Some 0
     else if is_tick i then one_miss (misses (dv_devices s) k) else misses (dv_devices s) k)"
  proof (cases i)
    case (IntervalTick sent)
    obtain s1 where s1: "send_query sent s = Some s1" "discovery_inv s1" "dv_devices s1 = dv_devices s" "dv_running s1"
      using send_query_ok [OF assms(1)] assms(2) by auto
    obtain c devices' where r: "retain_cycle (dv_devices s) = Some (c, devices')"
      using retain_cycle_ok [of "dv_devices s"] assms(1) by (auto simp: discovery_inv_def)
    have "misses devices' k = one_miss (misses (dv_devices s) k)"
      using misses_retain [OF r] assms(1) by (simp add: discovery_inv_def)
    then show ?thesis
      using assms(2,4) IntervalTick s1 r
      by (auto simp: discovery_step_def expire_cycle_def Let_def misses_def split: if_splits)
  next
    case (RescanChanged v)
    with assms show ?thesis by (cases v) (auto simp: discovery_step_def send_query_def split: if_splits)
  next
    case (Datagram data)
    with assms(2,4) have s': "s' = on_datagram data s" by (auto simp: discovery_step_def split: if_splits)
    show ?thesis
      using assms(2) Datagram misses_upsert_all [of "dv_devices s"]
      by (auto simp: s' on_datagram_def Let_def split: sum.splits prod.splits)
  qed (use assms in \<open>auto simp: discovery_step_def\<close>)
  then show "dv_running s'" and "misses (dv_devices s') k =
    (if announces k i then Some 0
     else if is_tick i then one_miss (misses (dv_devices s) k) else misses (dv_devices s) k)" by auto
qed

lemma discovery_run_append:
  "discovery_run s (xs @ ys) = Option.bind (discovery_run s xs) (\<lambda>s'. discovery_run s' ys)"
  by (induction xs arbitrary: s) (auto split: bind_splits)

lemma running_run:
  "discovery_run s is = Some s' \<Longrightarrow> discovery_inv s \<Longrightarrow> dv_running s \<Longrightarrow>
   list_all (\<lambda>i. \<not> ends_discovery i) is \<Longrightarrow> discovery_inv s' \<and> dv_running s'"
proof (induction "is" arbitrary: s)
  case (Cons i "is")
  then obtain s1 where s1: "discovery_step s i = Some s1" "discovery_run s1 is = Some s'"
    by (auto split: bind_splits)
  then have "discovery_inv s1" using discovery_step_ok [OF Cons.prems(2), of i] by auto
  with Cons s1 misses_step(1) [OF Cons.prems(2,3) _ s1(1)] show ?case by auto
qed simp

lemma misses_run:
  "discovery_run s is = Some s' \<Longrightarrow> discovery_inv s \<Longrightarrow> dv_running s \<Longrightarrow> misses (dv_devices s) k = m \<Longrightarrow>
   list_all (\<lambda>i. \<not> ends_discovery i \<and> \<not> announces k i) is \<Longrightarrow>
   misses (dv_devices s') k = (one_miss ^^ length (filter is_tick is)) m"
proof (induction "is" arbitrary: s m)
  case (Cons i "is")
  then obtain s1 where s1: "discovery_step s i = Some s1" "discovery_run s1 is = Some s'"
    by (auto split: bind_splits)
  then have "discovery_inv s1" using discovery_step_ok [OF Cons.prems(2), of i] by auto
  with Cons.IH [OF s1(2) _ _ refl] Cons.prems misses_step(1) [OF Cons.prems(2,3) _ s1(1)]
    misses_step(2) [OF Cons.prems(2,3) _ s1(1), of k] show ?case
    by (auto simp: funpow_swap1)
qed simp

lemma one_miss_iterate: "(one_miss ^^ n) (Some 0) = (if n < 3 then Some n else None)"
  by (induction n) auto

text \<open>A device is forgotten exactly three query cycles after it was last announced: as long as
  discovery runs, a device that a datagram announced is in the table after any further inputs that
  do not announce it, if and only if fewer than three of them were ticks of the query interval.
  Rescans, other devices' announcements and malformed packets do not count.\<close>

theorem device_expires_after_three_cycles:
  assumes "discovery_run discovery_start (before @ [Datagram data] @ after) = Some s"
    and "announces k (Datagram data)"
    and "list_all (\<lambda>i. \<not> ends_discovery i) before"
    and "list_all (\<lambda>i. \<not> ends_discovery i \<and> \<not> announces k i) after"
  shows "k \<in> fst ` set (dv_devices s) \<longleftrightarrow> length (filter is_tick after) < 3"
proof -
  obtain s1 s2 where s: "discovery_run discovery_start before = Some s1" "discovery_step s1 (Datagram data) = Some s2"
    "discovery_run s2 after = Some s"
    using assms(1) by (auto simp: discovery_run_append split: bind_splits)
  have s1: "discovery_inv s1" "dv_running s1"
    using running_run [OF s(1) discovery_inv_start] assms(3) by (auto simp: discovery_start_def)
  note step = misses_step(1) [OF s1 _ s(2)] misses_step(2) [OF s1 _ s(2), of k]
  have "discovery_inv s2" using discovery_step_ok [OF s1(1), of "Datagram data"] s(2) by auto
  with misses_run [OF s(3) _ _ _ assms(4), of "Some 0"] step assms(2)
  have "misses (dv_devices s) k = (one_miss ^^ length (filter is_tick after)) (Some 0)" by auto
  moreover have "misses (dv_devices s) k \<noteq> None \<longleftrightarrow> k \<in> fst ` set (dv_devices s)"
    by (simp add: misses_def map_of_eq_None_iff)
  ultimately show ?thesis by (auto simp: one_miss_iterate split: if_splits)
qed

text \<open>A response of 89 bytes, with compressed names, that announces \<open>10.0.0.5:8009\<close>.\<close>

definition sample_packet :: bytes where
  "sample_packet =
     [0, 0, 0x84, 0, 0, 0, 0, 3, 0, 0, 0, 0] @
     [11] @ str ''_googlecast'' @ [4] @ str ''_tcp'' @ [5] @ str ''local'' @ [0] @
     [0, 12, 0, 1, 0, 0, 0, 120, 0, 5, 2, 116, 118, 0xC0, 12] @
     [0xC0, 46, 0, 33, 0, 1, 0, 0, 0, 120, 0, 9, 0, 0, 0, 0, 0x1F, 0x49, 1, 104, 0] @
     [1, 104, 0, 0, 1, 0, 1, 0, 0, 0, 120, 0, 4, 10, 0, 0, 5]"

lemma sample_packet_announces: "announces (0x0A000005, 8009) (Datagram sample_packet)"
  by code_simp

theorem device_expires_after_three_cycles_witness:
  "\<exists>s. discovery_run discovery_start [IntervalTick True, Datagram sample_packet, IntervalTick True,
      RescanChanged (Some True), IntervalTick False] = Some s \<and>
    (0x0A000005, 8009) \<in> fst ` set (dv_devices s)"
proof -
  let ?after = "[IntervalTick True, RescanChanged (Some True), IntervalTick False]"
  obtain s where s: "discovery_run discovery_start ([IntervalTick True] @ [Datagram sample_packet] @ ?after) = Some s"
    using discovery_run_ok [OF discovery_inv_start] by blast
  with device_expires_after_three_cycles [OF this sample_packet_announces] show ?thesis by auto
qed

end
