(* ===== verification/Segments.thy ===== *)
theory Segments
  imports Cast_Prelude
begin

text \<open>
  Segmentation of the encoder's output (\<open>src/src/screen/segments.rs\<close>): the byte stream is cut
  at ISO-BMFF box boundaries into one initialization segment and \<open>moof\<close>..\<open>mdat\<close> fragments,
  with a fallback to whole reads for streams that are not made of boxes.
\<close>

section \<open>Definitions\<close>

definition MAX_BOX_BYTES :: nat where
  "MAX_BOX_BYTES = 64 * 1024 * 1024"

datatype encoded_segment = Init bytes | Fragment bytes

fun seg_bytes :: "encoded_segment \<Rightarrow> bytes" where
  "seg_bytes (Init b) = b"
| "seg_bytes (Fragment b) = b"

fun is_init :: "encoded_segment \<Rightarrow> bool" where
  "is_init (Init _) = True"
| "is_init (Fragment _) = False"

record mp4_segmenter =
  sg_pending :: bytes
  sg_init :: bytes
  sg_init_emitted :: bool
  sg_fragment :: bytes
  sg_in_fragment :: bool
  sg_opaque :: bool

definition segmenter_new :: mp4_segmenter where
  "segmenter_new = \<lparr>sg_pending = [], sg_init = [], sg_init_emitted = False, sg_fragment = [],
     sg_in_fragment = False, sg_opaque = False\<rparr>"

definition enter_opaque ::
  "mp4_segmenter \<Rightarrow> encoded_segment list \<Rightarrow> mp4_segmenter \<times> encoded_segment list" where
  "enter_opaque s out =
     (let emit = \<not> sg_init_emitted s \<and> sg_init s \<noteq> []
      in (s\<lparr>sg_init := (if emit then [] else sg_init s), sg_pending := [], sg_fragment := [],
           sg_in_fragment := False, sg_opaque := True\<rparr>,
          if emit then out @ [Init (sg_init s)] else out))"

text \<open>
  What the head of the pending bytes says: not enough bytes yet, not a box, or a complete box of
  \<open>total\<close> bytes.
\<close>

datatype box_head = NeedMore | NotBox | CompleteBox nat

definition box_head :: "bytes \<Rightarrow> box_head" where
  "box_head p =
     (if length p < 8 then NeedMore
      else let size_field = u32_from_be_bytes (take 4 p);
               check = (\<lambda>header_len total.
                 if total < header_len \<or> total > MAX_BOX_BYTES then NotBox
                 else if length p < total then NeedMore else CompleteBox total)
        in if size_field = 0 then NotBox
           else if size_field = 1 then
             (if length p < 16 then NeedMore
              else check 16 (unat (u64_from_be_bytes (take 8 (drop 8 p)))))
           else if size_field < 8 then NotBox
           else check 8 (unat size_field))"

definition box_kind :: "bytes \<Rightarrow> bytes" where
  "box_kind b = take 4 (drop 4 b)"

text \<open>The \<open>match &kind\<close>: what a complete box does to the state and the output.\<close>

definition take_box :: "bytes \<Rightarrow> mp4_segmenter \<Rightarrow> encoded_segment list \<Rightarrow>
    mp4_segmenter \<times> encoded_segment list" where
  "take_box b s out =
     (if box_kind b = str ''moof'' then
        (let out1 = (if \<not> sg_init_emitted s \<and> sg_init s \<noteq> [] then out @ [Init (sg_init s)] else out);
             init1 = (if \<not> sg_init_emitted s \<and> sg_init s \<noteq> [] then [] else sg_init s);
             out2 = (if sg_in_fragment s then out1 @ [Fragment (sg_fragment s)] else out1)
         in (s\<lparr>sg_init := init1, sg_init_emitted := True, sg_fragment := b, sg_in_fragment := True\<rparr>,
             out2))
      else if box_kind b = str ''mdat'' \<and> sg_in_fragment s then
        (s\<lparr>sg_fragment := [], sg_in_fragment := False\<rparr>, out @ [Fragment (sg_fragment s @ b)])
      else if sg_in_fragment s then (s\<lparr>sg_fragment := sg_fragment s @ b\<rparr>, out)
      else (s\<lparr>sg_init := sg_init s @ b\<rparr>, out))"

lemma sg_pending_take_box [simp]: "sg_pending (fst (take_box b s out)) = sg_pending s"
  by (simp add: take_box_def Let_def)

lemma box_head_bounds: "box_head p = CompleteBox n \<Longrightarrow> 8 \<le> n \<and> n \<le> length p \<and> n \<le> MAX_BOX_BYTES"
  by (auto simp: box_head_def Let_def split: if_splits)

function feed_loop :: "mp4_segmenter \<Rightarrow> encoded_segment list \<Rightarrow> mp4_segmenter \<times> encoded_segment list" where
  "feed_loop s out =
     (case box_head (sg_pending s) of
        NeedMore \<Rightarrow> (s, out)
      | NotBox \<Rightarrow> enter_opaque s out
      | CompleteBox tot \<Rightarrow>
          (case take_box (take tot (sg_pending s)) (s\<lparr>sg_pending := drop tot (sg_pending s)\<rparr>) out of
             (s', out') \<Rightarrow> feed_loop s' out'))"
  by pat_completeness auto
termination
  by (relation "measure (\<lambda>(s, out). length (sg_pending s))")
    (auto simp: case_prod_unfold dest!: box_head_bounds)

declare feed_loop.simps [simp del]

definition feed :: "mp4_segmenter \<Rightarrow> bytes \<Rightarrow> mp4_segmenter \<times> encoded_segment list" where
  "feed s chunk =
     (if sg_opaque s then (s, [Fragment chunk])
      else feed_loop (s\<lparr>sg_pending := sg_pending s @ chunk\<rparr>) [])"

definition finish :: "mp4_segmenter \<Rightarrow> mp4_segmenter \<times> encoded_segment list" where
  "finish s =
     (if sg_opaque s then (s, [])
      else if \<not> sg_init_emitted s then
        (let i = sg_init s @ sg_pending s
         in if i \<noteq> [] then (s\<lparr>sg_init := [], sg_pending := []\<rparr>, [Init i])
            else (s\<lparr>sg_init := i, sg_pending := []\<rparr>, []))
      else (s, []))"

text \<open>A whole run: every chunk in turn.\<close>

fun feed_all :: "mp4_segmenter \<Rightarrow> bytes list \<Rightarrow> mp4_segmenter \<times> encoded_segment list" where
  "feed_all s [] = (s, [])"
| "feed_all s (c # cs) =
     (case feed s c of (s', out) \<Rightarrow> map_prod id ((@) out) (feed_all s' cs))"

section \<open>Boxes\<close>

definition complete_box :: "bytes \<Rightarrow> bool" where
  "complete_box b \<longleftrightarrow> box_head b = CompleteBox (length b)"

definition box_sequence :: "bytes \<Rightarrow> bool" where
  "box_sequence bs \<longleftrightarrow> (\<exists>boxes. bs = concat boxes \<and> list_all complete_box boxes)"

lemma box_sequence_simps [simp, intro]:
  "box_sequence []" "complete_box b \<Longrightarrow> box_sequence b"
  "box_sequence a \<Longrightarrow> box_sequence b \<Longrightarrow> box_sequence (a @ b)"
proof -
  show "box_sequence []" by (auto simp: box_sequence_def intro: exI [of _ "[]"])
  show "complete_box b \<Longrightarrow> box_sequence b" by (auto simp: box_sequence_def intro: exI [of _ "[b]"])
  assume "box_sequence a" "box_sequence b"
  then obtain xs ys where "a = concat xs" "list_all complete_box xs"
    "b = concat ys" "list_all complete_box ys" by (auto simp: box_sequence_def)
  then show "box_sequence (a @ b)" by (auto simp: box_sequence_def intro: exI [of _ "xs @ ys"])
qed

text \<open>A decision about the head is final: more bytes do not change it.\<close>

lemma box_head_append:
  "box_head p = CompleteBox n \<Longrightarrow> box_head (p @ q) = CompleteBox n"
  "box_head p = NotBox \<Longrightarrow> box_head (p @ q) = NotBox"
  by (auto simp: box_head_def Let_def split: if_splits)

lemma take_large: "16 \<le> n \<Longrightarrow> take 8 (drop 8 (take n p)) = take 8 (drop 8 p)"
  by (simp add: drop_take min_def)

lemma box_head_take: "box_head p = CompleteBox n \<Longrightarrow> complete_box (take n p)"
  by (auto simp: box_head_def complete_box_def Let_def take_large split: if_splits)

lemma complete_box_head: "complete_box b \<Longrightarrow> box_head (b @ q) = CompleteBox (length b)"
  unfolding complete_box_def by (rule box_head_append)

section \<open>The loop\<close>

lemma take_box_out: "take_box b s out = map_prod id ((@) out) (take_box b s [])"
  by (simp add: take_box_def Let_def)

lemma enter_opaque_out: "enter_opaque s out = map_prod id ((@) out) (enter_opaque s [])"
  by (simp add: enter_opaque_def Let_def)

lemma take_box_pending:
  "take_box b (s\<lparr>sg_pending := x\<rparr>) out = map_prod (\<lambda>s. s\<lparr>sg_pending := x\<rparr>) id (take_box b s out)"
  by (simp add: take_box_def Let_def)

lemma feed_loop_out: "feed_loop s out = map_prod id ((@) out) (feed_loop s [])"
proof (induction "length (sg_pending s)" arbitrary: s out rule: less_induct)
  case less
  show ?case
  proof (cases "box_head (sg_pending s)")
    case NeedMore
    then show ?thesis by (simp add: feed_loop.simps)
  next
    case NotBox
    then show ?thesis
      using enter_opaque_out [of s out] by (simp add: feed_loop.simps)
  next
    case (CompleteBox n)
    let ?b = "take n (sg_pending s)" and ?s = "s\<lparr>sg_pending := drop n (sg_pending s)\<rparr>"
    obtain s1 o1 where t: "take_box ?b ?s [] = (s1, o1)" by fastforce
    have "length (sg_pending s1) < length (sg_pending s)"
      using box_head_bounds [OF CompleteBox] sg_pending_take_box [of ?b ?s "[]"] t by (simp, arith)
    note ih = less.hyps [OF this]
    have "feed_loop s out = feed_loop s1 (out @ o1)"
      using CompleteBox t take_box_out [of ?b ?s out] by (simp add: feed_loop.simps [of s])
    moreover have "feed_loop s [] = feed_loop s1 o1"
      using CompleteBox t by (simp add: feed_loop.simps [of s])
    ultimately show ?thesis
      using ih [of "out @ o1"] ih [of o1] by (cases "feed_loop s1 []") simp
  qed
qed

text \<open>One turn of the loop, with the output of the rest behind it.\<close>

lemma feed_loop_CompleteBox:
  assumes "box_head (sg_pending s) = CompleteBox n"
    and "take_box (take n (sg_pending s)) (s\<lparr>sg_pending := drop n (sg_pending s)\<rparr>) [] = (s1, o1)"
  shows "feed_loop s [] = map_prod id ((@) o1) (feed_loop s1 [])"
  using assms feed_loop_out [of s1 o1] by (simp add: feed_loop.simps [of s])

lemma opaque_take_box [simp]: "sg_opaque (fst (take_box b s out)) = sg_opaque s"
  by (simp add: take_box_def Let_def)

text \<open>Cutting the input elsewhere does not change the result, unless the first part already
  showed that the stream is not made of boxes.\<close>

lemma feed_loop_append:
  assumes "\<not> sg_opaque (fst (feed_loop s []))"
  shows "feed_loop (s\<lparr>sg_pending := sg_pending s @ q\<rparr>) [] =
    (let (s1, o1) = feed_loop s []
     in map_prod id ((@) o1) (feed_loop (s1\<lparr>sg_pending := sg_pending s1 @ q\<rparr>) []))"
  using assms
proof (induction "length (sg_pending s)" arbitrary: s rule: less_induct)
  case less
  show ?case
  proof (cases "box_head (sg_pending s)")
    case NeedMore
    then show ?thesis
      by (cases "feed_loop (s\<lparr>sg_pending := sg_pending s @ q\<rparr>) []") (simp add: feed_loop.simps [of s])
  next
    case NotBox
    with less.prems show ?thesis
      by (simp add: feed_loop.simps [of s] enter_opaque_def Let_def)
  next
    case (CompleteBox n)
    let ?b = "take n (sg_pending s)" and ?s = "s\<lparr>sg_pending := drop n (sg_pending s)\<rparr>"
    have n: "n \<le> length (sg_pending s)" using box_head_bounds [OF CompleteBox] by simp
    obtain s1 o1 where t: "take_box ?b ?s [] = (s1, o1)" by fastforce
    have p1: "sg_pending s1 = drop n (sg_pending s)"
      using sg_pending_take_box [of ?b ?s "[]"] t by simp
    have f1: "feed_loop s [] = map_prod id ((@) o1) (feed_loop s1 [])"
      by (rule feed_loop_CompleteBox [OF CompleteBox t])
    have f2: "feed_loop (s\<lparr>sg_pending := sg_pending s @ q\<rparr>) [] =
        map_prod id ((@) o1) (feed_loop (s1\<lparr>sg_pending := sg_pending s1 @ q\<rparr>) [])"
    proof (rule feed_loop_CompleteBox)
      show "box_head (sg_pending (s\<lparr>sg_pending := sg_pending s @ q\<rparr>)) = CompleteBox n"
        using box_head_append(1) [OF CompleteBox] by simp
      show "take_box (take n (sg_pending (s\<lparr>sg_pending := sg_pending s @ q\<rparr>)))
          (s\<lparr>sg_pending := sg_pending s @ q,
             sg_pending := drop n (sg_pending (s\<lparr>sg_pending := sg_pending s @ q\<rparr>))\<rparr>) [] =
          (s1\<lparr>sg_pending := sg_pending s1 @ q\<rparr>, o1)"
        using t n p1 take_box_pending [where b = ?b and s = ?s and x = "drop n (sg_pending s) @ q" and out = "[]"] by simp
    qed
    have "length (sg_pending s1) < length (sg_pending s)"
      using box_head_bounds [OF CompleteBox] p1 by (simp, arith)
    moreover have "\<not> sg_opaque (fst (feed_loop s1 []))"
      using less.prems f1 by simp
    ultimately show ?thesis
      using less.hyps [of s1] f1 f2
      by (simp add: case_prod_unfold Let_def map_prod_def)
  qed
qed

lemma feed_loop_opaque_append:
  assumes "sg_opaque (fst (feed_loop s []))" and "\<not> sg_opaque s"
  shows "sg_opaque (fst (feed_loop (s\<lparr>sg_pending := sg_pending s @ q\<rparr>) []))"
  using assms
proof (induction "length (sg_pending s)" arbitrary: s rule: less_induct)
  case less
  show ?case
  proof (cases "box_head (sg_pending s)")
    case NeedMore
    with less.prems show ?thesis by (simp add: feed_loop.simps [of s])
  next
    case NotBox
    then have "box_head (sg_pending s @ q) = NotBox" by (rule box_head_append)
    then show ?thesis
      by (simp add: feed_loop.simps enter_opaque_def Let_def)
  next
    case (CompleteBox n)
    let ?b = "take n (sg_pending s)" and ?s = "s\<lparr>sg_pending := drop n (sg_pending s)\<rparr>"
    have n: "n \<le> length (sg_pending s)" using box_head_bounds [OF CompleteBox] by simp
    obtain s1 o1 where t: "take_box ?b ?s [] = (s1, o1)" by fastforce
    have p1: "sg_pending s1 = drop n (sg_pending s)"
      using sg_pending_take_box [of ?b ?s "[]"] t by simp
    have o1: "\<not> sg_opaque s1" using opaque_take_box [of ?b ?s "[]"] t less.prems(2) by simp
    have f1: "feed_loop s [] = map_prod id ((@) o1) (feed_loop s1 [])"
      by (rule feed_loop_CompleteBox [OF CompleteBox t])
    have "feed_loop (s\<lparr>sg_pending := sg_pending s @ q\<rparr>) [] =
        map_prod id ((@) o1) (feed_loop (s1\<lparr>sg_pending := sg_pending s1 @ q\<rparr>) [])"
      using box_head_append(1) [OF CompleteBox, of q] t n p1
        take_box_pending [where b = ?b and s = ?s and x = "drop n (sg_pending s) @ q" and out = "[]"]
      by (intro feed_loop_CompleteBox) auto
    moreover have "length (sg_pending s1) < length (sg_pending s)"
      using box_head_bounds [OF CompleteBox] p1 by (simp, arith)
    ultimately show ?thesis
      using less.hyps [of s1] less.prems(1) f1 o1 by simp
  qed
qed

text \<open>Chunking, for whole runs.\<close>

lemma feed_all_concat:
  "\<not> sg_opaque s \<Longrightarrow> feed_loop s [] = (s, []) \<Longrightarrow>
   \<not> sg_opaque (fst (feed s (concat cs))) \<Longrightarrow> feed_all s cs = feed s (concat cs)"
proof (induction cs arbitrary: s)
  case Nil
  then show ?case by (simp add: feed_def)
next
  case (Cons c cs)
  let ?s = "s\<lparr>sg_pending := sg_pending s @ c\<rparr>"
  have "feed s (concat (c # cs)) = feed_loop (?s\<lparr>sg_pending := sg_pending ?s @ concat cs\<rparr>) []"
    using Cons.prems(1) by (simp add: feed_def)
  note all = this
  have no: "\<not> sg_opaque (fst (feed_loop ?s []))"
    using feed_loop_opaque_append [where s = ?s and q = "concat cs"] Cons.prems all by auto
  obtain s1 o1 where f: "feed_loop ?s [] = (s1, o1)" by fastforce
  have e: "feed s (concat (c # cs)) =
      map_prod id ((@) o1) (feed_loop (s1\<lparr>sg_pending := sg_pending s1 @ concat cs\<rparr>) [])"
    unfolding all using feed_loop_append [OF no, of "concat cs"] f by simp
  have s1: "\<not> sg_opaque s1" using no f by simp
  have stable: "feed_loop s1 [] = (s1, [])"
    using feed_loop_append [OF no, of "[]"] f by (cases "feed_loop s1 []") simp
  have "feed_all s1 cs = feed s1 (concat cs)"
    using Cons.IH [OF s1 stable] Cons.prems(3) s1 e by (simp add: feed_def)
  with f e s1 Cons.prems(1) show ?case by (simp add: feed_def)
qed

section \<open>Runs over whole boxes\<close>

fun take_boxes :: "bytes list \<Rightarrow> mp4_segmenter \<Rightarrow> mp4_segmenter \<times> encoded_segment list" where
  "take_boxes [] s = (s, [])"
| "take_boxes (b # bs) s =
     (case take_box b s [] of (s1, o1) \<Rightarrow> map_prod id ((@) o1) (take_boxes bs s1))"

lemma take_boxes_append:
  "take_boxes (xs @ ys) s =
     (case take_boxes xs s of (s1, o1) \<Rightarrow> map_prod id ((@) o1) (take_boxes ys s1))"
  by (induction xs arbitrary: s) (auto simp: case_prod_unfold map_prod_def)

lemma feed_loop_boxes:
  "list_all complete_box bs \<Longrightarrow>
   feed_loop (s\<lparr>sg_pending := concat bs @ rest\<rparr>) [] =
     (case take_boxes bs (s\<lparr>sg_pending := rest\<rparr>) of
        (s1, o1) \<Rightarrow> map_prod id ((@) o1) (feed_loop s1 []))"
proof (induction bs arbitrary: s)
  case Nil
  then show ?case by (cases "feed_loop (s\<lparr>sg_pending := rest\<rparr>) []") simp
next
  case (Cons b bs)
  obtain s1 o1 where t: "take_box b s [] = (s1, o1)" by fastforce
  have "feed_loop (s\<lparr>sg_pending := concat (b # bs) @ rest\<rparr>) [] =
      map_prod id ((@) o1) (feed_loop (s1\<lparr>sg_pending := concat bs @ rest\<rparr>) [])"
    using complete_box_head [of b "concat bs @ rest"] Cons.prems t
      take_box_pending [where b = b and s = s and x = "concat bs @ rest" and out = "[]"]
    by (intro feed_loop_CompleteBox [where n = "length b"]) auto
  moreover have "take_box b (s\<lparr>sg_pending := rest\<rparr>) [] = (s1\<lparr>sg_pending := rest\<rparr>, o1)"
    using t take_box_pending [where b = b and s = s and x = rest and out = "[]"] by simp
  ultimately show ?case
    using Cons.IH [of s1] Cons.prems by (simp add: case_prod_unfold map_prod_def)
qed

definition fragment_boxes :: "bytes \<times> bytes list \<times> bytes \<Rightarrow> bytes list" where
  "fragment_boxes f = (case f of (moof, mids, mdat) \<Rightarrow> moof # mids @ [mdat])"

definition wf_fragment :: "bytes \<times> bytes list \<times> bytes \<Rightarrow> bool" where
  "wf_fragment f = (case f of (moof, mids, mdat) \<Rightarrow>
     list_all complete_box (fragment_boxes f) \<and> box_kind moof = str ''moof'' \<and>
     box_kind mdat = str ''mdat'' \<and>
     list_all (\<lambda>b. box_kind b \<noteq> str ''moof'' \<and> box_kind b \<noteq> str ''mdat'') mids)"

lemma moof_not_mdat [simp]: "str ''mdat'' \<noteq> str ''moof''"
  by (simp add: str_def)

lemma take_boxes_init:
  "list_all (\<lambda>b. box_kind b \<noteq> str ''moof'') bs \<Longrightarrow> \<not> sg_in_fragment s \<Longrightarrow>
   take_boxes bs s = (s\<lparr>sg_init := sg_init s @ concat bs\<rparr>, [])"
  by (induction bs arbitrary: s) (auto simp: take_box_def)

lemma take_boxes_mids:
  "list_all (\<lambda>b. box_kind b \<noteq> str ''moof'' \<and> box_kind b \<noteq> str ''mdat'') bs \<Longrightarrow> sg_in_fragment s \<Longrightarrow>
   take_boxes bs s = (s\<lparr>sg_fragment := sg_fragment s @ concat bs\<rparr>, [])"
  by (induction bs arbitrary: s) (auto simp: take_box_def)

text \<open>A fragment met outside a fragment leaves the segmenter outside a fragment again, with
  the initialization emitted in front of it when this was the first one.\<close>

lemma take_boxes_fragment:
  assumes "wf_fragment f" "\<not> sg_in_fragment s" "sg_fragment s = []"
  shows "take_boxes (fragment_boxes f) s =
    (s\<lparr>sg_init := (if sg_init_emitted s then sg_init s else []), sg_init_emitted := True\<rparr>,
     (if \<not> sg_init_emitted s \<and> sg_init s \<noteq> [] then [Init (sg_init s)] else []) @
     [Fragment (concat (fragment_boxes f))])"
proof -
  obtain moof mids mdat where f: "f = (moof, mids, mdat)" by (cases f)
  show ?thesis
    using assms take_boxes_mids [of mids]
    by (auto simp: f fragment_boxes_def wf_fragment_def take_boxes_append take_box_def)
qed

lemma init_emitted_same [simp]: "sg_init_emitted s \<Longrightarrow> s\<lparr>sg_init_emitted := True\<rparr> = s"
  by (cases s) simp

lemma take_boxes_fragments:
  "list_all wf_fragment fs \<Longrightarrow> \<not> sg_in_fragment s \<Longrightarrow> sg_fragment s = [] \<Longrightarrow> sg_init_emitted s \<Longrightarrow>
   take_boxes (concat (map fragment_boxes fs)) s =
     (s, map (\<lambda>f. Fragment (concat (fragment_boxes f))) fs)"
  by (induction fs) (auto simp: take_boxes_append take_boxes_fragment)

lemma take_boxes_stream:
  assumes "list_all (\<lambda>b. box_kind b \<noteq> str ''moof'') inits" "concat inits \<noteq> []"
    and "list_all wf_fragment fs" "fs \<noteq> []"
  shows "take_boxes (inits @ concat (map fragment_boxes fs)) (segmenter_new\<lparr>sg_pending := rest\<rparr>) =
    (segmenter_new\<lparr>sg_pending := rest, sg_init_emitted := True\<rparr>,
     Init (concat inits) # map (\<lambda>f. Fragment (concat (fragment_boxes f))) fs)"
proof -
  obtain f fs' where fs: "fs = f # fs'" using assms(4) by (cases fs) auto
  show ?thesis
    using assms
    by (simp add: fs take_boxes_append take_boxes_init take_boxes_fragment take_boxes_fragments
        segmenter_new_def)
qed

lemma fragment_boxes_complete:
  "list_all wf_fragment fs \<Longrightarrow> list_all complete_box (concat (map fragment_boxes fs))"
  by (induction fs) (auto simp: wf_fragment_def)

lemma feed_loop_new [simp]: "feed_loop segmenter_new [] = (segmenter_new, [])"
  by (simp add: feed_loop.simps segmenter_new_def box_head_def)

lemma feed_all_stream:
  assumes "list_all complete_box inits" "list_all (\<lambda>b. box_kind b \<noteq> str ''moof'') inits"
    and "concat inits \<noteq> []" "list_all wf_fragment fs" "fs \<noteq> []" "box_head rest = NeedMore"
    and "concat chunks = concat inits @ concat (concat (map fragment_boxes fs)) @ rest"
  shows "feed_all segmenter_new chunks =
    (segmenter_new\<lparr>sg_pending := rest, sg_init_emitted := True\<rparr>,
     Init (concat inits) # map (\<lambda>f. Fragment (concat (fragment_boxes f))) fs)"
proof -
  let ?bs = "inits @ concat (map fragment_boxes fs)"
  have c: "concat chunks = concat ?bs @ rest" using assms(7) by simp
  have "feed segmenter_new (concat chunks) =
      feed_loop (segmenter_new\<lparr>sg_pending := concat ?bs @ rest\<rparr>) []"
    unfolding c by (simp add: feed_def segmenter_new_def)
  also have "\<dots> = (segmenter_new\<lparr>sg_pending := rest, sg_init_emitted := True\<rparr>,
      Init (concat inits) # map (\<lambda>f. Fragment (concat (fragment_boxes f))) fs)"
    using assms fragment_boxes_complete [of fs]
    by (subst feed_loop_boxes)
      (simp_all add: take_boxes_stream feed_loop.simps [of "segmenter_new\<lparr>sg_pending := rest, sg_init_emitted := True\<rparr>"])
  finally have "feed segmenter_new (concat chunks) = \<dots>" .
  moreover have "\<not> sg_opaque segmenter_new" by (simp add: segmenter_new_def)
  ultimately show ?thesis
    using feed_all_concat [of segmenter_new chunks] by simp
qed

text \<open>C34: a fragmented-MP4 stream, however the reads cut it, comes out of the segmenter as its
  initialization boxes in one segment followed by one segment per \<open>moof\<close>..\<open>mdat\<close> fragment, in
  order and byte for byte; an unfinished box at the end is held back.\<close>

theorem segmenter_cuts_fragments:
  assumes "list_all complete_box inits" "list_all (\<lambda>b. box_kind b \<noteq> str ''moof'') inits"
    and "concat inits \<noteq> []" "list_all wf_fragment fs" "fs \<noteq> []" "box_head rest = NeedMore"
    and "concat chunks = concat inits @ concat (concat (map fragment_boxes fs)) @ rest"
  shows "snd (feed_all segmenter_new chunks) =
    Init (concat inits) # map (\<lambda>f. Fragment (concat (fragment_boxes f))) fs"
  by (simp add: feed_all_stream [OF assms])

theorem segmenter_cuts_fragments_witness:
  "let ftyp = [0,0,0,9] @ str ''ftyp'' @ [7];
       frag = ([0,0,0,8] @ str ''moof'', [], [0,0,0,10] @ str ''mdat'' @ [1,2])
   in snd (feed_all segmenter_new
        (map (\<lambda>x. [x]) (ftyp @ concat (fragment_boxes frag) @ [0,0]))) =
      [Init ftyp, Fragment (concat (fragment_boxes frag))]"
proof -
  let ?ftyp = "[0,0,0,9] @ str ''ftyp'' @ [7]"
  let ?frag = "([0,0,0,8] @ str ''moof'', [], [0,0,0,10] @ str ''mdat'' @ [1,2])"
  have "snd (feed_all segmenter_new
        (map (\<lambda>x. [x]) (?ftyp @ concat (fragment_boxes ?frag) @ [0,0]))) =
      Init (concat [?ftyp]) # map (\<lambda>f. Fragment (concat (fragment_boxes f))) [?frag]"
    by (rule segmenter_cuts_fragments [where rest = "[0,0]"])
      (simp_all add: fragment_boxes_def wf_fragment_def complete_box_def box_head_def box_kind_def
        str_def MAX_BOX_BYTES_def)
  then show ?thesis by (simp add: Let_def)
qed

section \<open>What every segment is\<close>

text \<open>The segmenter's invariant: the collected initialization and the fragment in progress are
  whole boxes, no fragment is open before the initialization is out, and after the switch to
  opaque reads nothing is collected.\<close>

definition seg_inv :: "mp4_segmenter \<Rightarrow> bool" where
  "seg_inv s \<longleftrightarrow> box_sequence (sg_init s) \<and> box_sequence (sg_fragment s) \<and>
     (sg_in_fragment s \<longrightarrow> sg_init_emitted s) \<and>
     (sg_opaque s \<longrightarrow> sg_pending s = [] \<and> \<not> sg_in_fragment s)"

definition seg_done :: "mp4_segmenter \<Rightarrow> bool" where
  "seg_done s \<longleftrightarrow> sg_init_emitted s \<or> sg_opaque s"

text \<open>An output that may follow a state: an initialization segment only as its first element
  and only if the state had not emitted one.\<close>

definition init_first :: "bool \<Rightarrow> encoded_segment list \<Rightarrow> bool" where
  "init_first d out \<longleftrightarrow> (if d then list_all (\<lambda>g. \<not> is_init g) out
     else list_all (\<lambda>g. \<not> is_init g) (tl out))"

lemma init_first_append:
  "init_first d out1 \<Longrightarrow> (\<not> d \<and> \<not> d1 \<longrightarrow> out1 = []) \<Longrightarrow> (d \<longrightarrow> d1) \<Longrightarrow> init_first d1 out2 \<Longrightarrow>
   init_first d (out1 @ out2)"
  by (cases out1; cases out2) (auto simp: init_first_def split: if_splits)

lemma take_box_inv:
  assumes "seg_inv s" "complete_box b" "\<not> sg_opaque s" "take_box b s [] = (s1, o1)"
  shows "seg_inv s1 \<and> \<not> sg_opaque s1 \<and> (\<forall>g \<in> set o1. box_sequence (seg_bytes g)) \<and>
    init_first (sg_init_emitted s) o1 \<and> (sg_init_emitted s \<longrightarrow> sg_init_emitted s1) \<and>
    (\<not> sg_init_emitted s1 \<longrightarrow> o1 = [])"
  using assms by (auto simp: take_box_def seg_inv_def init_first_def Let_def split: if_splits)

lemma enter_opaque_inv:
  assumes "seg_inv s" "\<not> sg_opaque s" "enter_opaque s [] = (s1, o1)"
  shows "seg_inv s1 \<and> sg_opaque s1 \<and> (\<forall>g \<in> set o1. box_sequence (seg_bytes g)) \<and>
    init_first (sg_init_emitted s) o1"
  using assms by (auto simp: enter_opaque_def seg_inv_def init_first_def Let_def split: if_splits)

lemma seg_inv_pending [simp]: "\<not> sg_opaque s \<Longrightarrow> seg_inv (s\<lparr>sg_pending := x\<rparr>) = seg_inv s"
  by (simp add: seg_inv_def)

lemma feed_loop_inv:
  assumes "seg_inv s" "\<not> sg_opaque s" "feed_loop s [] = (s1, o1)"
  shows "seg_inv s1 \<and> (\<forall>g \<in> set o1. box_sequence (seg_bytes g)) \<and>
    init_first (seg_done s) o1 \<and> (seg_done s \<longrightarrow> seg_done s1) \<and> (\<not> seg_done s1 \<longrightarrow> o1 = [])"
  using assms
proof (induction "length (sg_pending s)" arbitrary: s s1 o1 rule: less_induct)
  case less
  show ?case
  proof (cases "box_head (sg_pending s)")
    case NeedMore
    with less.prems show ?thesis by (auto simp: feed_loop.simps init_first_def)
  next
    case NotBox
    with less.prems show ?thesis
      using enter_opaque_inv [of s s1 o1]
      by (simp add: feed_loop.simps [of s] seg_done_def)
  next
    case (CompleteBox n)
    let ?b = "take n (sg_pending s)" and ?s = "s\<lparr>sg_pending := drop n (sg_pending s)\<rparr>"
    obtain s2 o2 where t: "take_box ?b ?s [] = (s2, o2)" by fastforce
    obtain o3 where f: "feed_loop s2 [] = (s1, o3)" and o1: "o1 = o2 @ o3"
      using feed_loop_CompleteBox [OF CompleteBox t] less.prems(3)
      by (cases "feed_loop s2 []") auto
    have step: "seg_inv s2 \<and> \<not> sg_opaque s2 \<and> (\<forall>g \<in> set o2. box_sequence (seg_bytes g)) \<and>
        init_first (sg_init_emitted s) o2 \<and> (sg_init_emitted s \<longrightarrow> sg_init_emitted s2) \<and>
        (\<not> sg_init_emitted s2 \<longrightarrow> o2 = [])"
      using take_box_inv [OF _ _ _ t] less.prems box_head_take [OF CompleteBox] by simp
    have "length (sg_pending s2) < length (sg_pending s)"
      using box_head_bounds [OF CompleteBox] sg_pending_take_box [of ?b ?s "[]"] t by (simp, arith)
    from less.hyps [OF this _ _ f] step show ?thesis
      using less.prems(2) unfolding o1
      by (auto simp: seg_done_def intro!: init_first_append [where ?d1.0 = "sg_init_emitted s2"])
  qed
qed

lemma feed_inv:
  assumes "seg_inv s" "feed s c = (s1, o1)"
  shows "seg_inv s1 \<and> init_first (seg_done s) o1 \<and> (seg_done s \<longrightarrow> seg_done s1) \<and>
    (\<not> seg_done s1 \<longrightarrow> o1 = []) \<and> (\<not> sg_opaque s \<longrightarrow> (\<forall>g \<in> set o1. box_sequence (seg_bytes g))) \<and>
    (sg_opaque s \<longrightarrow> sg_opaque s1)"
proof (cases "sg_opaque s")
  case True
  with assms show ?thesis by (auto simp: feed_def init_first_def seg_done_def)
next
  case False
  with assms feed_loop_inv [of "s\<lparr>sg_pending := sg_pending s @ c\<rparr>" s1 o1] show ?thesis
    by (simp add: feed_def seg_done_def)
qed

lemma feed_all_inv:
  "seg_inv s \<Longrightarrow> feed_all s cs = (s1, o1) \<Longrightarrow>
   seg_inv s1 \<and> init_first (seg_done s) o1 \<and> (seg_done s \<longrightarrow> seg_done s1) \<and>
   (\<not> seg_done s1 \<longrightarrow> o1 = []) \<and> (\<not> sg_opaque s1 \<longrightarrow> (\<forall>g \<in> set o1. box_sequence (seg_bytes g))) \<and>
   (sg_opaque s \<longrightarrow> sg_opaque s1)"
proof (induction cs arbitrary: s s1 o1)
  case Nil
  then show ?case by (simp add: init_first_def)
next
  case (Cons c cs)
  obtain s2 o2 where f: "feed s c = (s2, o2)" by fastforce
  obtain o3 where g: "feed_all s2 cs = (s1, o3)" and o1: "o1 = o2 @ o3"
    using Cons.prems(2) f by (cases "feed_all s2 cs") auto
  note h = feed_inv [OF Cons.prems(1) f]
  note ih = Cons.IH [OF h [THEN conjunct1] g]
  have "init_first (seg_done s) (o2 @ o3)"
    by (rule init_first_append [where ?d1.0 = "seg_done s2"]) (use h ih in auto)
  with h ih show ?case unfolding o1 by auto
qed

lemma seg_inv_new: "seg_inv segmenter_new"
  by (simp add: seg_inv_def segmenter_new_def)

lemma finish_inv:
  "seg_inv s \<Longrightarrow> finish s = (s1, o1) \<Longrightarrow> init_first (seg_done s) o1"
  by (auto simp: finish_def init_first_def seg_done_def Let_def split: if_splits)

text \<open>As long as the stream is made of boxes, every segment handed out is a sequence of whole
  boxes: no drop of a segment ever cuts a box.\<close>

theorem segments_never_split_a_box:
  assumes "\<not> sg_opaque (fst (feed_all segmenter_new chunks))"
    and "g \<in> set (snd (feed_all segmenter_new chunks))"
  shows "box_sequence (seg_bytes g)"
  using assms feed_all_inv [OF seg_inv_new] by (cases "feed_all segmenter_new chunks") auto

theorem segments_never_split_a_box_witness:
  "box_sequence ([0,0,0,9] @ str ''ftyp'' @ [7])"
proof -
  let ?cs = "[[0,0,0,9] @ str ''ftyp'' @ [7] @ [0,0,0,8] @ str ''moof'']"
  have "box_sequence (seg_bytes (Init ([0,0,0,9] @ str ''ftyp'' @ [7])))"
    by (rule segments_never_split_a_box [where chunks = ?cs])
      (simp_all add: feed_def feed_loop.simps box_head_def take_box_def box_kind_def segmenter_new_def
        str_def MAX_BOX_BYTES_def)
  then show ?thesis by simp
qed

text \<open>In a whole run, \<open>finish\<close> included, at most one segment is an initialization segment, and
  it is the first; this holds for streams that turn out not to be boxes as well.\<close>

theorem init_segment_first_and_once:
  "list_all (\<lambda>g. \<not> is_init g)
     (tl (snd (feed_all segmenter_new chunks) @ snd (finish (fst (feed_all segmenter_new chunks)))))"
proof -
  obtain s o1 where f: "feed_all segmenter_new chunks = (s, o1)" by fastforce
  obtain s' o2 where g: "finish s = (s', o2)" by fastforce
  have "\<not> seg_done segmenter_new" by (simp add: seg_done_def segmenter_new_def)
  with feed_all_inv [OF seg_inv_new f] finish_inv [OF _ g]
  have "init_first False (o1 @ o2)"
    by (intro init_first_append [where ?d1.0 = "seg_done s"]) auto
  with f g show ?thesis by (simp add: init_first_def)
qed

section \<open>Boxes after the first fragment\<close>

definition same_but_init :: "mp4_segmenter \<Rightarrow> mp4_segmenter \<Rightarrow> bool" where
  "same_but_init s t \<longleftrightarrow> sg_init_emitted s \<and> (\<exists>x. t = s\<lparr>sg_init := x\<rparr>)"

lemma same_but_initI: "sg_init_emitted s \<Longrightarrow> same_but_init s (s\<lparr>sg_init := x\<rparr>)"
  by (auto simp: same_but_init_def)

lemma same_but_init_fields:
  assumes "same_but_init s t"
  shows "sg_pending t = sg_pending s" "sg_opaque t = sg_opaque s" "sg_init_emitted s" "sg_init_emitted t"
    "same_but_init (s\<lparr>sg_pending := y\<rparr>) (t\<lparr>sg_pending := y\<rparr>)"
  using assms by (cases s; auto simp: same_but_init_def)+

lemma take_box_same:
  "same_but_init s t \<Longrightarrow> same_but_init (fst (take_box b s [])) (fst (take_box b t [])) \<and>
     snd (take_box b t []) = snd (take_box b s [])"
  by (cases s; cases t) (auto simp: same_but_init_def take_box_def Let_def)

lemma enter_opaque_same:
  "same_but_init s t \<Longrightarrow> same_but_init (fst (enter_opaque s [])) (fst (enter_opaque t [])) \<and>
     snd (enter_opaque t []) = snd (enter_opaque s [])"
  by (cases s; cases t) (auto simp: same_but_init_def enter_opaque_def Let_def)

lemma feed_loop_same:
  "same_but_init s t \<Longrightarrow> same_but_init (fst (feed_loop s [])) (fst (feed_loop t [])) \<and>
     snd (feed_loop t []) = snd (feed_loop s [])"
proof (induction "length (sg_pending s)" arbitrary: s t rule: less_induct)
  case less
  note [simp] = same_but_init_fields [OF less.prems]
  show ?case
  proof (cases "box_head (sg_pending s)")
    case (CompleteBox n)
    let ?u = "\<lambda>s::mp4_segmenter. take_box (take n (sg_pending s)) (s\<lparr>sg_pending := drop n (sg_pending s)\<rparr>) []"
    have b: "same_but_init (fst (?u s)) (fst (?u t)) \<and> snd (?u t) = snd (?u s)"
      using take_box_same [of "s\<lparr>sg_pending := drop n (sg_pending s)\<rparr>"
          "t\<lparr>sg_pending := drop n (sg_pending s)\<rparr>"] by simp
    have "length (sg_pending (fst (?u s))) < length (sg_pending s)"
      using box_head_bounds [OF CompleteBox] by (simp, arith)
    note ih = less.hyps [OF this b [THEN conjunct1]]
    have "feed_loop s [] = map_prod id ((@) (snd (?u s))) (feed_loop (fst (?u s)) [])"
      by (rule feed_loop_CompleteBox) (simp_all add: CompleteBox)
    moreover have "feed_loop t [] = map_prod id ((@) (snd (?u t))) (feed_loop (fst (?u t)) [])"
      by (rule feed_loop_CompleteBox) (simp_all add: CompleteBox)
    ultimately show ?thesis using ih b by (simp only: fst_map_prod snd_map_prod id_apply)
  qed (use less.prems enter_opaque_same [of s t] in \<open>simp_all add: feed_loop.simps\<close>)
qed

lemma feed_same:
  assumes "same_but_init s t"
  shows "same_but_init (fst (feed s c)) (fst (feed t c)) \<and> snd (feed t c) = snd (feed s c)"
  using assms same_but_init_fields [OF assms]
    feed_loop_same [of "s\<lparr>sg_pending := sg_pending s @ c\<rparr>" "t\<lparr>sg_pending := sg_pending t @ c\<rparr>"]
  by (simp add: feed_def)

lemma feed_all_same:
  "same_but_init s t \<Longrightarrow> same_but_init (fst (feed_all s cs)) (fst (feed_all t cs)) \<and>
     snd (feed_all t cs) = snd (feed_all s cs)"
proof (induction cs arbitrary: s t)
  case (Cons c cs)
  from feed_same [OF Cons.prems, of c] Cons.IH show ?case
    by (simp add: case_prod_unfold)
qed simp

text \<open>Once a fragment has been seen, whole boxes between an \<open>mdat\<close> and the next \<open>moof\<close> (a
  \<open>styp\<close> or \<open>sidx\<close>) are collected as further initialization bytes and never handed out: the
  segments of the rest of the run, \<open>finish\<close> included, are the same as if the boxes had not been
  there.\<close>

theorem boxes_between_fragments_lost:
  assumes "sg_init_emitted s" "\<not> sg_in_fragment s" "\<not> sg_opaque s" "sg_pending s = []"
    and "list_all complete_box strays" "list_all (\<lambda>b. box_kind b \<noteq> str ''moof'') strays"
  shows "snd (feed_all s (concat strays # chunks)) = snd (feed_all s chunks) \<and>
    snd (finish (fst (feed_all s (concat strays # chunks)))) = snd (finish (fst (feed_all s chunks)))"
proof (rule conjI)
  let ?t = "s\<lparr>sg_init := sg_init s @ concat strays\<rparr>"
  have t: "s\<lparr>sg_pending := [], sg_init := sg_init s @ concat strays\<rparr> = ?t"
    using assms(4) by (cases s) simp
  have "feed_loop ?t [] = (?t, [])" using assms(4) by (simp add: feed_loop.simps box_head_def)
  then have "feed_loop (s\<lparr>sg_pending := [], sg_init := sg_init s @ concat strays\<rparr>) [] = (?t, [])"
    by (simp only: t)
  then have f: "feed s (concat strays) = (?t, [])"
    using assms feed_loop_boxes [where bs = strays and s = s and rest = "[]"]
    by (simp add: feed_def take_boxes_init)
  have same: "same_but_init s ?t" by (rule same_but_initI [OF assms(1)])
  show "snd (feed_all s (concat strays # chunks)) = snd (feed_all s chunks)"
    using f feed_all_same [OF same, of chunks] by simp
  show "snd (finish (fst (feed_all s (concat strays # chunks)))) =
      snd (finish (fst (feed_all s chunks)))"
    using f same_but_init_fields [OF feed_all_same [OF same, of chunks, THEN conjunct1]]
    by (simp add: finish_def)
qed

theorem boxes_between_fragments_lost_witness:
  "snd (feed_all (segmenter_new\<lparr>sg_init_emitted := True\<rparr>) [concat [[0,0,0,8] @ str ''styp'']]) = []"
proof -
  have "snd (feed_all (segmenter_new\<lparr>sg_init_emitted := True\<rparr>) [concat [[0,0,0,8] @ str ''styp'']]) =
      snd (feed_all (segmenter_new\<lparr>sg_init_emitted := True\<rparr>) [])"
    by (rule boxes_between_fragments_lost [THEN conjunct1])
      (simp_all add: complete_box_def box_head_def box_kind_def segmenter_new_def
        str_def MAX_BOX_BYTES_def)
  then show ?thesis by simp
qed

end
