(* ===== verification/Screen_Output.thy ===== *)
theory Screen_Output
  imports Segments Util "HOL-Library.Sublist"
begin

text \<open>
  The output half of the screen pipeline (\<open>src/src/screen/bridge/stdout_reader.rs\<close> and
  \<open>forwarder.rs\<close>): a reader thread cuts the encoder's output into segments and pushes them into a
  queue of eight, a forwarder thread moves them into the media server's channel of eight. Both drop
  whole fragments when they cannot keep up and never the initialization segment.

  The threads share the queue, the channel and the stop flag. Their interleavings are runs of
  \<open>output_step\<close> over inputs, each one atomic operation of one thread.
\<close>

section \<open>stdout\_reader.rs\<close>

definition OUTPUT_QUEUE_CAPACITY :: nat where
  "OUTPUT_QUEUE_CAPACITY = 8"

definition STDOUT_CHUNK :: nat where
  "STDOUT_CHUNK = 64 * 1024"

type_synonym segment_queue = "encoded_segment bounded_drop_oldest"

definition push_segment :: "segment_queue \<Rightarrow> encoded_segment \<Rightarrow> segment_queue" where
  "push_segment output segment = snd (push_or output segment (\<lambda>buffered. \<not> is_init buffered))"

function read_encoded ::
  "reader \<Rightarrow> mp4_segmenter \<Rightarrow> segment_queue \<Rightarrow> (io_error + unit) \<times> segment_queue" where
  "read_encoded rd segmenter output =
     (case rd_read rd STDOUT_CHUNK of
        (Inr chunk, rd') \<Rightarrow>
          if chunk = [] then (Inr (), foldl push_segment output (snd (finish segmenter)))
          else (case feed segmenter chunk of (segmenter', segments) \<Rightarrow>
                  read_encoded rd' segmenter' (foldl push_segment output segments))
      | (Inl e, rd') \<Rightarrow>
          if e = Interrupted then read_encoded rd' segmenter output else (Inl e, output))"
  by pat_completeness auto
termination
  by (relation "measure (\<lambda>(rd, segmenter, output). rd_size rd)") (auto dest: rd_read_size [OF sym])

declare read_encoded.simps [simp del]

text \<open>The handles of the reader threads; a handle says whether its thread has finished.\<close>

definition register_reader :: "('h \<Rightarrow> bool) \<Rightarrow> 'h list \<Rightarrow> 'h \<Rightarrow> 'h list" where
  "register_reader is_finished handles reader = filter (\<lambda>h. \<not> is_finished h) handles @ [reader]"

section \<open>forwarder.rs\<close>

definition SERVER_CHANNEL_CAPACITY :: nat where
  "SERVER_CHANNEL_CAPACITY = 8"

text \<open>
  The shared state: the queue, the channel with what the consumer has received from it, the stop
  flag and the counter of dropped segments; the segment the forwarder holds between taking it from
  the queue and handing it over; whether the forwarder has returned. \<open>op_sent\<close> records the segments
  put into the channel.
\<close>

record output_pipe =
  op_queue :: segment_queue
  op_channel :: "bytes list"
  op_closed :: bool
  op_received :: "bytes list"
  op_hand :: "encoded_segment option"
  op_stop :: bool
  op_returned :: bool
  op_dropped :: nat
  op_sent :: "encoded_segment list"

definition output_start :: output_pipe where
  "output_start =
     \<lparr>op_queue = \<lparr>items = [], capacity = OUTPUT_QUEUE_CAPACITY\<rparr>, op_channel = [], op_closed = False,
      op_received = [], op_hand = None, op_stop = False, op_returned = False, op_dropped = 0, op_sent = []\<rparr>"

text \<open>One attempt of \<open>forward_segment\<close> to hand the segment over.\<close>

definition forward_segment :: "encoded_segment \<Rightarrow> output_pipe \<Rightarrow> output_pipe" where
  "forward_segment segment s =
     (if op_closed s then s\<lparr>op_hand := None, op_stop := True, op_returned := True\<rparr>
      else if length (op_channel s) < SERVER_CHANNEL_CAPACITY then
        s\<lparr>op_hand := None, op_channel := op_channel s @ [seg_bytes segment], op_sent := op_sent s @ [segment]\<rparr>
      else if is_init segment then
        (if op_stop s then s\<lparr>op_hand := None, op_returned := True\<rparr> else s)
      else s\<lparr>op_hand := None, op_dropped := op_dropped s + 1\<rparr>)"

text \<open>One atomic operation of \<open>forwarder_loop\<close>: the loop's test with the pop, or an attempt to
  hand over the segment in hand.\<close>

definition forwarder_turn :: "output_pipe \<Rightarrow> output_pipe" where
  "forwarder_turn s =
     (if op_returned s then s
      else (case op_hand s of
        Some segment \<Rightarrow> forward_segment segment s
      | None \<Rightarrow>
          if op_stop s then s\<lparr>op_returned := True\<rparr>
          else (case try_pop (op_queue s) of
                  (Some segment, q) \<Rightarrow> s\<lparr>op_queue := q, op_hand := Some segment\<rparr>
                | (None, q) \<Rightarrow> s)))"

datatype output_input =
    SegmentPushed encoded_segment
  | ForwarderTurn
  | ConsumerReceives
  | ConsumerCloses
  | StopRequested
  | QueueCleared

definition output_step :: "output_pipe \<Rightarrow> output_input \<Rightarrow> output_pipe" where
  "output_step s i =
     (case i of
        SegmentPushed segment \<Rightarrow> s\<lparr>op_queue := push_segment (op_queue s) segment\<rparr>
      | ForwarderTurn \<Rightarrow> forwarder_turn s
      | ConsumerReceives \<Rightarrow>
          (case op_channel s of
             [] \<Rightarrow> s
           | b # bs \<Rightarrow> if op_closed s then s else s\<lparr>op_channel := bs, op_received := op_received s @ [b]\<rparr>)
      | ConsumerCloses \<Rightarrow> s\<lparr>op_closed := True\<rparr>
      | StopRequested \<Rightarrow> s\<lparr>op_stop := True\<rparr>
      | QueueCleared \<Rightarrow> s\<lparr>op_queue := queue_clear (op_queue s)\<rparr>)"

section \<open>The queue under a stalled consumer\<close>

lemma is_init_simps [simp]: "is_init g \<longleftrightarrow> (\<exists>b. g = Init b)"
  by (cases g) auto

lemma push_segment_capacity [simp]: "capacity (push_segment q g) = capacity q"
  by (auto simp: push_segment_def push_or_def split: option.splits)

lemma foldl_push_segment_capacity [simp]: "capacity (foldl push_segment q gs) = capacity q"
  by (induction gs arbitrary: q) auto

lemma push_segment_fragments:
  assumes "items q = Init i # map Fragment fs" "length fs < capacity q" "1 < capacity q"
  shows "items (push_segment q (Fragment f)) = Init i # map Fragment (drop (Suc (Suc (length fs)) - capacity q) (fs @ [f]))"
proof (cases "Suc (length fs) < capacity q")
  case True
  with assms show ?thesis by (simp add: push_segment_def push_or_def)
next
  case False
  then have full: "capacity q = Suc (length fs)" using assms(2) by simp
  with assms(3) obtain f' fs' where fs: "fs = f' # fs'" by (cases fs) auto
  show ?thesis
    using assms(1) full by (simp add: push_segment_def push_or_def fs remove_at_def)
qed

lemma foldl_push_fragments:
  assumes "items q = Init i # map Fragment fs" "length fs < capacity q" "1 < capacity q"
  shows "items (foldl push_segment q (map Fragment gs)) =
    Init i # map Fragment (drop (Suc (length fs + length gs) - capacity q) (fs @ gs))"
  using assms
proof (induction gs arbitrary: q fs)
  case Nil
  then show ?case by simp
next
  case (Cons g gs)
  let ?q = "push_segment q (Fragment g)" and ?fs = "drop (Suc (Suc (length fs)) - capacity q) (fs @ [g])"
  have "items ?q = Init i # map Fragment ?fs" using Cons.prems by (rule push_segment_fragments)
  moreover have "length ?fs < capacity ?q" using Cons.prems(2,3) by simp
  ultimately have "items (foldl push_segment ?q (map Fragment gs)) =
      Init i # map Fragment (drop (Suc (length ?fs + length gs) - capacity ?q) (?fs @ gs))"
    using Cons.prems(3) by (intro Cons.IH) simp_all
  moreover have "drop (Suc (length ?fs + length gs) - capacity ?q) (?fs @ gs) =
      drop (Suc (length fs + length (g # gs)) - capacity q) (fs @ g # gs)"
  proof -
    let ?j = "Suc (Suc (length fs)) - capacity q"
    have "?fs @ gs = drop ?j (fs @ g # gs)" using Cons.prems(2,3) by simp
    moreover have "Suc (length ?fs + length gs) - capacity ?q + ?j = Suc (length fs + length (g # gs)) - capacity q"
      using Cons.prems(2,3) by simp
    ultimately show ?thesis by (simp only: drop_drop)
  qed
  ultimately show ?case by (simp only: list.map foldl.simps)
qed

lemma read_encoded_benign:
  assumes "benign rd"
  shows "\<exists>chunks. concat chunks = rd_bytes rd \<and>
    read_encoded rd segmenter q =
      (Inr (), foldl push_segment q
        (snd (feed_all segmenter chunks) @ snd (finish (fst (feed_all segmenter chunks)))))"
  using assms
proof (induction rd segmenter q rule: read_encoded.induct)
  case (1 rd segmenter q)
  obtain r rd' where r: "rd_read rd STDOUT_CHUNK = (r, rd')" by fastforce
  have pos: "0 < STDOUT_CHUNK" by (simp add: STDOUT_CHUNK_def)
  show ?case
  proof (cases r)
    case (Inl e)
    with r rd_read_benign(2) [OF 1(3) pos] have e: "benign rd'" "e = Interrupted" by auto
    obtain chunks where c: "concat chunks = rd_bytes rd'" "read_encoded rd' segmenter q =
        (Inr (), foldl push_segment q
          (snd (feed_all segmenter chunks) @ snd (finish (fst (feed_all segmenter chunks)))))"
      using 1(1) [OF r [symmetric] Inl e(2,1)] by blast
    have "rd_bytes rd = rd_bytes rd'" using rd_read_bytes(2) r Inl by auto
    with c e r Inl show ?thesis by (subst read_encoded.simps) (auto intro: exI [of _ chunks])
  next
    case (Inr chunk)
    with r rd_read_benign(1) [OF 1(3) pos] have b: "benign rd'" "chunk = [] \<Longrightarrow> rd_bytes rd = []" by auto
    show ?thesis
    proof (cases "chunk = []")
      case True
      with b r Inr show ?thesis
        by (subst read_encoded.simps) (auto intro: exI [of _ "[]"])
    next
      case False
      obtain segmenter' segments where f: "feed segmenter chunk = (segmenter', segments)" by fastforce
      obtain chunks where c: "concat chunks = rd_bytes rd'"
        "read_encoded rd' segmenter' (foldl push_segment q segments) =
          (Inr (), foldl push_segment (foldl push_segment q segments)
            (snd (feed_all segmenter' chunks) @ snd (finish (fst (feed_all segmenter' chunks)))))"
        using 1(2) [OF r [symmetric] Inr False f [symmetric] b(1)] by blast
      have "rd_bytes rd = chunk @ rd_bytes rd'" using rd_read_bytes(1) r Inr by auto
      with c r Inr False f show ?thesis
        by (subst read_encoded.simps) (auto intro!: exI [of _ "chunk # chunks"])
    qed
  qed
qed

text \<open>C38: A stalled consumer loses whole fragments and nothing else. Whatever the sizes of the reads,
  after the encoder's whole output has been read into the empty queue, the queue holds the
  initialization segment and the last seven fragments, byte for byte and in order; an unfinished
  last fragment is not there.\<close>

theorem stalled_consumer_keeps_init_and_latest:
  assumes "benign rd" "list_all complete_box inits" "list_all (\<lambda>b. box_kind b \<noteq> str ''moof'') inits"
    and "concat inits \<noteq> []" "list_all wf_fragment fs" "fs \<noteq> []" "box_head rest = NeedMore"
    and "rd_bytes rd = concat inits @ concat (concat (map fragment_boxes fs)) @ rest"
  shows "read_encoded rd segmenter_new \<lparr>items = [], capacity = OUTPUT_QUEUE_CAPACITY\<rparr> =
    (Inr (), \<lparr>items = Init (concat inits) #
        map (\<lambda>f. Fragment (concat (fragment_boxes f))) (drop (length fs - 7) fs),
      capacity = OUTPUT_QUEUE_CAPACITY\<rparr>)"
proof -
  let ?q = "\<lparr>items = [], capacity = OUTPUT_QUEUE_CAPACITY\<rparr> :: segment_queue"
  let ?fs = "map (\<lambda>f. concat (fragment_boxes f)) fs"
  obtain chunks where c: "concat chunks = rd_bytes rd" "read_encoded rd segmenter_new ?q =
      (Inr (), foldl push_segment ?q
        (snd (feed_all segmenter_new chunks) @ snd (finish (fst (feed_all segmenter_new chunks)))))"
    using read_encoded_benign [OF assms(1)] by blast
  have "feed_all segmenter_new chunks = (segmenter_new\<lparr>sg_pending := rest, sg_init_emitted := True\<rparr>,
      Init (concat inits) # map (\<lambda>f. Fragment (concat (fragment_boxes f))) fs)"
    using c(1) assms by (intro feed_all_stream) simp_all
  moreover have "finish (segmenter_new\<lparr>sg_pending := rest, sg_init_emitted := True\<rparr>) =
      (segmenter_new\<lparr>sg_pending := rest, sg_init_emitted := True\<rparr>, [])"
    by (simp add: finish_def segmenter_new_def)
  moreover have "map (\<lambda>f. Fragment (concat (fragment_boxes f))) fs = map Fragment ?fs" by simp
  ultimately have r: "read_encoded rd segmenter_new ?q =
      (Inr (), foldl push_segment (push_segment ?q (Init (concat inits))) (map Fragment ?fs))"
    using c(2) by simp
  let ?r = "foldl push_segment (push_segment ?q (Init (concat inits))) (map Fragment ?fs)"
  have "items (push_segment ?q (Init (concat inits))) = Init (concat inits) # map Fragment []"
    by (simp add: push_segment_def push_or_def OUTPUT_QUEUE_CAPACITY_def)
  then have "items ?r = Init (concat inits) # map Fragment (drop (length fs - 7) ?fs)"
    by (subst foldl_push_fragments [where fs = "[]"]) (simp_all add: OUTPUT_QUEUE_CAPACITY_def)
  moreover have "capacity ?r = OUTPUT_QUEUE_CAPACITY" by simp
  ultimately have "?r = \<lparr>items = Init (concat inits) # map Fragment (drop (length fs - 7) ?fs),
      capacity = OUTPUT_QUEUE_CAPACITY\<rparr>"
    by (intro bounded_drop_oldest.equality) simp_all
  then show ?thesis unfolding r by (simp add: drop_map comp_def)
qed

theorem stalled_consumer_keeps_init_and_latest_witness:
  "let ftyp = [0,0,0,9] @ str ''ftyp'' @ [7];
       frag = ([0,0,0,8] @ str ''moof'', [], [0,0,0,10] @ str ''mdat'' @ [1,2])
   in items (snd (read_encoded [Data ftyp, Fail Interrupted, Data (concat (fragment_boxes frag))]
        segmenter_new \<lparr>items = [], capacity = OUTPUT_QUEUE_CAPACITY\<rparr>)) =
      [Init ftyp, Fragment (concat (fragment_boxes frag))]"
proof -
  let ?ftyp = "[0,0,0,9] @ str ''ftyp'' @ [7]"
  let ?frag = "([0,0,0,8] @ str ''moof'', [], [0,0,0,10] @ str ''mdat'' @ [1,2])"
  have "read_encoded [Data ?ftyp, Fail Interrupted, Data (concat (fragment_boxes ?frag))]
        segmenter_new \<lparr>items = [], capacity = OUTPUT_QUEUE_CAPACITY\<rparr> =
      (Inr (), \<lparr>items = Init (concat [?ftyp]) #
          map (\<lambda>f. Fragment (concat (fragment_boxes f))) (drop (length [?frag] - 7) [?frag]),
        capacity = OUTPUT_QUEUE_CAPACITY\<rparr>)"
    by (rule trans [OF stalled_consumer_keeps_init_and_latest
          [where rest = "[]" and inits = "[?ftyp]" and fs = "[?frag]"]])
      (simp_all add: benign_def benign_outcome_def complete_box_def box_head_def box_kind_def str_def
        MAX_BOX_BYTES_def wf_fragment_def fragment_boxes_def)
  then show ?thesis by simp
qed

section \<open>The pipe between the queue and the consumer\<close>

definition output_run :: "output_input list \<Rightarrow> output_pipe \<Rightarrow> output_pipe" where
  "output_run is s = foldl output_step s is"

text \<open>The segments taken in and not yet sent, oldest first; those the readers push in a run.\<close>

definition in_hand :: "output_pipe \<Rightarrow> encoded_segment list" where
  "in_hand s = (case op_hand s of None \<Rightarrow> [] | Some g \<Rightarrow> [g])"

definition pending_out :: "output_pipe \<Rightarrow> encoded_segment list" where
  "pending_out s = in_hand s @ items (op_queue s)"

fun produced :: "output_input list \<Rightarrow> encoded_segment list" where
  "produced [] = []"
| "produced (SegmentPushed g # is) = g # produced is"
| "produced (_ # is) = produced is"

fun undisturbed :: "output_input \<Rightarrow> bool" where
  "undisturbed ConsumerCloses = False"
| "undisturbed StopRequested = False"
| "undisturbed QueueCleared = False"
| "undisturbed _ = True"

definition pipe_running :: "output_pipe \<Rightarrow> bool" where
  "pipe_running s \<longleftrightarrow> \<not> op_closed s \<and> \<not> op_stop s \<and> \<not> op_returned s \<and>
     capacity (op_queue s) = OUTPUT_QUEUE_CAPACITY \<and> length (items (op_queue s)) \<le> OUTPUT_QUEUE_CAPACITY"

definition sent_in_order :: "output_pipe \<Rightarrow> bool" where
  "sent_in_order s \<longleftrightarrow> op_received s @ op_channel s = map seg_bytes (op_sent s)"

abbreviation inits_of :: "encoded_segment list \<Rightarrow> encoded_segment list" where
  "inits_of gs \<equiv> filter (\<lambda>g. \<exists>b. g = Init b) gs"

lemma output_run_Nil [simp]: "output_run [] s = s"
  and output_run_Cons [simp]: "output_run (i # is) s = output_run is (output_step s i)"
  and output_run_append [simp]: "output_run (is @ js) s = output_run js (output_run is s)"
  by (simp_all add: output_run_def)

lemma subseq_remove_at: "subseq (remove_at i xs) xs"
proof -
  have "subseq (drop (Suc i) xs) (drop i xs)"
    by (induction xs arbitrary: i) (auto simp: drop_Cons list_emb_Cons split: nat.splits)
  then have "subseq (take i xs @ drop (Suc i) xs) (take i xs @ drop i xs)"
    by (simp only: subseq_append')
  then show ?thesis by (simp add: remove_at_def)
qed

lemma push_segment_subseq: "subseq (items (push_segment q g)) (items q @ [g])"
  by (auto simp: push_segment_def push_or_def subseq_remove_at split: option.splits)

lemma push_segment_inits:
  assumes "length (inits_of (items q)) < capacity q" "length (items q) \<le> capacity q"
  shows "inits_of (items (push_segment q g)) = inits_of (items q @ [g])"
    and "length (items (push_segment q g)) \<le> capacity q"
proof -
  let ?ev = "\<lambda>g. \<not> is_init g"
  have "position ?ev (items q) \<noteq> None" if "length (items q) = capacity q"
  proof
    assume "position ?ev (items q) = None"
    then have "inits_of (items q) = items q" by (simp add: position_None)
    with assms(1) that show False by simp
  qed
  then show "inits_of (items (push_segment q g)) = inits_of (items q @ [g])"
      "length (items (push_segment q g)) \<le> capacity q"
    using assms(2) by (auto simp: push_segment_def push_or_def filter_remove_at length_remove_at
        dest!: position_Some split: option.splits)
qed

lemma sent_in_order_step: "sent_in_order s \<Longrightarrow> sent_in_order (output_step s i)"
  by (auto simp: sent_in_order_def output_step_def forwarder_turn_def forward_segment_def
      split: output_input.splits list.splits option.splits prod.splits)

lemma sent_in_order_run: "sent_in_order s \<Longrightarrow> sent_in_order (output_run is s)"
  by (induction "is" arbitrary: s) (auto simp: sent_in_order_step)

text \<open>What a step or a run does with what is pending: it sends some of it and keeps the rest, in
  order, and loses no initialization segment.\<close>

definition conveys :: "output_pipe \<Rightarrow> encoded_segment list \<Rightarrow> output_pipe \<Rightarrow> bool" where
  "conveys s gs s' \<longleftrightarrow> pipe_running s' \<and> (\<exists>new. op_sent s' = op_sent s @ new \<and>
     subseq (new @ pending_out s') (pending_out s @ gs) \<and>
     inits_of (new @ pending_out s') = inits_of (pending_out s @ gs))"

lemma conveys_trans:
  assumes "conveys s gs s'" "conveys s' hs s''"
  shows "conveys s (gs @ hs) s''"
proof -
  from assms(1) obtain new where n: "op_sent s' = op_sent s @ new"
    "subseq (new @ pending_out s') (pending_out s @ gs)"
    "inits_of (new @ pending_out s') = inits_of (pending_out s @ gs)"
    by (auto simp only: conveys_def)
  from assms(2) obtain new' where n': "op_sent s'' = op_sent s' @ new'"
    "subseq (new' @ pending_out s'') (pending_out s' @ hs)"
    "inits_of (new' @ pending_out s'') = inits_of (pending_out s' @ hs)" and r: "pipe_running s''"
    by (auto simp only: conveys_def)
  have "subseq (new @ new' @ pending_out s'') (new @ pending_out s' @ hs)"
    using n'(2) by (simp add: subseq_append')
  also have "subseq (new @ pending_out s' @ hs) (pending_out s @ gs @ hs)"
    using list_emb_append_mono [OF n(2) subseq_order.order_refl [of hs]] by simp
  finally have "subseq ((new @ new') @ pending_out s'') (pending_out s @ gs @ hs)" by simp
  moreover have "inits_of ((new @ new') @ pending_out s'') = inits_of (pending_out s @ gs @ hs)"
    using n(3) n'(3) by (metis append.assoc filter_append)
  moreover have "op_sent s'' = op_sent s @ (new @ new')" by (simp add: n(1) n'(1))
  ultimately show ?thesis using r unfolding conveys_def by blast
qed

lemma forwarder_turn_conveys:
  assumes "pipe_running s"
  shows "conveys s [] (forwarder_turn s)"
proof (cases "op_hand s")
  case None
  then show ?thesis
    using assms by (auto simp: conveys_def pipe_running_def forwarder_turn_def try_pop_def pending_out_def
        in_hand_def split: list.splits)
next
  case (Some g)
  have "subseq (items (op_queue s)) (g # items (op_queue s))" by (simp add: list_emb_Cons)
  with Some show ?thesis
    using assms by (auto simp: conveys_def pipe_running_def forwarder_turn_def forward_segment_def
        pending_out_def in_hand_def)
qed

lemma output_step_conveys:
  assumes "pipe_running s" "undisturbed i"
    and "length (inits_of (pending_out s @ produced [i])) < OUTPUT_QUEUE_CAPACITY"
  shows "conveys s (produced [i]) (output_step s i)"
proof (cases i)
  case (SegmentPushed g)
  have c: "length (inits_of (items (op_queue s))) < capacity (op_queue s)"
    "length (items (op_queue s)) \<le> capacity (op_queue s)"
    using assms(1,3) by (auto simp: pipe_running_def pending_out_def)
  have "subseq (items (push_segment (op_queue s) g)) (items (op_queue s) @ [g])"
    by (rule push_segment_subseq)
  then show ?thesis
    using assms(1) push_segment_inits [OF c, of g]
    by (auto simp: SegmentPushed output_step_def conveys_def pipe_running_def pending_out_def in_hand_def
        subseq_append')
next
  case ForwarderTurn
  then show ?thesis using forwarder_turn_conveys [OF assms(1)] by (simp add: output_step_def)
next
  case ConsumerReceives
  then show ?thesis using assms(1)
    by (auto simp: output_step_def conveys_def pipe_running_def pending_out_def in_hand_def split: list.splits)
qed (use assms(2) in simp_all)

lemma produced_Cons: "produced (i # is) = produced [i] @ produced is"
  by (cases i) simp_all

lemma output_run_conveys:
  assumes "pipe_running s" "list_all undisturbed is"
    and "length (inits_of (pending_out s @ produced is)) < OUTPUT_QUEUE_CAPACITY"
  shows "conveys s (produced is) (output_run is s)"
  using assms
proof (induction "is" arbitrary: s)
  case Nil
  then show ?case by (simp add: conveys_def)
next
  case (Cons i "is")
  have step: "conveys s (produced [i]) (output_step s i)"
    using Cons.prems by (intro output_step_conveys) (auto simp: produced_Cons [of i "is"])
  then obtain new where n: "inits_of (new @ pending_out (output_step s i)) = inits_of (pending_out s @ produced [i])"
    and r: "pipe_running (output_step s i)" by (auto simp only: conveys_def)
  have "length (inits_of (pending_out (output_step s i))) \<le> length (inits_of (pending_out s @ produced [i]))"
    unfolding n [symmetric] by simp
  then have "length (inits_of (pending_out (output_step s i) @ produced is)) < OUTPUT_QUEUE_CAPACITY"
    using Cons.prems(3) by (simp add: produced_Cons [of i "is"])
  then have "conveys (output_step s i) (produced is) (output_run is (output_step s i))"
    using Cons.prems(2) r by (intro Cons.IH) simp_all
  from conveys_trans [OF step this] show ?case by (simp add: produced_Cons [of i "is"])
qed

lemma pipe_running_start: "pipe_running output_start"
  by (simp add: pipe_running_def output_start_def)

text \<open>What the reader of one encoder generation pushes while it lives: nothing yet, or its
  initialization segment and then fragments. A restart joins it before it clears the queue, so its
  segments come before the clearing.\<close>

definition generation :: "output_input list \<Rightarrow> bool" where
  "generation is \<longleftrightarrow> list_all undisturbed is \<and>
     (produced is = [] \<or> (\<exists>i fs. produced is = Init i # map Fragment fs))"

definition restarts :: "output_input list list \<Rightarrow> output_input list" where
  "restarts gens = concat (map (\<lambda>is. QueueCleared # is) gens)"

lemma generationI: "list_all undisturbed is \<Longrightarrow> produced is = Init i # map Fragment fs \<Longrightarrow> generation is"
  by (auto simp: generation_def)

lemma generation_inits: "generation is \<Longrightarrow> length (inits_of (produced is)) \<le> 1"
  by (auto simp: generation_def)

lemma pending_cleared:
  "pending_out (output_step s QueueCleared) = in_hand s" "op_sent (output_step s QueueCleared) = op_sent s"
  "pipe_running s \<Longrightarrow> pipe_running (output_step s QueueCleared)"
  by (auto simp: pending_out_def in_hand_def output_step_def queue_clear_def pipe_running_def)

lemma generation_conveys:
  assumes "pipe_running s" "generation is"
  shows "conveys (output_step s QueueCleared) (produced is) (output_run (QueueCleared # is) s)"
proof -
  have "length (inits_of (in_hand s)) \<le> 1" by (simp add: in_hand_def split: option.splits)
  then show ?thesis
    using assms generation_inits [OF assms(2)] unfolding output_run_Cons
    by (intro output_run_conveys) (auto simp: pending_cleared generation_def OUTPUT_QUEUE_CAPACITY_def)
qed

lemma restarts_running: "pipe_running s \<Longrightarrow> list_all generation gens \<Longrightarrow> pipe_running (output_run (restarts gens) s)"
proof (induction gens arbitrary: s)
  case (Cons g gens)
  have "pipe_running (output_run (QueueCleared # g) s)"
    using generation_conveys [OF Cons.prems(1), of g] Cons.prems(2) by (simp add: conveys_def)
  with Cons show ?case by (simp add: restarts_def)
qed (simp add: restarts_def)

text \<open>A sequence that keeps the one initialization segment starts with it, behind what was in hand.\<close>

lemma subseq_leads:
  assumes "subseq xs (h @ Init i # map Fragment fs)" "length h \<le> 1" "inits_of xs = inits_of h @ [Init i]"
  shows "\<exists>old rest. xs = old @ Init i # rest \<and> (old = [] \<or> old = h) \<and> subseq rest (map Fragment fs)"
proof -
  have none: "inits_of ys = []" if "subseq ys (map Fragment fs)" for ys
  proof -
    have "set ys \<subseteq> Fragment ` set fs" using list_emb_set [OF that] by auto
    then show ?thesis by (auto simp: filter_empty_conv)
  qed
  have lead: "\<exists>rest. ys = Init i # rest \<and> subseq rest (map Fragment fs)"
    if "subseq ys (Init i # map Fragment fs)" "inits_of ys \<noteq> []" for ys
    using that none [of ys] by (cases ys) (auto simp: subseq_Cons2_iff split: if_splits)
  show ?thesis
  proof (cases h)
    case Nil
    with lead [of xs] assms(1,3) show ?thesis by auto
  next
    case (Cons g h')
    then have h: "h = [g]" using assms(2) by simp
    show ?thesis
    proof (cases "\<exists>xs'. xs = g # xs' \<and> subseq xs' (Init i # map Fragment fs)")
      case True
      then obtain xs' where xs': "xs = g # xs'" "subseq xs' (Init i # map Fragment fs)" by blast
      then have "inits_of xs' \<noteq> []" using assms(3) h by (auto split: if_splits)
      from lead [OF xs'(2) this] obtain rest where "xs = [g] @ Init i # rest" "subseq rest (map Fragment fs)"
        using xs'(1) by auto
      then show ?thesis unfolding h by blast
    next
      case False
      then have sub: "subseq xs (Init i # map Fragment fs)"
        using assms(1) h by (cases xs) (auto simp: subseq_Cons2_iff split: if_splits)
      then obtain rest where "xs = Init i # rest" "subseq rest (map Fragment fs)"
        using lead [of xs] assms(3) by auto
      then show ?thesis by (metis append_Nil)
    qed
  qed
qed

text \<open>C21: After a restart, the first or any later one, the new encoder's output leads with its own
  initialization segment. Whatever the interleaving of the readers, the forwarder and a slow consumer,
  what goes into the channel after the queue was cleared, or is still pending, is this: the one segment
  of an earlier encoder the forwarder already held, if it held one, then the new initialization
  segment, which is never dropped, then fragments of the new encoder in order. So no fragment of the
  new encoder comes before its initialization segment, and at most one segment of an earlier encoder
  is still sent. The consumer gets the bytes sent, in the order sent.\<close>

theorem restart_leads_with_fresh_init:
  assumes "generation first" "list_all generation gens" "generation after" "produced after = Init i # map Fragment fs"
  defines "s1 \<equiv> output_run (first @ restarts gens) output_start"
  defines "s2 \<equiv> output_run (QueueCleared # after) s1"
  shows "\<exists>new old rest. op_sent s2 = op_sent s1 @ new \<and>
    new @ pending_out s2 = old @ Init i # rest \<and> (old = [] \<or> old = in_hand s1) \<and> subseq rest (map Fragment fs) \<and>
    length (in_hand s1) \<le> 1 \<and> op_received s2 @ op_channel s2 = map seg_bytes (op_sent s2)"
proof -
  have "conveys output_start (produced first) (output_run first output_start)"
    using assms(1) generation_inits [OF assms(1)] pipe_running_start
    by (intro output_run_conveys)
      (auto simp: pending_out_def in_hand_def output_start_def generation_def OUTPUT_QUEUE_CAPACITY_def)
  then have "pipe_running s1"
    unfolding s1_def output_run_append using assms(2) by (intro restarts_running) (simp_all add: conveys_def)
  from generation_conveys [OF this assms(3)]
  obtain new where new: "op_sent s2 = op_sent s1 @ new"
      "subseq (new @ pending_out s2) (in_hand s1 @ Init i # map Fragment fs)"
      "inits_of (new @ pending_out s2) = inits_of (in_hand s1 @ Init i # map Fragment fs)"
    by (auto simp only: conveys_def s2_def pending_cleared assms(4))
  have "inits_of (map Fragment fs) = []" by (auto simp: filter_empty_conv)
  with new(3) have "inits_of (new @ pending_out s2) = inits_of (in_hand s1) @ [Init i]" by simp
  moreover have hand: "length (in_hand s1) \<le> 1" by (simp add: in_hand_def split: option.splits)
  ultimately obtain old rest where "new @ pending_out s2 = old @ Init i # rest" "old = [] \<or> old = in_hand s1"
      "subseq rest (map Fragment fs)"
    using subseq_leads [OF new(2)] by blast
  moreover have "sent_in_order s2"
    unfolding s2_def s1_def by (intro sent_in_order_run) (simp add: sent_in_order_def output_start_def)
  ultimately show ?thesis using new(1) hand unfolding sent_in_order_def by blast
qed

theorem restart_leads_with_fresh_init_witness:
  "let first = [SegmentPushed (Init [1]), SegmentPushed (Fragment [2]), ForwarderTurn, ForwarderTurn,
        SegmentPushed (Fragment [3]), ForwarderTurn];
      second = [SegmentPushed (Init [4]), ForwarderTurn, ConsumerReceives, ForwarderTurn];
      after = [SegmentPushed (Init [6]), ForwarderTurn, ConsumerReceives, SegmentPushed (Fragment [7])];
      s1 = output_run (first @ restarts [second]) output_start; s2 = output_run (QueueCleared # after) s1
   in in_hand s1 = [Init [4]] \<and> op_sent s2 = [Init [1], Fragment [2], Init [4]] \<and>
      (\<exists>new old rest. op_sent s2 = op_sent s1 @ new \<and> new @ pending_out s2 = old @ Init [6] # rest \<and> old = in_hand s1)"
proof -
  let ?first = "[SegmentPushed (Init [1]), SegmentPushed (Fragment [2]), ForwarderTurn, ForwarderTurn,
    SegmentPushed (Fragment [3]), ForwarderTurn]"
  let ?second = "[SegmentPushed (Init [4]), ForwarderTurn, ConsumerReceives, ForwarderTurn]"
  let ?after = "[SegmentPushed (Init [6]), ForwarderTurn, ConsumerReceives, SegmentPushed (Fragment [7])]"
  let ?s1 = "output_run (?first @ restarts [?second]) output_start"
  let ?s2 = "output_run (QueueCleared # ?after) ?s1"
  have runs: "in_hand ?s1 = [Init [4]]" "op_sent ?s2 = [Init [1], Fragment [2], Init [4]]"
    "op_sent ?s1 = [Init [1], Fragment [2]]"
    by code_simp+
  have gens: "generation ?first" "list_all generation [?second]" "generation ?after" "produced ?after = Init [6] # map Fragment [[7]]"
    using generationI [of ?first "[1]" "[[2], [3]]"] generationI [of ?second "[4]" "[]"] generationI [of ?after "[6]" "[[7]]"]
    by simp_all
  have "\<exists>new old rest. op_sent ?s2 = op_sent ?s1 @ new \<and>
    new @ pending_out ?s2 = old @ Init [6] # rest \<and> (old = [] \<or> old = in_hand ?s1) \<and> subseq rest (map Fragment [[7]]) \<and>
    length (in_hand ?s1) \<le> 1 \<and> op_received ?s2 @ op_channel ?s2 = map seg_bytes (op_sent ?s2)"
    using restart_leads_with_fresh_init [OF gens] by blast
  then obtain new old rest where led: "op_sent ?s2 = op_sent ?s1 @ new" "new @ pending_out ?s2 = old @ Init [6] # rest"
      "old = [] \<or> old = in_hand ?s1" by blast
  have "new = [Init [4]]" using led(1) unfolding runs by simp
  with led(2,3) have "old = in_hand ?s1" by auto
  with led runs show ?thesis unfolding Let_def by blast
qed

text \<open>The segment in hand can be the initialization segment of the encoder that was stopped: it then
  reaches the consumer after the restart, in front of the new one.\<close>

lemma stale_init_after_restart:
  "op_sent (output_run [SegmentPushed (Init [1]), ForwarderTurn, QueueCleared, ForwarderTurn,
     SegmentPushed (Init [4]), ForwarderTurn, ConsumerReceives, ForwarderTurn] output_start) = [Init [1], Init [4]]"
  by code_simp

end
