(* ===== verification/Screen_Capture.thy ===== *)
theory Screen_Capture
  imports Text_Lemmas Util "HOL-Library.List_Lexorder"
begin

text \<open>
  Screen capture (\<open>src/src/screen/capture.rs\<close>, \<open>bgra_rgba.rs\<close>) with the state the threads of one
  screen pipeline share and its single-shot error reporter (\<open>src/src/screen/bridge/mod.rs\<close>). What the
  \<open>xcap\<close> crate answers (the monitors, each captured frame, each re-acquired handle) is an argument.
\<close>

section \<open>bgra\_rgba.rs\<close>

definition XCAP_FRAMES_ARE_RGBA :: bool where
  "XCAP_FRAMES_ARE_RGBA = True"

fun bgra_to_rgba :: "bytes \<Rightarrow> bytes" where
  "bgra_to_rgba (b # g # r # a # pixels) = r # g # b # a # bgra_to_rgba pixels"
| "bgra_to_rgba rest = rest"

section \<open>The shared state of a pipeline\<close>

definition FRAME_QUEUE_CAPACITY :: nat where
  "FRAME_QUEUE_CAPACITY = 2"

text \<open>The frame queue, the stop and failed flags, the slot of the resolution request, the last
  error, the \<open>StreamError\<close> events sent, and the program's shutdown token.\<close>

record pipeline =
  pl_frames :: "bytes bounded_drop_oldest"
  pl_stop :: bool
  pl_failed :: bool
  pl_resolution_request :: "(u32 \<times> u32) option"
  pl_last_error :: "rstring option"
  pl_events :: "rstring list"
  pl_shutdown :: bool

definition pipeline_new :: pipeline where
  "pipeline_new =
     \<lparr>pl_frames = \<lparr>items = [], capacity = FRAME_QUEUE_CAPACITY\<rparr>, pl_stop = False, pl_failed = False,
      pl_resolution_request = None, pl_last_error = None, pl_events = [], pl_shutdown = False\<rparr>"

definition report_once :: "rstring \<Rightarrow> pipeline \<Rightarrow> pipeline" where
  "report_once message p =
     (let p = (if pl_failed p then p
               else p\<lparr>pl_failed := True, pl_last_error := Some message, pl_events := pl_events p @ [message]\<rparr>)
      in p\<lparr>pl_stop := True\<rparr>)"

definition push_frame :: "bytes \<Rightarrow> pipeline \<Rightarrow> pipeline" where
  "push_frame bs p = p\<lparr>pl_frames := push (pl_frames p) bs\<rparr>"

definition request_resolution :: "u32 \<Rightarrow> u32 \<Rightarrow> pipeline \<Rightarrow> pipeline" where
  "request_resolution width height p = p\<lparr>pl_resolution_request := Some (width, height)\<rparr>"

definition stop_pipeline :: "pipeline \<Rightarrow> pipeline" where
  "stop_pipeline p = p\<lparr>pl_stop := True\<rparr>"

definition is_running :: "pipeline \<Rightarrow> bool" where
  "is_running p \<longleftrightarrow> \<not> pl_stop p \<and> \<not> pl_failed p"

text \<open>The test of every loop of the pipeline.\<close>

definition teardown_requested :: "pipeline \<Rightarrow> bool" where
  "teardown_requested p \<longleftrightarrow> pl_stop p \<or> pl_shutdown p"

section \<open>Monitors\<close>

text \<open>A monitor as \<open>xcap\<close> reports it; each query may fail.\<close>

record monitor =
  mo_name :: "rstring + rstring"
  mo_width :: "rstring + u32"
  mo_height :: "rstring + u32"

datatype monitor_error =
    Xcap rstring
  | NoMonitorNamed rstring
  | NoResolution rstring
  | WaylandUnusable

definition WAYLAND_SCREEN_ENTRY :: rstring where
  "WAYLAND_SCREEN_ENTRY = str ''Screen''"

definition wayland_for :: "bool \<Rightarrow> bytes option \<Rightarrow> bytes option \<Rightarrow> bool" where
  "wayland_for linux session_type wayland_display \<longleftrightarrow> linux \<and>
     ((case session_type of Some v \<Rightarrow> from_utf8_lossy v = str ''wayland'' | None \<Rightarrow> False) \<or>
      wayland_display \<noteq> None)"

fun collect_names :: "monitor list \<Rightarrow> monitor_error + rstring list" where
  "collect_names [] = Inr []"
| "collect_names (mon # ms) =
     (case mo_name mon of
        Inl e \<Rightarrow> Inl (Xcap e)
      | Inr name \<Rightarrow> rbind (collect_names ms) (\<lambda>names. Inr (name # names)))"

text \<open>On Linux under Wayland the one virtual entry stands for the portal, if it is usable.\<close>

definition monitor_names :: "bool \<Rightarrow> bool \<Rightarrow> rstring + monitor list \<Rightarrow> monitor_error + rstring list" where
  "monitor_names wayland portal_usable monitors =
     (if wayland then (if portal_usable then Inr [WAYLAND_SCREEN_ENTRY] else Inl WaylandUnusable)
      else (case monitors of
              Inl e \<Rightarrow> Inl (Xcap e)
            | Inr ms \<Rightarrow> rbind (collect_names ms) (\<lambda>names. Inr (remdups_adj (sort names)))))"

fun find_monitor :: "rstring \<Rightarrow> monitor list \<Rightarrow> monitor_error + monitor" where
  "find_monitor name [] = Inl (NoMonitorNamed name)"
| "find_monitor name (mon # ms) =
     (case mo_name mon of
        Inl e \<Rightarrow> Inl (Xcap e)
      | Inr n \<Rightarrow> if n = name then Inr mon else find_monitor name ms)"

definition monitor_by_name :: "rstring \<Rightarrow> rstring + monitor list \<Rightarrow> monitor_error + monitor" where
  "monitor_by_name name monitors = (case monitors of Inl e \<Rightarrow> Inl (Xcap e) | Inr ms \<Rightarrow> find_monitor name ms)"

definition monitor_resolution :: "rstring \<Rightarrow> rstring + monitor list \<Rightarrow> monitor_error + u32 \<times> u32" where
  "monitor_resolution name monitors =
     rbind (monitor_by_name name monitors) (\<lambda>mon.
       case (mo_width mon, mo_height mon) of
         (Inr width, Inr height) \<Rightarrow> Inr (width, height)
       | _ \<Rightarrow> Inl (NoResolution name))"

section \<open>The capture loop\<close>

record frame =
  fr_width :: u32
  fr_height :: u32
  fr_bytes :: bytes

definition MAX_CONSECUTIVE_FAILURES :: nat where
  "MAX_CONSECUTIVE_FAILURES = 5"

definition MONITOR_REACQUIRE_INTERVAL :: nat where
  "MONITOR_REACQUIRE_INTERVAL = 30"

text \<open>The loop's variables; the frame counter is a \<open>u32\<close> and wraps in a release build.\<close>

record capture_thread =
  ct_capture_failures :: nat
  ct_reacquire_failures :: nat
  ct_expected :: "(u32 \<times> u32) option"
  ct_frame_count :: u32
  ct_running :: bool

definition capture_start :: capture_thread where
  "capture_start = \<lparr>ct_capture_failures = 0, ct_reacquire_failures = 0, ct_expected = None,
     ct_frame_count = 0, ct_running = True\<rparr>"

text \<open>What one turn of the loop gets from the source: the frame, and the result of re-acquiring the
  monitor, which is looked at every thirtieth turn only.\<close>

type_synonym capture_outcome = "(rstring + frame) \<times> (rstring + unit)"

definition captured :: "frame \<Rightarrow> capture_thread \<times> pipeline \<Rightarrow> capture_thread \<times> pipeline" where
  "captured f cp =
     (let (c, p) = cp;
          size = (fr_width f, fr_height f);
          c = c\<lparr>ct_capture_failures := 0\<rparr>;
          (c, p) = (if ct_expected c \<noteq> Some size
                    then (c\<lparr>ct_expected := Some size\<rparr>, p\<lparr>pl_resolution_request := Some size\<rparr>)
                    else (c, p));
          bs = (if XCAP_FRAMES_ARE_RGBA then fr_bytes f else bgra_to_rgba (fr_bytes f))
      in (c, push_frame bs p))"

definition reacquire_turn :: "rstring + unit \<Rightarrow> capture_thread \<times> pipeline \<Rightarrow> capture_thread \<times> pipeline" where
  "reacquire_turn outcome cp =
     (let (c, p) = cp; c = c\<lparr>ct_frame_count := ct_frame_count c + 1\<rparr> in
      if unat (ct_frame_count c) mod MONITOR_REACQUIRE_INTERVAL = 0 then
        (case outcome of
           Inl e \<Rightarrow>
             (let c = c\<lparr>ct_reacquire_failures := ct_reacquire_failures c + 1\<rparr> in
              if ct_reacquire_failures c \<ge> MAX_CONSECUTIVE_FAILURES
              then (c\<lparr>ct_running := False\<rparr>, report_once (str ''monitor lost: '' @ e) p)
              else (c, p))
         | Inr _ \<Rightarrow> (c\<lparr>ct_reacquire_failures := 0\<rparr>, p))
      else (c, p))"

definition capture_turn :: "capture_thread \<times> pipeline \<Rightarrow> capture_outcome \<Rightarrow> capture_thread \<times> pipeline" where
  "capture_turn cp outcome =
     (let (c, p) = cp in
      if \<not> ct_running c then (c, p)
      else if teardown_requested p then (c\<lparr>ct_running := False\<rparr>, p)
      else (case fst outcome of
              Inr f \<Rightarrow> reacquire_turn (snd outcome) (captured f (c, p))
            | Inl e \<Rightarrow>
                (let c = c\<lparr>ct_capture_failures := ct_capture_failures c + 1\<rparr> in
                 if ct_capture_failures c \<ge> MAX_CONSECUTIVE_FAILURES
                 then (c\<lparr>ct_running := False\<rparr>,
                       report_once (str ''screen capture failed '' @ show_nat (ct_capture_failures c) @
                         str '' times in a row: '' @ e) p)
                 else reacquire_turn (snd outcome) (c, p))))"

text \<open>\<open>run_capture\<close> on what its source delivers, with nobody else touching the shared state.\<close>

definition run_capture :: "capture_thread \<times> pipeline \<Rightarrow> capture_outcome list \<Rightarrow> capture_thread \<times> pipeline" where
  "run_capture cp outcomes = foldl capture_turn cp outcomes"

text \<open>\<open>start_capture\<close>: refused under Wayland and for an unknown monitor; the thread opens the monitor
  again and reports a failure to do so.\<close>

definition start_capture ::
  "bool \<Rightarrow> rstring \<Rightarrow> rstring + monitor list \<Rightarrow> rstring + monitor list \<Rightarrow> (monitor_error \<Rightarrow> rstring) \<Rightarrow> pipeline
     \<Rightarrow> monitor_error + ((u32 \<times> u32) \<times> capture_thread \<times> pipeline)" where
  "start_capture wayland name monitors_now monitors_later show p =
     (if wayland then Inl WaylandUnusable
      else rbind (monitor_resolution name monitors_now) (\<lambda>initial_resolution.
        Inr (initial_resolution,
          case monitor_by_name name monitors_later of
            Inr _ \<Rightarrow> (capture_start, p)
          | Inl e \<Rightarrow> (capture_start\<lparr>ct_running := False\<rparr>,
                     report_once (str ''failed to open monitor: '' @ show e) p))))"

section \<open>The error reporter\<close>

text \<open>What the reporter keeps: one report at most, recorded as the last error, and the pipeline is
  stopped by it.\<close>

definition reported_once :: "pipeline \<Rightarrow> bool" where
  "reported_once p \<longleftrightarrow>
     (if pl_failed p then pl_stop p \<and> (\<exists>message. pl_events p = [message] \<and> pl_last_error p = Some message)
      else pl_events p = [] \<and> pl_last_error p = None)"

lemma reported_once_report [intro]: "reported_once p \<Longrightarrow> reported_once (report_once message p)"
  by (auto simp: reported_once_def report_once_def Let_def)

lemma report_once_flags [simp]:
  "pl_failed (report_once message p)" "pl_stop (report_once message p)"
  "pl_frames (report_once message p) = pl_frames p"
  "pl_resolution_request (report_once message p) = pl_resolution_request p"
  "pl_shutdown (report_once message p) = pl_shutdown p"
  by (simp_all add: report_once_def Let_def)

lemma reported_once_new [simp]: "reported_once pipeline_new"
  by (simp add: reported_once_def pipeline_new_def)

lemma reported_once_capture_turn:
  assumes "reported_once p"
  shows "reported_once (snd (capture_turn (c, p) outcome))"
proof -
  have reacquire: "reported_once (snd (reacquire_turn r (c, p)))" if "reported_once p" for r c p
    using that by (auto simp: reacquire_turn_def Let_def split: sum.splits)
  have "reported_once (snd (captured f (c, p)))" for f
    using assms by (simp add: captured_def Let_def push_frame_def reported_once_def split: prod.splits if_splits)
  then show ?thesis
    using assms reacquire reported_once_report [OF assms]
    by (auto simp: capture_turn_def Let_def split: sum.splits) (metis prod.collapse)
qed

section \<open>When the capture loop gives up\<close>

text \<open>Five results in a row that are errors; the results of the re-acquisitions, which happen every
  thirtieth turn.\<close>

definition five_in_a_row :: "('e + 'a) list \<Rightarrow> bool" where
  "five_in_a_row rs \<longleftrightarrow> (\<exists>before five after. rs = before @ five @ after \<and>
     length five = MAX_CONSECUTIVE_FAILURES \<and> list_all isl five)"

definition reacquisitions :: "capture_outcome list \<Rightarrow> (rstring + unit) list" where
  "reacquisitions outcomes =
     [snd (outcomes ! i). i \<leftarrow> [0..<length outcomes], Suc i mod MONITOR_REACQUIRE_INTERVAL = 0]"

definition streak :: "('e + 'a) list \<Rightarrow> nat" where
  "streak rs = length (takeWhile isl (rev rs))"

lemma streak_simps [simp]:
  "streak [] = 0" "streak (rs @ [r]) = (if isl r then Suc (streak rs) else 0)"
  by (simp_all add: streak_def)

lemma streak_suffix: "n \<le> streak rs \<longleftrightarrow> (\<exists>before five. rs = before @ five \<and> length five = n \<and> list_all isl five)"
proof
  assume n: "n \<le> streak rs"
  let ?w = "takeWhile isl (rev rs)"
  have "rs = rev (dropWhile isl (rev rs)) @ rev ?w"
    by (metis rev_append rev_rev_ident takeWhile_dropWhile_id)
  also have "rev ?w = rev (drop n ?w) @ rev (take n ?w)" by (simp flip: rev_append)
  finally have "rs = (rev (dropWhile isl (rev rs)) @ rev (drop n ?w)) @ rev (take n ?w)" by simp
  moreover have "length (rev (take n ?w)) = n" using n by (simp add: streak_def)
  moreover have "list_all isl (rev (take n ?w))"
    by (auto simp: list_all_iff dest: in_set_takeD set_takeWhileD)
  ultimately show "\<exists>before five. rs = before @ five \<and> length five = n \<and> list_all isl five" by blast
next
  assume "\<exists>before five. rs = before @ five \<and> length five = n \<and> list_all isl five"
  then obtain before five where e: "rs = before @ five" "length five = n" "list_all isl five" by blast
  then have "takeWhile isl (rev five @ rev before) = rev five @ takeWhile isl (rev before)"
    by (intro takeWhile_append2) (simp add: list_all_iff)
  with e show "n \<le> streak rs" by (simp add: streak_def)
qed

lemma five_in_a_row_Nil [simp]: "\<not> five_in_a_row []"
  by (simp add: five_in_a_row_def MAX_CONSECUTIVE_FAILURES_def)

lemma five_in_a_row_snoc:
  "five_in_a_row (rs @ [r]) \<longleftrightarrow> five_in_a_row rs \<or> MAX_CONSECUTIVE_FAILURES \<le> streak (rs @ [r])"
  (is "?l \<longleftrightarrow> ?a \<or> ?b")
proof
  assume ?l
  then obtain before five after where e: "rs @ [r] = before @ five @ after"
      "length five = MAX_CONSECUTIVE_FAILURES" "list_all isl five"
    by (auto simp: five_in_a_row_def)
  show "?a \<or> ?b"
  proof (cases after rule: rev_cases)
    case Nil
    with e show ?thesis using streak_suffix [of MAX_CONSECUTIVE_FAILURES "rs @ [r]"] by auto
  next
    case (snoc after' x)
    with e have "rs = before @ five @ after'" by simp
    with e(2,3) show ?thesis unfolding five_in_a_row_def by blast
  qed
next
  assume "?a \<or> ?b"
  then show ?l
  proof
    assume ?a
    then obtain before five after where "rs = before @ five @ after"
        "length five = MAX_CONSECUTIVE_FAILURES" "list_all isl five"
      by (auto simp: five_in_a_row_def)
    then have "rs @ [r] = before @ five @ (after @ [r])" by simp
    then show ?l using \<open>length five = _\<close> \<open>list_all isl five\<close> unfolding five_in_a_row_def by blast
  next
    assume ?b
    then obtain before five where "rs @ [r] = before @ five @ []"
        "length five = MAX_CONSECUTIVE_FAILURES" "list_all isl five"
      unfolding streak_suffix by auto
    then show ?l unfolding five_in_a_row_def by blast
  qed
qed

lemma reacquisitions_snoc:
  "reacquisitions (outcomes @ [out]) = reacquisitions outcomes @
     (if Suc (length outcomes) mod MONITOR_REACQUIRE_INTERVAL = 0 then [snd out] else [])"
proof -
  have "[snd ((outcomes @ [out]) ! i). i \<leftarrow> [0..<length outcomes], Suc i mod MONITOR_REACQUIRE_INTERVAL = 0] =
      reacquisitions outcomes"
    unfolding reacquisitions_def by (intro arg_cong [where f = concat] map_cong) (auto simp: nth_append)
  then show ?thesis by (simp add: reacquisitions_def)
qed

text \<open>The loop's counters are the current streaks, until it gives up.\<close>

definition hopeless :: "capture_outcome list \<Rightarrow> bool" where
  "hopeless outcomes \<longleftrightarrow> five_in_a_row (map fst outcomes) \<or> five_in_a_row (reacquisitions outcomes)"

definition capture_inv :: "capture_outcome list \<Rightarrow> capture_thread \<times> pipeline \<Rightarrow> bool" where
  "capture_inv outcomes cp = (case cp of (c, p) \<Rightarrow>
     (if ct_running c then \<not> hopeless outcomes \<and> \<not> teardown_requested p \<and> \<not> pl_failed p \<and>
        ct_capture_failures c = streak (map fst outcomes) \<and>
        ct_reacquire_failures c = streak (reacquisitions outcomes) \<and>
        ct_frame_count c = word_of_nat (length outcomes)
      else hopeless outcomes \<and> pl_failed p))"

lemma hopeless_snoc: "hopeless outcomes \<Longrightarrow> hopeless (outcomes @ [out])"
  by (auto simp: hopeless_def five_in_a_row_snoc reacquisitions_snoc)

lemma reacquire_turn_inv:
  assumes "ct_running c" "\<not> teardown_requested p" "\<not> pl_failed p"
    and "ct_capture_failures c = streak (map fst (outcomes @ [out]))"
    and "\<not> five_in_a_row (map fst (outcomes @ [out]))" "\<not> five_in_a_row (reacquisitions outcomes)"
    and "ct_reacquire_failures c = streak (reacquisitions outcomes)"
    and "ct_frame_count c = word_of_nat (length outcomes)" "Suc (length outcomes) < 2 ^ 32"
  shows "capture_inv (outcomes @ [out]) (reacquire_turn (snd out) (c, p))"
proof -
  have next_count: "ct_frame_count c + 1 = word_of_nat (Suc (length outcomes))" by (simp add: assms(8))
  have "unat (word_of_nat (Suc (length outcomes)) :: u32) = Suc (length outcomes)"
    using assms(9) by (simp only: unat_of_nat take_bit_nat_def) simp
  then show ?thesis
    using assms(1-7) next_count
    by (cases "snd out")
      (auto simp: reacquire_turn_def capture_inv_def hopeless_def reacquisitions_snoc five_in_a_row_snoc
        teardown_requested_def Let_def simp del: of_nat_Suc)
qed

lemma capture_turn_inv:
  assumes "capture_inv outcomes (c, p)" "Suc (length outcomes) < 2 ^ 32"
  shows "capture_inv (outcomes @ [out]) (capture_turn (c, p) out)"
proof (cases "ct_running c")
  case False
  with assms show ?thesis by (simp add: capture_turn_def capture_inv_def hopeless_snoc)
next
  case True
  with assms(1) have i: "\<not> hopeless outcomes" "\<not> teardown_requested p" "\<not> pl_failed p"
    "ct_capture_failures c = streak (map fst outcomes)" "ct_reacquire_failures c = streak (reacquisitions outcomes)"
    "ct_frame_count c = word_of_nat (length outcomes)"
    by (simp_all add: capture_inv_def)
  show ?thesis
  proof (cases "fst out")
    case (Inl e)
    show ?thesis
    proof (cases "MAX_CONSECUTIVE_FAILURES \<le> Suc (ct_capture_failures c)")
      case True
      with i Inl \<open>ct_running c\<close> show ?thesis
        by (simp add: capture_turn_def capture_inv_def hopeless_def five_in_a_row_snoc Let_def)
    next
      case False
      with i Inl \<open>ct_running c\<close> assms(2) have "capture_inv (outcomes @ [out])
          (reacquire_turn (snd out) (c\<lparr>ct_capture_failures := Suc (ct_capture_failures c)\<rparr>, p))"
        by (intro reacquire_turn_inv) (simp_all add: hopeless_def five_in_a_row_snoc)
      with False i Inl \<open>ct_running c\<close> show ?thesis by (simp add: capture_turn_def Let_def)
    qed
  next
    case (Inr f)
    obtain c' p' where cp: "captured f (c, p) = (c', p')" by fastforce
    then have "ct_running c' = ct_running c" "ct_capture_failures c' = 0"
      "ct_reacquire_failures c' = ct_reacquire_failures c" "ct_frame_count c' = ct_frame_count c"
      "pl_failed p' = pl_failed p" "teardown_requested p' = teardown_requested p"
      by (auto simp: captured_def push_frame_def teardown_requested_def Let_def split: if_splits)
    with i \<open>ct_running c\<close> Inr assms(2) have "capture_inv (outcomes @ [out]) (reacquire_turn (snd out) (c', p'))"
      by (intro reacquire_turn_inv) (simp_all add: hopeless_def five_in_a_row_snoc MAX_CONSECUTIVE_FAILURES_def)
    with cp i Inr \<open>ct_running c\<close> show ?thesis by (simp add: capture_turn_def)
  qed
qed

lemma run_capture_inv:
  assumes "length outcomes < 2 ^ 32"
  shows "capture_inv outcomes (run_capture (capture_start, pipeline_new) outcomes)"
  using assms
proof (induction outcomes rule: rev_induct)
  case Nil
  show ?case
    by (simp add: capture_inv_def run_capture_def capture_start_def pipeline_new_def hopeless_def
        reacquisitions_def teardown_requested_def)
next
  case (snoc out outcomes)
  obtain c p where "run_capture (capture_start, pipeline_new) outcomes = (c, p)" by fastforce
  with snoc show ?case using capture_turn_inv [of outcomes c p out] by (simp add: run_capture_def)
qed

lemma run_capture_reported:
  "reported_once p \<Longrightarrow> reported_once (snd (run_capture (c, p) outcomes))"
proof (induction outcomes arbitrary: c p)
  case Nil
  then show ?case by (simp add: run_capture_def)
next
  case (Cons out outcomes)
  then show ?case
    using Cons.IH [of "snd (capture_turn (c, p) out)" "fst (capture_turn (c, p) out)"]
    by (simp add: run_capture_def reported_once_capture_turn)
qed

text \<open>C27: the capture loop gives up exactly when it should: it ends if and only if five captures in a
  row, or five re-acquisitions of the monitor in a row, have failed. The two are counted
  independently, so a stream of good frames does not hide a lost monitor. When it ends it has
  reported one error and stopped the pipeline; otherwise it has reported nothing.\<close>

theorem capture_gives_up_iff:
  assumes "length outcomes < 2 ^ 32" "run_capture (capture_start, pipeline_new) outcomes = (c, p)"
  shows "(ct_running c \<longleftrightarrow> \<not> five_in_a_row (map fst outcomes) \<and> \<not> five_in_a_row (reacquisitions outcomes)) \<and>
    length (pl_events p) = (if ct_running c then 0 else 1) \<and> (pl_stop p \<longleftrightarrow> \<not> ct_running c)"
proof -
  have "capture_inv outcomes (c, p)" using run_capture_inv [OF assms(1)] assms(2) by simp
  moreover have "reported_once p"
    using run_capture_reported [of pipeline_new capture_start outcomes] assms(2) by simp
  ultimately show ?thesis
    by (auto simp: capture_inv_def hopeless_def reported_once_def teardown_requested_def split: if_splits)
qed

theorem capture_gives_up_iff_witness:
  "let outcomes = [(Inl [1], Inr ()), (Inr \<lparr>fr_width = 1, fr_height = 1, fr_bytes = [1, 2, 3, 4]\<rparr>, Inr ())];
       cp = run_capture (capture_start, pipeline_new) outcomes
   in ct_running (fst cp) \<and> items (pl_frames (snd cp)) = [[1, 2, 3, 4]] \<and>
      (ct_running (fst cp) \<longleftrightarrow> \<not> five_in_a_row (map fst outcomes) \<and> \<not> five_in_a_row (reacquisitions outcomes))"
proof -
  let ?outcomes = "[(Inl [1], Inr ()), (Inr \<lparr>fr_width = 1, fr_height = 1, fr_bytes = [1, 2, 3, 4]\<rparr>, Inr ())]"
  let ?cp = "run_capture (capture_start, pipeline_new) ?outcomes"
  have "ct_running (fst ?cp)" "items (pl_frames (snd ?cp)) = [[1, 2, 3, 4]]" by code_simp+
  then show ?thesis using capture_gives_up_iff [of ?outcomes "fst ?cp" "snd ?cp"] by simp
qed

section \<open>The monitor list\<close>

lemma sorted_remdups_adj_strict: "sorted xs \<Longrightarrow> sorted_wrt (<) (remdups_adj xs)"
  by (induction xs rule: remdups_adj.induct) (auto simp: less_le)

lemma collect_names_Inr: "map mo_name ms = map Inr names \<Longrightarrow> collect_names ms = Inr names"
  by (induction ms arbitrary: names) (auto simp: rbind_def map_eq_Cons_conv)

text \<open>Outside Wayland the display list offered is, for a platform that answers every query, exactly
  the set of monitor names, sorted and without duplicates, and each listed name can be opened.\<close>

theorem displays_listed:
  assumes "map mo_name ms = map Inr names"
  shows "\<exists>listed. monitor_names False usable (Inr ms) = Inr listed \<and> set listed = set names \<and>
    sorted_wrt (<) listed \<and>
    (\<forall>name \<in> set listed. \<exists>mon \<in> set ms. monitor_by_name name (Inr ms) = Inr mon \<and> mo_name mon = Inr name)"
proof -
  have "collect_names ms = Inr names" using assms by (rule collect_names_Inr)
  then have listed: "monitor_names False usable (Inr ms) = Inr (remdups_adj (sort names))"
    by (simp add: monitor_names_def rbind_def)
  have opened: "\<exists>mon \<in> set ms. find_monitor name ms = Inr mon \<and> mo_name mon = Inr name" if "name \<in> set names" for name
    using assms that by (induction ms arbitrary: names) (fastforce simp: map_eq_Cons_conv)+
  have "sorted_wrt (<) (remdups_adj (sort names))" by (simp add: sorted_remdups_adj_strict)
  then show ?thesis using listed opened by (auto simp: monitor_by_name_def)
qed

theorem displays_listed_witness:
  "let ms = [\<lparr>mo_name = Inr (str ''DP-2''), mo_width = Inr 4, mo_height = Inr 3\<rparr>,
         \<lparr>mo_name = Inr (str ''DP-1''), mo_width = Inr 4, mo_height = Inr 3\<rparr>]
   in \<exists>listed. monitor_names False False (Inr ms) = Inr listed \<and> set listed = {str ''DP-1'', str ''DP-2''} \<and>
      sorted_wrt (<) listed"
proof -
  let ?ms = "[\<lparr>mo_name = Inr (str ''DP-2''), mo_width = Inr 4, mo_height = Inr 3\<rparr>,
    \<lparr>mo_name = Inr (str ''DP-1''), mo_width = Inr 4, mo_height = Inr 3\<rparr>] :: monitor list"
  have "map mo_name ?ms = map Inr [str ''DP-2'', str ''DP-1'']" by simp
  from displays_listed [OF this, of False] show ?thesis by (auto simp: Let_def insert_commute)
qed

end
