(* ===== verification/Screen_Encoder.thy ===== *)
theory Screen_Encoder
  imports App_State Util
begin

text \<open>
  The encoder process and the Wayland frame source: finding \<open>ffmpeg\<close> on the search path
  (\<open>src/src/screen/ffmpeg_discover.rs\<close>), its arguments, its stderr tail and the bounded teardown
  (\<open>ffmpeg.rs\<close>), and the PipeWire stream callbacks (\<open>pipewire.rs\<close>). The file system, the child's
  exit status at a given time and the stream's events are arguments.
\<close>

section \<open>ffmpeg\_discover.rs\<close>

text \<open>\<open>Path::join\<close> of a directory and a file name on Unix.\<close>

definition path_join :: "bytes \<Rightarrow> bytes \<Rightarrow> bytes" where
  "path_join dir name = (if dir = [] \<or> last dir = 47 then dir @ name else dir @ [47] @ name)"

definition entry_dir :: "bytes \<Rightarrow> bytes" where
  "entry_dir entry = (if entry = [] then str ''.'' else entry)"

fun scan_entries :: "(bytes \<Rightarrow> bool) \<Rightarrow> bytes list \<Rightarrow> (bytes \<times> bytes) option" where
  "scan_entries is_file [] = None"
| "scan_entries is_file (entry # entries) =
     (let dir = entry_dir entry; full = path_join dir (str ''ffmpeg'') in
      if is_file full then Some (dir, full) else scan_entries is_file entries)"

definition scan_path :: "(bytes \<Rightarrow> bool) \<Rightarrow> bytes \<Rightarrow> (bytes \<times> bytes) option" where
  "scan_path is_file path_value = scan_entries is_file (split_on 58 (from_utf8_lossy path_value))"

definition find_ffmpeg :: "(bytes \<Rightarrow> bool) \<Rightarrow> bytes \<Rightarrow> bool" where
  "find_ffmpeg is_file path_value \<longleftrightarrow> scan_path is_file path_value \<noteq> None"

text \<open>The answer and the cache afterwards.\<close>

definition ffmpeg_available :: "(bytes \<Rightarrow> bool) \<Rightarrow> bytes option \<Rightarrow> bool option \<Rightarrow> bool \<times> bool option" where
  "ffmpeg_available is_file path cache =
     (case cache of
        Some found \<Rightarrow> (found, cache)
      | None \<Rightarrow>
          (let found = (case path of Some p \<Rightarrow> find_ffmpeg is_file p | None \<Rightarrow> False) in (found, Some found)))"

definition ffmpeg_path :: "(bytes \<Rightarrow> bool) \<Rightarrow> bytes option \<Rightarrow> bool option \<Rightarrow> bytes option \<times> bool option" where
  "ffmpeg_path is_file path cache =
     (case ffmpeg_available is_file path cache of
        (found, cache) \<Rightarrow>
          (if found then (case path of Some p \<Rightarrow> map_option snd (scan_path is_file p) | None \<Rightarrow> None) else None,
           cache))"

section \<open>pipewire.rs: formats\<close>

datatype pix_fmt = Rgb0 | Bgr0 | Rgba | Bgra

fun ffmpeg_name :: "pix_fmt \<Rightarrow> rstring" where
  "ffmpeg_name Rgb0 = str ''rgb0''"
| "ffmpeg_name Bgr0 = str ''bgr0''"
| "ffmpeg_name Rgba = str ''rgba''"
| "ffmpeg_name Bgra = str ''bgra''"

text \<open>The SPA video formats; every one the client does not use is \<open>OtherFormat\<close>.\<close>

datatype video_format = VfRGBx | VfBGRx | VfRGBA | VfBGRA | OtherFormat nat

fun from_video_format :: "video_format \<Rightarrow> pix_fmt option" where
  "from_video_format VfRGBx = Some Rgb0"
| "from_video_format VfBGRx = Some Bgr0"
| "from_video_format VfRGBA = Some Rgba"
| "from_video_format VfBGRA = Some Bgra"
| "from_video_format (OtherFormat _) = None"

record pw_format =
  pw_width :: u32
  pw_height :: u32
  pw_pix_fmt :: pix_fmt

definition frame_bytes :: "pw_format \<Rightarrow> nat" where
  "frame_bytes f = unat (pw_width f * pw_height f * 4)"

definition MAX_STREAM_DIMENSION :: nat where
  "MAX_STREAM_DIMENSION = 16384"

datatype pw_error =
    UnreasonableSize u32 u32
  | UnsupportedFormat video_format
  | PipewireStreamFailed

definition negotiated :: "video_format \<Rightarrow> u32 \<Rightarrow> u32 \<Rightarrow> pw_error + pw_format" where
  "negotiated format width height =
     (if width = 0 \<or> height = 0 \<or> unat width > MAX_STREAM_DIMENSION \<or> unat height > MAX_STREAM_DIMENSION
      then Inl (UnreasonableSize width height)
      else (case from_video_format format of
              None \<Rightarrow> Inl (UnsupportedFormat format)
            | Some p \<Rightarrow> Inr \<lparr>pw_width = width, pw_height = height, pw_pix_fmt = p\<rparr>))"

section \<open>pipewire.rs: the stream callbacks\<close>

text \<open>The callbacks' data, what has been sent on the status channel, the frame queue, and whether the
  loop still runs.\<close>

record pw_capture =
  pc_format :: "video_format \<times> u32 \<times> u32"
  pc_format_sent :: bool
  pc_status :: "(pw_error + pw_format) list"
  pc_frames :: "bytes bounded_drop_oldest"
  pc_running :: bool

definition pw_start :: "bytes bounded_drop_oldest \<Rightarrow> pw_capture" where
  "pw_start frames = \<lparr>pc_format = (OtherFormat 0, 0, 0), pc_format_sent = False, pc_status = [],
     pc_frames = frames, pc_running = True\<rparr>"

definition param_changed :: "video_format \<times> u32 \<times> u32 \<Rightarrow> pw_capture \<Rightarrow> pw_capture" where
  "param_changed param s =
     (let s = s\<lparr>pc_format := param\<rparr> in
      if pc_format_sent s then s
      else (case param of (format, width, height) \<Rightarrow>
        s\<lparr>pc_format_sent := True, pc_status := pc_status s @ [negotiated format width height]\<rparr>))"

text \<open>A buffer: its mapped bytes, and offset and size of the chunk. The product is checked at the
  width of \<open>usize\<close>.\<close>

definition process_buffer :: "bytes \<Rightarrow> u32 \<Rightarrow> u32 \<Rightarrow> pw_capture \<Rightarrow> pw_capture" where
  "process_buffer payload offset chunk_size s =
     (if \<not> pc_format_sent s then s
      else (case pc_format s of (_, width, height) \<Rightarrow>
        (let expected = unat width * unat height * 4;
             start = min (unat offset) (length payload);
             finish = min (start + unat chunk_size) (length payload)
         in if expected \<ge> 2 ^ 64 then s
            else if finish - start \<noteq> expected then s
            else s\<lparr>pc_frames := push (pc_frames s) (take (finish - start) (drop start payload))\<rparr>)))"

text \<open>What the loop is told: a format parameter that parsed as raw video, a buffer, an error state,
  (with whether the stop flag is set when the loop then ends), the stop flag. Other parameters and missing buffers change nothing and are left out.\<close>

datatype pw_input =
    FormatParam "video_format \<times> u32 \<times> u32"
  | Buffer bytes u32 u32
  | StreamErrorState bool
  | PwStop

definition pw_step :: "pw_capture \<Rightarrow> pw_input \<Rightarrow> pw_capture" where
  "pw_step s i =
     (if \<not> pc_running s then s
      else (case i of
        FormatParam param \<Rightarrow> param_changed param s
      | Buffer payload offset chunk_size \<Rightarrow> process_buffer payload offset chunk_size s
      | StreamErrorState stopped \<Rightarrow>
          s\<lparr>pc_running := False, pc_status := pc_status s @ (if stopped then [] else [Inl PipewireStreamFailed])\<rparr>
      | PwStop \<Rightarrow> s\<lparr>pc_running := False\<rparr>))"

section \<open>ffmpeg.rs\<close>

definition GRACE_PERIOD :: duration where
  "GRACE_PERIOD = from_secs 5"

definition STDERR_TAIL :: nat where
  "STDERR_TAIL = 50"

definition WAIT_POLL :: duration where
  "WAIT_POLL = from_millis 50"

definition encoder_args :: "u32 \<Rightarrow> u32 \<Rightarrow> rstring \<Rightarrow> rstring list" where
  "encoder_args width height pix_fmt =
     [str ''-f'', str ''rawvideo'', str ''-pix_fmt'', pix_fmt, str ''-s'',
      show_nat (unat width) @ str ''x'' @ show_nat (unat height),
      str ''-r'', str ''30'', str ''-i'', str ''-'', str ''-c:v'', str ''libx264'', str ''-pix_fmt'', str ''yuv420p'',
      str ''-preset'', str ''ultrafast'', str ''-tune'', str ''zerolatency'', str ''-g'', str ''30'',
      str ''-f'', str ''mp4'', str ''-movflags'', str ''frag_keyframe+empty_moov'', str ''pipe:1'']"

text \<open>The program and its argument vector.\<close>

type_synonym encoder_command = "bytes \<times> rstring list"

definition build_command :: "bytes \<Rightarrow> u32 \<Rightarrow> u32 \<Rightarrow> rstring \<Rightarrow> encoder_command" where
  "build_command program width height pix_fmt = (program, encoder_args width height pix_fmt)"

text \<open>One stderr line in the reader thread.\<close>

definition push_tail :: "rstring list \<Rightarrow> rstring \<Rightarrow> rstring list" where
  "push_tail lines line = (let t = lines @ [line] in drop (length t - STDERR_TAIL) t)"

text \<open>
  \<open>wait_graceful\<close>. \<open>probe killed t\<close> is what \<open>try_wait\<close> answers at time \<open>t\<close>, before or after the kill;
  a sleep lasts at least what was asked for, \<open>jitter t\<close> longer when begun at \<open>t\<close>. The result comes
  with whether the child was killed and the time of return.
\<close>

function poll_exit :: "(instant \<Rightarrow> io_error + int option) \<Rightarrow> (instant \<Rightarrow> duration) \<Rightarrow> instant \<Rightarrow> instant
    \<Rightarrow> (io_error + int option) \<times> instant" where
  "poll_exit probe jitter deadline now =
     (case probe now of
        Inl e \<Rightarrow> (Inl e, now)
      | Inr (Some status) \<Rightarrow> (Inr (Some status), now)
      | Inr None \<Rightarrow>
          if now \<ge> deadline then (Inr None, now)
          else poll_exit probe jitter deadline (now + WAIT_POLL + jitter now))"
  by pat_completeness auto
termination
  by (relation "measure (\<lambda>(probe, jitter, deadline, now). deadline - now)")
    (auto simp: WAIT_POLL_def from_millis_def)

declare poll_exit.simps [simp del]

definition KILL_WAIT :: duration where
  "KILL_WAIT = from_secs 2"

definition wait_graceful :: "(bool \<Rightarrow> instant \<Rightarrow> io_error + int option) \<Rightarrow> (instant \<Rightarrow> duration) \<Rightarrow> duration \<Rightarrow> instant
    \<Rightarrow> (io_error + int) \<times> bool \<times> instant" where
  "wait_graceful probe jitter grace now =
     (case poll_exit (probe False) jitter (now + grace) now of
        (Inl e, t) \<Rightarrow> (Inl e, False, t)
      | (Inr (Some status), t) \<Rightarrow> (Inr status, False, t)
      | (Inr None, t) \<Rightarrow>
          (case poll_exit (probe True) jitter (t + KILL_WAIT) t of
             (Inl e, t') \<Rightarrow> (Inl e, True, t')
           | (Inr (Some status), t') \<Rightarrow> (Inr status, True, t')
           | (Inr None, t') \<Rightarrow> (Inl TimedOut, True, t')))"

section \<open>The teardown is bounded\<close>

lemma poll_exit_result:
  assumes "\<And>t. jitter t \<le> j" "poll_exit probe jitter deadline now = (r, t)"
  shows "now \<le> t \<and> t \<le> max now (deadline + WAIT_POLL + j) \<and> probe t = r \<and> (r = Inr None \<longrightarrow> deadline \<le> t)"
  using assms
proof (induction probe jitter deadline now rule: poll_exit.induct)
  case (1 probe jitter deadline now)
  show ?case
  proof (cases "probe now = Inr None \<and> now < deadline")
    case True
    then have "poll_exit probe jitter deadline (now + WAIT_POLL + jitter now) = (r, t)"
      using 1(3) by (subst (asm) poll_exit.simps) simp
    then have "now + WAIT_POLL + jitter now \<le> t" "t \<le> max (now + WAIT_POLL + jitter now) (deadline + WAIT_POLL + j)"
      "probe t = r" "r = Inr None \<longrightarrow> deadline \<le> t"
      using 1(1) [of None] 1(2) True by auto
    with True 1(2) [of now] show ?thesis by auto
  next
    case False
    then show ?thesis using 1(3) by (subst (asm) poll_exit.simps) (auto split: sum.splits option.splits)
  qed
qed

text \<open>C35: waiting for the encoder to end never hangs and never kills a child that finishes in time.
  Whatever the child does, \<open>wait_graceful\<close> returns at the latest two seconds and two polling intervals after
  the grace period; it kills only a child seen running when the grace period was over; and an exit
  status it returns is the child's.\<close>

theorem wait_graceful_bounded:
  assumes "\<And>t. jitter t \<le> j" "wait_graceful probe jitter grace now = (r, killed, t')"
  shows "t' \<le> now + grace + KILL_WAIT + 2 * (WAIT_POLL + j) \<and>
    (killed \<longrightarrow> (\<exists>t \<ge> now + grace. probe False t = Inr None)) \<and>
    (\<forall>status. r = Inr status \<longrightarrow> probe killed t' = Inr (Some status))"
proof -
  obtain r1 t where p1: "poll_exit (probe False) jitter (now + grace) now = (r1, t)" by fastforce
  obtain r2 t2 where p2: "poll_exit (probe True) jitter (t + KILL_WAIT) t = (r2, t2)" by fastforce
  note b1 = poll_exit_result [OF assms(1) p1] and b2 = poll_exit_result [OF assms(1) p2]
  show ?thesis
  proof (cases "r1 = Inr None")
    case True
    with assms(2) p1 p2 have "t' = t2" "killed" "\<forall>status. r = Inr status \<longrightarrow> r2 = Inr (Some status)"
      by (auto simp: wait_graceful_def split: sum.splits option.splits)
    with b1 b2 True show ?thesis by auto
  next
    case False
    with assms(2) p1 have "t' = t" "\<not> killed" "\<forall>status. r = Inr status \<longrightarrow> r1 = Inr (Some status)"
      by (auto simp: wait_graceful_def split: sum.splits option.splits)
    with b1 show ?thesis by auto
  qed
qed

theorem wait_graceful_bounded_witness:
  "let child = (\<lambda>killed t. Inr (if killed then Some (-9) else None)) in
   snd (snd (wait_graceful child (\<lambda>_. 0) (from_millis 100) 0)) \<le> from_millis 100 + KILL_WAIT + 2 * WAIT_POLL"
proof -
  let ?child = "\<lambda>killed t. Inr (if killed then Some (-9) else None)"
  obtain r killed t' where "wait_graceful ?child (\<lambda>_. 0) (from_millis 100) 0 = (r, killed, t')"
    by (metis prod.exhaust)
  then show ?thesis
    using wait_graceful_bounded [of "\<lambda>_. 0" 0 ?child "from_millis 100" 0 r killed t'] by (simp add: Let_def)
qed

section \<open>Frames of a portal stream\<close>

lemma negotiated_frame_bytes:
  assumes "negotiated format width height = Inr f"
  shows "frame_bytes f = unat width * unat height * 4"
proof -
  have b: "unat width \<le> 16384" "unat height \<le> 16384" and f: "pw_width f = width" "pw_height f = height"
    using assms by (auto simp: negotiated_def MAX_STREAM_DIMENSION_def split: if_splits option.splits)
  have "unat width * unat height \<le> 16384 * 16384" using b by (rule mult_le_mono)
  then have small: "unat width * unat height < 2 ^ 32" "unat width * unat height * 4 < 2 ^ 32"
    by (simp_all add: mult.commute [of "unat height"])
  then have "unat (width * height) = unat width * unat height" by (simp add: unat_word_ariths)
  with small show ?thesis by (simp add: frame_bytes_def f unat_word_ariths)
qed

text \<open>A run in which the stream's format has been set once, to the announced one, and the queue holds
  frames of that format only.\<close>

definition frames_fit :: "pw_format \<Rightarrow> pw_capture \<Rightarrow> bool" where
  "frames_fit f s \<longleftrightarrow>
     (pc_format_sent s \<longrightarrow> (case pc_format s of (format, width, height) \<Rightarrow> negotiated format width height = Inr f)) \<and>
     (\<forall>frame \<in> set (items (pc_frames s)). length frame = frame_bytes f)"

lemma set_push: "set (items (push q x)) \<subseteq> insert x (set (items q))"
  by (auto simp: push_def Let_def dest: list.set_sel(2) split: if_splits) (metis list.sel(2) list.set_sel(2))

lemma frames_fit_step:
  assumes "frames_fit f s"
    and "\<And>format width height. i = FormatParam (format, width, height) \<Longrightarrow> negotiated format width height = Inr f"
  shows "frames_fit f (pw_step s i)"
proof (cases i)
  case (FormatParam param)
  then show ?thesis
    using assms by (cases param) (auto simp: frames_fit_def pw_step_def param_changed_def Let_def)
next
  case (Buffer payload offset chunk_size)
  obtain format width height where p: "pc_format s = (format, width, height)" by (metis prod.exhaust)
  let ?start = "min (unat offset) (length payload)"
  let ?n = "min (?start + unat chunk_size) (length payload) - ?start"
  have "length (take ?n (drop ?start payload)) = ?n" by simp
  moreover have "frame_bytes f = unat width * unat height * 4" if "pc_format_sent s"
    using assms(1) that p by (auto simp: frames_fit_def intro: negotiated_frame_bytes)
  ultimately show ?thesis
    using assms(1) set_push [of "pc_frames s" "take ?n (drop ?start payload)"]
    by (auto simp: Buffer frames_fit_def pw_step_def process_buffer_def p Let_def)
qed (use assms(1) in \<open>auto simp: frames_fit_def pw_step_def\<close>)

text \<open>As long as the compositor keeps to one format, every frame handed to the encoder has exactly
  the size the encoder was started with, whatever offsets and chunk sizes the buffers carry; the
  32-bit product of the dimensions does not wrap for any format that is accepted.\<close>

theorem portal_frames_fit_encoder:
  assumes "negotiated format width height = Inr f"
    and "\<And>param. FormatParam param \<in> set inputs \<Longrightarrow> param = (format, width, height)"
    and "frame \<in> set (items (pc_frames (run pw_step (pw_start \<lparr>items = [], capacity = n\<rparr>) inputs)))"
  shows "length frame = unat width * unat height * 4 \<and> frame_bytes f = length frame"
proof -
  have "frames_fit f (run pw_step s inputs)" if "frames_fit f s" for s
    using that assms(2)
  proof (induction inputs arbitrary: s)
    case (Cons i "inputs")
    have "frames_fit f (pw_step s i)" using Cons.prems assms(1) by (intro frames_fit_step) auto
    then show ?case using Cons.IH [of "pw_step s i"] Cons.prems(2) by auto
  qed simp
  moreover have "frames_fit f (pw_start \<lparr>items = [], capacity = n\<rparr>)" by (simp add: frames_fit_def pw_start_def)
  ultimately have "frames_fit f (run pw_step (pw_start \<lparr>items = [], capacity = n\<rparr>) inputs)" by blast
  with assms(3) show ?thesis using negotiated_frame_bytes [OF assms(1)] by (simp add: frames_fit_def)
qed

theorem portal_frames_fit_encoder_witness:
  "frame_bytes \<lparr>pw_width = 1, pw_height = 2, pw_pix_fmt = Bgr0\<rparr> = length [1 :: u8, 2, 3, 4, 5, 6, 7, 8]"
proof -
  let ?is = "[FormatParam (VfBGRx, 1, 2), Buffer [9, 1, 2, 3, 4, 5, 6, 7, 8, 9] 1 8, Buffer [1] 0 1]"
  have "length [1 :: u8, 2, 3, 4, 5, 6, 7, 8] = unat (1 :: u32) * unat (2 :: u32) * 4 \<and>
      frame_bytes \<lparr>pw_width = 1, pw_height = 2, pw_pix_fmt = Bgr0\<rparr> = length [1 :: u8, 2, 3, 4, 5, 6, 7, 8]"
    by (rule portal_frames_fit_encoder [of VfBGRx _ _ _ ?is _ 2])
      (auto simp: negotiated_def MAX_STREAM_DIMENSION_def pw_step_def param_changed_def process_buffer_def
        pw_start_def push_def Let_def)
  then show ?thesis by simp
qed

text \<open>A later change of the format is not announced. The status channel carries the first format
  only, while the frames follow the new one, so the encoder started for the first format is fed
  frames of another size.\<close>

theorem format_change_not_announced:
  "let s = run pw_step (pw_start \<lparr>items = [], capacity = 2\<rparr>)
        [FormatParam (VfBGRx, 1, 1), FormatParam (VfBGRx, 1, 2), Buffer [1, 2, 3, 4, 5, 6, 7, 8] 0 8];
      f = \<lparr>pw_width = 1, pw_height = 1, pw_pix_fmt = Bgr0\<rparr>
   in pc_status s = [Inr f] \<and> items (pc_frames s) = [[1, 2, 3, 4, 5, 6, 7, 8]] \<and> frame_bytes f = 4"
  by (simp add: pw_step_def param_changed_def process_buffer_def pw_start_def push_def negotiated_def
      MAX_STREAM_DIMENSION_def frame_bytes_def)

section \<open>Arguments, stderr, search path\<close>

lemma stderr_tail_latest: "foldl push_tail [] lines = drop (length lines - STDERR_TAIL) lines"
proof (induction lines rule: rev_induct)
  case (snoc line lines)
  have "length lines - (length lines - 50 + 49) + (length lines - 50) = length lines - 49" by simp
  with snoc show ?case by (simp add: push_tail_def Let_def STDERR_TAIL_def)
qed simp

lemma encoder_args_inj:
  "encoder_args w h f = encoder_args w' h' f' \<longleftrightarrow> w = w' \<and> h = h' \<and> f = f'"
proof -
  have "\<not> is_ascii_digit (of_char CHR ''x'')" by (simp add: is_ascii_digit_def)
  then show ?thesis
    by (auto simp: encoder_args_def str_def digits_sep_inj show_nat_digits word_unat_eq_iff [symmetric])
qed

text \<open>The encoder found is the first on the search path: entries are tried in order, an empty entry
  is the current directory, and nothing is found only if no entry has the program.\<close>

theorem ffmpeg_first_on_path:
  "case scan_path is_file path of
     Some (dir, full) \<Rightarrow> (\<exists>before entry after. split_on 58 (from_utf8_lossy path) = before @ entry # after \<and>
       dir = entry_dir entry \<and> full = path_join dir (str ''ffmpeg'') \<and> is_file full \<and>
       (\<forall>e \<in> set before. \<not> is_file (path_join (entry_dir e) (str ''ffmpeg''))))
   | None \<Rightarrow> (\<forall>e \<in> set (split_on 58 (from_utf8_lossy path)). \<not> is_file (path_join (entry_dir e) (str ''ffmpeg'')))"
proof -
  have "case scan_entries is_file entries of
     Some (dir, full) \<Rightarrow> (\<exists>before entry after. entries = before @ entry # after \<and>
       dir = entry_dir entry \<and> full = path_join dir (str ''ffmpeg'') \<and> is_file full \<and>
       (\<forall>e \<in> set before. \<not> is_file (path_join (entry_dir e) (str ''ffmpeg''))))
   | None \<Rightarrow> (\<forall>e \<in> set entries. \<not> is_file (path_join (entry_dir e) (str ''ffmpeg'')))" for entries
  proof (induction entries)
    case (Cons entry entries)
    show ?case
    proof (cases "is_file (path_join (entry_dir entry) (str ''ffmpeg''))")
      case True
      then show ?thesis by (auto simp: Let_def intro: exI [of _ "[]"])
    next
      case False
      with Cons show ?thesis
        by (auto simp: Let_def split: option.splits) (metis append_Cons set_ConsD)
    qed
  qed simp
  then show ?thesis by (simp add: scan_path_def)
qed

end
