(* ===== verification/Screen_Controller.thy ===== *)
theory Screen_Controller
  imports Screen_Capture Screen_Encoder
begin

text \<open>
  The controller thread of the screen pipeline (\<open>src/src/screen/bridge/controller.rs\<close>): the Wayland
  portal dance, the encoder child for the current format with its restarts, and the teardown.

  The child process, the portal and the capture thread are seen through what the controller does to
  them, the log of \<open>controller_action\<close>s, and what they answer, which is given with each turn. The
  threads share the record \<open>pipeline\<close>; a run of \<open>bridge_step\<close> is an interleaving of their atomic
  operations. A turn is over when the calls in it that block have returned; that the wait for a killed
  child may not return is a theorem of \<open>Screen_Pipeline\<close>. Between reading the resolution request and clearing its slot the controller restarts the
  encoder, which takes seconds, so these are two turns.
\<close>

section \<open>Encoder targets\<close>

datatype encoder_target = X11 u32 u32 | Portal pw_format

definition target_command :: "encoder_command option \<Rightarrow> bytes option \<Rightarrow> encoder_target \<Rightarrow> encoder_command" where
  "target_command custom_encoder found target =
     (case custom_encoder of
        Some c \<Rightarrow> c
      | None \<Rightarrow>
          (let program = (case found of Some p \<Rightarrow> p | None \<Rightarrow> str ''ffmpeg'') in
           case target of
             X11 width height \<Rightarrow> build_command program width height (str ''rgba'')
           | Portal f \<Rightarrow> build_command program (pw_width f) (pw_height f) (ffmpeg_name (pw_pix_fmt f))))"

definition show_size :: "u32 \<Rightarrow> u32 \<Rightarrow> rstring" where
  "show_size width height = show_nat (unat width) @ str ''x'' @ show_nat (unat height)"

fun describe :: "encoder_target \<Rightarrow> rstring" where
  "describe (X11 width height) = show_size width height @ str '' (RGBA)''"
| "describe (Portal f) =
     show_size (pw_width f) (pw_height f) @ str '' ('' @ ffmpeg_name (pw_pix_fmt f) @ str '')''"

section \<open>The portal\<close>

datatype controller_action =
    SessionCreated rstring
  | CaptureSpawned
  | CaptureStopped
  | SessionClosed rstring
  | Spawned encoder_target
  | FrameWritten bytes
  | StdinClosed
  | GracefulWait bool  \<comment> \<open>whether the exit of the child was seen before it gave up\<close>
  | ReadersJoined
  | OutputCleared
  | EncoderDropped  \<comment> \<open>\<open>Drop\<close>: the child is killed and waited for without a bound\<close>

text \<open>What one \<open>recv_timeout\<close> on the status channel gives; a timeout comes with whether a teardown is
  requested by then.\<close>

datatype status_recv = Status "rstring + pw_format" | Timeout bool | Disconnected

text \<open>\<open>None\<close>: still waiting when the script ends.\<close>

fun wait_for_format :: "status_recv list \<Rightarrow> (rstring + pw_format) option" where
  "wait_for_format [] = None"
| "wait_for_format (Status (Inr f) # rs) = Some (Inr f)"
| "wait_for_format (Status (Inl e) # rs) = Some (Inl (str ''pipewire capture failed: '' @ e))"
| "wait_for_format (Timeout aborted # rs) =
     (if aborted then Some (Inl (str ''capture aborted while waiting for the pipewire format''))
      else wait_for_format rs)"
| "wait_for_format (Disconnected # rs) =
     Some (Inl (str ''the pipewire capture thread ended before negotiating a format''))"

text \<open>What the portal client and the capture spawner answer.\<close>

record portal_env =
  pe_connect :: "rstring + unit"
  pe_create_session :: "rstring + rstring"
  pe_select_sources :: "rstring + unit"
  pe_start :: "rstring + u32"
  pe_open_pipewire_remote :: "rstring + unit"
  pe_spawn_capture :: "rstring + unit"
  pe_status :: "status_recv list"

record portal_state =
  ps_format :: pw_format
  ps_session :: rstring

definition prepare_portal :: "portal_env \<Rightarrow> (rstring + portal_state) option \<times> controller_action list" where
  "prepare_portal env =
     (case pe_connect env of Inl e \<Rightarrow> (Some (Inl e), []) | Inr _ \<Rightarrow>
     (case pe_create_session env of Inl e \<Rightarrow> (Some (Inl e), []) | Inr session \<Rightarrow>
     (case pe_select_sources env of Inl e \<Rightarrow> (Some (Inl e), [SessionCreated session]) | Inr _ \<Rightarrow>
     (case pe_start env of Inl e \<Rightarrow> (Some (Inl e), [SessionCreated session]) | Inr _ \<Rightarrow>
     (case pe_open_pipewire_remote env of Inl e \<Rightarrow> (Some (Inl e), [SessionCreated session]) | Inr _ \<Rightarrow>
     (case pe_spawn_capture env of Inl e \<Rightarrow> (Some (Inl e), [SessionCreated session]) | Inr _ \<Rightarrow>
     (case wait_for_format (pe_status env) of
        None \<Rightarrow> (None, [SessionCreated session, CaptureSpawned])
      | Some (Inl e) \<Rightarrow>
          (Some (Inl e), [SessionCreated session, CaptureSpawned, CaptureStopped, SessionClosed session])
      | Some (Inr f) \<Rightarrow>
          (Some (Inr \<lparr>ps_format = f, ps_session = session\<rparr>), [SessionCreated session, CaptureSpawned]))))))))"

definition teardown_portal :: "portal_state \<Rightarrow> controller_action list" where
  "teardown_portal ps = [CaptureStopped, SessionClosed (ps_session ps)]"

section \<open>The encoder generations\<close>

text \<open>Where the controller is: at the head of its loop, about to clear the slot of the resolution
  request, or returned.\<close>

datatype controller_pc = LoopHead | ClearSlot | Finished

record controller =
  co_pc :: controller_pc
  co_current :: encoder_target
  co_stdin :: bool
  co_portal :: "portal_state option"
  co_log :: "controller_action list"

definition close_stdin :: "controller \<Rightarrow> controller" where
  "close_stdin s = (if co_stdin s then s\<lparr>co_stdin := False, co_log := co_log s @ [StdinClosed]\<rparr> else s)"

definition encoder_spawn :: "encoder_target \<Rightarrow> rstring + unit \<Rightarrow> controller \<Rightarrow> rstring + controller" where
  "encoder_spawn target outcome s =
     (case outcome of
        Inl e \<Rightarrow> Inl e
      | Inr _ \<Rightarrow> Inr (s\<lparr>co_current := target, co_stdin := True, co_log := co_log s @ [Spawned target]\<rparr>))"

text \<open>\<open>restart\<close>: the message, if the new generation could not be spawned. \<open>exited\<close> is whether the wait
  saw the old child exit; its result is not looked at. The old encoder is dropped when the new one
  takes its place, after that has been spawned.\<close>

definition restart :: "encoder_target \<Rightarrow> bool \<Rightarrow> rstring + unit \<Rightarrow> controller \<Rightarrow> rstring option \<times> controller" where
  "restart target exited outcome s =
     (let s = close_stdin s;
          s = s\<lparr>co_log := co_log s @ [GracefulWait exited, ReadersJoined, OutputCleared]\<rparr>
      in case encoder_spawn target outcome s of
           Inr s' \<Rightarrow> (None, s'\<lparr>co_log := co_log s' @ [EncoderDropped]\<rparr>)
         | Inl e \<Rightarrow> (Some (str ''failed to restart ffmpeg at '' @ describe target @ str '': '' @ e), s))"

text \<open>\<open>feed\<close>, with what writing to the pipe gives.\<close>

definition feed_encoder :: "bytes \<Rightarrow> rstring + unit \<Rightarrow> controller \<Rightarrow> rstring + controller" where
  "feed_encoder fr outcome s =
     (if \<not> co_stdin s then Inl (str ''ffmpeg stdin closed unexpectedly'')
      else (case outcome of Inl e \<Rightarrow> Inl e | Inr _ \<Rightarrow> Inr (s\<lparr>co_log := co_log s @ [FrameWritten fr]\<rparr>)))"

definition teardown_encoder :: "bool \<Rightarrow> controller \<Rightarrow> controller" where
  "teardown_encoder exited s = (let s = close_stdin s in s\<lparr>co_log := co_log s @ [GracefulWait exited]\<rparr>)"

text \<open>After the loop: the portal is torn down first, then the encoder, which is dropped when the thread
  returns.\<close>

definition controller_finish :: "bool \<Rightarrow> controller \<Rightarrow> controller" where
  "controller_finish exited s =
     (let s = (case co_portal s of
                 Some ps \<Rightarrow> s\<lparr>co_portal := None, co_log := co_log s @ teardown_portal ps\<rparr> | None \<Rightarrow> s);
          s = teardown_encoder exited s
      in s\<lparr>co_log := co_log s @ [EncoderDropped], co_pc := Finished\<rparr>)"

section \<open>The controller loop\<close>

text \<open>The input: frames pushed by somebody else, for a first resolution, or the portal.\<close>

datatype pipeline_input = Frames u32 u32 | PortalInput portal_env

definition controller_spawn_first ::
  "encoder_target \<Rightarrow> portal_state option \<Rightarrow> controller_action list \<Rightarrow> rstring + unit \<Rightarrow> pipeline \<Rightarrow> controller \<times> pipeline" where
  "controller_spawn_first target portal log outcome p =
     (let s = \<lparr>co_pc = LoopHead, co_current = target, co_stdin = False, co_portal = portal, co_log = log\<rparr> in
      case encoder_spawn target outcome s of
        Inr s' \<Rightarrow> (s', p)
      | Inl e \<Rightarrow> (s\<lparr>co_pc := Finished\<rparr>, report_once (str ''failed to start ffmpeg: '' @ e) p))"

definition controller_start :: "pipeline_input \<Rightarrow> rstring + unit \<Rightarrow> pipeline \<Rightarrow> (controller \<times> pipeline) option" where
  "controller_start input outcome p =
     (case input of
        Frames width height \<Rightarrow> Some (controller_spawn_first (X11 width height) None [] outcome p)
      | PortalInput env \<Rightarrow>
          (case prepare_portal env of
             (None, log) \<Rightarrow> None
           | (Some (Inl e), log) \<Rightarrow>
               Some (\<lparr>co_pc = Finished, co_current = X11 0 0, co_stdin = False, co_portal = None, co_log = log\<rparr>,
                     report_once (str ''portal capture failed: '' @ e) p)
           | (Some (Inr ps), log) \<Rightarrow>
               Some (controller_spawn_first (Portal (ps_format ps)) (Some ps) log outcome p)))"

text \<open>What one turn of the loop meets: the status channel, the result of a spawn, of polling the
  child (its success and how the status prints), its stderr tail, the result of a write, whether a stop
  arrives while the turn runs, and whether the wait of a restart and that of the teardown see the child
  exit.\<close>

record turn_env =
  te_status :: "(rstring + pw_format) option"
  te_spawn :: "rstring + unit"
  te_exit :: "rstring + (bool \<times> rstring) option"
  te_tail :: "rstring list"
  te_write :: "rstring + unit"
  te_late_stop :: bool
  te_wait :: bool
  te_final_wait :: bool

fun join_lines :: "rstring list \<Rightarrow> rstring" where
  "join_lines [] = []"
| "join_lines [l] = l"
| "join_lines (l # ls) = l @ [10] @ join_lines ls"

text \<open>\<open>if !teardown_requested() { fail(..) } break\<close>\<close>

definition fail_and_break :: "turn_env \<Rightarrow> rstring \<Rightarrow> controller \<Rightarrow> pipeline \<Rightarrow> controller \<times> pipeline" where
  "fail_and_break env message s p =
     (let p = (if te_late_stop env then stop_pipeline p else p)
      in (controller_finish (te_final_wait env) s, if teardown_requested p then p else report_once message p))"

definition exit_message :: "bool \<Rightarrow> rstring \<Rightarrow> rstring list \<Rightarrow> rstring" where
  "exit_message success status lines =
     (if success then str ''ffmpeg stopped unexpectedly (exit 0); stderr:'' @ [10] @ join_lines lines
      else str ''ffmpeg exited unexpectedly with '' @ status @ str ''; stderr:'' @ [10] @ join_lines lines)"

definition feed_turn :: "turn_env \<Rightarrow> controller \<Rightarrow> pipeline \<Rightarrow> controller \<times> pipeline" where
  "feed_turn env s p =
     (case te_exit env of
        Inr (Some (success, status)) \<Rightarrow> fail_and_break env (exit_message success status (te_tail env)) s p
      | Inl e \<Rightarrow> fail_and_break env (str ''polling ffmpeg failed: '' @ e) s p
      | Inr None \<Rightarrow>
          (case try_pop (pl_frames p) of
             (None, _) \<Rightarrow> (s, p)
           | (Some fr, q) \<Rightarrow>
               (let p = p\<lparr>pl_frames := q\<rparr> in
                case feed_encoder fr (te_write env) s of
                  Inr s' \<Rightarrow> (s', p)
                | Inl e \<Rightarrow> fail_and_break env (str ''writing to ffmpeg stdin failed: '' @ e) s p)))"

definition next_target :: "turn_env \<Rightarrow> controller \<Rightarrow> pipeline \<Rightarrow> encoder_target option" where
  "next_target env s p =
     (case pl_resolution_request p of
        Some (width, height) \<Rightarrow> Some (X11 width height)
      | None \<Rightarrow>
          (case (co_portal s, te_status env) of
             (Some _, Some (Inr f)) \<Rightarrow> Some (Portal f)
           | _ \<Rightarrow> None))"

text \<open>The rest of a turn: a restart if another target is wanted, otherwise the child is polled and
  fed.\<close>

definition retarget_turn :: "turn_env \<Rightarrow> controller \<Rightarrow> pipeline \<Rightarrow> controller \<times> pipeline" where
  "retarget_turn env s p =
     (case next_target env s p of
        Some target \<Rightarrow>
          if target \<noteq> co_current s then
            (case restart target (te_wait env) (te_spawn env) s of
               (Some message, s') \<Rightarrow> (controller_finish (te_final_wait env) s', report_once message p)
             | (None, s') \<Rightarrow> (s'\<lparr>co_pc := ClearSlot\<rparr>, p))
          else (s\<lparr>co_pc := ClearSlot\<rparr>, p)
      | None \<Rightarrow> feed_turn env s p)"

definition controller_turn :: "turn_env \<Rightarrow> controller \<Rightarrow> pipeline \<Rightarrow> controller \<times> pipeline" where
  "controller_turn env s p =
     (case co_pc s of
        Finished \<Rightarrow> (s, p)
      | ClearSlot \<Rightarrow> (s\<lparr>co_pc := LoopHead\<rparr>, p\<lparr>pl_resolution_request := None\<rparr>)
      | LoopHead \<Rightarrow>
          if teardown_requested p then (controller_finish (te_final_wait env) s, p)
          else (case (co_portal s, te_status env) of
            (Some _, Some (Inl e)) \<Rightarrow> fail_and_break env (str ''pipewire capture failed: '' @ e) s p
          | _ \<Rightarrow> retarget_turn env s p))"

section \<open>The threads together\<close>

record screen_bridge =
  br_capture :: capture_thread
  br_controller :: controller
  br_pipeline :: pipeline

datatype bridge_input =
    CaptureTurn capture_outcome
  | ControllerTurn turn_env
  | FramePushed bytes
  | ResolutionRequested u32 u32
  | BridgeStop
  | ShutdownTriggered

definition bridge_step :: "screen_bridge \<Rightarrow> bridge_input \<Rightarrow> screen_bridge" where
  "bridge_step b i =
     (case i of
        CaptureTurn outcome \<Rightarrow>
          (case capture_turn (br_capture b, br_pipeline b) outcome of
             (c, p) \<Rightarrow> b\<lparr>br_capture := c, br_pipeline := p\<rparr>)
      | ControllerTurn env \<Rightarrow>
          (case controller_turn env (br_controller b) (br_pipeline b) of
             (s, p) \<Rightarrow> b\<lparr>br_controller := s, br_pipeline := p\<rparr>)
      | FramePushed fr \<Rightarrow> b\<lparr>br_pipeline := push_frame fr (br_pipeline b)\<rparr>
      | ResolutionRequested width height \<Rightarrow> b\<lparr>br_pipeline := request_resolution width height (br_pipeline b)\<rparr>
      | BridgeStop \<Rightarrow> b\<lparr>br_pipeline := stop_pipeline (br_pipeline b)\<rparr>
      | ShutdownTriggered \<Rightarrow> b\<lparr>br_pipeline := (br_pipeline b)\<lparr>pl_shutdown := True\<rparr>\<rparr>)"

text \<open>\<open>ScreenBridge::start\<close> up to the pipeline: which input it is started with.\<close>

datatype bridge_error = FfmpegMissing | MonitorFailed monitor_error

definition screen_bridge_route ::
  "bool \<Rightarrow> bool \<Rightarrow> rstring \<Rightarrow> rstring + monitor list \<Rightarrow> portal_env \<Rightarrow> bridge_error + pipeline_input" where
  "screen_bridge_route ffmpeg wayland name monitors env =
     (if \<not> ffmpeg then Inl FfmpegMissing
      else if wayland then Inr (PortalInput env)
      else (case monitor_resolution name monitors of
              Inl e \<Rightarrow> Inl (MonitorFailed e)
            | Inr (width, height) \<Rightarrow> Inr (Frames width height)))"

text \<open>The bridge once its controller is past the start, with a fresh capture thread.\<close>

definition bridge_start :: "pipeline_input \<Rightarrow> rstring + unit \<Rightarrow> screen_bridge option" where
  "bridge_start input outcome =
     map_option (\<lambda>(s, p). \<lparr>br_capture = capture_start, br_controller = s, br_pipeline = p\<rparr>)
       (controller_start input outcome pipeline_new)"

section \<open>What the controller holds\<close>

text \<open>The life of the encoder children in the log: a generation is spawned only when the previous one
  has seen its stdin closed, has been waited for, its readers joined and the output queue cleared; the
  previous one is then dropped, which kills and reaps a child the wait has given up on; frames go to a
  child with an open stdin that is alone. The flag says whether the exit of the child has been seen.\<close>

datatype encoder_phase =
    NoEncoder
  | Feeding encoder_target
  | Draining
  | Waited bool
  | Joined bool
  | Cleared bool
  | Replacing encoder_target bool
  | Released

fun encoder_next :: "encoder_phase \<Rightarrow> controller_action \<Rightarrow> encoder_phase option" where
  "encoder_next ph (SessionCreated _) = Some ph"
| "encoder_next ph CaptureSpawned = Some ph"
| "encoder_next ph CaptureStopped = Some ph"
| "encoder_next ph (SessionClosed _) = Some ph"
| "encoder_next NoEncoder (Spawned t) = Some (Feeding t)"
| "encoder_next (Feeding t) (FrameWritten _) = Some (Feeding t)"
| "encoder_next (Feeding t) StdinClosed = Some Draining"
| "encoder_next Draining (GracefulWait r) = Some (Waited r)"
| "encoder_next (Waited r) ReadersJoined = Some (Joined r)"
| "encoder_next (Joined r) OutputCleared = Some (Cleared r)"
| "encoder_next (Cleared r) (Spawned t) = Some (Replacing t r)"
| "encoder_next (Replacing t r) EncoderDropped = Some (Feeding t)"
| "encoder_next (Cleared r) (GracefulWait r') = Some (Waited (r \<or> r'))"
| "encoder_next (Waited r) EncoderDropped = Some Released"
| "encoder_next _ _ = None"

definition encoder_phase_of :: "controller_action list \<Rightarrow> encoder_phase option" where
  "encoder_phase_of log = foldl (\<lambda>ph a. Option.bind ph (\<lambda>ph. encoder_next ph a)) (Some NoEncoder) log"

text \<open>The portal sessions open and whether a capture thread runs, after a log.\<close>

fun portal_next :: "rstring set \<times> bool \<Rightarrow> controller_action \<Rightarrow> rstring set \<times> bool" where
  "portal_next r (SessionCreated x) = (insert x (fst r), snd r)"
| "portal_next r (SessionClosed x) = (fst r - {x}, snd r)"
| "portal_next r CaptureSpawned = (fst r, True)"
| "portal_next r CaptureStopped = (fst r, False)"
| "portal_next r _ = r"

definition portal_resources :: "controller_action list \<Rightarrow> rstring set \<times> bool" where
  "portal_resources log = foldl portal_next ({}, False) log"

lemma encoder_phase_Nil [simp]: "encoder_phase_of [] = Some NoEncoder"
  by (simp add: encoder_phase_of_def)

lemma encoder_phase_append [simp]: "encoder_phase_of (log @ actions) =
    foldl (\<lambda>ph a. Option.bind ph (\<lambda>ph. encoder_next ph a)) (encoder_phase_of log) actions"
  by (simp add: encoder_phase_of_def)





lemma fail_and_break_controller [simp]: "fst (fail_and_break env message s p) = controller_finish (te_final_wait env) s"
  by (simp add: fail_and_break_def Let_def)













section \<open>Errors are reported once\<close>

lemma reported_once_simps [simp]:
  "reported_once (p\<lparr>pl_frames := q\<rparr>) = reported_once p"
  "reported_once (p\<lparr>pl_resolution_request := r\<rparr>) = reported_once p"
  "reported_once (p\<lparr>pl_shutdown := d\<rparr>) = reported_once p"
  by (simp_all add: reported_once_def)

lemma reported_once_stop [intro]: "reported_once p \<Longrightarrow> reported_once (stop_pipeline p)"
  by (auto simp: reported_once_def stop_pipeline_def)

lemma reported_once_fail_and_break:
  "reported_once p \<Longrightarrow> reported_once (snd (fail_and_break env message s p))"
  by (auto simp: fail_and_break_def Let_def)

lemma reported_once_controller_turn:
  "reported_once p \<Longrightarrow> reported_once (snd (controller_turn env s p))"
  by (auto simp: controller_turn_def retarget_turn_def feed_turn_def Let_def
      intro: reported_once_fail_and_break
      split: controller_pc.splits option.splits sum.splits prod.splits)

lemma reported_once_step: "reported_once (br_pipeline b) \<Longrightarrow> reported_once (br_pipeline (bridge_step b i))"
  using reported_once_capture_turn [of "br_pipeline b" "br_capture b"]
    reported_once_controller_turn [of "br_pipeline b" _ "br_controller b"]
  by (cases i)
    (auto simp: bridge_step_def push_frame_def request_resolution_def split: prod.splits; metis snd_conv)+

interpretation reports: step_invariant b bridge_step "\<lambda>_. reported_once (br_pipeline b)"
  "\<lambda>b'. reported_once (br_pipeline b) \<longrightarrow> reported_once (br_pipeline b')" for b
  by unfold_locales (auto intro: reported_once_step)

text \<open>Whatever goes wrong, and however often, in the capture thread and the controller, the user
  sees one error: a pipeline sends at most one \<open>StreamError\<close>, it is the recorded last error, and
  sending it stops the pipeline.\<close>

theorem pipeline_reports_one_error:
  assumes "bridge_start input outcome = Some b"
  shows "reported_once (br_pipeline (run bridge_step b inputs))"
proof -
  have "reported_once (br_pipeline b)"
    using assms
    by (auto simp: bridge_start_def controller_start_def controller_spawn_first_def Let_def
        intro!: reported_once_report
        split: pipeline_input.splits option.splits sum.splits prod.splits)
  then show ?thesis using reports.inv_run [of b inputs] by (simp add: list_all_iff)
qed

theorem pipeline_reports_one_error_witness:
  "bridge_start (Frames 2 1) (Inl (str ''no such file'')) = Some (the (bridge_start (Frames 2 1) (Inl (str ''no such file'')))) \<and>
   reported_once (br_pipeline (run bridge_step (the (bridge_start (Frames 2 1) (Inl (str ''no such file''))))
     (replicate 9 (CaptureTurn (Inl [], Inl [])))))"
proof -
  let ?b = "bridge_start (Frames 2 1) (Inl (str ''no such file''))"
  have "?b = Some (the ?b)" by (simp add: bridge_start_def controller_start_def controller_spawn_first_def Let_def)
  then show ?thesis using pipeline_reports_one_error by blast
qed

section \<open>Stopping and restarting\<close>

text \<open>A stop is answered: once a stop, a failure or the shutdown has been requested, the controller
  has returned after two of its turns at the latest, whatever it meets in them.\<close>

theorem controller_stops:
  assumes "teardown_requested p" "controller_turn env s p = (s', p')" "controller_turn env' s' p' = (s'', p'')"
  shows "co_pc s'' = Finished"
  using assms
  by (cases "co_pc s")
    (auto simp: controller_turn_def teardown_requested_def controller_finish_def Let_def)

theorem controller_stops_witness:
  "let env = \<lparr>te_status = None, te_spawn = Inr (), te_exit = Inr None, te_tail = [], te_write = Inr (), te_late_stop = False,
         te_wait = True, te_final_wait = True\<rparr>;
       s = \<lparr>co_pc = ClearSlot, co_current = X11 2 1, co_stdin = True, co_portal = None, co_log = []\<rparr>;
       (s', p') = controller_turn env s (stop_pipeline pipeline_new)
   in co_pc (fst (controller_turn env s' p')) = Finished"
proof -
  let ?env = "\<lparr>te_status = None, te_spawn = Inr (), te_exit = Inr None, te_tail = [], te_write = Inr (), te_late_stop = False,
         te_wait = True, te_final_wait = True\<rparr>"
  let ?s = "\<lparr>co_pc = ClearSlot, co_current = X11 2 1, co_stdin = True, co_portal = None, co_log = []\<rparr>"
  obtain s' p' where 1: "controller_turn ?env ?s (stop_pipeline pipeline_new) = (s', p')" by fastforce
  obtain s'' p'' where 2: "controller_turn ?env s' p' = (s'', p'')" by fastforce
  have "co_pc s'' = Finished"
    by (rule controller_stops [OF _ 1 2]) (simp add: teardown_requested_def stop_pipeline_def)
  then show ?thesis by (simp only: Let_def 1 2 prod.case fst_conv)
qed

text \<open>A resolution change reaches the encoder: a request pending at the head of the loop makes the
  next turn close the running encoder and start one of the requested size, unless the spawn fails,
  which is reported and ends the controller.\<close>

theorem resolution_request_followed:
  assumes "co_pc s = LoopHead" "\<not> teardown_requested p" "pl_resolution_request p = Some (width, height)"
    and "co_current s \<noteq> X11 width height" "co_stdin s" "co_portal s = None"
    and "controller_turn env s p = (s', p')"
  shows "case te_spawn env of
      Inr _ \<Rightarrow> co_current s' = X11 width height \<and> p' = p \<and> co_log s' = co_log s @
        [StdinClosed, GracefulWait (te_wait env), ReadersJoined, OutputCleared, Spawned (X11 width height), EncoderDropped]
    | Inl e \<Rightarrow> co_pc s' = Finished \<and> pl_stop p' \<and> pl_failed p'"
  using assms
  by (auto simp: controller_turn_def retarget_turn_def next_target_def restart_def close_stdin_def encoder_spawn_def
      controller_finish_def teardown_encoder_def Let_def split: sum.splits option.splits)

theorem resolution_request_followed_witness:
  "let env = \<lparr>te_status = None, te_spawn = Inr (), te_exit = Inr None, te_tail = [], te_write = Inr (), te_late_stop = False,
         te_wait = True, te_final_wait = True\<rparr>;
       s = \<lparr>co_pc = LoopHead, co_current = X11 2 1, co_stdin = True, co_portal = None, co_log = []\<rparr>
   in co_current (fst (controller_turn env s (request_resolution 4 3 pipeline_new))) = X11 4 3"
proof -
  let ?env = "\<lparr>te_status = None, te_spawn = Inr (), te_exit = Inr None, te_tail = [], te_write = Inr (), te_late_stop = False,
         te_wait = True, te_final_wait = True\<rparr>"
  let ?s = "\<lparr>co_pc = LoopHead, co_current = X11 2 1, co_stdin = True, co_portal = None, co_log = []\<rparr>"
  obtain s' p' where t: "controller_turn ?env ?s (request_resolution 4 3 pipeline_new) = (s', p')" by fastforce
  have "case te_spawn ?env of
      Inr _ \<Rightarrow> co_current s' = X11 4 3 \<and> p' = request_resolution 4 3 pipeline_new \<and> co_log s' = co_log ?s @
        [StdinClosed, GracefulWait (te_wait ?env), ReadersJoined, OutputCleared, Spawned (X11 4 3), EncoderDropped]
    | Inl e \<Rightarrow> co_pc s' = Finished \<and> pl_stop p' \<and> pl_failed p'"
    by (rule resolution_request_followed [OF _ _ _ _ _ _ t])
      (simp_all add: request_resolution_def teardown_requested_def pipeline_new_def)
  then show ?thesis by (simp add: t Let_def)
qed

section \<open>Where the controller falls short\<close>

text \<open>A portal session opened by a start that then fails is closed again only when the wait for
  the format is what failed. Any other error on the way, or a failure to spawn the first encoder,
  ends the controller with the session still open.\<close>

theorem failed_portal_start_leaks_session:
  assumes "controller_start (PortalInput env) outcome p = Some (s, p')" "co_pc s = Finished"
    and "pe_connect env = Inr ()" "pe_create_session env = Inr session"
  shows "session \<notin> fst (portal_resources (co_log s)) \<longleftrightarrow>
    is_ok (pe_select_sources env) \<and> is_ok (pe_start env) \<and> is_ok (pe_open_pipewire_remote env) \<and>
    is_ok (pe_spawn_capture env) \<and> (\<exists>e. wait_for_format (pe_status env) = Some (Inl e))"
  using assms
  by (auto simp: controller_start_def controller_spawn_first_def encoder_spawn_def prepare_portal_def
      portal_resources_def Let_def split: sum.splits option.splits)

theorem failed_portal_start_leaks_session_witness:
  "let env = \<lparr>pe_connect = Inr (), pe_create_session = Inr (str ''/s''), pe_select_sources = Inr (),
        pe_start = Inl (str ''screen share was canceled by the user''), pe_open_pipewire_remote = Inr (),
        pe_spawn_capture = Inr (), pe_status = []\<rparr>
   in \<exists>s p'. controller_start (PortalInput env) (Inr ()) pipeline_new = Some (s, p') \<and> co_pc s = Finished \<and>
      str ''/s'' \<in> fst (portal_resources (co_log s))"
proof -
  let ?env = "\<lparr>pe_connect = Inr (), pe_create_session = Inr (str ''/s''), pe_select_sources = Inr (),
    pe_start = Inl (str ''screen share was canceled by the user''), pe_open_pipewire_remote = Inr (),
    pe_spawn_capture = Inr (), pe_status = []\<rparr>"
  obtain s p' where s: "controller_start (PortalInput ?env) (Inr ()) pipeline_new = Some (s, p')" "co_pc s = Finished"
    by (simp add: controller_start_def prepare_portal_def)
  have "str ''/s'' \<in> fst (portal_resources (co_log s))"
    using failed_portal_start_leaks_session [OF s, of "str ''/s''"] by simp
  with s show ?thesis by (auto simp: Let_def)
qed

text \<open>A resolution change that comes while the encoder restarts for an earlier one is lost: the
  controller clears the request without having looked at it, the capture thread does not repeat it,
  and the encoder for the earlier size is fed frames of the later one.\<close>

theorem request_during_restart_is_lost:
  "let env = \<lparr>te_status = None, te_spawn = Inr (), te_exit = Inr None, te_tail = [], te_write = Inr (), te_late_stop = False,
         te_wait = True, te_final_wait = True\<rparr>;
       shot = (\<lambda>w bs. CaptureTurn (Inr \<lparr>fr_width = w, fr_height = 1, fr_bytes = bs\<rparr>, Inr ()));
       b = run bridge_step (the (bridge_start (Frames 1 1) (Inr ())))
         [shot 2 [0,0,0,0, 0,0,0,0], ControllerTurn env, shot 1 [1,1,1,1], ControllerTurn env,
          shot 1 [2,2,2,2], ControllerTurn env, shot 1 [3,3,3,3], ControllerTurn env, ControllerTurn env]
   in co_current (br_controller b) = X11 2 1 \<and> pl_resolution_request (br_pipeline b) = None \<and>
      ct_expected (br_capture b) = Some (1, 1) \<and> is_running (br_pipeline b) \<and>
      co_log (br_controller b) = [Spawned (X11 1 1), StdinClosed, GracefulWait True, ReadersJoined, OutputCleared,
        Spawned (X11 2 1), EncoderDropped, FrameWritten [1,1,1,1], FrameWritten [2,2,2,2], FrameWritten [3,3,3,3]]"
  by code_simp

text \<open>A restart discards the output of the old encoder but not the frames waiting for it, so the
  new encoder may start with a frame of the old size.\<close>

theorem restart_feeds_old_frame:
  "let env = \<lparr>te_status = None, te_spawn = Inr (), te_exit = Inr None, te_tail = [], te_write = Inr (), te_late_stop = False,
         te_wait = True, te_final_wait = True\<rparr>;
       b = run bridge_step (the (bridge_start (Frames 1 1) (Inr ())))
         [FramePushed [1,1,1,1], ResolutionRequested 2 1, ControllerTurn env, ControllerTurn env, ControllerTurn env]
   in co_log (br_controller b) = [Spawned (X11 1 1), StdinClosed, GracefulWait True, ReadersJoined, OutputCleared,
        Spawned (X11 2 1), EncoderDropped, FrameWritten [1,1,1,1]]"
  by code_simp

end
