(* ===== verification/Media_Serve.thy ===== *)
theory Media_Serve
  imports Media_Range Util
begin

text \<open>
  Serving one \<open>/stream\<close> response: response heads (\<open>src/src/media/server.rs\<close>), local files
  (\<open>src/src/media/local_file.rs\<close>), network shares (\<open>src/src/media/smb_source.rs\<close>) and remote
  URLs (\<open>src/src/media/url_proxy.rs\<close>).

  The \<open>AsyncWrite\<close> of a connection is a record: the bytes it has accepted in order, how many of
  them the last \<open>flush\<close> covered, and the script of the outcomes of its next calls. A call may
  succeed, fail with an I/O error after it has taken a part of the bytes, or be where the
  surrounding \<open>select!\<close> drops the handler (a source switch or a shutdown), after which nothing
  more of the handler runs. The file system, the \<open>smb2\<close>, \<open>reqwest\<close>, \<open>url\<close> and
  \<open>percent-encoding\<close> crates are parameters.
\<close>

section \<open>The connection's writer\<close>

datatype stop = IoStop io_error | ConnectionAborted | Cancelled

datatype write_outcome = WOk | WFail nat io_error | WCancel

record http_writer =
  w_written :: bytes
  w_flushed :: nat
  w_script :: "write_outcome list"

definition writer_new :: "write_outcome list \<Rightarrow> http_writer" where
  "writer_new sc = \<lparr>w_written = [], w_flushed = 0, w_script = sc\<rparr>"

type_synonym 'a wio = "http_writer \<Rightarrow> (stop + 'a) \<times> http_writer"

definition wret :: "'a \<Rightarrow> 'a wio" where
  "wret x w = (Inr x, w)"

definition wfail :: "stop \<Rightarrow> 'a wio" where
  "wfail e w = (Inl e, w)"

definition wbind :: "'a wio \<Rightarrow> ('a \<Rightarrow> 'b wio) \<Rightarrow> 'b wio" where
  "wbind m f w = (case m w of (Inl e, w') \<Rightarrow> (Inl e, w') | (Inr x, w') \<Rightarrow> f x w')"

definition wthen :: "unit wio \<Rightarrow> 'b wio \<Rightarrow> 'b wio" where
  "wthen m n = wbind m (\<lambda>_. n)"

definition write_all :: "bytes \<Rightarrow> unit wio" where
  "write_all bs w =
     (case w_script w of
        [] \<Rightarrow> (Inr (), w\<lparr>w_written := w_written w @ bs\<rparr>)
      | WOk # sc \<Rightarrow> (Inr (), w\<lparr>w_written := w_written w @ bs, w_script := sc\<rparr>)
      | WFail k e # sc \<Rightarrow> (Inl (IoStop e), w\<lparr>w_written := w_written w @ take k bs, w_script := sc\<rparr>)
      | WCancel # sc \<Rightarrow> (Inl Cancelled, w\<lparr>w_script := sc\<rparr>))"

definition flush :: "unit wio" where
  "flush w =
     (case w_script w of
        [] \<Rightarrow> (Inr (), w\<lparr>w_flushed := length (w_written w)\<rparr>)
      | WOk # sc \<Rightarrow> (Inr (), w\<lparr>w_flushed := length (w_written w), w_script := sc\<rparr>)
      | WFail k e # sc \<Rightarrow> (Inl (IoStop e), w\<lparr>w_script := sc\<rparr>)
      | WCancel # sc \<Rightarrow> (Inl Cancelled, w\<lparr>w_script := sc\<rparr>))"

definition header_lines :: "(rstring \<times> rstring) list \<Rightarrow> rstring" where
  "header_lines headers = concat (map (\<lambda>(n, v). n @ str '': '' @ v @ [13, 10]) headers)"

definition response_head :: "u16 \<Rightarrow> rstring \<Rightarrow> (rstring \<times> rstring) list \<Rightarrow> rstring" where
  "response_head status reason headers =
     str ''HTTP/1.1 '' @ show_nat (unat status) @ str '' '' @ reason @ [13, 10] @
     header_lines headers @ str ''Connection: close'' @ [13, 10, 13, 10]"

definition write_response_head ::
  "u16 \<Rightarrow> rstring \<Rightarrow> (rstring \<times> rstring) list \<Rightarrow> unit wio" where
  "write_response_head status reason headers = write_all (response_head status reason headers)"

definition reason_phrase :: "u16 \<Rightarrow> rstring" where
  "reason_phrase status =
     (case map_of
        [(200, ''OK''), (201, ''Created''), (204, ''No Content''), (206, ''Partial Content''),
         (301, ''Moved Permanently''), (302, ''Found''), (304, ''Not Modified''),
         (307, ''Temporary Redirect''), (308, ''Permanent Redirect''), (400, ''Bad Request''),
         (401, ''Unauthorized''), (403, ''Forbidden''), (404, ''Not Found''),
         (405, ''Method Not Allowed''), (408, ''Request Timeout''), (410, ''Gone''),
         (416, ''Range Not Satisfiable''), (429, ''Too Many Requests''),
         (500, ''Internal Server Error''), (502, ''Bad Gateway''), (503, ''Service Unavailable''),
         (504, ''Gateway Timeout'')] status of
        Some r \<Rightarrow> str r | None \<Rightarrow> [])"

section \<open>local\_file.rs\<close>

definition CHUNK_SIZE :: u64 where
  "CHUNK_SIZE = 64 * 1024"

text \<open>
  An open file: the size its metadata reports, the reader at the start, and the reader after a
  seek. Every outcome of the file system is part of the parameter.
\<close>

record fs_file =
  ff_len :: "io_error + u64"
  ff_start :: reader
  ff_seek :: "u64 \<Rightarrow> io_error + reader"

definition lift_io :: "io_error + 'a \<Rightarrow> 'a wio" where
  "lift_io r w = (case r of Inl e \<Rightarrow> (Inl (IoStop e), w) | Inr x \<Rightarrow> (Inr x, w))"

function stream_reader :: "reader \<Rightarrow> u64 \<Rightarrow> unit wio" where
  "stream_reader file remaining w =
     (if remaining = 0 then (Inr (), w)
      else (case rd_read file (unat (min remaining CHUNK_SIZE)) of
        (Inl e, _) \<Rightarrow> (Inl (IoStop e), w)
      | (Inr buf, file') \<Rightarrow>
          if buf = [] then (Inr (), w)
          else wbind (write_all buf) (\<lambda>_. stream_reader file' (remaining - of_nat (length buf))) w))"
  by pat_completeness auto

lemma chunk_remaining:
  assumes "rd_read file (unat (min remaining CHUNK_SIZE)) = (Inr buf, file')"
  shows "length buf \<le> unat remaining" "unat (of_nat (length buf) :: u64) = length buf"
    "unat (remaining - of_nat (length buf)) = unat remaining - length buf"
proof -
  have "length buf \<le> unat (min remaining CHUNK_SIZE)" using rd_read_length [OF assms] by simp
  then show l: "length buf \<le> unat remaining"
    by (auto simp: min_def word_le_nat_alt split: if_splits)
  then show u: "unat (of_nat (length buf) :: u64) = length buf"
    using unat_u64_less [of remaining] by (intro unat_of_nat_u64) simp
  show "unat (remaining - of_nat (length buf)) = unat remaining - length buf"
    using l u by (simp add: unat_sub_if_size)
qed

lemma stream_reader_decreases:
  assumes "rd_read file (unat (min remaining CHUNK_SIZE)) = (Inr buf, file')" "buf \<noteq> []"
  shows "unat (remaining - of_nat (length buf)) < unat remaining"
proof -
  have "0 < length buf" using assms(2) by simp
  with chunk_remaining [OF assms(1)] show ?thesis by linarith
qed

termination stream_reader
  by (relation "measure (\<lambda>(file, remaining, w). unat remaining)")
    (auto dest!: stream_reader_decreases [OF sym])

declare stream_reader.simps [simp del]

definition ok_headers :: "rstring \<Rightarrow> u64 \<Rightarrow> (rstring \<times> rstring) list" where
  "ok_headers mime sz =
     [(str ''Accept-Ranges'', str ''bytes''), (str ''Content-Type'', mime),
      (str ''Content-Length'', fmt_u64 sz), (str ''Cache-Control'', str ''no-cache'')]"

definition partial_headers :: "rstring \<Rightarrow> u64 \<Rightarrow> u64 \<Rightarrow> u64 \<Rightarrow> (rstring \<times> rstring) list" where
  "partial_headers mime start stop sz =
     [(str ''Accept-Ranges'', str ''bytes''), (str ''Content-Type'', mime),
      (str ''Content-Length'', fmt_u64 (stop - start + 1)),
      (str ''Content-Range'', content_range start stop sz), (str ''Cache-Control'', str ''no-cache'')]"

definition unsatisfiable_headers :: "rstring \<Rightarrow> u64 \<Rightarrow> (rstring \<times> rstring) list" where
  "unsatisfiable_headers mime sz =
     [(str ''Accept-Ranges'', str ''bytes''), (str ''Content-Type'', mime),
      (str ''Content-Length'', str ''0''), (str ''Content-Range'', unsatisfiable_content_range sz)]"

definition serve_file ::
  "(bytes \<Rightarrow> io_error + fs_file) \<Rightarrow> bytes \<Rightarrow> rstring option \<Rightarrow> bool \<Rightarrow> unit wio" where
  "serve_file open_file path range_header head_only =
     (case open_file path of
        Inl e \<Rightarrow>
          if e = NotFound then wthen (write_response_head 404 (str ''Not Found'') []) flush
          else wfail (IoStop e)
      | Inr file \<Rightarrow>
          wbind (lift_io (ff_len file)) (\<lambda>sz.
            let mime = mime_for_path path in
            wthen
              (case parse_range range_header sz of
                 Full \<Rightarrow>
                   wthen (write_response_head 200 (str ''OK'') (ok_headers mime sz))
                     (if head_only then wret () else stream_reader (ff_start file) sz)
               | Partial start stop \<Rightarrow>
                   wthen (write_response_head 206 (str ''Partial Content'')
                            (partial_headers mime start stop sz))
                     (if head_only then wret ()
                      else wbind (lift_io (ff_seek file start)) (\<lambda>rd.
                        stream_reader rd (stop - start + 1)))
               | Unsatisfiable \<Rightarrow>
                   write_response_head 416 (str ''Range Not Satisfiable'')
                     (unsatisfiable_headers mime sz))
              flush))"

section \<open>smb\_source.rs\<close>

definition SMB_DEFAULT_PORT :: u16 where
  "SMB_DEFAULT_PORT = 445"

definition READ_CHUNK :: u64 where
  "READ_CHUNK = 1024 * 1024"

datatype smb_error =
    InvalidUrl
  | AuthRequired rstring
  | SmbNotFound rstring
  | AccessDenied rstring
  | Transport rstring

record smb_url =
  su_host :: rstring
  su_port :: u16
  su_share :: rstring
  su_file_path :: rstring

text \<open>What \<open>url::Url::parse\<close> gives for a URL it accepts, as far as the code asks for it.\<close>

record parsed_url =
  pu_scheme :: rstring
  pu_username :: rstring
  pu_password :: "rstring option"
  pu_host :: "rstring option"
  pu_port :: "u16 option"
  pu_path :: rstring
  pu_query :: "rstring option"
  pu_fragment :: "rstring option"

fun trim_start_slashes :: "rstring \<Rightarrow> rstring" where
  "trim_start_slashes [] = []"
| "trim_start_slashes (c # cs) = (if c = 47 then trim_start_slashes cs else c # cs)"

fun join_slash :: "rstring list \<Rightarrow> rstring" where
  "join_slash [] = []"
| "join_slash [x] = x"
| "join_slash (x # y # zs) = x @ 47 # join_slash (y # zs)"

definition smb_url_parse ::
  "(rstring \<Rightarrow> parsed_url option) \<Rightarrow> (rstring \<Rightarrow> bytes) \<Rightarrow> rstring \<Rightarrow> smb_error + smb_url" where
  "smb_url_parse url_parse percent_decode raw =
     (case url_parse raw of
        None \<Rightarrow> Inl InvalidUrl
      | Some parsed \<Rightarrow>
          if \<not> eq_ignore_ascii_case (pu_scheme parsed) (str ''smb'') then Inl InvalidUrl
          else if pu_username parsed \<noteq> [] \<or> pu_password parsed \<noteq> None then Inl InvalidUrl
          else (case pu_host parsed of
            None \<Rightarrow> Inl InvalidUrl
          | Some host \<Rightarrow>
              if pu_query parsed \<noteq> None \<or> pu_fragment parsed \<noteq> None then Inl InvalidUrl
              else
                let port = (case pu_port parsed of Some p \<Rightarrow> p | None \<Rightarrow> SMB_DEFAULT_PORT);
                    decoded = from_utf8_lossy (percent_decode (pu_path parsed));
                    segments = split_on 47 (trim_start_slashes decoded);
                    share = hd segments;
                    rest = tl segments
                in if share = [] \<or> rest = [] \<or> list_ex (\<lambda>x. x = []) rest then Inl InvalidUrl
                   else Inr \<lparr>su_host = host, su_port = port, su_share = share,
                             su_file_path = join_slash rest\<rparr>))"

record smb_file =
  sf_size :: u64
  sf_read_at :: "u64 \<Rightarrow> u64 \<Rightarrow> smb_error + bytes"
  sf_close :: "smb_error + unit"

text \<open>The production connector: the address and the always empty credentials it hands to the
  \<open>smb2\<close> client, and the classification of that crate's errors.\<close>

record smb_config =
  sc_addr :: rstring
  sc_username :: rstring
  sc_password :: rstring
  sc_domain :: rstring
  sc_auto_reconnect :: bool
  sc_compression :: bool
  sc_dfs_enabled :: bool

datatype smb2_kind = KAuthRequired | KNotFound | KAccessDenied | KOther

fun classify :: "smb2_kind \<times> rstring \<Rightarrow> smb_error" where
  "classify (KAuthRequired, detail) = AuthRequired detail"
| "classify (KNotFound, detail) = SmbNotFound detail"
| "classify (KAccessDenied, detail) = AccessDenied detail"
| "classify (KOther, detail) = Transport detail"

definition smb2_config :: "smb_url \<Rightarrow> smb_config" where
  "smb2_config url =
     \<lparr>sc_addr = (if 58 \<in> set (su_host url)
        then str ''['' @ su_host url @ str '']:'' @ show_nat (unat (su_port url))
        else su_host url @ str '':'' @ show_nat (unat (su_port url))),
      sc_username = [], sc_password = [], sc_domain = [], sc_auto_reconnect = False,
      sc_compression = True, sc_dfs_enabled = False\<rparr>"

definition smb2_open ::
  "(smb_config \<Rightarrow> rstring \<Rightarrow> rstring \<Rightarrow> (smb2_kind \<times> rstring) + smb_file) \<Rightarrow> smb_url \<Rightarrow> smb_error + smb_file" where
  "smb2_open client url =
     (case client (smb2_config url) (su_share url) (su_file_path url) of
        Inl err \<Rightarrow> Inl (classify err) | Inr file \<Rightarrow> Inr file)"

definition starts_with :: "rstring \<Rightarrow> rstring \<Rightarrow> bool" where
  "starts_with p s \<longleftrightarrow> strip_prefix p s \<noteq> None"

definition is_smb_url :: "rstring \<Rightarrow> bool" where
  "is_smb_url raw \<longleftrightarrow> starts_with (str ''smb://'') (to_ascii_lowercase (trim raw))"

text \<open>
  The body loop. Its arithmetic is that of \<open>u64\<close>; a file that returns more than it was asked for
  would make \<open>remaining\<close> wrap, so the loop is a partial function.
\<close>

partial_function (option) smb_stream_reader ::
  "smb_file \<Rightarrow> u64 \<Rightarrow> u64 \<Rightarrow> http_writer \<Rightarrow> ((stop + unit) \<times> http_writer) option" where
  "smb_stream_reader file offset remaining w =
     (if remaining = 0 then Some (Inr (), w)
      else (case sf_read_at file offset (min remaining READ_CHUNK) of
        Inl e \<Rightarrow> Some (Inl ConnectionAborted, w)
      | Inr chunk \<Rightarrow>
          if chunk = [] then Some (Inr (), w)
          else (case write_all chunk w of
            (Inl e, w') \<Rightarrow> Some (Inl e, w')
          | (Inr _, w') \<Rightarrow>
              smb_stream_reader file (offset + of_nat (length chunk))
                (remaining - of_nat (length chunk)) w')))"

definition file_extension :: "rstring \<Rightarrow> rstring" where
  "file_extension path = last (split_on 46 path)"

definition plain_error :: "u16 \<Rightarrow> rstring \<Rightarrow> rstring \<Rightarrow> unit wio" where
  "plain_error status reason body =
     wthen (write_response_head status reason
              [(str ''Content-Type'', str ''text/plain''),
               (str ''Content-Length'', show_nat (length body))])
       (wthen (write_all body) flush)"

definition smb_body :: "smb_file \<Rightarrow> u64 \<Rightarrow> u64 \<Rightarrow> bool \<Rightarrow> http_writer \<Rightarrow>
    ((stop + unit) \<times> http_writer) option" where
  "smb_body file offset len head_only w =
     (if head_only then Some (Inr (), w) else smb_stream_reader file offset len w)"

definition serve_smb ::
  "(rstring \<Rightarrow> smb_error + smb_url) \<Rightarrow> (smb_url \<Rightarrow> smb_error + smb_file) \<Rightarrow> rstring \<Rightarrow> rstring option \<Rightarrow>
   bool \<Rightarrow> http_writer \<Rightarrow> ((stop + unit) \<times> http_writer) option" where
  "serve_smb parse connector raw_url range_header head_only w =
     (case parse raw_url of
        Inl _ \<Rightarrow> Some (wthen (write_response_head 400 (str ''Bad Request'') []) flush w)
      | Inr url \<Rightarrow>
          (case connector url of
             Inl (AuthRequired _) \<Rightarrow>
               Some (plain_error 401 (str ''Unauthorized'')
                 (str ''guest access rejected: authentication required'') w)
           | Inl (SmbNotFound _) \<Rightarrow>
               Some (plain_error 404 (str ''Not Found'') (str ''network share resource not found'') w)
           | Inl (AccessDenied _) \<Rightarrow>
               Some (plain_error 403 (str ''Forbidden'') (str ''network share access denied'') w)
           | Inl _ \<Rightarrow> Some (plain_error 502 (str ''Bad Gateway'') (str ''Bad Gateway'') w)
           | Inr file \<Rightarrow>
               let sz = sf_size file;
                   mime = mime_for_extension (file_extension (su_file_path url));
                   (status, reason, headers, body) =
                     (case parse_range range_header sz of
                        Full \<Rightarrow> (200, str ''OK'', ok_headers mime sz, smb_body file 0 sz head_only)
                      | Partial start stop \<Rightarrow>
                          (206, str ''Partial Content'', partial_headers mime start stop sz,
                           smb_body file start (stop - start + 1) head_only)
                      | Unsatisfiable \<Rightarrow>
                          (416, str ''Range Not Satisfiable'', unsatisfiable_headers mime sz,
                           \<lambda>w. Some (Inr (), w)))
               in (case write_response_head status reason headers w of
                     (Inl e, w1) \<Rightarrow> Some (Inl e, w1)
                   | (Inr _, w1) \<Rightarrow>
                       (case body w1 of
                          None \<Rightarrow> None
                        | Some (Inl e, w2) \<Rightarrow> Some (Inl e, w2)
                        | Some (Inr _, w2) \<Rightarrow> Some (flush w2)))))"

section \<open>url\_proxy.rs\<close>

definition FLUSH_BYTES :: nat where
  "FLUSH_BYTES = 32 * 1024"

definition FLUSH_INTERVAL :: duration where
  "FLUSH_INTERVAL = from_millis 25"

definition FIRST_BYTE_TIMEOUT :: duration where
  "FIRST_BYTE_TIMEOUT = from_secs 30"

datatype proxy_error = ProxyInvalidUrl | Userinfo | MissingHost

definition validate_url ::
  "(rstring \<Rightarrow> parsed_url option) \<Rightarrow> rstring \<Rightarrow> proxy_error + parsed_url" where
  "validate_url url_parse raw =
     (case url_parse raw of
        None \<Rightarrow> Inl ProxyInvalidUrl
      | Some url \<Rightarrow>
          if pu_username url \<noteq> [] \<or> pu_password url \<noteq> None then Inl Userinfo
          else if pu_host url = None then Inl MissingHost
          else Inr url)"

text \<open>
  The remote side of one request: the time the head of the response takes to arrive (or the
  failure), its status, its headers as text (\<open>None\<close> for a value that is not text), and the events
  of the body loop: a chunk, a failure, the end, or the flush deadline, each with its time.
\<close>

datatype body_event = Chunk bytes | ChunkError | BodyEnd | Deadline

record remote_response =
  rr_status :: u16
  rr_header :: "rstring \<Rightarrow> rstring option"
  rr_start :: instant
  rr_body :: "(instant \<times> body_event) list"

datatype fetch = FetchError | FetchOk duration remote_response

definition bad_gateway :: "unit wio" where
  "bad_gateway =
     wthen (write_response_head 502 (str ''Bad Gateway'')
              [(str ''Content-Type'', str ''text/plain''), (str ''Content-Length'', str ''11'')])
       (wthen (write_all (str ''Bad Gateway'')) flush)"

definition mirrored_headers :: "rstring list" where
  "mirrored_headers =
     [str ''content-type'', str ''content-length'', str ''content-range'', str ''accept-ranges'']"

definition mirror_headers :: "remote_response \<Rightarrow> (rstring \<times> rstring) list" where
  "mirror_headers r =
     concat (map (\<lambda>n. case rr_header r n of Some v \<Rightarrow> [(n, v)] | None \<Rightarrow> []) mirrored_headers)"

text \<open>One turn of the body loop: the connection is done (\<open>Inl\<close>) or goes on (\<open>Inr\<close>).\<close>

definition proxy_step :: "flush_tracker \<Rightarrow> instant \<times> body_event \<Rightarrow> http_writer \<Rightarrow>
    ((stop + unit) \<times> http_writer) + (flush_tracker \<times> http_writer)" where
  "proxy_step f e w =
     (case e of (now, ev) \<Rightarrow>
       case ev of
         ChunkError \<Rightarrow> Inl (Inl ConnectionAborted, w)
       | BodyEnd \<Rightarrow> Inl (flush w)
       | Chunk chunk \<Rightarrow>
           (case write_all chunk w of
              (Inl err, w1) \<Rightarrow> Inl (Inl err, w1)
            | (Inr _, w1) \<Rightarrow>
                (case should_flush f now (length chunk) of
                   (b, f') \<Rightarrow>
                     (case (if b then flush w1 else (Inr (), w1)) of
                        (Inl err, w2) \<Rightarrow> Inl (Inl err, w2)
                      | (Inr _, w2) \<Rightarrow> Inr (f', w2))))
       | Deadline \<Rightarrow>
           (case (if has_pending f then flush w else (Inr (), w)) of
              (Inl err, w1) \<Rightarrow> Inl (Inl err, w1)
            | (Inr _, w1) \<Rightarrow> Inr (flush_reset f now, w1)))"

fun proxy_body :: "flush_tracker \<Rightarrow> (instant \<times> body_event) list \<Rightarrow> http_writer \<Rightarrow>
    ((stop + unit) \<times> http_writer) + (flush_tracker \<times> http_writer)" where
  "proxy_body f [] w = Inr (f, w)"
| "proxy_body f (e # es) w =
     (case proxy_step f e w of Inl r \<Rightarrow> Inl r | Inr (f', w') \<Rightarrow> proxy_body f' es w')"

definition serve_url ::
  "(rstring \<Rightarrow> parsed_url option) \<Rightarrow> (parsed_url \<Rightarrow> rstring option \<Rightarrow> fetch) \<Rightarrow> rstring \<Rightarrow> rstring option \<Rightarrow>
   bool \<Rightarrow> http_writer \<Rightarrow> ((stop + unit) \<times> http_writer) + (flush_tracker \<times> http_writer)" where
  "serve_url url_parse client raw_url range_header head_only w =
     (case validate_url url_parse raw_url of
        Inl _ \<Rightarrow> Inl (wthen (write_response_head 400 (str ''Bad Request'') []) flush w)
      | Inr url \<Rightarrow>
          (case client url range_header of
             FetchError \<Rightarrow> Inl (bad_gateway w)
           | FetchOk delay response \<Rightarrow>
               if delay > FIRST_BYTE_TIMEOUT then Inl (bad_gateway w)
               else
                 (case write_response_head (rr_status response) (reason_phrase (rr_status response))
                        (mirror_headers response) w of
                    (Inl e, w1) \<Rightarrow> Inl (Inl e, w1)
                  | (Inr _, w1) \<Rightarrow>
                      if head_only then Inl (flush w1)
                      else (case flush w1 of
                        (Inl e, w2) \<Rightarrow> Inl (Inl e, w2)
                      | (Inr _, w2) \<Rightarrow>
                          proxy_body (flush_new FLUSH_BYTES FLUSH_INTERVAL (rr_start response))
                            (rr_body response) w2))))"

section \<open>What a writer program emits\<close>

text \<open>
  \<open>emits m bs\<close>: whatever the writer does, \<open>m\<close> adds a prefix of \<open>bs\<close>. \<open>emits_all\<close>: and all of
  \<open>bs\<close> when it succeeds. \<open>delivers\<close>: on a writer that does not fail, \<open>m\<close> succeeds and adds all
  of \<open>bs\<close>.
\<close>

definition emits :: "'a wio \<Rightarrow> bytes \<Rightarrow> bool" where
  "emits m bs \<longleftrightarrow> (\<forall>w. \<exists>k. w_written (snd (m w)) = w_written w @ take k bs)"

definition emits_all :: "'a wio \<Rightarrow> bytes \<Rightarrow> bool" where
  "emits_all m bs \<longleftrightarrow> emits m bs \<and>
     (\<forall>w. is_ok (fst (m w)) \<longrightarrow> w_written (snd (m w)) = w_written w @ bs)"

definition healthy :: "http_writer \<Rightarrow> bool" where
  "healthy w \<longleftrightarrow> list_all (\<lambda>x. x = WOk) (w_script w)"

definition delivers :: "unit wio \<Rightarrow> bytes \<Rightarrow> bool" where
  "delivers m bs \<longleftrightarrow> (\<forall>w. healthy w \<longrightarrow>
     (\<exists>w'. m w = (Inr (), w') \<and> healthy w' \<and> w_written w' = w_written w @ bs))"

lemma emits_write_all: "emits_all (write_all bs) bs"
proof -
  have "\<exists>k. w_written (snd (write_all bs w)) = w_written w @ take k bs" for w
    by (cases "w_script w"; cases "hd (w_script w)")
      (auto simp: write_all_def intro: exI [of _ "length bs"] exI [of _ 0])
  moreover have "is_ok (fst (write_all bs w)) \<Longrightarrow> w_written (snd (write_all bs w)) = w_written w @ bs" for w
    by (auto simp: write_all_def split: list.splits write_outcome.splits)
  ultimately show ?thesis by (auto simp: emits_all_def emits_def)
qed

lemma emits_flush: "emits_all flush []"
  by (auto simp: emits_all_def emits_def flush_def split: list.splits write_outcome.splits)

lemma emits_wfail: "emits (wfail e) bs"
  by (auto simp: emits_def wfail_def intro: exI [of _ 0])

lemma emits_wret: "emits_all (wret x) []"
  by (auto simp: emits_all_def emits_def wret_def)

lemma emits_Nil: "emits m [] \<Longrightarrow> emits m bs"
  by (auto simp: emits_def intro: exI [of _ 0])

lemma emits_all_emits: "emits_all m bs \<Longrightarrow> emits m bs"
  by (simp add: emits_all_def)

lemma emits_wthen:
  assumes "emits_all m bs" "emits n cs"
  shows "emits (wthen m n) (bs @ cs)"
  unfolding emits_def
proof
  fix w
  obtain r w' where m: "m w = (r, w')" by fastforce
  show "\<exists>k. w_written (snd (wthen m n w)) = w_written w @ take k (bs @ cs)"
  proof (cases r)
    case (Inl e)
    obtain k where "w_written w' = w_written w @ take k bs"
      using assms(1) m unfolding emits_all_def emits_def by (metis snd_conv)
    then show ?thesis
      using m Inl by (intro exI [of _ "min k (length bs)"]) (auto simp: wthen_def wbind_def min_def)
  next
    case (Inr x)
    then have "w_written w' = w_written w @ bs"
      using assms(1) m unfolding emits_all_def by (metis fst_conv is_ok.simps(2) snd_conv)
    moreover obtain k where "w_written (snd (n w')) = w_written w' @ take k cs"
      using assms(2) unfolding emits_def by blast
    ultimately show ?thesis
      using m Inr by (intro exI [of _ "length bs + k"]) (simp add: wthen_def wbind_def)
  qed
qed

text \<open>Only the last part of a response may end early without an error; nothing follows it.\<close>

lemma emits_wthen_Nil:
  assumes "emits m bs" "emits n []"
  shows "emits (wthen m n) bs"
  unfolding emits_def
proof
  fix w
  obtain r w' where m: "m w = (r, w')" by fastforce
  then obtain k where "w_written w' = w_written w @ take k bs"
    using assms(1) unfolding emits_def by (metis snd_conv)
  moreover have "w_written (snd (n w')) = w_written w'" using assms(2) unfolding emits_def by auto
  ultimately show "\<exists>k. w_written (snd (wthen m n w)) = w_written w @ take k bs"
    using m by (cases r) (auto simp: wthen_def wbind_def)
qed

lemma emits_lift_io: "(\<And>x. r = Inr x \<Longrightarrow> emits (f x) bs) \<Longrightarrow> emits (wbind (lift_io r) f) bs"
  by (cases r) (auto simp: emits_def wbind_def lift_io_def intro: exI [of _ 0])

lemma delivers_write_all: "delivers (write_all bs) bs"
  by (auto simp: delivers_def healthy_def write_all_def split: list.splits write_outcome.splits)

lemma delivers_flush: "delivers flush []"
  by (auto simp: delivers_def healthy_def flush_def split: list.splits write_outcome.splits)

lemma delivers_wret: "delivers (wret ()) []"
  by (auto simp: delivers_def wret_def)

lemma delivers_wthen:
  assumes "delivers m bs" "delivers n cs"
  shows "delivers (wthen m n) (bs @ cs)"
proof (unfold delivers_def, intro allI impI)
  fix w assume "healthy w"
  then obtain w1 where "m w = (Inr (), w1)" "healthy w1" "w_written w1 = w_written w @ bs"
    using assms(1) by (auto simp: delivers_def)
  moreover from this obtain w2 where "n w1 = (Inr (), w2)" "healthy w2" "w_written w2 = w_written w1 @ cs"
    using assms(2) by (auto simp: delivers_def)
  ultimately show "\<exists>w'. wthen m n w = (Inr (), w') \<and> healthy w' \<and> w_written w' = w_written w @ bs @ cs"
    by (simp add: wthen_def wbind_def)
qed

lemma delivers_lift_io: "delivers (f x) bs \<Longrightarrow> delivers (wbind (lift_io (Inr x)) f) bs"
  by (simp add: delivers_def wbind_def lift_io_def)

section \<open>The body loop of a file\<close>

lemma stream_reader_unfold:
  "stream_reader file remaining w =
     (if remaining = 0 then (Inr (), w)
      else (case rd_read file (unat (min remaining CHUNK_SIZE)) of
        (Inl e, _) \<Rightarrow> (Inl (IoStop e), w)
      | (Inr buf, file') \<Rightarrow>
          if buf = [] then (Inr (), w)
          else wthen (write_all buf) (stream_reader file' (remaining - of_nat (length buf))) w))"
  by (subst stream_reader.simps) (simp add: wthen_def split: prod.splits sum.splits)

lemma emits_stream_reader: "emits (stream_reader rdr remaining) (take (unat remaining) (rd_bytes rdr))"
proof (induction "unat remaining" arbitrary: rdr remaining rule: less_induct)
  case less
  have "\<exists>k. w_written (snd (stream_reader rdr remaining w)) =
      w_written w @ take k (take (unat remaining) (rd_bytes rdr))" for w
  proof (cases "\<exists>buf rdr'. remaining \<noteq> 0 \<and> buf \<noteq> [] \<and>
      rd_read rdr (unat (min remaining CHUNK_SIZE)) = (Inr buf, rdr')")
    case False
    then have "w_written (snd (stream_reader rdr remaining w)) = w_written w"
      by (subst stream_reader_unfold) (auto split: prod.splits sum.splits)
    then show ?thesis by (intro exI [of _ 0]) simp
  next
    case True
    then obtain buf rdr' where r: "rd_read rdr (unat (min remaining CHUNK_SIZE)) = (Inr buf, rdr')"
      and b: "buf \<noteq> []" "remaining \<noteq> 0" by blast
    have "emits (wthen (write_all buf) (stream_reader rdr' (remaining - of_nat (length buf))))
        (buf @ take (unat (remaining - of_nat (length buf))) (rd_bytes rdr'))"
      by (intro emits_wthen emits_write_all less.hyps stream_reader_decreases [OF r b(1)])
    moreover have "buf @ take (unat (remaining - of_nat (length buf))) (rd_bytes rdr') =
        take (unat remaining) (rd_bytes rdr)"
      using chunk_remaining [OF r] rd_read_bytes(1) [OF r] by simp
    moreover have "stream_reader rdr remaining w =
        wthen (write_all buf) (stream_reader rdr' (remaining - of_nat (length buf))) w"
      using r b by (subst stream_reader_unfold) simp
    ultimately show ?thesis by (simp add: emits_def)
  qed
  then show ?case by (simp add: emits_def)
qed

definition sound_reader :: "reader \<Rightarrow> bool" where
  "sound_reader rd \<longleftrightarrow> list_all (\<lambda>r. case r of Data d \<Rightarrow> d \<noteq> [] | Fail _ \<Rightarrow> False) rd"

lemma rd_read_sound:
  assumes "sound_reader rd" "0 < n" "rd_bytes rd \<noteq> []"
  obtains d rd' where "rd_read rd n = (Inr d, rd')" "d \<noteq> []" "sound_reader rd'"
  using assms(2,3) assms(1) that
  by (cases "(rd, n)" rule: rd_read.cases; cases "n < length (rd_bytes [hd rd])")
    (auto simp: sound_reader_def)

lemma delivers_stream_reader:
  "sound_reader rdr \<Longrightarrow> unat remaining \<le> length (rd_bytes rdr) \<Longrightarrow>
   delivers (stream_reader rdr remaining) (take (unat remaining) (rd_bytes rdr))"
proof (induction "unat remaining" arbitrary: rdr remaining rule: less_induct)
  case less
  show ?case
  proof (cases "remaining = 0")
    case True
    then show ?thesis by (simp add: delivers_def stream_reader_unfold)
  next
    case False
    then have pos: "0 < unat remaining" by (simp add: unat_gt_0)
    then have "0 < unat (min remaining CHUNK_SIZE)"
      by (simp add: min_def CHUNK_SIZE_def)
    moreover have "rd_bytes rdr \<noteq> []" using pos less.prems(2) by auto
    ultimately obtain buf rdr' where
      r: "rd_read rdr (unat (min remaining CHUNK_SIZE)) = (Inr buf, rdr')"
      and b: "buf \<noteq> []" and s': "sound_reader rdr'"
      using rd_read_sound [OF less.prems(1)] by blast
    have "delivers (wthen (write_all buf) (stream_reader rdr' (remaining - of_nat (length buf))))
        (buf @ take (unat (remaining - of_nat (length buf))) (rd_bytes rdr'))"
      using chunk_remaining [OF r] rd_read_bytes(1) [OF r] less.prems(2)
      by (intro delivers_wthen delivers_write_all less.hyps stream_reader_decreases [OF r b] s') auto
    moreover have "buf @ take (unat (remaining - of_nat (length buf))) (rd_bytes rdr') =
        take (unat remaining) (rd_bytes rdr)"
      using chunk_remaining [OF r] rd_read_bytes(1) [OF r] by simp
    moreover have "stream_reader rdr remaining w =
        wthen (write_all buf) (stream_reader rdr' (remaining - of_nat (length buf))) w" for w
      using r b False by (subst stream_reader_unfold) simp
    ultimately show ?thesis by (simp add: delivers_def)
  qed
qed

section \<open>The response to a request for a resource\<close>

text \<open>The reference: the response a resource with the given content gets.\<close>

definition resource_response :: "rstring \<Rightarrow> bytes \<Rightarrow> rstring option \<Rightarrow> bool \<Rightarrow> bytes" where
  "resource_response mime content range_header head_only =
     (let sz = of_nat (length content) in
      case parse_range range_header sz of
        Full \<Rightarrow> response_head 200 (str ''OK'') (ok_headers mime sz) @ (if head_only then [] else content)
      | Partial start stop \<Rightarrow>
          response_head 206 (str ''Partial Content'') (partial_headers mime start stop sz) @
          (if head_only then [] else take (unat stop - unat start + 1) (drop (unat start) content))
      | Unsatisfiable \<Rightarrow>
          response_head 416 (str ''Range Not Satisfiable'') (unsatisfiable_headers mime sz))"

text \<open>A file with the given content: the metadata give its length, and a reader, at the start or
  after a seek, yields the bytes from there on, in any portions; it may fail at any point.\<close>

definition file_holds :: "fs_file \<Rightarrow> bytes \<Rightarrow> bool" where
  "file_holds f content \<longleftrightarrow> length content < 2 ^ 64 \<and> ff_len f = Inr (of_nat (length content)) \<and>
     rd_bytes (ff_start f) = content \<and>
     (\<forall>p rd. ff_seek f p = Inr rd \<longrightarrow> rd_bytes rd = drop (unat p) content)"

definition file_sound :: "fs_file \<Rightarrow> bool" where
  "file_sound f \<longleftrightarrow> sound_reader (ff_start f) \<and> (\<forall>p. \<exists>rd. ff_seek f p = Inr rd \<and> sound_reader rd)"

lemma partial_bounds:
  assumes "parse_range h (of_nat (length content)) = Partial start stop" "length content < 2 ^ 64"
  shows "unat start \<le> unat stop" "unat stop < length content"
    "unat (stop - start + 1) = unat stop - unat start + 1"
proof -
  have "unat (of_nat (length content) :: u64) = length content"
    using assms(2) by (rule unat_of_nat_u64)
  moreover obtain spec where "parse_single_range spec (of_nat (length content)) = Partial start stop"
    using assms(1) by (auto simp: parse_range_def Let_def split: option.splits if_splits)
  ultimately show b: "unat start \<le> unat stop" "unat stop < length content"
    using parse_single_range_bounds [of spec "of_nat (length content)" start stop]
    by (auto simp: word_le_nat_alt word_less_nat_alt)
  have "unat stop < 2 ^ 64 - 1"
    using b assms(2) by linarith
  with b(1) show "unat (stop - start + 1) = unat stop - unat start + 1"
    by (auto simp: unat_word_ariths unat_sub_if_size)
qed

lemmas emits_intros = emits_wthen emits_wthen_Nil emits_write_all emits_all_emits [OF emits_flush]
  emits_flush

lemma emits_head_body:
  assumes "emits body bs"
  shows "emits (wthen (wthen (write_response_head st r hs) body) flush) (response_head st r hs @ bs)"
  unfolding write_response_head_def
  by (intro emits_wthen_Nil emits_wthen emits_write_all assms emits_all_emits [OF emits_flush])

lemma emits_head:
  "emits (wthen (write_response_head st r hs) flush) (response_head st r hs)"
  unfolding write_response_head_def
  by (intro emits_wthen_Nil emits_all_emits [OF emits_write_all] emits_all_emits [OF emits_flush])

lemma delivers_head_body:
  assumes "delivers body bs"
  shows "delivers (wthen (wthen (write_response_head st r hs) body) flush) (response_head st r hs @ bs)"
  using delivers_wthen [OF delivers_wthen [OF delivers_write_all assms] delivers_flush]
  unfolding write_response_head_def by simp

lemma delivers_head:
  "delivers (wthen (write_response_head st r hs) flush) (response_head st r hs)"
  using delivers_wthen [OF delivers_write_all delivers_flush]
  unfolding write_response_head_def by simp

text \<open>The two halves for files: prefix of the reference under any faults, the whole reference
  without faults.\<close>

lemma serve_file_emits:
  assumes "open_file path = Inr f" "file_holds f content"
  shows "emits (serve_file open_file path range_header head_only)
    (resource_response (mime_for_path path) content range_header head_only)"
proof -
  let ?sz = "of_nat (length content) :: u64"
  have sz: "unat ?sz = length content" using assms(2) by (simp add: file_holds_def unat_of_nat_u64)
  have full: "emits (stream_reader (ff_start f) ?sz) content"
    using emits_stream_reader [of "ff_start f" ?sz] assms(2) sz by (simp add: file_holds_def)
  have part: "emits (wbind (lift_io (ff_seek f start)) (\<lambda>rd. stream_reader rd (stop - start + 1)))
      (take (unat stop - unat start + 1) (drop (unat start) content))"
    if "parse_range range_header ?sz = Partial start stop" for start stop
  proof (rule emits_lift_io)
    fix rd assume "ff_seek f start = Inr rd"
    then have "rd_bytes rd = drop (unat start) content" using assms(2) by (auto simp: file_holds_def)
    then show "emits (stream_reader rd (stop - start + 1))
        (take (unat stop - unat start + 1) (drop (unat start) content))"
      using emits_stream_reader [of rd "stop - start + 1"] partial_bounds [OF that] assms(2)
      by (simp add: file_holds_def)
  qed
  have "ff_len f = Inr ?sz" using assms(2) by (simp add: file_holds_def)
  then show ?thesis
    using full part
    by (auto simp: serve_file_def assms(1) resource_response_def Let_def emits_wret emits_head
        intro!: emits_lift_io emits_head_body emits_all_emits [OF emits_wret]
        emits_head_body [where bs = "[]", simplified] split: range_decision.splits)
qed

lemma serve_file_delivers:
  assumes "open_file path = Inr f" "file_holds f content" "file_sound f"
  shows "delivers (serve_file open_file path range_header head_only)
    (resource_response (mime_for_path path) content range_header head_only)"
proof -
  let ?sz = "of_nat (length content) :: u64"
  have sz: "unat ?sz = length content" using assms(2) by (simp add: file_holds_def unat_of_nat_u64)
  have full: "delivers (stream_reader (ff_start f) ?sz) content"
    using delivers_stream_reader [of "ff_start f" ?sz] assms(2,3) sz
    by (simp add: file_holds_def file_sound_def)
  have part: "delivers (wbind (lift_io (ff_seek f start)) (\<lambda>rd. stream_reader rd (stop - start + 1)))
      (take (unat stop - unat start + 1) (drop (unat start) content))"
    if p: "parse_range range_header ?sz = Partial start stop" for start stop
  proof -
    obtain rd where rd: "ff_seek f start = Inr rd" "sound_reader rd"
      using assms(3) by (auto simp: file_sound_def)
    then have b: "rd_bytes rd = drop (unat start) content" using assms(2) by (auto simp: file_holds_def)
    have l: "unat start \<le> unat stop" "unat stop < length content"
      "unat (stop - start + 1) = unat stop - unat start + 1"
      using partial_bounds [OF p] assms(2) by (auto simp: file_holds_def)
    have "delivers (stream_reader rd (stop - start + 1)) (take (unat (stop - start + 1)) (rd_bytes rd))"
      using rd(2) b l by (intro delivers_stream_reader) auto
    then show ?thesis
      unfolding rd(1) b l(3) by (rule delivers_lift_io)
  qed
  have "ff_len f = Inr ?sz" using assms(2) by (simp add: file_holds_def)
  then show ?thesis
    using full part
    by (auto simp: serve_file_def assms(1) resource_response_def Let_def delivers_head
        intro!: delivers_lift_io delivers_head_body
        delivers_head_body [OF delivers_wret, simplified] split: range_decision.splits)
qed

section \<open>The body loop of a share\<close>

text \<open>A share's file with the given content, by the contract of \<open>SmbFile::read_at\<close>: up to
  \<open>len\<close> bytes from \<open>offset\<close>, fewer only at the end of the file.\<close>

definition smb_holds :: "smb_file \<Rightarrow> bytes \<Rightarrow> bool" where
  "smb_holds f content \<longleftrightarrow> length content < 2 ^ 64 \<and> sf_size f = of_nat (length content) \<and>
     (\<forall>p n. sf_read_at f p n = Inr (take (unat n) (drop (unat p) content)))"

lemma smb_stream_reader_emits:
  assumes "smb_holds f content" "unat offset + unat remaining \<le> length content"
  shows "\<exists>r w' k. smb_stream_reader f offset remaining w = Some (r, w') \<and>
    w_written w' = w_written w @ take k (take (unat remaining) (drop (unat offset) content)) \<and>
    (healthy w \<longrightarrow> r = Inr () \<and> healthy w' \<and> k \<ge> unat remaining)"
  using assms(2)
proof (induction "unat remaining" arbitrary: offset remaining w rule: less_induct)
  case less
  show ?case
  proof (cases "remaining = 0")
    case True
    then show ?thesis
      by (subst smb_stream_reader.simps) (auto intro: exI [of _ 0])
  next
    case False
    define n where "n = unat (min remaining READ_CHUNK)"
    define chunk where "chunk = take n (drop (unat offset) content)"
    have pos: "0 < unat remaining" using False by (simp add: unat_gt_0)
    then have n: "0 < n" "n \<le> unat remaining"
      by (auto simp: n_def min_def READ_CHUNK_def word_le_nat_alt)
    have read: "sf_read_at f offset (min remaining READ_CHUNK) = Inr chunk"
      using assms(1) by (simp add: smb_holds_def chunk_def n_def)
    have len: "length chunk = n" using n less.prems by (simp add: chunk_def)
    have lt: "length content < 2 ^ 64" using assms(1) by (simp add: smb_holds_def)
    have u: "unat (of_nat n :: u64) = n"
      using n less.prems lt by (intro unat_of_nat_u64) linarith
    have rem: "unat (remaining - of_nat n) = unat remaining - n"
      using n u by (simp add: unat_sub_if_size)
    have off: "unat (offset + of_nat n) = unat offset + n"
      using u n less.prems lt by (simp add: unat_word_ariths)
    have split: "take (unat remaining) (drop (unat offset) content) =
        chunk @ take (unat remaining - n) (drop (unat offset + n) content)"
      using n by (simp add: chunk_def take_drop [symmetric] add.commute flip: drop_drop take_add)
    have ne: "chunk \<noteq> []" using len n by auto
    obtain r w1 where wr: "write_all chunk w = (r, w1)" by fastforce
    show ?thesis
    proof (cases r)
      case (Inl e)
      obtain k where "w_written w1 = w_written w @ take k chunk"
        using emits_write_all [of chunk] wr unfolding emits_all_def emits_def by (metis snd_conv)
      moreover have "\<not> healthy w"
        using delivers_write_all [of chunk] wr Inl by (auto simp: delivers_def)
      ultimately show ?thesis
        using False read ne wr Inl unfolding split
        by (subst smb_stream_reader.simps) (auto intro!: exI [of _ "min k (length chunk)"] simp: min_def)
    next
      case (Inr x)
      have w1: "w_written w1 = w_written w @ chunk"
        using emits_write_all [of chunk] wr Inr unfolding emits_all_def
        by (metis fst_conv is_ok.simps(2) snd_conv)
      have h1: "healthy w \<Longrightarrow> healthy w1"
        using delivers_write_all [of chunk] wr by (auto simp: delivers_def)
      obtain r2 w2 k where ih: "smb_stream_reader f (offset + of_nat n) (remaining - of_nat n) w1 = Some (r2, w2)"
        "w_written w2 = w_written w1 @ take k (take (unat remaining - n) (drop (unat offset + n) content))"
        "healthy w1 \<longrightarrow> r2 = Inr () \<and> healthy w2 \<and> k \<ge> unat remaining - n"
        using less.hyps [of "remaining - of_nat n" "offset + of_nat n" w1] rem off n less.prems by auto
      have "smb_stream_reader f offset remaining w = Some (r2, w2)"
        using False read ne wr Inr ih(1) len by (subst smb_stream_reader.simps) simp
      then show ?thesis
        using ih(2,3) w1 h1 len n unfolding split
        by (intro exI [of _ r2] exI [of _ w2] exI [of _ "n + k"]) auto
    qed
  qed
qed

lemma smb_body_delivers:
  assumes "smb_holds f content" "unat offset + unat remaining \<le> length content" "healthy w"
  shows "\<exists>w'. smb_body f offset remaining head_only w = Some (Inr (), w') \<and> healthy w' \<and>
    w_written w' = w_written w @ (if head_only then [] else take (unat remaining) (drop (unat offset) content))"
  using smb_stream_reader_emits [OF assms(1,2), of w] assms(3) by (auto simp: smb_body_def)

lemma serve_smb_delivers:
  assumes "parse raw = Inr url" "connector url = Inr f" "smb_holds f content" "healthy w"
  shows "\<exists>w'. serve_smb parse connector raw range_header head_only w = Some (Inr (), w') \<and>
    w_written w' = w_written w @ resource_response
      (mime_for_extension (file_extension (su_file_path url))) content range_header head_only"
proof -
  let ?sz = "of_nat (length content) :: u64"
  have lt: "length content < 2 ^ 64" and size: "sf_size f = ?sz"
    using assms(3) by (simp_all add: smb_holds_def)
  have sz: "unat ?sz = length content" using lt by (rule unat_of_nat_u64)
  have head: "\<exists>w1. write_response_head st rs hs w = (Inr (), w1) \<and> healthy w1 \<and>
      w_written w1 = w_written w @ response_head st rs hs" for st rs hs
    using delivers_write_all assms(4) by (auto simp: delivers_def write_response_head_def)
  have fl: "\<exists>w2. flush w1 = (Inr (), w2) \<and> w_written w2 = w_written w1" if "healthy w1" for w1
    using delivers_flush that by (auto simp: delivers_def)
  show ?thesis
  proof (cases "parse_range range_header ?sz")
    case Full
    obtain w1 where w1: "write_response_head 200 (str ''OK'')
        (ok_headers (mime_for_extension (file_extension (su_file_path url))) ?sz) w = (Inr (), w1)"
      "healthy w1" "w_written w1 = w_written w @ response_head 200 (str ''OK'')
        (ok_headers (mime_for_extension (file_extension (su_file_path url))) ?sz)"
      using head by blast
    obtain w2 where w2: "smb_body f 0 ?sz head_only w1 = Some (Inr (), w2)" "healthy w2"
      "w_written w2 = w_written w1 @ (if head_only then [] else content)"
      using smb_body_delivers [OF assms(3) _ w1(2), of 0 ?sz head_only] sz by auto
    from fl [OF w2(2)] w1 w2 Full assms(1,2) size show ?thesis
      by (auto simp: serve_smb_def resource_response_def)
  next
    case (Partial start stop)
    note b = partial_bounds [OF Partial lt]
    obtain w1 where w1: "write_response_head 206 (str ''Partial Content'')
        (partial_headers (mime_for_extension (file_extension (su_file_path url))) start stop ?sz) w = (Inr (), w1)"
      "healthy w1" "w_written w1 = w_written w @ response_head 206 (str ''Partial Content'')
        (partial_headers (mime_for_extension (file_extension (su_file_path url))) start stop ?sz)"
      using head by blast
    obtain w2 where w2: "smb_body f start (stop - start + 1) head_only w1 = Some (Inr (), w2)" "healthy w2"
      "w_written w2 = w_written w1 @
        (if head_only then [] else take (unat stop - unat start + 1) (drop (unat start) content))"
      using smb_body_delivers [OF assms(3) _ w1(2), of start "stop - start + 1" head_only] b by auto
    from fl [OF w2(2)] w1 w2 Partial assms(1,2) size show ?thesis
      by (auto simp: serve_smb_def resource_response_def)
  next
    case Unsatisfiable
    obtain w1 where w1: "write_response_head 416 (str ''Range Not Satisfiable'')
        (unsatisfiable_headers (mime_for_extension (file_extension (su_file_path url))) ?sz) w = (Inr (), w1)"
      "healthy w1" "w_written w1 = w_written w @ response_head 416 (str ''Range Not Satisfiable'')
        (unsatisfiable_headers (mime_for_extension (file_extension (su_file_path url))) ?sz)"
      using head by blast
    from fl [OF w1(2)] w1 Unsatisfiable assms(1,2) size show ?thesis
      by (auto simp: serve_smb_def resource_response_def)
  qed
qed

section \<open>Properties of file and share serving\<close>

text \<open>C23: a request for a local file is answered with exactly the reference response (\<open>200\<close> and
  the whole file, \<open>206\<close> and the named slice, or \<open>416\<close>; no body for \<open>HEAD\<close>) when nothing fails;
  and whatever fails or is cancelled, on the file or on the connection, the bytes sent are a
  prefix of it: never a wrong byte, never more than announced.\<close>

theorem file_response_correct:
  assumes "open_file path = Inr f" "file_holds f content"
  shows "(\<exists>k. w_written (snd (serve_file open_file path range_header head_only (writer_new sc))) =
      take k (resource_response (mime_for_path path) content range_header head_only)) \<and>
    (file_sound f \<and> list_all (\<lambda>x. x = WOk) sc \<longrightarrow>
      (\<exists>w. serve_file open_file path range_header head_only (writer_new sc) = (Inr (), w) \<and>
        w_written w = resource_response (mime_for_path path) content range_header head_only))"
proof -
  have "w_written (writer_new sc) = []" "healthy (writer_new sc) \<longleftrightarrow> list_all (\<lambda>x. x = WOk) sc"
    by (simp_all add: writer_new_def healthy_def)
  then show ?thesis
    using serve_file_emits [where open_file = open_file and path = path, OF assms, of range_header head_only]
      serve_file_delivers [where open_file = open_file and path = path, OF assms, of range_header head_only]
    unfolding emits_def delivers_def by (metis append_Nil)
qed

theorem file_response_correct_witness:
  "\<exists>w. serve_file (\<lambda>_. Inr \<lparr>ff_len = Inr 3, ff_start = [Data [1], Data [2, 3]],
        ff_seek = (\<lambda>p. Inr (if unat p < 3 then cursor (drop (unat p) [1, 2, 3]) else []))\<rparr>)
      (str ''/a.mp4'') None False (writer_new []) = (Inr (), w) \<and>
    w_written w = resource_response (mime_for_path (str ''/a.mp4'')) [1, 2, 3] None False"
proof -
  let ?f = "\<lparr>ff_len = Inr 3, ff_start = [Data [1], Data [2, 3]],
        ff_seek = (\<lambda>p. Inr (if unat p < 3 then cursor (drop (unat p) [1, 2, 3]) else []))\<rparr>"
  have "file_holds ?f [1, 2, 3]" by (auto simp: file_holds_def cursor_def)
  moreover have "file_sound ?f" by (auto simp: file_sound_def sound_reader_def cursor_def)
  ultimately show ?thesis
    using file_response_correct [of "\<lambda>_. Inr ?f" "str ''/a.mp4''" ?f "[1, 2, 3]" None False "[]"]
    by simp
qed

text \<open>The MIME type of a name with an extension is that of the extension, in any directory, and the
  share's lookup finds the same.\<close>

lemma mime_for_extension_ascii:
  assumes "\<not> utf8_valid ext"
  shows "mime_for_extension ext = DEFAULT_MIME"
proof -
  have "\<exists>c \<in> set ext. \<not> c \<le> 0x7F" using assms ascii_utf8 [of ext] by (auto simp: list_all_iff)
  then obtain c where c: "c \<in> set ext" "\<not> c \<le> 0x7F" by blast
  then have "c \<in> set (to_ascii_lowercase ext)"
    by (force simp: to_ascii_lowercase_def to_ascii_lowercase_byte_def word_le_nat_alt image_iff)
  then have "to_ascii_lowercase e \<noteq> to_ascii_lowercase ext" if "\<forall>b \<in> set (to_ascii_lowercase e). b \<le> 0x7F" for e
    using that c(2) by metis
  moreover have "\<forall>(e, m) \<in> set MIME_TABLE. \<forall>b \<in> set (to_ascii_lowercase e). b \<le> 0x7F"
    by (simp add: MIME_TABLE_def str_def to_ascii_lowercase_def to_ascii_lowercase_byte_def word_le_nat_alt)
  ultimately have "find (\<lambda>(e, _). eq_ignore_ascii_case e ext) MIME_TABLE = None"
    by (auto simp: find_None_iff eq_ignore_ascii_case_def)
  then show ?thesis by (simp add: mime_for_extension_def)
qed

lemma last_split: "dir = [] \<or> last dir = d \<Longrightarrow> d \<notin> set name \<Longrightarrow> \<exists>parts. split_on d (dir @ name) = parts @ [name]"
proof (cases "dir = []")
  case False
  assume "dir = [] \<or> last dir = d" "d \<notin> set name"
  with False have "dir @ name = butlast dir @ d # name" by (metis append_butlast_last_id append_Cons append_assoc append_Nil)
  then show ?thesis using split_on_append [of d "butlast dir" name] split_on_free [of d name] \<open>d \<notin> set name\<close> by metis
qed (simp add: split_on_free)

lemma mime_for_named_path:
  assumes "stem \<noteq> []" "47 \<notin> set stem" "46 \<notin> set ext" "47 \<notin> set ext" "dir = [] \<or> last dir = 47"
  shows "mime_for_path (dir @ stem @ 46 # ext) = mime_for_extension ext"
proof -
  let ?name = "stem @ 46 # ext"
  have dots: "str ''.'' = [46]" "str ''..'' = [46, 46]" by (simp_all add: str_def)
  have "47 \<notin> set ?name" using assms by simp
  then obtain parts where "split_on 47 (dir @ ?name) = parts @ [?name]" using last_split [OF assms(5)] by blast
  then have name: "path_file_name (dir @ ?name) = (if ?name = str ''..'' then None else Some ?name)"
    using assms(1) by (simp add: path_file_name_def dots append_eq_Cons_conv)
  have split: "split_on 46 ?name = split_on 46 stem @ [ext]"
    using split_on_append [of 46 stem ext] split_on_free [OF assms(3)] by simp
  have "\<not> (length (split_on 46 stem) = 1 \<and> hd (split_on 46 stem) = [])"
    using split_on_single_Nil [of 46 stem] assms(1) by (cases "split_on 46 stem") auto
  then have "path_extension (dir @ ?name) = (if ?name = str ''..'' then None else Some ext)"
    using split_on_not_Nil [of 46 stem] by (simp add: path_extension_def name split Let_def hd_append)
      (metis One_nat_def Suc_lessI length_greater_0_conv)
  moreover have "?name = str ''..'' \<Longrightarrow> ext = []"
    using assms(1) by (cases stem) (auto simp: dots append_eq_Cons_conv)
  moreover have "mime_for_extension [] = DEFAULT_MIME"
    by (simp add: mime_for_extension_def MIME_TABLE_def str_def eq_ignore_ascii_case_def to_ascii_lowercase_def)
  ultimately show ?thesis
    using mime_for_extension_ascii [of ext] by (auto simp: mime_for_path_def)
qed

lemma file_extension_named: "46 \<notin> set ext \<Longrightarrow> file_extension (name @ 46 # ext) = ext"
  using split_on_append [of 46 name ext] split_on_free [of 46 ext] by (simp add: file_extension_def)

text \<open>A name without a dot is its own extension on a share and has none in a local directory.\<close>

lemma dotless_share_differs:
  "mime_for_extension (file_extension (str ''mp4'')) = str ''video/mp4'' \<and> mime_for_path (str ''mp4'') = DEFAULT_MIME"
  by (simp add: mime_for_extension_def file_extension_def MIME_TABLE_def eq_ignore_ascii_case_def mime_for_path_def
      path_extension_def path_file_name_def str_def)

text \<open>C24: A network share is served byte for byte like a local file with the same name and content. For
  every name with an extension, in whatever directories the two files lie, the answers have the same
  status, the same headers, the MIME type included, and the same body, for every \<open>Range\<close> header and
  for \<open>HEAD\<close>; and the loop over \<open>read_at\<close> ends. Both reads must go through, and the connection take
  all writes. A name without a dot is excluded: there the two MIME types can differ.\<close>

theorem share_served_like_file:
  assumes "parse raw = Inr url" "connector url = Inr sf" "smb_holds sf content"
    and "open_file path = Inr f" "file_holds f content" "file_sound f"
    and "su_file_path url = share_dir @ stem @ 46 # ext" "path = local_dir @ stem @ 46 # ext"
    and "stem \<noteq> []" "47 \<notin> set stem" "46 \<notin> set ext" "47 \<notin> set ext" "local_dir = [] \<or> last local_dir = 47"
    and "list_all (\<lambda>x. x = WOk) sc"
  shows "\<exists>w w'. serve_smb parse connector raw range_header head_only (writer_new sc) = Some (Inr (), w) \<and>
    serve_file open_file path range_header head_only (writer_new sc) = (Inr (), w') \<and>
    w_written w = w_written w'"
proof -
  have h: "healthy (writer_new sc)" using assms(14) by (simp add: healthy_def writer_new_def)
  have mime: "mime_for_extension (file_extension (su_file_path url)) = mime_for_path path"
    using mime_for_named_path [OF assms(9-13)] file_extension_named [OF assms(11), of "share_dir @ stem"] assms(7,8) by simp
  obtain w where w: "serve_smb parse connector raw range_header head_only (writer_new sc) = Some (Inr (), w)"
    "w_written w = w_written (writer_new sc) @ resource_response
      (mime_for_extension (file_extension (su_file_path url))) content range_header head_only"
    using serve_smb_delivers [where parse = parse and raw = raw and connector = connector, OF assms(1-3) h,
        of range_header head_only] by blast
  moreover obtain w' where "serve_file open_file path range_header head_only (writer_new sc) = (Inr (), w')"
    "w_written w' = w_written (writer_new sc) @ resource_response (mime_for_path path) content range_header head_only"
    using serve_file_delivers [where open_file = open_file and path = path, OF assms(4-6), of range_header head_only] h by (auto simp: delivers_def)
  ultimately show ?thesis using mime by auto
qed

theorem share_served_like_file_witness:
  "\<exists>w w'. serve_smb (\<lambda>_. Inr \<lparr>su_host = [], su_port = 445, su_share = [], su_file_path = str ''films/a.mp4''\<rparr>)
      (\<lambda>_. Inr \<lparr>sf_size = 2, sf_read_at = (\<lambda>p n. Inr (take (unat n) (drop (unat p) [1, 2]))), sf_close = Inr ()\<rparr>)
      [] None False (writer_new []) = Some (Inr (), w) \<and>
    serve_file (\<lambda>_. Inr \<lparr>ff_len = Inr 2, ff_start = [Data [1, 2]],
        ff_seek = (\<lambda>p. Inr (if unat p < 2 then cursor (drop (unat p) [1, 2]) else []))\<rparr>)
      (str ''/home/a.mp4'') None False (writer_new []) = (Inr (), w') \<and> w_written w = w_written w'"
proof (rule share_served_like_file [where content = "[1, 2]" and stem = "str ''a''" and ext = "str ''mp4''"
      and share_dir = "str ''films/''" and local_dir = "str ''/home/''"])
qed (auto simp: smb_holds_def file_holds_def file_sound_def sound_reader_def cursor_def str_def)

section \<open>The proxied body\<close>

fun event_bytes :: "instant \<times> body_event \<Rightarrow> bytes" where
  "event_bytes (t, Chunk c) = c"
| "event_bytes (t, _) = []"

definition streaming_event :: "instant \<times> body_event \<Rightarrow> bool" where
  "streaming_event e \<longleftrightarrow> (case snd e of Chunk _ \<Rightarrow> True | Deadline \<Rightarrow> True | _ \<Rightarrow> False)"

text \<open>The tracker counts exactly the bytes the last flush does not cover, and they stay below
  the threshold.\<close>

definition proxy_inv :: "nat \<Rightarrow> flush_tracker \<Rightarrow> http_writer \<Rightarrow> bool" where
  "proxy_inv bt f w \<longleftrightarrow> healthy w \<and> byte_threshold f = bt \<and> flush_inv f \<and>
     w_flushed w + bytes_since_flush f = length (w_written w)"

lemma healthy_write_all:
  "healthy w \<Longrightarrow> \<exists>sc. write_all bs w = (Inr (), w\<lparr>w_written := w_written w @ bs, w_script := sc\<rparr>) \<and>
     list_all (\<lambda>x. x = WOk) sc"
proof -
  assume h: "healthy w"
  show ?thesis
  proof (cases "w_script w")
    case Nil
    then have "write_all bs w = (Inr (), w\<lparr>w_written := w_written w @ bs, w_script := []\<rparr>)"
      by (cases w) (simp add: write_all_def)
    then show ?thesis by (intro exI [of _ "[]"]) simp
  next
    case (Cons a sc)
    with h have "write_all bs w = (Inr (), w\<lparr>w_written := w_written w @ bs, w_script := sc\<rparr>)"
      by (simp add: write_all_def healthy_def)
    with h Cons show ?thesis by (intro exI [of _ sc]) (simp add: healthy_def)
  qed
qed

lemma healthy_flush:
  "healthy w \<Longrightarrow> \<exists>sc. flush w = (Inr (), w\<lparr>w_flushed := length (w_written w), w_script := sc\<rparr>) \<and>
     list_all (\<lambda>x. x = WOk) sc"
proof -
  assume h: "healthy w"
  show ?thesis
  proof (cases "w_script w")
    case Nil
    then have "flush w = (Inr (), w\<lparr>w_flushed := length (w_written w), w_script := []\<rparr>)"
      by (cases w) (simp add: flush_def)
    then show ?thesis by (intro exI [of _ "[]"]) simp
  next
    case (Cons a sc)
    with h have "flush w = (Inr (), w\<lparr>w_flushed := length (w_written w), w_script := sc\<rparr>)"
      by (simp add: flush_def healthy_def)
    with h Cons show ?thesis by (intro exI [of _ sc]) (simp add: healthy_def)
  qed
qed

lemma proxy_step_inv:
  assumes "proxy_inv bt f w" "streaming_event e" "0 < bt"
  shows "\<exists>f' w'. proxy_step f e w = Inr (f', w') \<and> proxy_inv bt f' w' \<and>
    w_written w' = w_written w @ event_bytes e"
proof (cases e)
  case (Pair now ev)
  have h: "healthy w" using assms(1) by (simp add: proxy_inv_def)
  show ?thesis
  proof (cases ev)
    case (Chunk c)
    obtain sc where w: "write_all c w = (Inr (), w\<lparr>w_written := w_written w @ c, w_script := sc\<rparr>)"
      "list_all (\<lambda>x. x = WOk) sc"
      using healthy_write_all [OF h] by blast
    let ?w1 = "w\<lparr>w_written := w_written w @ c, w_script := sc\<rparr>"
    have "healthy ?w1" using w(2) by (simp add: healthy_def)
    from healthy_flush [OF this] obtain sc' where
      "flush ?w1 = (Inr (), ?w1\<lparr>w_flushed := length (w_written w @ c), w_script := sc'\<rparr>)"
      "list_all (\<lambda>x. x = WOk) sc'" by auto
    with w assms(1,3) Pair Chunk show ?thesis
      by (auto simp: proxy_step_def should_flush_def flush_reset_def Let_def proxy_inv_def flush_inv_def
          healthy_def)
  next
    case Deadline
    obtain sc where "flush w = (Inr (), w\<lparr>w_flushed := length (w_written w), w_script := sc\<rparr>)"
      "list_all (\<lambda>x. x = WOk) sc"
      using healthy_flush [OF h] by blast
    with assms(1) Pair Deadline show ?thesis
      by (auto simp: proxy_step_def flush_reset_def has_pending_def proxy_inv_def flush_inv_def healthy_def)
  qed (use assms(2) Pair in \<open>auto simp: streaming_event_def\<close>)
qed

lemma proxy_body_inv:
  "proxy_inv bt f w \<Longrightarrow> list_all streaming_event es \<Longrightarrow> 0 < bt \<Longrightarrow>
   \<exists>f' w'. proxy_body f es w = Inr (f', w') \<and> proxy_inv bt f' w' \<and>
     w_written w' = w_written w @ concat (map event_bytes es)"
proof (induction es arbitrary: f w)
  case (Cons e es)
  then obtain f1 w1 where "proxy_step f e w = Inr (f1, w1)" "proxy_inv bt f1 w1"
    "w_written w1 = w_written w @ event_bytes e"
    using proxy_step_inv [of bt f w e] by auto
  with Cons.IH [of f1 w1] Cons.prems show ?case by auto
qed simp

lemma proxy_body_append:
  "proxy_body f (xs @ ys) w =
     (case proxy_body f xs w of Inl r \<Rightarrow> Inl r | Inr (f', w') \<Rightarrow> proxy_body f' ys w')"
  by (induction xs arbitrary: f w) (auto split: sum.splits)

text \<open>The start of a proxied response: the head is on the wire before the body.\<close>

lemma serve_url_head:
  assumes "validate_url url_parse raw = Inr url" "client url range_header = FetchOk delay resp"
    and "delay \<le> FIRST_BYTE_TIMEOUT" "list_all (\<lambda>x. x = WOk) sc"
  shows "\<exists>w. proxy_inv FLUSH_BYTES (flush_new FLUSH_BYTES FLUSH_INTERVAL (rr_start resp)) w \<and>
    w_written w = response_head (rr_status resp) (reason_phrase (rr_status resp)) (mirror_headers resp) \<and>
    serve_url url_parse client raw range_header False (writer_new sc) =
      proxy_body (flush_new FLUSH_BYTES FLUSH_INTERVAL (rr_start resp)) (rr_body resp) w"
proof -
  let ?h = "response_head (rr_status resp) (reason_phrase (rr_status resp)) (mirror_headers resp)"
  have "healthy (writer_new sc)" using assms(4) by (simp add: healthy_def writer_new_def)
  from healthy_write_all [OF this, of ?h] obtain w1 where w1: "write_all ?h (writer_new sc) = (Inr (), w1)"
    "healthy w1" "w_written w1 = ?h"
    by (auto simp: healthy_def writer_new_def)
  from healthy_flush [OF w1(2)] obtain w2 where w2: "flush w1 = (Inr (), w2)" "healthy w2"
    "w_written w2 = ?h" "w_flushed w2 = length ?h"
    using w1(3) by (auto simp: healthy_def)
  then show ?thesis
    using assms w1 w2
    by (intro exI [of _ w2])
      (auto simp: serve_url_def write_response_head_def proxy_inv_def flush_inv_def flush_new_def)
qed

text \<open>C36: the URL proxy is transparent. While the origin's body streams, in whatever chunks and
  with the flush deadline firing at any point, the client has been sent the origin's status, the
  four mirrored headers and exactly the chunks so far, and fewer than 32 KiB of them wait for a
  flush; when the body ends, everything has been flushed.\<close>

theorem url_proxy_mirrors:
  assumes "validate_url url_parse raw = Inr url" "client url range_header = FetchOk delay resp"
    and "delay \<le> FIRST_BYTE_TIMEOUT" "list_all (\<lambda>x. x = WOk) sc" "list_all streaming_event es"
    and "rr_body resp = es \<or> rr_body resp = es @ [(t, BodyEnd)]"
  shows "\<exists>f w. serve_url url_parse client raw range_header False (writer_new sc) =
      (if rr_body resp = es then Inr (f, w) else Inl (Inr (), w)) \<and>
    w_written w = response_head (rr_status resp) (reason_phrase (rr_status resp)) (mirror_headers resp) @
      concat (map event_bytes es) \<and>
    length (w_written w) - w_flushed w < (if rr_body resp = es then FLUSH_BYTES else 1)"
proof -
  let ?f = "flush_new FLUSH_BYTES FLUSH_INTERVAL (rr_start resp)"
  let ?h = "response_head (rr_status resp) (reason_phrase (rr_status resp)) (mirror_headers resp)"
  have bt: "0 < FLUSH_BYTES" by (simp add: FLUSH_BYTES_def)
  obtain w where w: "proxy_inv FLUSH_BYTES ?f w" "w_written w = ?h"
    "serve_url url_parse client raw range_header False (writer_new sc) = proxy_body ?f (rr_body resp) w"
    using serve_url_head [where client = client and url = url, OF assms(1-4)] by blast
  obtain f1 w1 where b: "proxy_body ?f es w = Inr (f1, w1)" "proxy_inv FLUSH_BYTES f1 w1"
    "w_written w1 = ?h @ concat (map event_bytes es)"
    using proxy_body_inv [OF w(1) assms(5) bt] w(2) by auto
  have "healthy w1" using b(2) by (simp add: proxy_inv_def)
  from healthy_flush [OF this] obtain w2 where w2: "flush w1 = (Inr (), w2)"
    "w_written w2 = w_written w1" "w_flushed w2 = length (w_written w1)"
    by auto
  show ?thesis
  proof (cases "rr_body resp = es")
    case True
    then show ?thesis
      using w b bt by (intro exI [of _ f1] exI [of _ w1]) (auto simp: proxy_inv_def flush_inv_def)
  next
    case False
    then have "proxy_body ?f (rr_body resp) w = Inl (Inr (), w2)"
      using assms(6) b w2 by (simp add: proxy_body_append proxy_step_def)
    then show ?thesis
      using False w b w2 by (intro exI [of _ f1] exI [of _ w2]) auto
  qed
qed

theorem url_proxy_mirrors_witness:
  "let url = \<lparr>pu_scheme = str ''http'', pu_username = [], pu_password = None, pu_host = Some (str ''h''),
         pu_port = None, pu_path = [], pu_query = None, pu_fragment = None\<rparr>;
       resp = \<lparr>rr_status = 200, rr_header = (\<lambda>_. None), rr_start = 0,
         rr_body = [(1, Chunk [7]), (2, Deadline), (3, Chunk [8])] @ [(4, BodyEnd)]\<rparr>
   in \<exists>f w. serve_url (\<lambda>_. Some url) (\<lambda>_ _. FetchOk 5 resp) [] None False (writer_new []) = Inl (Inr (), w) \<and>
     w_written w = response_head 200 (reason_phrase 200) (mirror_headers resp) @ [7, 8]"
proof -
  let ?url = "\<lparr>pu_scheme = str ''http'', pu_username = [], pu_password = None, pu_host = Some (str ''h''),
         pu_port = None, pu_path = [], pu_query = None, pu_fragment = None\<rparr>"
  let ?es = "[(1, Chunk [7]), (2, Deadline), (3, Chunk [8])]"
  let ?resp = "\<lparr>rr_status = 200, rr_header = (\<lambda>_. None), rr_start = 0, rr_body = ?es @ [(4, BodyEnd)]\<rparr>"
  show ?thesis
    using url_proxy_mirrors [of "\<lambda>_. Some ?url" "[]" ?url "\<lambda>_ _. FetchOk 5 ?resp" None 5 ?resp "[]" ?es 4]
    by (auto simp: validate_url_def FIRST_BYTE_TIMEOUT_def from_secs_def streaming_event_def Let_def)
qed

end
