(* ===== verification/Media_Server.thy ===== *)
theory Media_Server
  imports Media_Serve
begin

text \<open>
  The media server (\<open>src/src/media/server.rs\<close>): reading a request head, dispatching a connection
  to the active source, the live screen loop, and the server task with its listener, its active
  source and the slot that holds the screen stream while no connection serves it.

  A connection's input is a \<open>reader\<close> script as in the prelude. The server task is a step function
  over its inputs: commands with the outcome of the bind they cause, accepted connections, and the
  points where a connection takes the screen stream out of the shared slot and where it ends.
\<close>

section \<open>Request heads\<close>

definition MAX_REQUEST_LINE :: nat where
  "MAX_REQUEST_LINE = 8 * 1024"

definition MAX_HEADER_LINE :: nat where
  "MAX_HEADER_LINE = 8 * 1024"

definition MAX_HEADERS :: nat where
  "MAX_HEADERS = 64"

datatype head_error = UnexpectedEof | InvalidData | HeadIo io_error

text \<open>\<open>AsyncBufReadExt::read_until\<close>: everything up to and including the delimiter, or up to the
  end of the stream.\<close>

fun read_until :: "u8 \<Rightarrow> reader \<Rightarrow> (io_error + bytes) \<times> reader" where
  "read_until d [] = (Inr [], [])"
| "read_until d (Fail e # rs) = (Inl e, rs)"
| "read_until d (Data b # rs) =
     (if b = [] then (Inr [], rs)
      else case split_once d b of
        Some (line, rest) \<Rightarrow> (Inr (line @ [d]), if rest = [] then rs else Data rest # rs)
      | None \<Rightarrow>
          (case read_until d rs of
             (Inl e, rs') \<Rightarrow> (Inl e, rs')
           | (Inr xs, rs') \<Rightarrow> (Inr (b @ xs), rs')))"

lemma split_once_Some: "split_once d s = Some (a, b) \<Longrightarrow> s = a @ d # b \<and> d \<notin> set a"
  by (induction s arbitrary: a b) (auto split: if_splits)

lemma read_until_size:
  "read_until d rd = (r, rd') \<Longrightarrow> rd_size rd' \<le> rd_size rd \<and> (\<forall>x. r = Inr x \<longrightarrow> x \<noteq> [] \<longrightarrow> rd_size rd' < rd_size rd)"
proof (induction d rd arbitrary: r rd' rule: read_until.induct)
  case (3 d b rs)
  then show ?case
    by (force simp: rd_size_def dest!: split_once_Some split: if_splits option.splits prod.splits sum.splits)
qed (auto simp: rd_size_def)

function read_line_loop :: "nat \<Rightarrow> bytes \<Rightarrow> reader \<Rightarrow> (head_error + bytes) \<times> reader" where
  "read_line_loop mx buf rd =
     (case read_until 10 rd of
        (Inl e, rd') \<Rightarrow> (Inl (HeadIo e), rd')
      | (Inr x, rd') \<Rightarrow>
          if length (buf @ x) > mx then (Inl InvalidData, rd')
          else if x = [] \<or> last (buf @ x) = 10 then (Inr (buf @ x), rd')
          else read_line_loop mx (buf @ x) rd')"
  by pat_completeness auto
termination
  by (relation "measure (\<lambda>(mx, buf, rd). rd_size rd)") (auto dest!: read_until_size [OF sym])

declare read_line_loop.simps [simp del]

definition read_limited_line :: "nat \<Rightarrow> reader \<Rightarrow> (head_error + rstring option) \<times> reader" where
  "read_limited_line mx rd =
     (case read_line_loop mx [] rd of
        (Inl e, rd') \<Rightarrow> (Inl e, rd')
      | (Inr buf, rd') \<Rightarrow> (Inr (if buf = [] then None else Some (from_utf8_lossy buf)), rd'))"

lemma read_line_loop_size:
  "read_line_loop mx buf rd = (Inr y, rd') \<Longrightarrow> rd_size rd' \<le> rd_size rd \<and> (y \<noteq> buf \<longrightarrow> rd_size rd' < rd_size rd)"
proof (induction mx buf rd rule: read_line_loop.induct)
  case (1 mx buf rd)
  obtain r rd1 where r: "read_until 10 rd = (r, rd1)" by fastforce
  show ?case
  proof (cases r)
    case (Inl e)
    then show ?thesis using 1(2) r by (simp add: read_line_loop.simps [of mx buf rd])
  next
    case (Inr x)
    note s = read_until_size [OF r]
    show ?thesis
    proof (cases "length (buf @ x) > mx \<or> x = [] \<or> last (buf @ x) = 10")
      case True
      then show ?thesis
        using 1(2) r Inr s by (auto simp: read_line_loop.simps [of mx buf rd] split: if_splits)
    next
      case False
      then have "read_line_loop mx (buf @ x) rd1 = (Inr y, rd')"
        using 1(2) r Inr by (auto simp: read_line_loop.simps [of mx buf rd] split: if_splits)
      then have "rd_size rd' \<le> rd_size rd1" using 1(1) [OF r [symmetric]] Inr False by auto
      moreover have "rd_size rd1 < rd_size rd" using s Inr False by auto
      ultimately show ?thesis by simp
    qed
  qed
qed

lemma read_limited_line_size:
  "read_limited_line mx rd = (Inr (Some line), rd') \<Longrightarrow> rd_size rd' < rd_size rd"
  using read_line_loop_size [of mx "[]" rd]
  by (auto simp: read_limited_line_def split: prod.splits sum.splits if_splits)

text \<open>\<open>trim_end_matches(['\r', '\n'])\<close> and \<open>splitn(3, ' ')\<close>.\<close>

definition trim_line_end :: "rstring \<Rightarrow> rstring" where
  "trim_line_end s = rev (dropWhile (\<lambda>c. c = 13 \<or> c = 10) (rev s))"

definition request_parts :: "rstring \<Rightarrow> rstring \<times> rstring \<times> rstring" where
  "request_parts line =
     (case split_once 32 line of
        None \<Rightarrow> (line, [], [])
      | Some (method, rest) \<Rightarrow>
          (case split_once 32 rest of
             None \<Rightarrow> (method, rest, [])
           | Some (target, version) \<Rightarrow> (method, target, version)))"

record http_request =
  rq_method :: rstring
  rq_target :: rstring
  rq_headers :: "(rstring \<times> rstring) list"

text \<open>The header loop; the \<open>HashMap\<close> is an association list with one entry per name.\<close>

function read_headers :: "(rstring \<times> rstring) list \<Rightarrow> reader \<Rightarrow> head_error + (rstring \<times> rstring) list" where
  "read_headers headers rd =
     (case read_limited_line MAX_HEADER_LINE rd of
        (Inl e, _) \<Rightarrow> Inl e
      | (Inr None, _) \<Rightarrow> Inl UnexpectedEof
      | (Inr (Some raw), rd') \<Rightarrow>
          let line = trim_line_end raw in
          if line = [] then Inr headers
          else (case split_once 58 line of
            None \<Rightarrow> Inl InvalidData
          | Some (name, val) \<Rightarrow>
              if length headers \<ge> MAX_HEADERS then Inl InvalidData
              else read_headers (AList.update (to_ascii_lowercase (trim name)) (trim val) headers) rd'))"
  by pat_completeness auto
termination
  by (relation "measure (\<lambda>(headers, rd). rd_size rd)") (auto dest!: read_limited_line_size [OF sym])

declare read_headers.simps [simp del]

definition read_request :: "reader \<Rightarrow> head_error + http_request" where
  "read_request rd =
     (case read_limited_line MAX_REQUEST_LINE rd of
        (Inl e, _) \<Rightarrow> Inl e
      | (Inr None, _) \<Rightarrow> Inl UnexpectedEof
      | (Inr (Some raw), rd') \<Rightarrow>
          (case request_parts (trim_line_end raw) of
             (method, target, version) \<Rightarrow>
               if method = [] \<or> target = [] \<or> \<not> starts_with (str ''HTTP/1.'') version then Inl InvalidData
               else rbind (read_headers [] rd') (\<lambda>headers.
                 Inr \<lparr>rq_method = method, rq_target = target, rq_headers = headers\<rparr>)))"

section \<open>The live screen stream\<close>

definition LIVE_FLUSH_BYTES :: nat where
  "LIVE_FLUSH_BYTES = 64 * 1024"

definition LIVE_FLUSH_INTERVAL :: duration where
  "LIVE_FLUSH_INTERVAL = from_millis 50"

datatype screen_end = ChannelClosed | Aborted

datatype live_event = LiveChunk bytes | LiveClosed | LiveDeadline | LiveSwitch | LiveShutdown

definition live_step :: "flush_tracker \<Rightarrow> instant \<times> live_event \<Rightarrow> http_writer \<Rightarrow>
    ((stop + screen_end) \<times> http_writer) + (flush_tracker \<times> http_writer)" where
  "live_step f e w =
     (case e of (now, ev) \<Rightarrow>
       case ev of
         LiveSwitch \<Rightarrow> Inl (Inr Aborted, w)
       | LiveShutdown \<Rightarrow> Inl (Inr Aborted, w)
       | LiveDeadline \<Rightarrow>
           (case (if has_pending f then flush w else (Inr (), w)) of
              (Inl err, w1) \<Rightarrow> Inl (Inl err, w1)
            | (Inr _, w1) \<Rightarrow> Inr (flush_reset f now, w1))
       | LiveChunk chunk \<Rightarrow>
           (case write_all chunk w of
              (Inl err, w1) \<Rightarrow> Inl (Inl err, w1)
            | (Inr _, w1) \<Rightarrow>
                (case should_flush f now (length chunk) of
                   (b, f') \<Rightarrow>
                     (case (if b then flush w1 else (Inr (), w1)) of
                        (Inl err, w2) \<Rightarrow> Inl (Inl err, w2)
                      | (Inr _, w2) \<Rightarrow> Inr (f', w2))))
       | LiveClosed \<Rightarrow> Inl (wthen flush (wret ChannelClosed) w))"

fun live_body :: "flush_tracker \<Rightarrow> (instant \<times> live_event) list \<Rightarrow> http_writer \<Rightarrow>
    ((stop + screen_end) \<times> http_writer) + (flush_tracker \<times> http_writer)" where
  "live_body f [] w = Inr (f, w)"
| "live_body f (e # es) w =
     (case live_step f e w of Inl r \<Rightarrow> Inl r | Inr (f', w') \<Rightarrow> live_body f' es w')"

definition serve_live_screen :: "instant \<Rightarrow> (instant \<times> live_event) list \<Rightarrow> http_writer \<Rightarrow>
    ((stop + screen_end) \<times> http_writer) + (flush_tracker \<times> http_writer)" where
  "serve_live_screen now es w =
     (case write_response_head 200 (str ''OK'') [(str ''Content-Type'', str ''video/mp4'')] w of
        (Inl e, w1) \<Rightarrow> Inl (Inl e, w1)
      | (Inr _, w1) \<Rightarrow>
          (case flush w1 of
             (Inl e, w2) \<Rightarrow> Inl (Inl e, w2)
           | (Inr _, w2) \<Rightarrow> live_body (flush_new LIVE_FLUSH_BYTES LIVE_FLUSH_INTERVAL now) es w2))"

section \<open>One connection\<close>

text \<open>What the handler reaches outside the server: the file system and the network crates.\<close>

record server_env =
  se_open_file :: "bytes \<Rightarrow> io_error + fs_file"
  se_url_parse :: "rstring \<Rightarrow> parsed_url option"
  se_percent_decode :: "rstring \<Rightarrow> bytes"
  se_smb_client :: "smb_config \<Rightarrow> rstring \<Rightarrow> rstring \<Rightarrow> (smb2_kind \<times> rstring) + smb_file"
  se_http_client :: "parsed_url \<Rightarrow> rstring option \<Rightarrow> fetch"

text \<open>How the handler ends: it returned (and says whether it puts the screen stream back into the
  shared slot), or it is still streaming.\<close>

datatype handled = Returned http_writer bool | StillOpen http_writer

definition returned :: "'a \<times> http_writer \<Rightarrow> handled" where
  "returned r = Returned (snd r) False"

definition dispatch_source ::
  "server_env \<Rightarrow> active_source option \<Rightarrow> bool \<Rightarrow> instant \<Rightarrow> (instant \<times> live_event) list \<Rightarrow>
   rstring option \<Rightarrow> bool \<Rightarrow> http_writer \<Rightarrow> handled" where
  "dispatch_source env source stream_free now live_events rng head_only w =
     (case source of
        None \<Rightarrow>
          (case write_response_head 404 (str ''Not Found'') [] w of (_, w1) \<Rightarrow> returned (flush w1))
      | Some (File path) \<Rightarrow> returned (serve_file (se_open_file env) path rng head_only w)
      | Some (Url url) \<Rightarrow>
          if is_smb_url url then
            (case serve_smb (smb_url_parse (se_url_parse env) (se_percent_decode env))
                    (smb2_open (se_smb_client env)) url rng head_only w of
               None \<Rightarrow> StillOpen w
             | Some r \<Rightarrow> returned r)
          else
            (case serve_url (se_url_parse env) (se_http_client env) url rng head_only w of
               Inl r \<Rightarrow> returned r
             | Inr (f, w') \<Rightarrow> StillOpen w')
      | Some (Screen monitor) \<Rightarrow>
          if stream_free then
            (case serve_live_screen now live_events w of
               Inl (r, w') \<Rightarrow> Returned w' (r = Inr ChannelClosed)
             | Inr (f, w') \<Rightarrow> StillOpen w')
          else
            (case write_response_head 503 (str ''Service Unavailable'')
                    [(str ''Content-Type'', str ''text/plain''), (str ''Content-Length'', str ''4'')] w of
               (_, w1) \<Rightarrow> (case write_all (str ''busy'') w1 of (_, w2) \<Rightarrow> returned (flush w2))))"

definition handle_connection ::
  "server_env \<Rightarrow> bool \<Rightarrow> reader \<Rightarrow> active_source option \<Rightarrow> bool \<Rightarrow> instant \<Rightarrow>
   (instant \<times> live_event) list \<Rightarrow> http_writer \<Rightarrow> handled" where
  "handle_connection env head_timed_out rd source stream_free now live_events w =
     (if head_timed_out then Returned w False
      else (case read_request rd of
        Inl UnexpectedEof \<Rightarrow> Returned w False
      | Inl _ \<Rightarrow>
          (case write_response_head 400 (str ''Bad Request'') [] w of (_, w1) \<Rightarrow> returned (flush w1))
      | Inr request \<Rightarrow>
          if rq_method request \<noteq> str ''GET'' \<and> rq_method request \<noteq> str ''HEAD'' then
            (case write_response_head 405 (str ''Method Not Allowed'') [(str ''Allow'', str ''GET, HEAD'')] w of
               (_, w1) \<Rightarrow> returned (flush w1))
          else
            let head_only = (rq_method request = str ''HEAD'') in
            if rq_target request \<noteq> str ''/stream'' then
              (case write_response_head 404 (str ''Not Found'') [] w of (_, w1) \<Rightarrow> returned (flush w1))
            else
              dispatch_source env source stream_free now live_events
                (map_of (rq_headers request) (str ''range'')) head_only w))"

section \<open>The server task\<close>

type_synonym ip = rstring

datatype live_end = StreamClosed | StreamAborted | StreamFailed

text \<open>
  The inputs of the task and of the connections it has spawned. A bind carries its outcome: the
  error, or the port the listener really got. Screen streams are named by numbers.
\<close>

datatype server_input =
    SetSource active_source
  | AttachScreenStream nat
  | SetPort u16 "io_error + u16"
  | SetBindAddr ip u16 "io_error + u16"
  | ServerShutdown
  | CommandsClosed
  | Accepted
  | AcceptFailed
  | ShutdownSignal
  | LiveTake
  | LiveEnd nat live_end

record media_server =
  ms_bind_ip :: "ip option"
  ms_listener :: "(ip \<times> u16) option"
  ms_bound_port :: u16
  ms_generation :: nat
  ms_current :: "active_source option"
  ms_live :: "nat option"
  ms_serving :: "nat list"
  ms_conns :: "(active_source option \<times> nat) list"
  ms_acks :: "(io_error + unit) list"
  ms_running :: bool

definition server_start :: "(ip \<times> u16) option \<Rightarrow> io_error + u16 \<Rightarrow> media_server" where
  "server_start initial_bind outcome =
     \<lparr>ms_bind_ip = map_option fst initial_bind,
      ms_listener = (case (initial_bind, outcome) of (Some (ip, _), Inr actual) \<Rightarrow> Some (ip, actual) | _ \<Rightarrow> None),
      ms_bound_port = (case (initial_bind, outcome) of (Some _, Inr actual) \<Rightarrow> actual | _ \<Rightarrow> 0),
      ms_generation = 0, ms_current = None, ms_live = None, ms_serving = [], ms_conns = [],
      ms_acks = [], ms_running = True\<rparr>"

definition server_step :: "media_server \<Rightarrow> server_input \<Rightarrow> media_server" where
  "server_step s i =
     (case i of
        LiveTake \<Rightarrow>
          (case ms_live s of
             None \<Rightarrow> s
           | Some rx \<Rightarrow> s\<lparr>ms_live := None, ms_serving := rx # ms_serving s\<rparr>)
      | LiveEnd rx e \<Rightarrow>
          if rx \<in> set (ms_serving s) then
            s\<lparr>ms_serving := remove1 rx (ms_serving s),
              ms_live := (if e = StreamClosed then Some rx else ms_live s)\<rparr>
          else s
      | _ \<Rightarrow>
        if \<not> ms_running s then s
        else (case i of
          ServerShutdown \<Rightarrow> s\<lparr>ms_running := False, ms_listener := None\<rparr>
        | CommandsClosed \<Rightarrow> s\<lparr>ms_running := False, ms_listener := None\<rparr>
        | ShutdownSignal \<Rightarrow> s\<lparr>ms_running := False, ms_listener := None\<rparr>
        | SetSource source \<Rightarrow>
            s\<lparr>ms_current := Some source, ms_live := None, ms_generation := ms_generation s + 1\<rparr>
        | AttachScreenStream rx \<Rightarrow>
            s\<lparr>ms_live := Some rx, ms_generation := ms_generation s + 1\<rparr>
        | SetPort port outcome \<Rightarrow>
            (case ms_bind_ip s of
               None \<Rightarrow> s
             | Some ip \<Rightarrow>
                 (case outcome of
                    Inr actual \<Rightarrow> s\<lparr>ms_listener := Some (ip, actual), ms_bound_port := port\<rparr>
                  | Inl _ \<Rightarrow> s))
        | SetBindAddr ip port outcome \<Rightarrow>
            (case outcome of
               Inr actual \<Rightarrow>
                 s\<lparr>ms_listener := Some (ip, actual), ms_bind_ip := Some ip, ms_bound_port := actual,
                   ms_acks := ms_acks s @ [Inr ()]\<rparr>
             | Inl e \<Rightarrow> s\<lparr>ms_listener := None, ms_acks := ms_acks s @ [Inl e]\<rparr>)
        | Accepted \<Rightarrow>
            if ms_listener s = None then s
            else s\<lparr>ms_conns := (ms_current s, ms_generation s) # ms_conns s\<rparr>
        | _ \<Rightarrow> s))"

text \<open>A connection is aborted as soon as the generation it subscribed at has passed.\<close>

definition superseded :: "media_server \<Rightarrow> active_source option \<times> nat \<Rightarrow> bool" where
  "superseded s c \<longleftrightarrow> snd c \<noteq> ms_generation s"

section \<open>Lemmas on the server task\<close>

lemma server_step_simps:
  "server_step s LiveTake = (case ms_live s of None \<Rightarrow> s
     | Some rx \<Rightarrow> s\<lparr>ms_live := None, ms_serving := rx # ms_serving s\<rparr>)"
  "server_step s (LiveEnd rx e) = (if rx \<in> set (ms_serving s) then
     s\<lparr>ms_serving := remove1 rx (ms_serving s), ms_live := (if e = StreamClosed then Some rx else ms_live s)\<rparr>
     else s)"
  "server_step s ServerShutdown = (if ms_running s then s\<lparr>ms_running := False, ms_listener := None\<rparr> else s)"
  "server_step s CommandsClosed = (if ms_running s then s\<lparr>ms_running := False, ms_listener := None\<rparr> else s)"
  "server_step s ShutdownSignal = (if ms_running s then s\<lparr>ms_running := False, ms_listener := None\<rparr> else s)"
  "server_step s (SetSource src) = (if ms_running s then
     s\<lparr>ms_current := Some src, ms_live := None, ms_generation := ms_generation s + 1\<rparr> else s)"
  "server_step s (AttachScreenStream rx) = (if ms_running s then
     s\<lparr>ms_live := Some rx, ms_generation := ms_generation s + 1\<rparr> else s)"
  "server_step s (SetPort port outcome) = (case (ms_running s, ms_bind_ip s, outcome) of
     (True, Some ip, Inr actual) \<Rightarrow> s\<lparr>ms_listener := Some (ip, actual), ms_bound_port := port\<rparr> | _ \<Rightarrow> s)"
  "server_step s (SetBindAddr ip port outcome) = (if ms_running s then (case outcome of
       Inr actual \<Rightarrow> s\<lparr>ms_listener := Some (ip, actual), ms_bind_ip := Some ip, ms_bound_port := actual,
         ms_acks := ms_acks s @ [Inr ()]\<rparr>
     | Inl err \<Rightarrow> s\<lparr>ms_listener := None, ms_acks := ms_acks s @ [Inl err]\<rparr>) else s)"
  "server_step s Accepted = (if ms_running s \<and> ms_listener s \<noteq> None then
     s\<lparr>ms_conns := (ms_current s, ms_generation s) # ms_conns s\<rparr> else s)"
  "server_step s AcceptFailed = s"
  by (simp_all add: server_step_def split: option.splits sum.splits)

text \<open>The addresses a run has been told to bind, successfully or not.\<close>

fun bind_ips :: "server_input list \<Rightarrow> ip set" where
  "bind_ips [] = {}"
| "bind_ips (SetBindAddr ip _ _ # is) = insert ip (bind_ips is)"
| "bind_ips (_ # is) = bind_ips is"

lemma bind_ips_Cons: "bind_ips (i # is) = bind_ips [i] \<union> bind_ips is"
  by (cases i) auto

definition listens_within :: "ip set \<Rightarrow> media_server \<Rightarrow> bool" where
  "listens_within A s \<longleftrightarrow> (\<forall>ip p. ms_listener s = Some (ip, p) \<longrightarrow> ms_bind_ip s = Some ip) \<and>
     (\<forall>ip. ms_bind_ip s = Some ip \<longrightarrow> ip \<in> A)"

lemma listens_within_step:
  "listens_within A s \<Longrightarrow> bind_ips [i] \<subseteq> A \<Longrightarrow> listens_within A (server_step s i)"
  by (cases i)
    (auto simp: listens_within_def server_step_simps
      split: option.splits bool.splits sum.splits if_splits)

lemma listens_within_run:
  "listens_within A s \<Longrightarrow> bind_ips is \<subseteq> A \<Longrightarrow> listens_within A (run server_step s is)"
proof (induction "is" arbitrary: s)
  case (Cons i "is")
  then show ?case using listens_within_step [of A s i] bind_ips_Cons [of i "is"] by auto
qed simp

text \<open>Every live stream has one holder.\<close>

definition one_holder :: "media_server \<Rightarrow> bool" where
  "one_holder s \<longleftrightarrow> distinct (ms_serving s @ (case ms_live s of None \<Rightarrow> [] | Some rx \<Rightarrow> [rx]))"

text \<open>A stream is attached once: the receiving end of a channel is a unique value.\<close>

fun attached :: "server_input list \<Rightarrow> nat list" where
  "attached [] = []"
| "attached (AttachScreenStream rx # is) = rx # attached is"
| "attached (_ # is) = attached is"

lemma attached_Cons: "attached (i # is) = attached [i] @ attached is"
  by (cases i) auto

definition holders :: "media_server \<Rightarrow> nat set" where
  "holders s = set (ms_serving s) \<union> set_option (ms_live s)"

lemma one_holder_step:
  assumes "one_holder s" "set (attached [i]) \<inter> holders s = {}"
  shows "one_holder (server_step s i) \<and> holders (server_step s i) \<subseteq> holders s \<union> set (attached [i])"
  using assms
  by (cases i)
    (auto simp: one_holder_def holders_def server_step_simps distinct_remove1
      split: option.splits bool.splits sum.splits if_splits dest: notin_set_remove1)

lemma one_holder_run:
  "one_holder s \<Longrightarrow> distinct (attached is) \<Longrightarrow> set (attached is) \<inter> holders s = {} \<Longrightarrow>
   one_holder (run server_step s is)"
proof (induction "is" arbitrary: s)
  case (Cons i "is")
  have "one_holder (server_step s i)" "holders (server_step s i) \<subseteq> holders s \<union> set (attached [i])"
    using one_holder_step [of s i] Cons.prems attached_Cons [of i "is"] by auto
  moreover have "set (attached is) \<inter> (holders s \<union> set (attached [i])) = {}" "distinct (attached is)"
    using Cons.prems attached_Cons [of i "is"] by auto
  ultimately show ?case using Cons.IH [of "server_step s i"] by auto
qed simp

text \<open>A connection knows a generation that has existed, and the generation only grows.\<close>

definition conns_known :: "media_server \<Rightarrow> bool" where
  "conns_known s \<longleftrightarrow> (\<forall>c \<in> set (ms_conns s). snd c \<le> ms_generation s)"

lemma generation_step:
  "ms_generation s \<le> ms_generation (server_step s i)"
  "conns_known s \<Longrightarrow> conns_known (server_step s i)"
  by (cases i; auto simp: conns_known_def server_step_simps
      split: option.splits bool.splits sum.splits if_splits)+

lemma generation_run: "ms_generation s \<le> ms_generation (run server_step s is)"
  by (induction "is" arbitrary: s) (auto intro: order_trans generation_step)

interpretation server: step_invariant "server_start b out" server_step "\<lambda>_. True" conns_known
  by unfold_locales (simp add: conns_known_def server_start_def, rule generation_step(2))

section \<open>Properties of the server task\<close>

text \<open>The server that starts unbound listens only on an address it was told to bind: whatever
  the order of commands, failed binds and port changes, its listener's address is that of a
  \<open>SetBindAddr\<close> of the run. No port change opens the wildcard address behind the runtime's
  back.\<close>

theorem listener_only_where_told:
  assumes "ms_listener (run server_step (server_start None out) inputs) = Some (ip, p)"
  shows "ip \<in> bind_ips inputs"
proof -
  have "listens_within (bind_ips inputs) (server_start None out)"
    by (simp add: listens_within_def server_start_def)
  then have "listens_within (bind_ips inputs) (run server_step (server_start None out) inputs)"
    by (rule listens_within_run) simp
  with assms show ?thesis by (auto simp: listens_within_def)
qed

theorem listener_only_where_told_witness:
  "str ''192.168.1.5'' \<in> bind_ips [SetPort 8080 (Inr 8080), SetBindAddr (str ''192.168.1.5'') 8080 (Inr 8080)]"
  by (rule listener_only_where_told [of "Inl OtherIo" _ _ 8080])
    (simp add: server_step_simps server_start_def)

text \<open>C33: a source switch supersedes every connection accepted before it, and no later input can
  make such a connection current again: its generation watch has fired for good. A connection
  accepted after the switch is served the new source.\<close>

theorem source_switch_supersedes:
  assumes "s = run server_step (server_start b out) before" "ms_running s"
    and "s' = run server_step (server_step s (SetSource src)) after"
  shows "(\<forall>c \<in> set (ms_conns s). superseded s' c) \<and>
    ms_current (server_step s (SetSource src)) = Some src"
proof -
  have "conns_known s" unfolding assms(1) by (rule server.inv_run) (simp add: list_all_iff)
  moreover have "ms_generation s < ms_generation (server_step s (SetSource src))"
    using assms(2) by (simp add: server_step_simps)
  moreover have "ms_generation (server_step s (SetSource src)) \<le> ms_generation s'"
    unfolding assms(3) by (rule generation_run)
  ultimately show ?thesis
    using assms(2) by (force simp: superseded_def conns_known_def server_step_simps)
qed

theorem source_switch_supersedes_witness:
  "let b = SetBindAddr (str ''::1'') 0 (Inr 9);
       s = run server_step (server_start None (Inl OtherIo)) [b, Accepted]
   in superseded (run server_step (server_step s (SetSource (Url []))) [Accepted]) (None, 0)"
  using source_switch_supersedes [of _ None "Inl OtherIo" "[SetBindAddr (str ''::1'') 0 (Inr 9), Accepted]"
      _ "Url []" "[Accepted]", OF refl _ refl]
  by (simp add: Let_def server_step_simps server_start_def)

text \<open>The screen stream has a single consumer: in every run the streams held by the shared slot
  and by the connections serving one are pairwise different, so no chunk is read twice.\<close>

theorem screen_stream_single_consumer:
  assumes "distinct (attached inputs)"
  shows "one_holder (run server_step (server_start b out) inputs)"
  by (rule one_holder_run) (use assms in \<open>auto simp: one_holder_def holders_def server_start_def\<close>)

theorem screen_stream_single_consumer_witness:
  "one_holder (run server_step (server_start None (Inl OtherIo))
     [SetSource (Screen []), AttachScreenStream 1, LiveTake, AttachScreenStream 2, LiveTake])"
  by (rule screen_stream_single_consumer) simp

text \<open>A connection whose stream has closed puts the closed stream back into the shared slot
  without looking: a stream attached in the meantime is dropped there, and the next connection is
  handed the dead one.\<close>

theorem closed_stream_evicts_new_one:
  assumes "rx \<in> set (ms_serving s)" "ms_live s = Some fresh" "one_holder s"
  shows "fresh \<notin> holders (server_step s (LiveEnd rx StreamClosed)) \<and>
    ms_live (server_step s (LiveEnd rx StreamClosed)) = Some rx"
  using assms by (auto simp: server_step_simps holders_def one_holder_def dest: notin_set_remove1)

theorem closed_stream_evicts_new_one_witness:
  "(2::nat) \<notin> holders (run server_step (server_start None (Inl OtherIo))
     [SetSource (Screen []), AttachScreenStream 1, LiveTake, AttachScreenStream 2, LiveEnd 1 StreamClosed])"
  using closed_stream_evicts_new_one [of 1 "run server_step (server_start None (Inl OtherIo))
     [SetSource (Screen []), AttachScreenStream 1, LiveTake, AttachScreenStream 2]" 2]
  by (simp add: server_step_simps server_start_def one_holder_def)

text \<open>Rebinding to port 0 asks for an ephemeral port, but the port the server then reports is
  the requested 0, which means unbound, and not the port it listens on.\<close>

theorem set_port_reports_requested_port:
  assumes "ms_running s" "ms_bind_ip s = Some ip"
  shows "ms_bound_port (server_step s (SetPort 0 (Inr actual))) = 0 \<and>
    ms_listener (server_step s (SetPort 0 (Inr actual))) = Some (ip, actual)"
  using assms by (simp add: server_step_simps)

theorem set_port_reports_requested_port_witness:
  "ms_bound_port (server_step (server_start (Some (str ''0.0.0.0'', 8080)) (Inr 8080)) (SetPort 0 (Inr 40123))) = 0"
  using set_port_reports_requested_port [of "server_start (Some (str ''0.0.0.0'', 8080)) (Inr 8080)"
      "str ''0.0.0.0''" 40123]
  by (simp add: server_start_def)

section \<open>Reading a request head\<close>

lemma split_once_None: "split_once d s = None \<longleftrightarrow> d \<notin> set s"
  by (induction s) auto

lemma read_until_sound:
  "sound_reader rd \<Longrightarrow> rd_bytes rd = a @ d # b \<Longrightarrow> d \<notin> set a \<Longrightarrow>
   \<exists>rd'. read_until d rd = (Inr (a @ [d]), rd') \<and> sound_reader rd' \<and> rd_bytes rd' = b"
proof (induction d rd arbitrary: a rule: read_until.induct)
  case (3 d c rs)
  have ne: "c \<noteq> []" and rs: "sound_reader rs" using 3(2) by (auto simp: sound_reader_def)
  have cat: "c @ rd_bytes rs = a @ d # b" using 3(3) by simp
  show ?case
  proof (cases "d \<in> set c")
    case True
    then obtain l r where l1: "split_once d c = Some (l, r)"
      using split_once_None [of d c] by (cases "split_once d c") auto
    note l = l1 split_once_Some [OF l1, THEN conjunct1] split_once_Some [OF l1, THEN conjunct2]
    have "l = a \<and> r @ rd_bytes rs = b"
      using cat l split_once_free [OF 3(4), of b] split_once_free [OF l(3), of "r @ rd_bytes rs"] by simp
    then show ?thesis using l ne rs by (auto simp: sound_reader_def)
  next
    case False
    then obtain a' where a': "a = c @ a'" "rd_bytes rs = a' @ d # b"
      using cat by (auto simp: append_eq_append_conv2 append_eq_Cons_conv)
    then obtain rd' where "read_until d rs = (Inr (a' @ [d]), rd')" "sound_reader rd'" "rd_bytes rd' = b"
      using 3(1) [OF ne _ rs, of a'] False 3(4) split_once_None [of d c] by auto
    then show ?thesis using ne False a' split_once_None [of d c] by auto
  qed
qed (auto simp: sound_reader_def)

text \<open>Lines of printable ASCII and tabs are UTF-8.\<close>

definition ascii_line :: "bytes \<Rightarrow> bool" where
  "ascii_line s \<longleftrightarrow> list_all (\<lambda>c. c = 9 \<or> 32 \<le> c \<and> c \<le> 126) s"

lemma ascii_line_utf8: "ascii_line s \<Longrightarrow> utf8_valid (s @ [13, 10])"
  by (rule ascii_utf8) (auto simp: ascii_line_def list_all_iff word_le_nat_alt)

lemma ascii_line_free: "ascii_line s \<Longrightarrow> 10 \<notin> set s \<and> 13 \<notin> set s"
  by (auto simp: ascii_line_def list_all_iff word_le_nat_alt)

lemma trim_line_end_crlf: "ascii_line s \<Longrightarrow> trim_line_end (s @ [13, 10]) = s"
proof -
  assume a: "ascii_line s"
  have "\<forall>c \<in> set (rev s). c \<noteq> 13 \<and> c \<noteq> 10" using ascii_line_free [OF a] by auto
  then have "dropWhile (\<lambda>c. c = 13 \<or> c = 10) (rev s) = rev s" by (cases "rev s") auto
  then show ?thesis by (simp add: trim_line_end_def)
qed

lemma read_limited_line_ascii:
  assumes "sound_reader rd" "rd_bytes rd = s @ [13, 10] @ b" "ascii_line s" "length s + 2 \<le> mx"
  shows "\<exists>rd'. read_limited_line mx rd = (Inr (Some (s @ [13, 10])), rd') \<and> sound_reader rd' \<and> rd_bytes rd' = b"
proof -
  have "10 \<notin> set (s @ [13])" using ascii_line_free [OF assms(3)] by simp
  then obtain rd' where r: "read_until 10 rd = (Inr ((s @ [13]) @ [10]), rd')" "sound_reader rd'" "rd_bytes rd' = b"
    using read_until_sound [OF assms(1), of "s @ [13]" 10 b] assms(2) by auto
  then have "read_line_loop mx [] rd = (Inr (s @ [13, 10]), rd')"
    using assms(4) by (simp add: read_line_loop.simps)
  then show ?thesis
    using r ascii_line_utf8 [OF assms(3)] by (simp add: read_limited_line_def)
qed

text \<open>A header field as a client may print it: a name in any case without colon, a value, and any
  spaces and tabs around both, all printable ASCII and together within the line limit. The server
  reads the name in lower case and the value, both without what surrounds them.\<close>

record sent_field =
  hf_before :: rstring
  hf_name :: rstring
  hf_after :: rstring
  hf_lead :: rstring
  hf_value :: rstring
  hf_trail :: rstring

definition field_line :: "sent_field \<Rightarrow> bytes" where
  "field_line h = hf_before h @ hf_name h @ hf_after h @ 58 # hf_lead h @ hf_value h @ hf_trail h"

definition field_lines :: "sent_field list \<Rightarrow> bytes" where
  "field_lines hs = concat (map (\<lambda>h. field_line h @ [13, 10]) hs)"

definition wf_field :: "sent_field \<Rightarrow> bool" where
  "wf_field h \<longleftrightarrow>
     list_all blank_byte (hf_before h) \<and> list_all blank_byte (hf_after h) \<and>
     list_all blank_byte (hf_lead h) \<and> list_all blank_byte (hf_trail h) \<and>
     hf_name h \<noteq> [] \<and> list_all solid_byte (hf_name h) \<and> 58 \<notin> set (hf_name h) \<and>
     ascii_line (hf_value h) \<and> (hf_value h = [] \<or> solid_byte (hd (hf_value h)) \<and> solid_byte (last (hf_value h))) \<and>
     length (field_line h) + 2 \<le> MAX_HEADER_LINE"

definition lower_case :: "u8 \<Rightarrow> u8" where
  "lower_case c = (if c \<in> {65..90} then c + 32 else c)"

definition field_read :: "sent_field \<Rightarrow> rstring \<times> rstring" where
  "field_read h = (map lower_case (hf_name h), hf_value h)"

lemma field_line_ascii: "wf_field h \<Longrightarrow> ascii_line (field_line h)"
  by (auto simp: wf_field_def field_line_def ascii_line_def list_all_iff solid_byte_def blank_byte_def word_le_nat_alt)

lemma field_line_split:
  assumes "wf_field h"
  shows "split_once 58 (field_line h) = Some (hf_before h @ hf_name h @ hf_after h, hf_lead h @ hf_value h @ hf_trail h)"
proof -
  have "58 \<notin> set (hf_before h @ hf_name h @ hf_after h)"
    using assms by (auto simp: wf_field_def list_all_iff blank_byte_def)
  from split_once_free [OF this] show ?thesis by (simp add: field_line_def)
qed

lemma field_line_read:
  assumes "wf_field h"
  shows "(to_ascii_lowercase (trim (hf_before h @ hf_name h @ hf_after h)), trim (hf_lead h @ hf_value h @ hf_trail h)) = field_read h"
proof -
  have "solid_byte (hd (hf_name h))" "solid_byte (last (hf_name h))"
    using assms by (auto simp: wf_field_def list_all_iff)
  then have "trim (hf_before h @ hf_name h @ hf_after h) = hf_name h" "trim (hf_lead h @ hf_value h @ hf_trail h) = hf_value h"
    using assms by (auto simp: wf_field_def intro!: trim_padded)
  then show ?thesis
    by (simp add: field_read_def to_ascii_lowercase_def to_ascii_lowercase_byte_def lower_case_def fun_eq_iff)
qed

lemma length_alist_update: "length (AList.update k v al) \<le> Suc (length al)"
  by (induction al) auto

lemma map_of_updates: "map_of (fold (\<lambda>(n, v). AList.update n v) kvs al) = map_of (rev kvs @ al)"
proof (induction kvs arbitrary: al)
  case (Cons kv kvs)
  obtain n v where kv: "kv = (n, v)" by fastforce
  show ?case using Cons.IH [of "AList.update n v al"] by (simp add: kv update_conv' map_add_def fun_eq_iff)
qed simp

lemma read_headers_sound:
  assumes "sound_reader rd" "rd_bytes rd = field_lines hs @ [13, 10] @ b" "list_all wf_field hs"
    and "length acc + length hs \<le> MAX_HEADERS"
  shows "read_headers acc rd = Inr (fold (\<lambda>(n, v). AList.update n v) (map field_read hs) acc)"
  using assms
proof (induction hs arbitrary: acc rd)
  case Nil
  have "ascii_line []" by (simp add: ascii_line_def)
  then obtain rd' where "read_limited_line MAX_HEADER_LINE rd = (Inr (Some [13, 10]), rd')"
    using read_limited_line_ascii [OF Nil(1), of "[]" b MAX_HEADER_LINE] Nil(2)
    by (auto simp: field_lines_def MAX_HEADER_LINE_def)
  then show ?case
    by (simp add: read_headers.simps [of acc rd] trim_line_end_def)
next
  case (Cons h hs)
  have wf: "wf_field h" using Cons.prems(3) by simp
  note asc = field_line_ascii [OF wf]
  have bytes: "rd_bytes rd = field_line h @ [13, 10] @ field_lines hs @ [13, 10] @ b"
    using Cons.prems(2) by (simp add: field_lines_def)
  have len: "length (field_line h) + 2 \<le> MAX_HEADER_LINE" using wf by (simp add: wf_field_def)
  obtain rd' where r: "read_limited_line MAX_HEADER_LINE rd = (Inr (Some (field_line h @ [13, 10])), rd')"
    "sound_reader rd'" "rd_bytes rd' = field_lines hs @ [13, 10] @ b"
    using read_limited_line_ascii [OF Cons.prems(1) bytes asc len] by blast
  have line: "trim_line_end (field_line h @ [13, 10]) = field_line h" "field_line h \<noteq> []"
    using trim_line_end_crlf [OF asc] by (simp_all add: field_line_def)
  obtain n v where nv: "field_read h = (n, v)" by fastforce
  have more_room: "length acc < MAX_HEADERS" "length (AList.update n v acc) + length hs \<le> MAX_HEADERS"
    using Cons.prems(4) length_alist_update [of n v acc] by auto
  have "read_headers acc rd = read_headers (AList.update n v acc) rd'"
    using r(1) more_room(1) field_line_split [OF wf] field_line_read [OF wf] nv
    by (subst read_headers.simps) (simp add: line Let_def)
  also have "\<dots> = Inr (fold (\<lambda>(n, v). AList.update n v) (map field_read hs) (AList.update n v acc))"
    using Cons.IH [OF r(2,3) _ more_room(2)] Cons.prems(3) by simp
  finally show ?case by (simp add: nv)
qed

text \<open>The whole head; \<open>minor\<close> is what follows \<open>HTTP/1.\<close>.\<close>

definition render_request :: "rstring \<Rightarrow> rstring \<Rightarrow> rstring \<Rightarrow> sent_field list \<Rightarrow> bytes" where
  "render_request method target minor hs =
     method @ 32 # target @ 32 # str ''HTTP/1.'' @ minor @ [13, 10] @ field_lines hs @ [13, 10]"

lemma read_request_rendered:
  assumes "sound_reader rd" "rd_bytes rd = render_request method target minor hs @ rest"
    and "list_all solid_byte method" "list_all solid_byte target" "method \<noteq> []" "target \<noteq> []" "ascii_line minor"
    and "length method + length target + length minor + 11 \<le> MAX_REQUEST_LINE"
    and "list_all wf_field hs" "length hs \<le> MAX_HEADERS"
  shows "\<exists>headers. read_request rd = Inr \<lparr>rq_method = method, rq_target = target, rq_headers = headers\<rparr> \<and>
    map_of headers = map_of (rev (map field_read hs))"
proof -
  let ?version = "str ''HTTP/1.'' @ minor"
  let ?line = "method @ 32 # target @ 32 # ?version"
  have "ascii_line (str ''HTTP/1.'')" "length (str ''HTTP/1.'') = 7"
    by (simp_all add: ascii_line_def str_def word_le_nat_alt)
  then have asc: "ascii_line ?line" and len: "length ?line + 2 \<le> MAX_REQUEST_LINE"
    using assms(3,4,7,8) by (auto simp: ascii_line_def list_all_iff solid_byte_def word_le_nat_alt)
  have free: "32 \<notin> set method" "32 \<notin> set target"
    using assms(3,4) by (auto simp: list_all_iff solid_byte_def word_le_nat_alt)
  have bytes: "rd_bytes rd = ?line @ [13, 10] @ field_lines hs @ [13, 10] @ rest"
    using assms(2) by (simp add: render_request_def)
  obtain rd' where r: "read_limited_line MAX_REQUEST_LINE rd = (Inr (Some (?line @ [13, 10])), rd')"
    "sound_reader rd'" "rd_bytes rd' = field_lines hs @ [13, 10] @ rest"
    using read_limited_line_ascii [OF assms(1) bytes asc len] by blast
  have parts: "request_parts ?line = (method, target, ?version)"
    using split_once_free [OF free(1)] split_once_free [OF free(2)] by (simp add: request_parts_def)
  have v: "starts_with (str ''HTTP/1.'') ?version" by (simp add: starts_with_def str_def)
  have h: "read_headers [] rd' = Inr (fold (\<lambda>(n, v). AList.update n v) (map field_read hs) [])"
    by (rule read_headers_sound [OF r(2,3) assms(9)]) (use assms(10) in simp)
  have "read_request rd = Inr \<lparr>rq_method = method, rq_target = target,
      rq_headers = fold (\<lambda>(n, v). AList.update n v) (map field_read hs) []\<rparr>"
    unfolding read_request_def r(1) using trim_line_end_crlf [OF asc] parts v assms(5,6) h
    by (simp del: append.simps append_assoc)
  then show ?thesis using map_of_updates [of "map field_read hs" "[]"] by auto
qed

text \<open>C37: A request head is understood however the network cuts it and however the client prints it:
  from any sequence of segments that carries it the server reads the method and the target, and for
  every header name, in lower case and whatever case, spaces and tabs it was sent with, the value of
  its last line, without the white space around it.\<close>

theorem request_head_parsed:
  assumes "sound_reader rd" "rd_bytes rd = render_request method target minor hs @ rest"
    and "list_all solid_byte method" "list_all solid_byte target" "method \<noteq> []" "target \<noteq> []" "ascii_line minor"
    and "length method + length target + length minor + 11 \<le> MAX_REQUEST_LINE"
    and "list_all wf_field hs" "length hs \<le> MAX_HEADERS"
  shows "\<exists>headers. read_request rd = Inr \<lparr>rq_method = method, rq_target = target, rq_headers = headers\<rparr> \<and>
    map_of headers = map_of (rev (map field_read hs))"
  using read_request_rendered [OF assms] .

lemma single_bytes: "rd_bytes (map (\<lambda>b. Data [b]) xs) = xs" "sound_reader (map (\<lambda>b. Data [b]) xs)"
  by (induction xs) (auto simp: sound_reader_def)

definition range_field :: "rstring \<Rightarrow> sent_field" where
  "range_field v = \<lparr>hf_before = [], hf_name = str ''Range'', hf_after = [32], hf_lead = [32, 9], hf_value = v, hf_trail = [32]\<rparr>"

lemma range_field_read: "field_read (range_field v) = (str ''range'', v)"
  by (simp add: field_read_def range_field_def lower_case_def str_def word_le_nat_alt)

lemmas head_eval = str_def solid_byte_def blank_byte_def word_le_nat_alt MAX_REQUEST_LINE_def MAX_HEADERS_def
  wf_field_def field_line_def range_field_def MAX_HEADER_LINE_def ascii_line_def

theorem request_head_parsed_witness:
  "\<exists>headers. read_request (map (\<lambda>b. Data [b])
      (render_request (str ''GET'') (str ''/stream'') (str ''1'')
         [range_field (str ''bytes=9-''), \<lparr>hf_before = [], hf_name = str ''HOST'', hf_after = [], hf_lead = [32],
            hf_value = str ''pc'', hf_trail = []\<rparr>, range_field (str ''bytes=0-'')])) =
      Inr \<lparr>rq_method = str ''GET'', rq_target = str ''/stream'', rq_headers = headers\<rparr> \<and>
    map_of headers (str ''range'') = Some (str ''bytes=0-'') \<and> map_of headers (str ''host'') = Some (str ''pc'')"
proof -
  let ?host = "\<lparr>hf_before = [], hf_name = str ''HOST'', hf_after = [], hf_lead = [32], hf_value = str ''pc'', hf_trail = []\<rparr>"
  let ?hs = "[range_field (str ''bytes=9-''), ?host, range_field (str ''bytes=0-'')]"
  have host: "field_read ?host = (str ''host'', str ''pc'')" "str ''host'' \<noteq> str ''range''"
    by (simp_all add: field_read_def lower_case_def str_def word_le_nat_alt)
  have "\<exists>headers. read_request (map (\<lambda>b. Data [b]) (render_request (str ''GET'') (str ''/stream'') (str ''1'') ?hs)) =
      Inr \<lparr>rq_method = str ''GET'', rq_target = str ''/stream'', rq_headers = headers\<rparr> \<and>
    map_of headers = map_of (rev (map field_read ?hs))"
    by (rule request_head_parsed [where rest = "[]"]) (simp add: single_bytes, simp add: single_bytes, simp_all add: head_eval)
  then show ?thesis using host by (auto simp: range_field_read)
qed

end
