(* ===== verification/Lan_Ip.thy ===== *)
theory Lan_Ip
  imports App_State
begin

text \<open>
  The choice of the address under which the media server is advertised
  (\<open>src/src/media/lan_ip.rs\<close>). The interface list comes from the \<open>if-addrs\<close> crate and the local
  address of a connected UDP socket from the operating system; both are arguments.
\<close>

section \<open>Definitions\<close>

datatype ip_addr = V4 ipv4 | V6 bytes

definition LOCALHOST :: ipv4 where
  "LOCALHOST = 0x7F000001"

record iface =
  if_name :: rstring
  if_ip :: ipv4
  if_netmask :: ipv4

definition ipv4_netmask :: "ipv4 \<Rightarrow> ipv4 \<Rightarrow> u32" where
  "ipv4_netmask ip netmask = ip AND netmask"

definition iface_contains :: "iface \<Rightarrow> ipv4 \<Rightarrow> bool" where
  "iface_contains i candidate \<longleftrightarrow>
     ipv4_netmask (if_ip i) (if_netmask i) = ipv4_netmask candidate (if_netmask i)"

definition select_lan_ip_from :: "iface list \<Rightarrow> ipv4 option \<Rightarrow> ipv4 option \<Rightarrow> ip_addr option" where
  "select_lan_ip_from interfaces receiver_ip default_route =
     (let matched = (case receiver_ip of
            Some receiver \<Rightarrow> find (\<lambda>i. \<not> is_loopback (if_ip i) \<and> iface_contains i receiver) interfaces
          | None \<Rightarrow> None)
      in case matched of
           Some i \<Rightarrow> Some (V4 (if_ip i))
         | None \<Rightarrow>
             (case default_route of
                Some route \<Rightarrow> if \<not> is_loopback route then Some (V4 route) else None
              | None \<Rightarrow> None))"

text \<open>The local address the probing socket got, or none when a call on the socket failed.\<close>

definition default_route_ip :: "ip_addr option \<Rightarrow> ipv4 option" where
  "default_route_ip local =
     (case local of Some (V4 v4) \<Rightarrow> if \<not> is_loopback v4 then Some v4 else None | _ \<Rightarrow> None)"

text \<open>An interface as the crate reports it: whether it is up, and its address with the netmask.\<close>

datatype if_addr = IfV4 ipv4 ipv4 | IfV6 bytes

record interface =
  in_name :: rstring
  in_oper_up :: bool
  in_addr :: if_addr

definition candidate :: "interface \<Rightarrow> iface option" where
  "candidate i =
     (case in_addr i of
        IfV4 ip netmask \<Rightarrow>
          if \<not> is_loopback ip then Some \<lparr>if_name = in_name i, if_ip = ip, if_netmask = netmask\<rparr> else None
      | IfV6 _ \<Rightarrow> None)"

definition select_lan_ip :: "(unit + interface list) \<Rightarrow> ip_addr option \<Rightarrow> ip_addr option \<Rightarrow> ip_addr" where
  "select_lan_ip get_if_addrs local receiver_ip =
     (let receiver_v4 = (case receiver_ip of Some (V4 v4) \<Rightarrow> Some v4 | _ \<Rightarrow> None) in
      case get_if_addrs of
        Inr interfaces \<Rightarrow>
          (case select_lan_ip_from (List.map_filter candidate (filter in_oper_up interfaces)) receiver_v4
                  (default_route_ip local) of
             Some ip \<Rightarrow> ip
           | None \<Rightarrow> V4 LOCALHOST)
      | Inl _ \<Rightarrow> V4 LOCALHOST)"

section \<open>Properties\<close>

text \<open>An interface from which the receiver can fetch: up, with an IPv4 address that is not loopback,
  whose subnet holds the receiver.\<close>

definition serves :: "interface \<Rightarrow> ipv4 \<Rightarrow> ipv4 \<Rightarrow> bool" where
  "serves i receiver ip \<longleftrightarrow> in_oper_up i \<and> \<not> is_loopback ip \<and>
     (\<exists>netmask. in_addr i = IfV4 ip netmask \<and> ip AND netmask = receiver AND netmask)"

lemma candidates_iff:
  "c \<in> set (List.map_filter candidate (filter in_oper_up interfaces)) \<longleftrightarrow>
     (\<exists>i \<in> set interfaces. in_oper_up i \<and> candidate i = Some c)"
  by (auto simp: map_filter_def image_iff)

lemma candidate_serves:
  assumes "candidate i = Some c" "in_oper_up i"
  shows "\<not> is_loopback (if_ip c) \<and> (iface_contains c receiver \<longleftrightarrow> serves i receiver (if_ip c))"
  using assms
  by (auto simp: candidate_def iface_contains_def ipv4_netmask_def serves_def split: if_addr.splits if_splits)

lemma serves_candidate:
  assumes "serves i receiver ip"
  shows "\<exists>c. candidate i = Some c \<and> if_ip c = ip \<and> iface_contains c receiver"
  using assms by (auto simp: serves_def candidate_def iface_contains_def ipv4_netmask_def)

text \<open>When the interfaces can be listed, the advertised address is one of an interface in the
  receiver's subnet if there is any such interface; otherwise it is the default route's address if
  that is an IPv4 address that is not loopback; and only without both it is \<open>127.0.0.1\<close>.\<close>

theorem lan_ip_choice:
  "(\<exists>ip i. i \<in> set interfaces \<and> serves i receiver ip \<and>
      select_lan_ip (Inr interfaces) local (Some (V4 receiver)) = V4 ip) \<or>
   (\<nexists>ip i. i \<in> set interfaces \<and> serves i receiver ip) \<and>
   select_lan_ip (Inr interfaces) local (Some (V4 receiver)) =
     (case default_route_ip local of Some route \<Rightarrow> V4 route | None \<Rightarrow> V4 LOCALHOST)"
proof -
  let ?cs = "List.map_filter candidate (filter in_oper_up interfaces)"
  let ?ok = "\<lambda>i. \<not> is_loopback (if_ip i) \<and> iface_contains i receiver"
  show ?thesis
  proof (cases "find ?ok ?cs")
    case (Some c)
    then have "c \<in> set ?cs" "?ok c" by (auto simp: find_Some_iff)
    then obtain i where "i \<in> set interfaces" "serves i receiver (if_ip c)"
      using candidate_serves unfolding candidates_iff by blast
    with Some show ?thesis
      by (auto simp: select_lan_ip_def select_lan_ip_from_def)
  next
    case None
    then have none: "\<not> ?ok c" if "c \<in> set ?cs" for c using that by (auto simp: find_None_iff)
    have "\<nexists>ip i. i \<in> set interfaces \<and> serves i receiver ip"
    proof (intro notI, elim exE conjE)
      fix ip i assume i: "i \<in> set interfaces" "serves i receiver ip"
      then obtain c where c: "candidate i = Some c" "if_ip c = ip" "iface_contains c receiver"
        using serves_candidate by blast
      then have "c \<in> set ?cs" using i unfolding candidates_iff by (auto simp: serves_def)
      with none c i(2) show False by (auto simp: serves_def)
    qed
    moreover have "select_lan_ip (Inr interfaces) local (Some (V4 receiver)) =
        (case default_route_ip local of Some route \<Rightarrow> V4 route | None \<Rightarrow> V4 LOCALHOST)"
      using None
      by (auto simp: select_lan_ip_def select_lan_ip_from_def default_route_ip_def
          split: option.splits ip_addr.splits)
    ultimately show ?thesis by blast
  qed
qed

text \<open>When the interfaces cannot be listed, the advertised address is \<open>127.0.0.1\<close>, which no
  receiver can reach, whatever the default route is.\<close>

theorem enumeration_failure_skips_default_route:
  "select_lan_ip (Inl ()) local receiver = V4 LOCALHOST \<and> is_loopback LOCALHOST"
  by (simp add: select_lan_ip_def is_loopback_def LOCALHOST_def drop_bit_eq_div)

end
