(* ===== verification/Runtime.thy ===== *)
theory Runtime
  imports Connection Media_Server Lan_Ip Screen_Capture
begin

text \<open>
  The backend supervisor (\<open>src/src/runtime.rs\<close>): it routes the GUI's commands to the connection task,
  the media server and the screen pipeline, forwards their events, gates the wildcard bind on the
  user's consent, and shuts the tasks down in order.

  The commands it sends are recorded as the inputs of the connection task (\<open>Connection.command\<close>) and
  of the media server (\<open>Media_Server.server_input\<close>, whose binds carry the operating system's answer,
  which the supervisor awaits). What the environment answers to one command is the record
  \<open>runtime_env\<close>.
\<close>

section \<open>State\<close>

record runtime_env =
  re_interfaces :: "unit + interface list"
  re_local :: "ip_addr option"
  re_addr_ip :: "rstring \<Rightarrow> ip_addr"
  re_bind :: "rstring \<Rightarrow> u16 \<Rightarrow> io_error + u16"
  re_port_bind :: "io_error + u16"
  re_bound_port :: u16
  re_displays :: "(monitor_error + rstring list) option"
  re_screen :: "(rstring + unit) option"
  re_mdns_bind :: "io_error + unit"
  re_url_path :: "rstring \<Rightarrow> rstring option"
  re_show_v6 :: "bytes \<Rightarrow> rstring"

datatype shutdown_action = HttpStopped | CastStopped | MdnsStopped | ScreenJoined rstring

record supervisor =
  sv_events :: "backend_event list"
  sv_cast :: "command list"
  sv_server :: "server_input list"
  sv_screen :: "rstring option"
  sv_retired :: "rstring list"
  sv_mdns :: bool
  sv_rescan :: u8
  sv_lan_ip :: ip_addr
  sv_proxy_port :: u16
  sv_wildcard_consented :: bool
  sv_fallback_pending :: bool
  sv_current_source :: "active_source option"
  sv_last_volume :: u32
  sv_muted :: bool
  sv_running :: bool
  sv_shutdown :: "shutdown_action list"

definition send_event :: "backend_event \<Rightarrow> supervisor \<Rightarrow> supervisor" where
  "send_event e s = s\<lparr>sv_events := sv_events s @ [e]\<rparr>"

definition send_cast :: "command \<Rightarrow> supervisor \<Rightarrow> supervisor" where
  "send_cast c s = s\<lparr>sv_cast := sv_cast s @ [c]\<rparr>"

definition send_server :: "server_input \<Rightarrow> supervisor \<Rightarrow> supervisor" where
  "send_server c s = s\<lparr>sv_server := sv_server s @ [c]\<rparr>"

section \<open>Addresses\<close>

definition show_ip :: "runtime_env \<Rightarrow> ip_addr \<Rightarrow> rstring" where
  "show_ip env ip = (case ip of V4 v4 \<Rightarrow> show_ipv4 v4 | V6 v6 \<Rightarrow> re_show_v6 env v6)"

definition show_socket_addr :: "runtime_env \<Rightarrow> ip_addr \<Rightarrow> u16 \<Rightarrow> rstring" where
  "show_socket_addr env ip port =
     (case ip of
        V4 v4 \<Rightarrow> show_addr v4 port
      | V6 v6 \<Rightarrow> str ''['' @ re_show_v6 env v6 @ str '']:'' @ show_nat (unat port))"

definition UNSPECIFIED :: ip_addr where
  "UNSPECIFIED = V4 0"

section \<open>Binding\<close>

text \<open>\<open>bind_addr\<close>: whether the bind succeeded.\<close>

definition bind_addr :: "runtime_env \<Rightarrow> ip_addr \<Rightarrow> supervisor \<Rightarrow> bool \<times> supervisor" where
  "bind_addr env ip s =
     (let a = show_ip env ip; r = re_bind env a (sv_proxy_port s)
      in (is_ok r, send_server (SetBindAddr a (sv_proxy_port s) r) s))"

definition bind_wildcard :: "runtime_env \<Rightarrow> supervisor \<Rightarrow> supervisor" where
  "bind_wildcard env s = snd (bind_addr env UNSPECIFIED s)"

definition request_wildcard_fallback :: "rstring \<Rightarrow> supervisor \<Rightarrow> supervisor" where
  "request_wildcard_fallback reason s =
     (if sv_fallback_pending s then s
      else send_event (BindFallbackRequested reason) (s\<lparr>sv_fallback_pending := True\<rparr>))"

definition bind_failed_reason :: "rstring \<Rightarrow> rstring" where
  "bind_failed_reason addr =
     str ''Binding the media server to '' @ addr @
     str '' failed, so the Chromecast could not reach the stream. The app wants to fall back to binding all interfaces (0.0.0.0).''"

definition rebind_to_lan_ip :: "runtime_env \<Rightarrow> supervisor \<Rightarrow> supervisor" where
  "rebind_to_lan_ip env s =
     (case bind_addr env (sv_lan_ip s) s of
        (ok, s') \<Rightarrow>
          if ok then s'
          else if sv_wildcard_consented s' then bind_wildcard env s'
          else request_wildcard_fallback
                 (bind_failed_reason (show_socket_addr env (sv_lan_ip s) (sv_proxy_port s))) s')"

text \<open>The path shared by a discovered receiver and a manual address.\<close>

definition select_device :: "runtime_env \<Rightarrow> cast_device \<Rightarrow> supervisor \<Rightarrow> supervisor" where
  "select_device env device s =
     (let s = s\<lparr>sv_lan_ip := select_lan_ip (re_interfaces env) (re_local env) (Some (re_addr_ip env (cd_addr device)))\<rparr>;
          s = send_cast (Select device) s
      in rebind_to_lan_ip env s)"

section \<open>Commands\<close>

definition SCREEN_MIME :: rstring where
  "SCREEN_MIME = str ''video/mp4''"

definition content_type_for_url :: "runtime_env \<Rightarrow> rstring \<Rightarrow> rstring" where
  "content_type_for_url env raw =
     mime_for_extension (case re_url_path env raw of Some path \<Rightarrow> last (split_on 46 path) | None \<Rightarrow> [])"

definition refresh_displays :: "runtime_env \<Rightarrow> supervisor \<Rightarrow> supervisor" where
  "refresh_displays env s =
     (case re_displays env of Some (Inr names) \<Rightarrow> send_event (DisplaysUpdated names) s | _ \<Rightarrow> s)"

definition retire_screen :: "supervisor \<Rightarrow> supervisor" where
  "retire_screen s =
     (case sv_screen s of Some old \<Rightarrow> s\<lparr>sv_screen := None, sv_retired := sv_retired s @ [old]\<rparr> | None \<Rightarrow> s)"

definition set_active_source :: "active_source \<Rightarrow> supervisor \<Rightarrow> supervisor" where
  "set_active_source source s = send_server (SetSource source) (s\<lparr>sv_current_source := Some source\<rparr>)"

definition select_display :: "runtime_env \<Rightarrow> rstring \<Rightarrow> supervisor \<Rightarrow> supervisor" where
  "select_display env mon s =
     (let s = set_active_source (Screen mon) (retire_screen s) in
      case re_screen env of
        Some (Inr _) \<Rightarrow> s\<lparr>sv_screen := Some mon\<rparr>
      | Some (Inl e) \<Rightarrow> send_event (StreamError e) s
      | None \<Rightarrow> send_event (StreamError (str ''screen pipeline failed to start'')) s)"

definition play_command :: "runtime_env \<Rightarrow> supervisor \<Rightarrow> supervisor" where
  "play_command env s =
     (case sv_current_source s of
        None \<Rightarrow> s
      | Some source \<Rightarrow>
          (let port = re_bound_port env in
           if port = 0 then s
           else
             (let content_id = str ''http://'' @ show_ip env (sv_lan_ip s) @ str '':'' @ show_nat (unat port) @ str ''/stream'' in
              case source of
                File path \<Rightarrow> send_cast (Load content_id (mime_for_path path) Buffered) s
              | Url raw \<Rightarrow> send_cast (Load content_id (content_type_for_url env raw) Buffered) s
              | Screen _ \<Rightarrow> send_cast (Load content_id SCREEN_MIME Live) s)))"

definition rescan_command :: "runtime_env \<Rightarrow> supervisor \<Rightarrow> supervisor" where
  "rescan_command env s =
     (let s = s\<lparr>sv_rescan := sv_rescan s + 1\<rparr> in
      if sv_mdns s then s
      else (case re_mdns_bind env of
              Inr _ \<Rightarrow> s\<lparr>sv_mdns := True, sv_rescan := 0\<rparr>
            | Inl _ \<Rightarrow> s))"

definition handle_app_command :: "runtime_env \<Rightarrow> app_command \<Rightarrow> supervisor \<Rightarrow> supervisor" where
  "handle_app_command env c s =
     (case c of
        SelectReceiver device \<Rightarrow> select_device env device s
      | ManualConnect addr \<Rightarrow> select_device env (from_manual_addr addr) s
      | BindFallback consent \<Rightarrow>
          (let s = s\<lparr>sv_fallback_pending := False\<rparr> in
           if consent then bind_wildcard env (s\<lparr>sv_wildcard_consented := True\<rparr>) else s)
      | SelectSource tab \<Rightarrow> if tab = Display then refresh_displays env s else s
      | SelectDisplay mon \<Rightarrow> select_display env mon s
      | SelectFile path \<Rightarrow> set_active_source (File path) s
      | SelectUrl url \<Rightarrow> set_active_source (Url url) s
      | PlayCommand \<Rightarrow> play_command env s
      | PauseCommand \<Rightarrow> send_cast Pause s
      | StopCommand \<Rightarrow> send_cast Stop s
      | SetVolumeCommand level \<Rightarrow> send_cast (SetVolume level (sv_muted s)) (s\<lparr>sv_last_volume := level\<rparr>)
      | Mute muted \<Rightarrow> send_cast (SetVolume (sv_last_volume s) muted) (s\<lparr>sv_muted := muted\<rparr>)
      | SetProxyPort port \<Rightarrow> send_server (SetPort port (re_port_bind env)) (s\<lparr>sv_proxy_port := port\<rparr>)
      | Rescan \<Rightarrow> rescan_command env s)"

section \<open>Events of the connection task\<close>

definition mismatch_message :: "cast_device \<Rightarrow> fingerprint \<Rightarrow> fingerprint \<Rightarrow> rstring" where
  "mismatch_message device previous current =
     str ''Security notice: the certificate presented by '' @ cd_name device @ str '' ('' @ cd_addr device @
     str '') does not match the one first seen for this receiver. SHA-256 changed from '' @
     fingerprint_to_hex previous @ str '' to '' @ fingerprint_to_hex current @
     str ''. This may mean the device was replaced or that a man-in-the-middle is intercepting the connection. The connection proceeded; see the log file for details.''"

definition forward_connection_event :: "(connection_error \<Rightarrow> rstring) \<Rightarrow> connection_event \<Rightarrow> supervisor \<Rightarrow> supervisor" where
  "forward_connection_event show_error e s =
     (case e of
        EvConnected device \<Rightarrow> send_event (ReceiverConnected device) s
      | EvDisconnected device \<Rightarrow> send_event (ReceiverDisconnected device) s
      | EvError err \<Rightarrow> send_event (ConnectionError (show_error err)) s
      | EvReady _ _ \<Rightarrow> s
      | EvCertificateMismatch device previous current \<Rightarrow>
          send_event (CertificateWarning (mismatch_message device previous current)) s
      | EvMediaStatus playing buffering \<Rightarrow> send_event (MediaStatus playing buffering) s
      | EvVolume level muted \<Rightarrow>
          send_event (Volume level muted) (s\<lparr>sv_last_volume := level, sv_muted := muted\<rparr>))"

section \<open>The supervisor task\<close>

definition NO_RECEIVER_REASON :: rstring where
  "NO_RECEIVER_REASON = str ''No Chromecast receiver is selected yet, so the app cannot determine which network interface the receiver is on. The app wants to fall back to binding all interfaces (0.0.0.0) so the media server is reachable once a receiver is chosen.''"

definition supervisor_init :: "runtime_env \<Rightarrow> u16 \<Rightarrow> supervisor" where
  "supervisor_init env initial_port =
     \<lparr>sv_events = [], sv_cast = [], sv_server = [], sv_screen = None, sv_retired = [], sv_mdns = False,
      sv_rescan = 0, sv_lan_ip = select_lan_ip (re_interfaces env) (re_local env) None,
      sv_proxy_port = initial_port, sv_wildcard_consented = False, sv_fallback_pending = False,
      sv_current_source = None, sv_last_volume = 0, sv_muted = False, sv_running = True, sv_shutdown = []\<rparr>"

text \<open>Up to the loop; \<open>discovery\<close> is how binding the mDNS socket went, with how its error prints.\<close>

definition supervise_start :: "runtime_env \<Rightarrow> rstring + unit \<Rightarrow> u16 \<Rightarrow> supervisor" where
  "supervise_start env discovery initial_port =
     (let s = refresh_displays env (supervisor_init env initial_port);
          s = (case discovery of
                 Inr _ \<Rightarrow> s\<lparr>sv_mdns := True\<rparr>
               | Inl e \<Rightarrow> send_event (ConnectionError (str ''mDNS discovery failed: '' @ e)) s)
      in request_wildcard_fallback NO_RECEIVER_REASON s)"

text \<open>After the loop: the HTTP server, the cast session with its last events, mDNS, the screen.\<close>

definition coordinated_shutdown :: "(connection_error \<Rightarrow> rstring) \<Rightarrow> connection_event list \<Rightarrow> supervisor \<Rightarrow> supervisor" where
  "coordinated_shutdown show_error drained s =
     (let s = send_server ServerShutdown s;
          s = s\<lparr>sv_shutdown := sv_shutdown s @ [HttpStopped]\<rparr>;
          s = send_cast Shutdown s;
          s = fold (forward_connection_event show_error) drained s;
          s = s\<lparr>sv_shutdown := sv_shutdown s @ [CastStopped]\<rparr>;
          s = (if sv_mdns s then s\<lparr>sv_shutdown := sv_shutdown s @ [MdnsStopped]\<rparr> else s);
          s = (case sv_screen s of
                 Some mon \<Rightarrow> s\<lparr>sv_screen := None, sv_shutdown := sv_shutdown s @ [ScreenJoined mon]\<rparr> | None \<Rightarrow> s)
      in s\<lparr>sv_running := False\<rparr>)"

text \<open>\<open>SvEnd\<close> is every reason to leave the loop: the GUI is gone, a task has ended, or the shutdown
  token; it comes with the events the connection task still sends.\<close>

datatype supervisor_input =
    SvCommand runtime_env app_command
  | SvConnection connection_event
  | SvPortChanged
  | SvEnd "connection_event list"

definition supervisor_step :: "(connection_error \<Rightarrow> rstring) \<Rightarrow> supervisor \<Rightarrow> supervisor_input \<Rightarrow> supervisor" where
  "supervisor_step show_error s i =
     (if \<not> sv_running s then s
      else (case i of
        SvCommand env c \<Rightarrow> handle_app_command env c s
      | SvConnection e \<Rightarrow> forward_connection_event show_error e s
      | SvPortChanged \<Rightarrow> s
      | SvEnd drained \<Rightarrow> coordinated_shutdown show_error drained s))"

end
