(* ===== verification/Runtime_Properties.thy ===== *)
theory Runtime_Properties
  imports Runtime
begin

text \<open>
  Properties of the supervisor, several of them of the supervisor together with the media server it
  drives: the wildcard address is never bound without the user's consent, the user is asked one
  question at a time, the advertised URL is where the server listens, and the events of the
  connection task reach the GUI.
\<close>

section \<open>Consent\<close>

lemma show_ipv4_inj [simp]: "show_ipv4 a = show_ipv4 b \<longleftrightarrow> a = b"
  using show_addr_inj [of a 0 b 0] by (auto simp: show_addr_def)

lemma bind_ips_append [simp]: "bind_ips (is @ js) = bind_ips is \<union> bind_ips js"
proof (induction "is")
  case (Cons i "is")
  then show ?case using bind_ips_Cons [of i "is @ js"] bind_ips_Cons [of i "is"] by auto
qed simp

text \<open>No interface and no route has the address \<open>0.0.0.0\<close>, as the operating system guarantees.\<close>

definition addresses_specified :: "runtime_env \<Rightarrow> bool" where
  "addresses_specified env \<longleftrightarrow> re_local env \<noteq> Some (V4 0) \<and>
     (case re_interfaces env of Inr interfaces \<Rightarrow> list_all (\<lambda>i. \<forall>netmask. in_addr i \<noteq> IfV4 0 netmask) interfaces | Inl _ \<Rightarrow> True)"

lemma candidate_addr: "candidate i = Some c \<Longrightarrow> \<exists>netmask. in_addr i = IfV4 (if_ip c) netmask"
  by (cases "in_addr i") (auto simp: candidate_def split: if_splits)

lemma select_lan_ip_specified:
  assumes "addresses_specified env"
  shows "\<exists>v4. select_lan_ip (re_interfaces env) (re_local env) receiver = V4 v4 \<and> v4 \<noteq> 0"
proof -
  have listed: "if_ip c \<noteq> 0"
    if "re_interfaces env = Inr interfaces" "c \<in> set (List.map_filter candidate (filter in_oper_up interfaces))"
    for interfaces c
    using assms that candidate_addr [of _ c]
    by (fastforce simp: addresses_specified_def candidates_iff list_all_iff)
  have route: "v4 \<noteq> 0" if "default_route_ip (re_local env) = Some v4" for v4
    using assms that by (auto simp: addresses_specified_def default_route_ip_def split: option.splits ip_addr.splits if_splits)
  show ?thesis
    using listed route
    by (auto simp: select_lan_ip_def select_lan_ip_from_def LOCALHOST_def Let_def find_Some_iff
        split: sum.splits option.splits ip_addr.splits)
qed

text \<open>Nothing has been bound but specified addresses.\<close>

definition unexposed :: "supervisor \<Rightarrow> bool" where
  "unexposed s \<longleftrightarrow> \<not> sv_wildcard_consented s \<and> (\<exists>v4. sv_lan_ip s = V4 v4 \<and> v4 \<noteq> 0) \<and>
     show_ipv4 0 \<notin> bind_ips (sv_server s)"

lemma unexposed_send_event [simp]: "unexposed (send_event e s) = unexposed s"
  by (simp add: unexposed_def send_event_def)

lemma unexposed_cast [simp]: "unexposed (send_cast c s) = unexposed s"
  by (simp add: unexposed_def send_cast_def)

lemma unexposed_updates [simp]:
  "unexposed (s\<lparr>sv_fallback_pending := b\<rparr>) = unexposed s" "unexposed (s\<lparr>sv_screen := m\<rparr>) = unexposed s"
  "unexposed (s\<lparr>sv_retired := r\<rparr>) = unexposed s" "unexposed (s\<lparr>sv_mdns := d\<rparr>) = unexposed s"
  "unexposed (s\<lparr>sv_rescan := n\<rparr>) = unexposed s" "unexposed (s\<lparr>sv_proxy_port := p\<rparr>) = unexposed s"
  "unexposed (s\<lparr>sv_current_source := c\<rparr>) = unexposed s" "unexposed (s\<lparr>sv_last_volume := v\<rparr>) = unexposed s"
  "unexposed (s\<lparr>sv_muted := mu\<rparr>) = unexposed s" "unexposed (s\<lparr>sv_running := ru\<rparr>) = unexposed s"
  "unexposed (s\<lparr>sv_shutdown := sh\<rparr>) = unexposed s"
  by (simp_all add: unexposed_def)

lemma unexposed_server: "unexposed s \<Longrightarrow> bind_ips [c] = {} \<Longrightarrow> unexposed (send_server c s)"
  by (auto simp: unexposed_def send_server_def)

lemma unexposed_request [simp]: "unexposed (request_wildcard_fallback reason s) = unexposed s"
  by (simp add: request_wildcard_fallback_def)

lemma unexposed_select_device:
  assumes "unexposed s" "addresses_specified env"
  shows "unexposed (select_device env device s)"
proof -
  obtain v4 where ip: "select_lan_ip (re_interfaces env) (re_local env) (Some (re_addr_ip env (cd_addr device))) = V4 v4"
      "v4 \<noteq> 0"
    using select_lan_ip_specified [OF assms(2)] by blast
  let ?s = "send_cast (Select device) (s\<lparr>sv_lan_ip := V4 v4\<rparr>)"
  have "unexposed (snd (bind_addr env (V4 v4) ?s))" "\<not> sv_wildcard_consented (snd (bind_addr env (V4 v4) ?s))"
    using assms(1) ip(2) by (auto simp: unexposed_def bind_addr_def send_cast_def send_server_def show_ip_def Let_def)
  then show ?thesis
    by (auto simp: select_device_def rebind_to_lan_ip_def ip(1) Let_def send_cast_def split: prod.splits)
qed

lemma unexposed_command:
  assumes "unexposed s" "addresses_specified env" "c \<noteq> BindFallback True"
  shows "unexposed (handle_app_command env c s)"
  using assms
  by (cases c)
    (auto simp: handle_app_command_def unexposed_select_device refresh_displays_def select_display_def set_active_source_def
      retire_screen_def play_command_def rescan_command_def Let_def intro!: unexposed_server
      split: option.splits sum.splits active_source.splits)

lemma unexposed_forward [simp]: "unexposed (forward_connection_event sh e s) = unexposed s"
  by (simp add: forward_connection_event_def split: connection_event.splits)

lemma unexposed_forward_all [simp]: "unexposed (fold (forward_connection_event sh) es s) = unexposed s"
  by (induction es arbitrary: s) simp_all

lemma unexposed_step:
  assumes "unexposed s" "\<And>env c. i = SvCommand env c \<Longrightarrow> addresses_specified env \<and> c \<noteq> BindFallback True"
  shows "unexposed (supervisor_step sh s i)"
  using assms
  by (cases i)
    (auto simp: supervisor_step_def coordinated_shutdown_def unexposed_command Let_def unexposed_server
      split: option.splits)

lemma unexposed_start:
  assumes "addresses_specified env"
  shows "unexposed (supervise_start env discovery port)"
  using select_lan_ip_specified [OF assms, of None]
  by (auto simp: supervise_start_def refresh_displays_def supervisor_init_def unexposed_def Let_def
      request_wildcard_fallback_def send_event_def split: sum.splits option.splits)

lemma no_wildcard_listener:
  assumes "addresses_specified env0"
    and "\<And>env c. SvCommand env c \<in> set inputs \<Longrightarrow> addresses_specified env \<and> c \<noteq> BindFallback True"
    and "s = run (supervisor_step show_error) (supervise_start env0 discovery port) inputs"
    and "bind_ips server_inputs \<subseteq> bind_ips (sv_server s)"
  shows "ms_listener (run server_step (server_start None out) server_inputs) \<noteq> Some (show_ipv4 0, p)"
proof -
  have "unexposed (run (supervisor_step show_error) s inputs)" if "unexposed s" for s
    using that assms(2)
  proof (induction inputs arbitrary: s)
    case (Cons i "inputs")
    have "unexposed (supervisor_step show_error s i)" using Cons.prems by (intro unexposed_step) auto
    then show ?case using Cons.IH [of "supervisor_step show_error s i"] Cons.prems(2) by auto
  qed simp
  then have "show_ipv4 0 \<notin> bind_ips (sv_server s)"
    using unexposed_start [OF assms(1)] unfolding assms(3) by (auto simp: unexposed_def)
  moreover have "listens_within (bind_ips (sv_server s)) (run server_step (server_start None out) server_inputs)"
    using assms(4) by (intro listens_within_run) (simp_all add: listens_within_def server_start_def)
  ultimately show ?thesis by (auto simp: listens_within_def)
qed

text \<open>C2: the media server is not exposed without the user's consent. As long as the user has not
  answered a request with yes, no run of the supervisor makes the media server listen on
  \<open>0.0.0.0\<close>, whatever commands are given, binds fail or ports change, and whatever else the server
  meets between the supervisor's commands.\<close>

theorem wildcard_only_with_consent:
  assumes "addresses_specified env0"
    and "\<And>env c. SvCommand env c \<in> set inputs \<Longrightarrow> addresses_specified env \<and> c \<noteq> BindFallback True"
    and "s = run (supervisor_step show_error) (supervise_start env0 discovery port) inputs"
    and "bind_ips server_inputs \<subseteq> bind_ips (sv_server s)"
  shows "ms_listener (run server_step (server_start None out) server_inputs) \<noteq> Some (show_ipv4 0, p)"
  using assms by (rule no_wildcard_listener)

text \<open>An environment: one interface, a manual address on its subnet, binds that succeed or fail.\<close>

definition sample_env :: "io_error + u16 \<Rightarrow> u16 \<Rightarrow> runtime_env" where
  "sample_env bind port =
     \<lparr>re_interfaces = Inr [\<lparr>in_name = str ''eth0'', in_oper_up = True, in_addr = IfV4 0xC0A80105 0xFFFFFF00\<rparr>],
      re_local = None, re_addr_ip = (\<lambda>_. V4 0xC0A80109), re_bind = (\<lambda>_ _. bind), re_port_bind = bind,
      re_bound_port = port, re_displays = None, re_screen = None, re_mdns_bind = Inl OtherIo,
      re_url_path = (\<lambda>_. None), re_show_v6 = (\<lambda>b. b)\<rparr>"

lemma sample_env_simps [simp]:
  "re_bind (sample_env bind port) a p = bind" "re_port_bind (sample_env bind port) = bind"
  "re_bound_port (sample_env bind port) = port" "re_displays (sample_env bind port) = None"
  "show_ip (sample_env bind port) (V4 v4) = show_ipv4 v4"
  by (simp_all add: sample_env_def show_ip_def)

lemma sample_lan_ip [simp]:
  "select_lan_ip (re_interfaces (sample_env bind port)) (re_local (sample_env bind port))
     (Some (re_addr_ip (sample_env bind port) addr)) = V4 0xC0A80105"
proof -
  have "select_lan_ip (Inr [\<lparr>in_name = str ''eth0'', in_oper_up = True, in_addr = IfV4 0xC0A80105 0xFFFFFF00\<rparr>]) None
      (Some (V4 0xC0A80109)) = V4 0xC0A80105"
    by code_simp
  then show ?thesis by (simp add: sample_env_def)
qed

lemma sample_ips [simp]: "show_ipv4 0xC0A80105 = str ''192.168.1.5''" "show_ipv4 0 = str ''0.0.0.0''"
  by code_simp+

lemma sample_url:
  "str ''http://'' @ str ''192.168.1.5'' @ str '':'' @ show_nat (unat (8080 :: u16)) @ str ''/stream'' =
     str ''http://192.168.1.5:8080/stream''"
  "mime_for_path (str ''/a.mp4'') = str ''video/mp4''"
  by (simp add: str_def show_nat.simps, code_simp)

lemmas supervisor_eval = supervise_start_def supervisor_init_def refresh_displays_def request_wildcard_fallback_def
  send_event_def send_cast_def send_server_def handle_app_command_def set_active_source_def select_device_def rebind_to_lan_ip_def
  bind_addr_def bind_wildcard_def UNSPECIFIED_def supervisor_step_def Let_def

lemma sample_env_specified: "addresses_specified (sample_env bind port)"
  by (simp add: addresses_specified_def sample_env_def)

theorem wildcard_only_with_consent_witness:
  "let s = run (supervisor_step (\<lambda>_. [])) (supervise_start (sample_env (Inl OtherIo) 0) (Inr ()) 8080)
         [SvCommand (sample_env (Inl OtherIo) 0) (ManualConnect (str ''192.168.1.9:8009'')),
          SvCommand (sample_env (Inr 9090) 0) (SetProxyPort 9090)]
   in ms_listener (run server_step (server_start None (Inl OtherIo)) (sv_server s)) \<noteq> Some (show_ipv4 0, 9090)"
  unfolding Let_def
  by (rule wildcard_only_with_consent [of "sample_env (Inl OtherIo) 0"
        "[SvCommand (sample_env (Inl OtherIo) 0) (ManualConnect (str ''192.168.1.9:8009'')),
          SvCommand (sample_env (Inr 9090) 0) (SetProxyPort 9090)]", OF _ _ refl subset_refl])
    (auto simp: sample_env_specified)

section \<open>One question at a time\<close>

definition requests :: "backend_event list \<Rightarrow> nat" where
  "requests es = length (filter (\<lambda>e. \<exists>reason. e = BindFallbackRequested reason) es)"

definition answers :: "supervisor_input list \<Rightarrow> nat" where
  "answers is = length (filter (\<lambda>i. \<exists>env consent. i = SvCommand env (BindFallback consent)) is)"

lemma requests_append [simp]: "requests (es @ fs) = requests es + requests fs"
  by (simp add: requests_def)

definition asked :: "nat \<Rightarrow> supervisor \<Rightarrow> bool" where
  "asked n s \<longleftrightarrow> requests (sv_events s) \<le> n + of_bool (sv_fallback_pending s)"

lemma asked_send_event: "asked n s \<Longrightarrow> \<nexists>reason. e = BindFallbackRequested reason \<Longrightarrow> asked n (send_event e s)"
  by (auto simp: asked_def send_event_def requests_def)

lemma asked_other [simp]:
  "asked n (send_cast c s) = asked n s" "asked n (send_server i s) = asked n s"
  "asked n (s\<lparr>sv_screen := m\<rparr>) = asked n s" "asked n (s\<lparr>sv_retired := r\<rparr>) = asked n s"
  "asked n (s\<lparr>sv_mdns := d\<rparr>) = asked n s" "asked n (s\<lparr>sv_rescan := k\<rparr>) = asked n s"
  "asked n (s\<lparr>sv_proxy_port := p\<rparr>) = asked n s" "asked n (s\<lparr>sv_current_source := a\<rparr>) = asked n s"
  "asked n (s\<lparr>sv_last_volume := v\<rparr>) = asked n s" "asked n (s\<lparr>sv_muted := mu\<rparr>) = asked n s"
  "asked n (s\<lparr>sv_running := ru\<rparr>) = asked n s" "asked n (s\<lparr>sv_shutdown := sh\<rparr>) = asked n s"
  "asked n (s\<lparr>sv_lan_ip := ip\<rparr>) = asked n s" "asked n (s\<lparr>sv_wildcard_consented := w\<rparr>) = asked n s"
  by (simp_all add: asked_def send_cast_def send_server_def)

lemma asked_request: "asked n s \<Longrightarrow> asked n (request_wildcard_fallback reason s)"
  by (auto simp: asked_def request_wildcard_fallback_def send_event_def requests_def)

lemma asked_bind [simp]:
  "asked n (snd (bind_addr env ip s)) = asked n s" "asked n (bind_wildcard env s) = asked n s"
  by (simp_all add: bind_addr_def bind_wildcard_def Let_def)

lemma asked_rebind: "asked n s \<Longrightarrow> asked n (rebind_to_lan_ip env s)"
  using asked_bind(1) [of n env "sv_lan_ip s" s]
  by (cases "bind_addr env (sv_lan_ip s) s") (simp add: rebind_to_lan_ip_def asked_request)

lemma asked_select_device: "asked n s \<Longrightarrow> asked n (select_device env device s)"
  by (simp add: select_device_def Let_def asked_rebind)

lemma asked_command:
  assumes "asked n s"
  shows "asked (n + (if \<exists>consent. c = BindFallback consent then 1 else 0)) (handle_app_command env c s)"
proof (cases c)
  case (BindFallback consent)
  have "asked (Suc n) (s\<lparr>sv_fallback_pending := False\<rparr>)"
    using assms by (auto simp: asked_def of_bool_def split: if_splits)
  then show ?thesis by (simp add: BindFallback handle_app_command_def Let_def)
qed (use assms asked_select_device in
    \<open>auto simp: handle_app_command_def refresh_displays_def select_display_def set_active_source_def retire_screen_def
      play_command_def rescan_command_def Let_def intro!: asked_send_event split: option.splits sum.splits active_source.splits\<close>)

lemma asked_forward: "asked n s \<Longrightarrow> asked n (forward_connection_event sh e s)"
  by (auto simp: forward_connection_event_def intro!: asked_send_event split: connection_event.splits)

lemma asked_forward_all: "asked n s \<Longrightarrow> asked n (fold (forward_connection_event sh) es s)"
  by (induction es arbitrary: s) (auto simp: asked_forward)

lemma asked_step:
  assumes "asked n s"
  shows "asked (n + answers [i]) (supervisor_step sh s i)"
proof (cases "sv_running s")
  case True
  show ?thesis
  proof (cases i)
    case (SvCommand env c)
    have "answers [i] = (if \<exists>consent. c = BindFallback consent then 1 else 0)"
      by (auto simp: SvCommand answers_def)
    with asked_command [OF assms, of c env] True show ?thesis by (simp add: SvCommand supervisor_step_def)
  qed (use True assms in \<open>auto simp: supervisor_step_def coordinated_shutdown_def answers_def asked_forward Let_def
      intro!: asked_forward_all split: option.splits\<close>)
next
  case False
  then show ?thesis using assms by (auto simp: supervisor_step_def asked_def)
qed

text \<open>The user is asked one question at a time. In every run the number of consent requests shown
  exceeds the number of answers by at most one, and only while a request is outstanding.\<close>

theorem one_consent_request_at_a_time:
  "requests (sv_events (run (supervisor_step show_error) (supervise_start env discovery port) inputs)) \<le>
     answers inputs +
     of_bool (sv_fallback_pending (run (supervisor_step show_error) (supervise_start env discovery port) inputs))"
proof -
  have "asked (n + answers inputs) (run (supervisor_step show_error) s inputs)" if "asked n s" for n s
    using that
  proof (induction inputs arbitrary: n s)
    case Nil
    then show ?case by (simp add: answers_def)
  next
    case (Cons i "inputs")
    have "answers (i # inputs) = answers [i] + answers inputs" by (simp add: answers_def)
    with Cons.IH [OF asked_step [OF Cons.prems, of i show_error]] show ?case by (simp add: add.assoc)
  qed
  from this [of 0] have "asked (answers inputs) (run (supervisor_step show_error) (supervise_start env discovery port) inputs)"
    if "asked 0 (supervise_start env discovery port)"
    using that by simp
  moreover have "asked 0 (supervise_start env discovery port)"
    unfolding supervise_start_def Let_def
    by (intro asked_request)
      (auto simp: asked_def refresh_displays_def supervisor_init_def send_event_def requests_def
        split: sum.splits option.splits)
  ultimately show ?thesis by (simp only: asked_def)
qed

section \<open>The advertised URL\<close>

lemma select_lan_ip_v4: "\<exists>v4. select_lan_ip interfaces local receiver = V4 v4"
  by (auto simp: select_lan_ip_def select_lan_ip_from_def Let_def split: sum.splits option.splits ip_addr.splits)

text \<open>The URL given to the receiver is where the media server listens. After a receiver has been
  selected and its bind has succeeded, \<open>Play\<close> sends one \<open>LOAD\<close> whose URL has the address and the port
  of the server's listener, also for an ephemeral port; it is a live stream exactly for the screen.\<close>

theorem advertised_url_is_served:
  assumes "re_bind env (show_ip env (select_lan_ip (re_interfaces env) (re_local env) (Some (re_addr_ip env (cd_addr device)))))
      (sv_proxy_port s) = Inr actual" "actual \<noteq> 0"
    and "s1 = handle_app_command env (SelectReceiver device) s" "sv_server s1 = sv_server s @ cmds"
    and "ms_running ms" "ms1 = run server_step ms cmds"
    and "sv_current_source s = Some source" "re_bound_port env' = ms_bound_port ms1"
  shows "\<exists>a p content_type stream_type. ms_listener ms1 = Some (a, p) \<and>
    sv_cast (handle_app_command env' PlayCommand s1) = sv_cast s @ [Select device,
      Load (str ''http://'' @ a @ str '':'' @ show_nat (unat p) @ str ''/stream'') content_type stream_type] \<and>
    (stream_type = Live \<longleftrightarrow> (\<exists>mon. source = Screen mon))"
proof -
  obtain v4 where ip: "select_lan_ip (re_interfaces env) (re_local env) (Some (re_addr_ip env (cd_addr device))) = V4 v4"
    using select_lan_ip_v4 by blast
  have bind: "re_bind env (show_ipv4 v4) (sv_proxy_port s) = Inr actual" using assms(1) by (simp add: ip show_ip_def)
  have s1: "s1 = s\<lparr>sv_lan_ip := V4 v4, sv_cast := sv_cast s @ [Select device],
      sv_server := sv_server s @ [SetBindAddr (show_ipv4 v4) (sv_proxy_port s) (Inr actual)]\<rparr>"
    by (simp add: assms(3) handle_app_command_def select_device_def rebind_to_lan_ip_def bind_addr_def send_cast_def
        send_server_def ip show_ip_def bind Let_def)
  then have "cmds = [SetBindAddr (show_ipv4 v4) (sv_proxy_port s) (Inr actual)]" using assms(4) by simp
  then have ms1: "ms_listener ms1 = Some (show_ipv4 v4, actual)" "ms_bound_port ms1 = actual"
    using assms(5,6) by (simp_all add: server_step_simps)
  show ?thesis
    using assms(2,7,8) ms1
    by (cases source) (simp_all add: s1 handle_app_command_def play_command_def send_cast_def show_ip_def Let_def)
qed

theorem advertised_url_is_served_witness:
  "let env = sample_env (Inr 8080) 0;
       s = handle_app_command env (SelectFile (str ''/a.mp4'')) (supervise_start env (Inr ()) 0);
       s1 = handle_app_command env (SelectReceiver (from_manual_addr (str ''192.168.1.9:8009''))) s
   in sv_cast (handle_app_command (sample_env (Inr 8080) 8080) PlayCommand s1) =
      [Select (from_manual_addr (str ''192.168.1.9:8009'')),
       Load (str ''http://192.168.1.5:8080/stream'') (str ''video/mp4'') Buffered]"
proof -
  let ?env = "sample_env (Inr 8080) 0" and ?d = "from_manual_addr (str ''192.168.1.9:8009'')"
  let ?s = "handle_app_command ?env (SelectFile (str ''/a.mp4'')) (supervise_start ?env (Inr ()) 0)"
  let ?s1 = "handle_app_command ?env (SelectReceiver ?d) ?s"
  let ?ms = "server_start None (Inl OtherIo)"
  have srv: "sv_server ?s1 = sv_server ?s @ [SetBindAddr (str ''192.168.1.5'') 0 (Inr 8080)]"
    by (simp add: supervisor_eval)
  have port: "re_bound_port (sample_env (Inr 8080) 8080) =
      ms_bound_port (run server_step ?ms [SetBindAddr (str ''192.168.1.5'') 0 (Inr 8080)])"
    by (simp add: server_step_simps server_start_def)
  have "\<exists>a p content_type stream_type.
      ms_listener (run server_step ?ms [SetBindAddr (str ''192.168.1.5'') 0 (Inr 8080)]) = Some (a, p) \<and>
      sv_cast (handle_app_command (sample_env (Inr 8080) 8080) PlayCommand ?s1) = sv_cast ?s @ [Select ?d,
        Load (str ''http://'' @ a @ str '':'' @ show_nat (unat p) @ str ''/stream'') content_type stream_type] \<and>
      (stream_type = Live \<longleftrightarrow> (\<exists>mon. File (str ''/a.mp4'') = Screen mon))"
    by (rule advertised_url_is_served [OF _ _ refl srv _ refl _ port, of 8080])
      (simp_all add: server_start_def supervisor_eval)
  then show ?thesis using sample_url by (simp add: supervisor_eval play_command_def)
qed

text \<open>After a failed rebind the program still advertises the port of the listener it has dropped.
  The server's bound port keeps its old value when a bind fails, so \<open>Play\<close>, which is meant to be
  ignored while the server is not bound, sends a \<open>LOAD\<close> for a URL nobody serves.\<close>

theorem stale_port_advertised:
  "let step = supervisor_step (\<lambda>_. []); addr = str ''192.168.1.9:8009'';
       s = run step (supervise_start (sample_env (Inr 8080) 0) (Inr ()) 8080)
         [SvCommand (sample_env (Inr 8080) 0) (SelectFile (str ''/a.mp4'')),
          SvCommand (sample_env (Inr 8080) 0) (ManualConnect addr),
          SvCommand (sample_env (Inl OtherIo) 8080) (ManualConnect addr)];
       ms = run server_step (server_start None (Inl OtherIo)) (sv_server s);
       s' = step s (SvCommand (sample_env (Inr 8080) (ms_bound_port ms)) PlayCommand)
   in ms_listener ms = None \<and>
      sv_cast s' = sv_cast s @ [Load (str ''http://192.168.1.5:8080/stream'') (str ''video/mp4'') Buffered]"
  using sample_url by (simp add: supervisor_eval play_command_def server_step_simps server_start_def)

text \<open>Consent given late widens the exposure for no reason. The request shown at start-up can be
  answered after a receiver has been selected and its interface bound; the answer yes then replaces
  that listener by one on all interfaces.\<close>

theorem late_consent_replaces_listener:
  "let step = supervisor_step (\<lambda>_. []); env = sample_env (Inr 8080) 8080;
       s = run step (supervise_start env (Inr ()) 8080) [SvCommand env (ManualConnect (str ''192.168.1.9:8009''))];
       listener = (\<lambda>s. ms_listener (run server_step (server_start None (Inl OtherIo)) (sv_server s)))
   in sv_fallback_pending s \<and> listener s = Some (str ''192.168.1.5'', 8080) \<and>
      listener (step s (SvCommand env (BindFallback True))) = Some (str ''0.0.0.0'', 8080)"
  by (simp add: supervisor_eval server_step_simps server_start_def)

section \<open>Events\<close>

text \<open>The GUI event of a connection event, the GUI events that can come from one, and the connection
  events a run receives before it ends.\<close>

fun gui_event :: "(connection_error \<Rightarrow> rstring) \<Rightarrow> connection_event \<Rightarrow> backend_event option" where
  "gui_event sh (EvConnected device) = Some (ReceiverConnected device)"
| "gui_event sh (EvDisconnected device) = Some (ReceiverDisconnected device)"
| "gui_event sh (EvError e) = Some (ConnectionError (sh e))"
| "gui_event sh (EvReady _ _) = None"
| "gui_event sh (EvMediaStatus playing buffering) = Some (MediaStatus playing buffering)"
| "gui_event sh (EvVolume level muted) = Some (Volume level muted)"
| "gui_event sh (EvCertificateMismatch device previous current) =
     Some (CertificateWarning (mismatch_message device previous current))"

fun of_connection :: "backend_event \<Rightarrow> bool" where
  "of_connection (ReceiversUpdated _) = False"
| "of_connection (DisplaysUpdated _) = False"
| "of_connection (StreamError _) = False"
| "of_connection (BindFallbackRequested _) = False"
| "of_connection _ = True"

fun connection_events :: "supervisor_input list \<Rightarrow> connection_event list" where
  "connection_events [] = []"
| "connection_events (SvConnection e # is) = e # connection_events is"
| "connection_events (SvEnd es # is) = es"
| "connection_events (_ # is) = connection_events is"

abbreviation shown :: "supervisor \<Rightarrow> backend_event list" where
  "shown s \<equiv> filter of_connection (sv_events s)"

lemma shown_forward:
  "shown (forward_connection_event sh e s) = shown s @ List.map_filter (gui_event sh) [e]"
  by (cases e) (simp_all add: forward_connection_event_def send_event_def map_filter_simps)

lemma shown_forward_all:
  "shown (fold (forward_connection_event sh) es s) = shown s @ List.map_filter (gui_event sh) es"
proof (induction es arbitrary: s)
  case (Cons e es)
  then show ?case by (simp add: shown_forward map_filter_simps split: option.splits)
qed (simp add: map_filter_simps)

lemma forward_running [simp]: "sv_running (forward_connection_event sh e s) = sv_running s"
  by (simp add: forward_connection_event_def send_event_def split: connection_event.splits)

lemma handle_app_command_shown:
  "shown (handle_app_command env c s) = shown s \<and> sv_running (handle_app_command env c s) = sv_running s"
  by (cases c)
    (auto simp: handle_app_command_def select_device_def rebind_to_lan_ip_def bind_addr_def bind_wildcard_def
      request_wildcard_fallback_def refresh_displays_def select_display_def set_active_source_def retire_screen_def
      play_command_def rescan_command_def send_cast_def send_server_def send_event_def Let_def
      split: option.splits sum.splits active_source.splits)

lemma coordinated_shutdown_shown:
  "shown (coordinated_shutdown sh es s) = shown s @ List.map_filter (gui_event sh) es"
  "\<not> sv_running (coordinated_shutdown sh es s)"
  by (simp_all add: coordinated_shutdown_def Let_def shown_forward_all send_server_def send_cast_def split: option.splits)

lemma stopped_run: "\<not> sv_running s \<Longrightarrow> run (supervisor_step sh) s is = s"
  by (induction "is") (simp_all add: supervisor_step_def)

lemma shown_run:
  assumes "sv_running s"
  shows "shown (run (supervisor_step show_error) s inputs) =
    shown s @ List.map_filter (gui_event show_error) (connection_events inputs)"
  using assms
proof (induction inputs arbitrary: s)
  case Nil
  then show ?case by (simp add: map_filter_simps)
next
  case (Cons i "inputs")
  show ?case
  proof (cases i)
    case (SvConnection e)
    with Cons show ?thesis
      by (simp add: supervisor_step_def shown_forward map_filter_simps split: option.splits)
  next
    case (SvEnd es)
    with Cons.prems have "supervisor_step show_error s i = coordinated_shutdown show_error es s"
      by (simp add: supervisor_step_def)
    with SvEnd show ?thesis by (simp add: coordinated_shutdown_shown stopped_run)
  qed (use Cons handle_app_command_shown in \<open>simp_all add: supervisor_step_def\<close>)
qed

text \<open>The GUI sees the connection task's events, all of them and in order, each as its own event,
  up to the last one the task sends while it is shut down. Only \<open>Ready\<close> is internal. A certificate
  mismatch always becomes a warning that names the device and both fingerprints.\<close>

theorem connection_events_reach_gui:
  assumes "sv_running s"
  shows "shown (run (supervisor_step show_error) s inputs) =
    shown s @ List.map_filter (gui_event show_error) (connection_events inputs)"
  using assms by (rule shown_run)

theorem connection_events_reach_gui_witness:
  "let d = from_manual_addr (str ''10.0.0.2:8009'') in
   shown (run (supervisor_step (\<lambda>_. [])) (supervise_start (sample_env (Inr 1) 1) (Inr ()) 1)
     [SvConnection (EvConnected d), SvConnection (EvReady [] []), SvEnd [EvDisconnected d], SvConnection (EvConnected d)]) =
   [ReceiverConnected d, ReceiverDisconnected d]"
proof -
  let ?s = "supervise_start (sample_env (Inr 1) 1) (Inr ()) 1"
  have "sv_running ?s" "shown ?s = []" by (simp_all add: supervisor_eval)
  then show ?thesis
    using connection_events_reach_gui [of ?s "\<lambda>_. []"
        "[SvConnection (EvConnected d), SvConnection (EvReady [] []), SvEnd [EvDisconnected d], SvConnection (EvConnected d)]" for d]
    by (simp add: map_filter_simps)
qed

section \<open>Play after pause\<close>

lemma no_play_select [simp]: "Play \<in> set (sv_cast (select_device env device s)) \<longleftrightarrow> Play \<in> set (sv_cast s)"
  by (auto simp: select_device_def rebind_to_lan_ip_def bind_addr_def bind_wildcard_def request_wildcard_fallback_def
      send_event_def send_cast_def send_server_def Let_def)

lemma no_play_command: "Play \<notin> set (sv_cast s) \<Longrightarrow> Play \<notin> set (sv_cast (handle_app_command env c s))"
  by (cases c)
    (auto simp: handle_app_command_def bind_addr_def bind_wildcard_def refresh_displays_def
      select_display_def set_active_source_def retire_screen_def play_command_def rescan_command_def send_cast_def
      send_server_def send_event_def Let_def split: option.splits sum.splits active_source.splits)

lemma forward_cast [simp]: "sv_cast (forward_connection_event sh e s) = sv_cast s"
  by (simp add: forward_connection_event_def send_event_def split: connection_event.splits)

lemma forward_all_cast [simp]: "sv_cast (fold (forward_connection_event sh) es s) = sv_cast s"
  by (induction es arbitrary: s) simp_all

interpretation no_resume: step_invariant "supervise_start env discovery port" "supervisor_step sh" "\<lambda>_. True"
  "\<lambda>s. Play \<notin> set (sv_cast s)" for env discovery port sh
proof
  show "Play \<notin> set (sv_cast (supervise_start env discovery port))"
    by (simp add: supervise_start_def refresh_displays_def supervisor_init_def request_wildcard_fallback_def
        send_event_def Let_def split: sum.splits option.splits)
next
  fix s :: supervisor and i
  assume "Play \<notin> set (sv_cast s)"
  then show "Play \<notin> set (sv_cast (supervisor_step sh s i))"
    by (cases i)
      (auto simp: supervisor_step_def no_play_command coordinated_shutdown_def send_cast_def send_server_def Let_def
        split: option.splits)
qed

text \<open>The play button never resumes. No run of the supervisor sends the receiver the command \<open>PLAY\<close>;
  the button always sends a \<open>LOAD\<close>, so playing after a pause starts the media from its beginning.\<close>

theorem play_never_resumes:
  "Play \<notin> set (sv_cast (run (supervisor_step sh) (supervise_start env discovery port) inputs))"
  by (rule no_resume.inv_run) (simp add: list_all_iff)

end
