(* ===== verification/Manual_Addr.thy ===== *)
theory Manual_Addr
  imports Lan_Ip
begin

text \<open>
  The address a user types (\<open>parse_manual_addr\<close> in \<open>src/src/state.rs\<close>), with the standard library's
  parsers of \<open>IpAddr\<close> and \<open>SocketAddr\<close> it calls. A parser takes the text and gives a value and the
  rest.
\<close>

section \<open>The parsers of \<open>std::net\<close>\<close>

type_synonym 'a parser = "rstring \<Rightarrow> ('a \<times> rstring) option"

definition then_parse :: "'a parser \<Rightarrow> ('a \<Rightarrow> 'b parser) \<Rightarrow> 'b parser" where
  "then_parse p f s = (case p s of None \<Rightarrow> None | Some (x, r) \<Rightarrow> f x r)"

definition read_given_char :: "u8 \<Rightarrow> unit parser" where
  "read_given_char c s = (case s of d # r \<Rightarrow> if d = c then Some ((), r) else None | [] \<Rightarrow> None)"

text \<open>\<open>read_number\<close> in base 10 and base 16: all the digits there are, not too many of them, no
  overflow, and for an octet no superfluous leading zero.\<close>

definition read_decimal :: "nat option \<Rightarrow> bool \<Rightarrow> nat \<Rightarrow> nat parser" where
  "read_decimal max_digits allow_zero_prefix bound s =
     (let ds = takeWhile is_ascii_digit s in
      if ds = [] \<or> (case max_digits of Some m \<Rightarrow> length ds > m | None \<Rightarrow> False) then None
      else if \<not> allow_zero_prefix \<and> hd ds = 48 \<and> length ds > 1 then None
      else map_option (\<lambda>v. (v, dropWhile is_ascii_digit s)) (parse_digits bound 0 ds))"

definition hex_value :: "u8 \<Rightarrow> nat" where
  "hex_value c = (if is_ascii_digit c then unat (c - 48) else unat (to_ascii_lowercase_byte c - 87))"

definition read_hex_group :: "u16 parser" where
  "read_hex_group s =
     (let ds = takeWhile is_ascii_hexdigit s in
      if ds = [] \<or> length ds > 4 then None
      else Some (of_nat (foldl (\<lambda>v c. v * 16 + hex_value c) 0 ds), dropWhile is_ascii_hexdigit s))"

definition read_octet :: "u8 parser" where
  "read_octet s = map_option (\<lambda>(v, r). (of_nat v, r)) (read_decimal (Some 3) False 256 s)"

definition read_ipv4_addr :: "ipv4 parser" where
  "read_ipv4_addr =
     then_parse read_octet (\<lambda>a. then_parse (read_given_char 46) (\<lambda>_.
     then_parse read_octet (\<lambda>b. then_parse (read_given_char 46) (\<lambda>_.
     then_parse read_octet (\<lambda>c. then_parse (read_given_char 46) (\<lambda>_.
     then_parse read_octet (\<lambda>d r. Some (u32_from_be_bytes [a, b, c, d], r))))))))"

text \<open>\<open>read_groups\<close> with the index of the next group: the groups read, whether they end with an IPv4
  address, and the rest.\<close>

fun read_groups :: "nat \<Rightarrow> nat \<Rightarrow> rstring \<Rightarrow> u16 list \<times> bool \<times> rstring" where
  "read_groups 0 i s = ([], False, s)"
| "read_groups (Suc n) i s =
     (let sep = (if i = 0 then (\<lambda>r. Some ((), r)) else read_given_char 58) in
      case (if n > 0 then then_parse sep (\<lambda>_. read_ipv4_addr) s else None) of
        Some (v4, r) \<Rightarrow> ([ucast (drop_bit 16 v4), ucast v4], True, r)
      | None \<Rightarrow>
          (case then_parse sep (\<lambda>_. read_hex_group) s of
             None \<Rightarrow> ([], False, s)
           | Some (g, r) \<Rightarrow> (case read_groups n (Suc i) r of (gs, v4, r') \<Rightarrow> (g # gs, v4, r'))))"

definition groups_bytes :: "u16 list \<Rightarrow> bytes" where
  "groups_bytes gs = concat (map u16_to_be_bytes gs)"

definition read_ipv6_addr :: "bytes parser" where
  "read_ipv6_addr s =
     (case read_groups 8 0 s of
        (h, h_v4, r) \<Rightarrow>
          if length h = 8 then Some (groups_bytes h, r)
          else if h_v4 then None
          else (case strip_prefix [58, 58] r of
                  None \<Rightarrow> None
                | Some r' \<Rightarrow>
                    (case read_groups (7 - length h) 0 r' of
                       (t, _, r'') \<Rightarrow> Some (groups_bytes (h @ replicate (8 - length h - length t) 0 @ t), r''))))"

definition read_port :: "u16 parser" where
  "read_port = then_parse (read_given_char 58)
     (\<lambda>_ s. map_option (\<lambda>(v, r). (of_nat v, r)) (read_decimal None True 65536 s))"

definition read_scope_id :: "rstring \<Rightarrow> rstring" where
  "read_scope_id s =
     (case then_parse (read_given_char 37) (\<lambda>_. read_decimal None True (2 ^ 32)) s of Some (_, r) \<Rightarrow> r | None \<Rightarrow> s)"

definition read_socket_addr_v6 :: "(ip_addr \<times> u16) parser" where
  "read_socket_addr_v6 =
     then_parse (read_given_char 91) (\<lambda>_. then_parse read_ipv6_addr (\<lambda>ip s.
     then_parse (read_given_char 93) (\<lambda>_. then_parse read_port (\<lambda>port r. Some ((V6 ip, port), r))) (read_scope_id s)))"

definition whole :: "'a parser \<Rightarrow> rstring \<Rightarrow> 'a option" where
  "whole p s = (case p s of Some (x, []) \<Rightarrow> Some x | _ \<Rightarrow> None)"

definition parse_ip_addr :: "rstring \<Rightarrow> ip_addr option" where
  "parse_ip_addr s =
     (case read_ipv4_addr s of
        Some (ip, r) \<Rightarrow> if r = [] then Some (V4 ip) else None
      | None \<Rightarrow> map_option V6 (whole read_ipv6_addr s))"

definition parse_socket_addr :: "rstring \<Rightarrow> (ip_addr \<times> u16) option" where
  "parse_socket_addr s =
     (case then_parse read_ipv4_addr (\<lambda>ip. then_parse read_port (\<lambda>port r. Some ((V4 ip, port), r))) s of
        Some (x, r) \<Rightarrow> if r = [] then Some x else None
      | None \<Rightarrow> whole read_socket_addr_v6 s)"

section \<open>state.rs\<close>

definition DEFAULT_CAST_PORT :: u16 where
  "DEFAULT_CAST_PORT = 8009"

definition PORT_RANGE_MESSAGE :: rstring where
  "PORT_RANGE_MESSAGE = str ''port must be 1..=65535''"

definition parse_manual_port :: "rstring \<Rightarrow> rstring + u16" where
  "parse_manual_port port_str =
     (if port_str = [] then Inr DEFAULT_CAST_PORT
      else (case parse_uint 65536 port_str of
              None \<Rightarrow> Inl (str ''invalid port: '' @ port_str)
            | Some p \<Rightarrow> if p = 0 then Inl PORT_RANGE_MESSAGE else Inr (of_nat p)))"

definition parse_manual_addr :: "rstring \<Rightarrow> rstring \<Rightarrow> rstring + ip_addr \<times> u16" where
  "parse_manual_addr ip port_str =
     (let ip = trim ip; port_str = trim port_str in
      if ip = [] then Inl (str ''IP address is required'')
      else (case (if port_str = [] \<and> 58 \<in> set ip then parse_socket_addr ip else None) of
              Some addr \<Rightarrow> if snd addr = 0 then Inl PORT_RANGE_MESSAGE else Inr addr
            | None \<Rightarrow>
                (case parse_ip_addr ip of
                   None \<Rightarrow> Inl (str ''invalid IP address: '' @ ip)
                 | Some parsed_ip \<Rightarrow> rbind (parse_manual_port port_str) (\<lambda>port. Inr (parsed_ip, port)))))"

section \<open>Printed addresses are read back\<close>

lemma show_nat_hd: "hd (show_nat n) = 48 \<Longrightarrow> n = 0"
proof (induction n rule: show_nat.induct)
  case (1 n)
  show ?case
  proof (cases "n < 10")
    case True
    then have "hd (show_nat n) = 48 + of_nat n" by (subst show_nat.simps) simp
    then have "unat (48 + of_nat n :: u8) = 48" using 1(2) by simp
    with True show ?thesis by (simp add: unat_digit)
  next
    case False
    then have "show_nat n = show_nat (n div 10) @ [48 + of_nat (n mod 10)]" by (subst show_nat.simps) simp
    with 1(2) have "hd (show_nat (n div 10)) = 48" by simp
    with 1(1) [OF False] have "n div 10 = 0" by simp
    with False show ?thesis by simp
  qed
qed

lemma show_nat_short: "n < 1000 \<Longrightarrow> length (show_nat n) \<le> 3"
  by (subst show_nat.simps, auto, subst show_nat.simps, auto, subst show_nat.simps, auto)

lemma show_nat_0: "show_nat 0 = [48]"
  by (simp add: show_nat.simps)

text \<open>The text after a number starts with something else.\<close>

definition no_digit :: "rstring \<Rightarrow> bool" where
  "no_digit r \<longleftrightarrow> (case r of c # _ \<Rightarrow> \<not> is_ascii_digit c | [] \<Rightarrow> True)"

lemma digits_span:
  assumes "list_all is_ascii_digit ds" "no_digit r"
  shows "takeWhile is_ascii_digit (ds @ r) = ds" "dropWhile is_ascii_digit (ds @ r) = r"
  using assms by (cases r; auto simp: no_digit_def list_all_iff takeWhile_tail dropWhile_append3)+

lemma read_decimal_show:
  assumes "n < bound" "no_digit r" "\<And>m. max_digits = Some m \<Longrightarrow> length (show_nat n) \<le> m"
  shows "read_decimal max_digits zeros bound (show_nat n @ r) = Some (n, r)"
proof -
  have "hd (show_nat n) = 48 \<Longrightarrow> length (show_nat n) = 1" using show_nat_hd [of n] show_nat_0 by auto
  then show ?thesis
    using assms digits_span [OF show_nat_digits assms(2), of n] parse_digits_show_nat [OF assms(1)]
    by (auto simp: read_decimal_def Let_def not_less split: option.splits)
qed

lemma read_octet_show:
  assumes "no_digit r"
  shows "read_octet (show_nat (unat (b :: u8)) @ r) = Some (b, r)"
proof -
  have "unat b < 256" using unsigned_less [of b, where ?'a = nat] by simp
  then show ?thesis
    using assms read_decimal_show [of "unat b" 256 r "Some 3" False] show_nat_short [of "unat b"]
    by (simp add: read_octet_def)
qed

lemma read_ipv4_show:
  assumes "no_digit r"
  shows "read_ipv4_addr (show_ipv4 ip @ r) = Some (ip, r)"
proof -
  obtain a b c d where o: "u32_to_be_bytes ip = [a, b, c, d]" by (simp add: u32_to_be_bytes_def)
  then have ip: "u32_from_be_bytes [a, b, c, d] = ip"
    by (metis u32_be_round_trip)
  have dot: "no_digit (46 # s)" for s by (simp add: no_digit_def not_digit_sep)
  show ?thesis
    using assms by (simp add: show_ipv4_def ipv4_octets_def o read_ipv4_addr_def then_parse_def
        read_given_char_def read_octet_show dot ip del: u32_from_be_bytes.simps)
qed

lemma show_ipv4_set: "c \<in> set (show_ipv4 ip) \<Longrightarrow> is_ascii_digit c \<or> c = 46"
  using show_nat_digits by (auto simp: show_ipv4_def ipv4_octets_def u32_to_be_bytes_def list_all_iff)

lemma show_nat_ends: "is_ascii_digit (hd (show_nat n))" "is_ascii_digit (last (show_nat n))"
  using show_nat_digits [of n] by (simp_all add: list_all_iff)

lemma show_ipv4_ends:
  "show_ipv4 ip \<noteq> []" "is_ascii_digit (hd (show_ipv4 ip))" "is_ascii_digit (last (show_ipv4 ip))"
  using show_nat_ends
  by (simp_all add: show_ipv4_def ipv4_octets_def u32_to_be_bytes_def hd_append)

lemma trim_show_ipv4 [simp]: "trim (show_ipv4 ip) = show_ipv4 ip"
  by (intro trim_solid show_ipv4_ends digit_solid)

lemma trim_show_addr [simp]: "trim (show_addr ip port) = show_addr ip port"
  using show_nat_ends show_ipv4_ends [of ip]
  by (intro trim_solid digit_solid) (simp_all add: show_addr_def hd_append)

lemma parse_socket_addr_show: "parse_socket_addr (show_addr ip port) = Some (V4 ip, port)"
proof -
  have "unat port < 65536" using unsigned_less [of port, where ?'a = nat] by simp
  then have "read_port (58 # show_nat (unat port)) = Some (port, [])"
    using read_decimal_show [of "unat port" 65536 "[]" None True]
    by (simp add: read_port_def then_parse_def read_given_char_def no_digit_def)
  moreover have "read_ipv4_addr (show_addr ip port) = Some (ip, 58 # show_nat (unat port))"
    using read_ipv4_show [of "58 # show_nat (unat port)" ip] by (simp add: show_addr_def no_digit_def not_digit_sep)
  ultimately show ?thesis by (simp add: parse_socket_addr_def then_parse_def)
qed

lemma parse_ip_addr_show: "parse_ip_addr (show_ipv4 ip) = Some (V4 ip)"
  using read_ipv4_show [of "[]" ip] by (simp add: parse_ip_addr_def no_digit_def)

text \<open>Every IPv4 receiver address can be typed. An address as the program prints it is accepted
  with the port in its own field, after a colon in the address field, or, for the standard port, left
  out, and gives exactly that address; port 0 is refused either way.\<close>

theorem manual_addr_accepts_printed:
  assumes "port \<noteq> 0"
  shows "parse_manual_addr (show_ipv4 ip) (show_nat (unat port)) = Inr (V4 ip, port) \<and>
    parse_manual_addr (show_addr ip port) [] = Inr (V4 ip, port) \<and>
    parse_manual_addr (show_ipv4 ip) [] = Inr (V4 ip, DEFAULT_CAST_PORT) \<and>
    parse_manual_addr (show_ipv4 ip) (show_nat 0) = Inl PORT_RANGE_MESSAGE \<and>
    parse_manual_addr (show_addr ip 0) [] = Inl PORT_RANGE_MESSAGE"
proof -
  have colon: "58 \<notin> set (show_ipv4 ip)" using show_ipv4_set [of 58 ip] by (auto simp: not_digit_sep)
  have p: "unat port < 65536" "unat port \<noteq> 0"
    using unsigned_less [of port, where ?'a = nat] assms by (simp_all add: unat_eq_0)
  have t: "trim (show_nat n) = show_nat n" for n using show_nat_digits by (rule trim_digits)
  have "parse_manual_addr (show_ipv4 ip) (show_nat (unat port)) = Inr (V4 ip, port)"
    "parse_manual_addr (show_ipv4 ip) [] = Inr (V4 ip, DEFAULT_CAST_PORT)"
    "parse_manual_addr (show_ipv4 ip) (show_nat 0) = Inl PORT_RANGE_MESSAGE"
    using p colon show_ipv4_ends(1)
    by (simp_all add: parse_manual_addr_def parse_ip_addr_show parse_manual_port_def rbind_def t Let_def)
  moreover have "show_addr i q \<noteq> []" "58 \<in> set (show_addr i q)" for i q by (simp_all add: show_addr_def)
  then have "parse_manual_addr (show_addr ip q) [] = (if q = 0 then Inl PORT_RANGE_MESSAGE else Inr (V4 ip, q))" for q
    by (simp add: parse_manual_addr_def parse_socket_addr_show)
  ultimately show ?thesis using assms by simp
qed

theorem manual_addr_accepts_printed_witness:
  "parse_manual_addr (show_addr 0x7F000001 18009) [] = Inr (V4 0x7F000001, 18009)"
  using manual_addr_accepts_printed [of 18009 "0x7F000001"] by simp

end
