(* ===== verification/Dashboard.thy ===== *)
theory Dashboard
  imports Manual_Addr Media_Serve
begin

text \<open>
  The state behind the GUI (\<open>src/src/app.rs\<close>): what each backend event does to it, what each user
  action does to it and sends to the backend, and the throttle of the volume slider. Drawing a
  frame is the subject of \<open>Dashboard_View\<close>. The conversions between \<open>f32\<close> and percent are
  arguments.
\<close>

section \<open>The volume throttle\<close>

definition MIN_INTERVAL :: duration where
  "MIN_INTERVAL = from_millis 100"

record volume_throttle =
  vt_last_send :: "instant option"
  vt_pending :: "u32 option"

definition throttle_new :: volume_throttle where
  "throttle_new = \<lparr>vt_last_send = None, vt_pending = None\<rparr>"

definition note_change :: "u32 \<Rightarrow> volume_throttle \<Rightarrow> volume_throttle" where
  "note_change level t = t\<lparr>vt_pending := Some level\<rparr>"

definition throttle_poll :: "instant \<Rightarrow> volume_throttle \<Rightarrow> u32 option \<times> volume_throttle" where
  "throttle_poll now t =
     (case vt_pending t of
        None \<Rightarrow> (None, t)
      | Some level \<Rightarrow>
          if (case vt_last_send t of None \<Rightarrow> True | Some l \<Rightarrow> now - l \<ge> MIN_INTERVAL)
          then (Some level, \<lparr>vt_last_send = Some now, vt_pending = None\<rparr>)
          else (None, t))"

section \<open>The dashboard\<close>

datatype discovery_state = Scanning | NoReceivers | DiscoveryError rstring | DiscoveryReady

datatype connection_state = NotSeen | ConnectedTo cast_device | NotConnected

datatype playback_state = PlaybackIdle | PlaybackPlaying | PlaybackPaused | PlaybackBuffering

record dashboard =
  db_receivers :: "cast_device list"
  db_selected_receiver :: "cast_device option"
  db_source_tab :: source_tab
  db_displays :: "rstring list"
  db_commands :: "app_command list"
  db_channel_open :: bool
  db_discovery :: discovery_state
  db_connection :: connection_state
  db_playback :: playback_state
  db_volume :: u8
  db_muted :: bool
  db_throttle :: volume_throttle
  db_volume_dragging :: bool
  db_error_banner :: "rstring option"
  db_security_warning :: "rstring option"
  db_bind_fallback :: "rstring option"
  db_has_active_source :: bool
  db_ffmpeg_available :: bool
  db_selected_display :: "rstring option"
  db_url_input :: rstring
  db_settings_open :: bool
  db_proxy_port :: u16
  db_port_draft :: u16
  db_picker_open :: bool
  db_manual_ip :: rstring
  db_manual_port :: rstring
  db_manual_error :: "rstring option"
  db_manual_open :: bool

definition dashboard_new :: "bool \<Rightarrow> dashboard" where
  "dashboard_new ffmpeg =
     \<lparr>db_receivers = [], db_selected_receiver = None, db_source_tab = Display, db_displays = [],
      db_commands = [], db_channel_open = True, db_discovery = Scanning, db_connection = NotSeen,
      db_playback = PlaybackIdle, db_volume = 0, db_muted = False, db_throttle = throttle_new,
      db_volume_dragging = False, db_error_banner = None, db_security_warning = None, db_bind_fallback = None,
      db_has_active_source = False, db_ffmpeg_available = ffmpeg, db_selected_display = None, db_url_input = [],
      db_settings_open = False, db_proxy_port = 8080, db_port_draft = 8080, db_picker_open = False, db_manual_ip = [], db_manual_port = [],
      db_manual_error = None, db_manual_open = False\<rparr>"

definition show_error_banner :: "rstring \<Rightarrow> dashboard \<Rightarrow> dashboard" where
  "show_error_banner message d = d\<lparr>db_error_banner := Some message\<rparr>"

definition dismiss_error :: "dashboard \<Rightarrow> dashboard" where
  "dismiss_error d = d\<lparr>db_error_banner := None\<rparr>"

section \<open>Events\<close>

text \<open>\<open>percent\<close> is the volume in percent of a level, rounded.\<close>

definition apply_event :: "(u32 \<Rightarrow> u8) \<Rightarrow> backend_event \<Rightarrow> dashboard \<Rightarrow> dashboard" where
  "apply_event percent e d =
     (case e of
        ReceiversUpdated devices \<Rightarrow>
          dismiss_error (d\<lparr>db_receivers := devices,
            db_discovery := (if devices = [] then NoReceivers else DiscoveryReady)\<rparr>)
      | DisplaysUpdated displays \<Rightarrow> dismiss_error (d\<lparr>db_displays := displays\<rparr>)
      | ReceiverConnected device \<Rightarrow>
          dismiss_error (d\<lparr>db_selected_receiver := Some device, db_connection := ConnectedTo device\<rparr>)
      | ReceiverDisconnected device \<Rightarrow>
          (let d = (if db_selected_receiver d = Some device then d\<lparr>db_selected_receiver := None\<rparr> else d)
           in dismiss_error (d\<lparr>db_connection := NotConnected, db_playback := PlaybackIdle\<rparr>))
      | ConnectionError message \<Rightarrow>
          (let d = show_error_banner message (d\<lparr>db_connection := NotConnected, db_playback := PlaybackIdle\<rparr>)
           in if db_receivers d = [] then d\<lparr>db_discovery := DiscoveryError message\<rparr> else d)
      | StreamError message \<Rightarrow> show_error_banner message d
      | MediaStatus playing buffering \<Rightarrow>
          dismiss_error (d\<lparr>db_playback :=
            (if buffering then PlaybackBuffering else if playing then PlaybackPlaying else PlaybackPaused)\<rparr>)
      | Volume level muted \<Rightarrow>
          (let d = (if db_volume_dragging d then d else d\<lparr>db_volume := percent level\<rparr>)
           in dismiss_error (d\<lparr>db_muted := muted\<rparr>))
      | BindFallbackRequested reason \<Rightarrow> d\<lparr>db_bind_fallback := Some reason\<rparr>
      | CertificateWarning message \<Rightarrow> d\<lparr>db_security_warning := Some message\<rparr>)"

definition handle_events :: "(u32 \<Rightarrow> u8) \<Rightarrow> backend_event list \<Rightarrow> dashboard \<Rightarrow> nat \<times> dashboard" where
  "handle_events percent es d = (length es, fold (apply_event percent) es d)"

section \<open>Commands\<close>

definition dispatch :: "app_command \<Rightarrow> dashboard \<Rightarrow> dashboard" where
  "dispatch c d = (if db_channel_open d then d\<lparr>db_commands := db_commands d @ [c]\<rparr> else d)"

definition select_receiver :: "cast_device \<Rightarrow> dashboard \<Rightarrow> dashboard" where
  "select_receiver device d = dispatch (SelectReceiver device) (d\<lparr>db_selected_receiver := Some device\<rparr>)"

definition retry_discovery :: "dashboard \<Rightarrow> dashboard" where
  "retry_discovery d = dispatch Rescan (d\<lparr>db_discovery := Scanning\<rparr>)"

text \<open>\<open>print\<close> is how a socket address prints.\<close>

definition try_manual_connect :: "(ip_addr \<times> u16 \<Rightarrow> rstring) \<Rightarrow> dashboard \<Rightarrow> bool \<times> dashboard" where
  "try_manual_connect print d =
     (case parse_manual_addr (db_manual_ip d) (db_manual_port d) of
        Inr addr \<Rightarrow>
          (True, dispatch (ManualConnect (print addr))
            (d\<lparr>db_manual_error := None, db_selected_receiver := Some (from_manual_addr (print addr))\<rparr>))
      | Inl message \<Rightarrow> (False, d\<lparr>db_manual_error := Some message\<rparr>))"

definition select_tab :: "source_tab \<Rightarrow> dashboard \<Rightarrow> dashboard" where
  "select_tab tab d = dispatch (SelectSource tab) (d\<lparr>db_source_tab := tab\<rparr>)"

definition select_display_cmd :: "rstring \<Rightarrow> dashboard \<Rightarrow> dashboard" where
  "select_display_cmd name d =
     dispatch (SelectDisplay name) (d\<lparr>db_selected_display := Some name, db_has_active_source := True\<rparr>)"

text \<open>The drop-down of the display tab: choosing the display already selected does nothing.\<close>

definition choose_display :: "rstring \<Rightarrow> dashboard \<Rightarrow> dashboard" where
  "choose_display name d = (if db_selected_display d \<noteq> Some name then select_display_cmd name d else d)"

definition select_file :: "bytes \<Rightarrow> dashboard \<Rightarrow> dashboard" where
  "select_file path d = dispatch (SelectFile path) (d\<lparr>db_has_active_source := True\<rparr>)"

definition select_url :: "rstring \<Rightarrow> dashboard \<Rightarrow> dashboard" where
  "select_url url d = dispatch (SelectUrl (trim url)) (d\<lparr>db_has_active_source := True\<rparr>)"

definition toggle_mute :: "bool \<Rightarrow> dashboard \<Rightarrow> dashboard" where
  "toggle_mute muted d = dispatch (Mute muted) (d\<lparr>db_muted := muted\<rparr>)"

definition save_proxy_port :: "u16 \<Rightarrow> dashboard \<Rightarrow> dashboard" where
  "save_proxy_port port d = dispatch (SetProxyPort port) (d\<lparr>db_proxy_port := port, db_port_draft := port\<rparr>)"

definition answer_bind_fallback :: "bool \<Rightarrow> dashboard \<Rightarrow> dashboard" where
  "answer_bind_fallback consent d = dispatch (BindFallback consent) (d\<lparr>db_bind_fallback := None\<rparr>)"

text \<open>\<open>level\<close> is the \<open>f32\<close> of a slider position.\<close>

definition set_volume_cmd :: "(u8 \<Rightarrow> u32) \<Rightarrow> u8 \<Rightarrow> dashboard \<Rightarrow> dashboard" where
  "set_volume_cmd level slider d = d\<lparr>db_throttle := note_change (level slider) (db_throttle d)\<rparr>"

definition poll_and_dispatch_volume :: "instant \<Rightarrow> dashboard \<Rightarrow> bool \<times> dashboard" where
  "poll_and_dispatch_volume now d =
     (case throttle_poll now (db_throttle d) of
        (None, t) \<Rightarrow> (False, d\<lparr>db_throttle := t\<rparr>)
      | (Some level, t) \<Rightarrow> (True, dispatch (SetVolumeCommand level) (d\<lparr>db_throttle := t\<rparr>)))"

definition dismiss_security_warning :: "dashboard \<Rightarrow> dashboard" where
  "dismiss_security_warning d = d\<lparr>db_security_warning := None\<rparr>"

text \<open>The picker's answer when it is polled: pending, cancelled, or a path.\<close>

definition poll_file_picker :: "bytes option option \<Rightarrow> dashboard \<Rightarrow> dashboard" where
  "poll_file_picker poll d =
     (if \<not> db_picker_open d then d
      else (case poll of
              Some (Some path) \<Rightarrow> select_file path (d\<lparr>db_picker_open := False\<rparr>)
            | Some None \<Rightarrow> d\<lparr>db_picker_open := False\<rparr>
            | None \<Rightarrow> d))"

section \<open>Enablement and validation\<close>

definition can_play :: "dashboard \<Rightarrow> bool" where
  "can_play d \<longleftrightarrow> db_selected_receiver d \<noteq> None \<and> db_has_active_source d"

definition can_stop :: "dashboard \<Rightarrow> bool" where
  "can_stop d \<longleftrightarrow> db_selected_receiver d \<noteq> None"

text \<open>\<open>validate_url\<close> of the URL tab.\<close>

definition gui_validate_url :: "(rstring \<Rightarrow> parsed_url option) \<Rightarrow> (rstring \<Rightarrow> bytes) \<Rightarrow> rstring \<Rightarrow> bool" where
  "gui_validate_url url_parse percent_decode input =
     (case url_parse (trim input) of
        None \<Rightarrow> False
      | Some parsed \<Rightarrow>
          if pu_scheme parsed = str ''http'' \<or> pu_scheme parsed = str ''https'' then pu_host parsed \<noteq> None
          else if pu_scheme parsed = str ''smb'' then is_ok (smb_url_parse url_parse percent_decode (trim input))
          else False)"

definition display_dropdown_enabled :: "dashboard \<Rightarrow> bool" where
  "display_dropdown_enabled d \<longleftrightarrow> db_ffmpeg_available d \<and> db_displays d \<noteq> []"

section \<open>What the GUI shows\<close>

text \<open>The state each part of the display has after a list of events, by the last event that bears on it.\<close>

fun last_connection :: "connection_state \<Rightarrow> backend_event list \<Rightarrow> connection_state" where
  "last_connection c [] = c"
| "last_connection c (ReceiverConnected device # es) = last_connection (ConnectedTo device) es"
| "last_connection c (ReceiverDisconnected _ # es) = last_connection NotConnected es"
| "last_connection c (ConnectionError _ # es) = last_connection NotConnected es"
| "last_connection c (_ # es) = last_connection c es"

fun last_receivers :: "cast_device list \<Rightarrow> backend_event list \<Rightarrow> cast_device list" where
  "last_receivers ds [] = ds"
| "last_receivers ds (ReceiversUpdated ds' # es) = last_receivers ds' es"
| "last_receivers ds (_ # es) = last_receivers ds es"

fun last_warning :: "rstring option \<Rightarrow> backend_event list \<Rightarrow> rstring option" where
  "last_warning w [] = w"
| "last_warning w (CertificateWarning m # es) = last_warning (Some m) es"
| "last_warning w (_ # es) = last_warning w es"

lemmas dashboard_simps = apply_event_def dismiss_error_def show_error_banner_def Let_def

lemma mirrored_events:
  "db_connection (fold (apply_event percent) es d) = last_connection (db_connection d) es \<and>
   db_receivers (fold (apply_event percent) es d) = last_receivers (db_receivers d) es \<and>
   db_security_warning (fold (apply_event percent) es d) = last_warning (db_security_warning d) es"
proof (induction es arbitrary: d)
  case (Cons e es)
  then show ?case by (cases e) (simp_all add: dashboard_simps)
qed simp

lemma last_warning_kept: "w \<noteq> None \<Longrightarrow> last_warning w es \<noteq> None"
  by (induction w es rule: last_warning.induct) simp_all

lemma last_warning_seen: "CertificateWarning m \<in> set es \<Longrightarrow> last_warning w es \<noteq> None"
  by (induction w es rule: last_warning.induct) (auto simp: last_warning_kept)

text \<open>The GUI mirrors the backend. After any list of events, drained in however many frames, the
  connection shown is that of the last connection event, the receivers listed are those of the last
  snapshot, and the security notice is that of the last certificate warning: no other event removes
  it.\<close>

theorem gui_mirrors_backend:
  "db_connection (snd (handle_events percent (es1 @ es2) (dashboard_new ffmpeg))) = last_connection NotSeen (es1 @ es2) \<and>
   db_receivers (snd (handle_events percent (es1 @ es2) (dashboard_new ffmpeg))) = last_receivers [] (es1 @ es2) \<and>
   db_security_warning (snd (handle_events percent (es1 @ es2) (dashboard_new ffmpeg))) = last_warning None (es1 @ es2) \<and>
   snd (handle_events percent es2 (snd (handle_events percent es1 (dashboard_new ffmpeg)))) =
     snd (handle_events percent (es1 @ es2) (dashboard_new ffmpeg))"
proof -
  have "db_connection (dashboard_new ffmpeg) = NotSeen" "db_receivers (dashboard_new ffmpeg) = []"
    "db_security_warning (dashboard_new ffmpeg) = None"
    by (simp_all add: dashboard_new_def)
  then show ?thesis by (simp add: handle_events_def mirrored_events del: fold_append) (simp add: fold_append)
qed

section \<open>The volume throttle\<close>

datatype throttle_input = Change u32 | Poll instant

text \<open>The throttle with what it has let through.\<close>

definition throttle_step ::
  "volume_throttle \<times> (instant \<times> u32) list \<Rightarrow> throttle_input \<Rightarrow> volume_throttle \<times> (instant \<times> u32) list" where
  "throttle_step ts i =
     (case ts of (t, sent) \<Rightarrow>
       (case i of
          Change level \<Rightarrow> (note_change level t, sent)
        | Poll now \<Rightarrow>
            (case throttle_poll now t of
               (Some level, t') \<Rightarrow> (t', sent @ [(now, level)])
             | (None, t') \<Rightarrow> (t', sent))))"

fun last_change :: "throttle_input list \<Rightarrow> u32 option" where
  "last_change [] = None"
| "last_change (Change level # is) = (case last_change is of None \<Rightarrow> Some level | Some l \<Rightarrow> Some l)"
| "last_change (Poll _ # is) = last_change is"

lemma last_change_snoc:
  "last_change (is @ [Change level]) = Some level" "last_change (is @ [Poll now]) = last_change is"
  by (induction "is" rule: last_change.induct; simp)+

definition throttle_inv :: "throttle_input list \<Rightarrow> volume_throttle \<times> (instant \<times> u32) list \<Rightarrow> bool" where
  "throttle_inv is ts = (case ts of (t, sent) \<Rightarrow>
     sorted_wrt (\<lambda>a b. fst a + MIN_INTERVAL \<le> fst b) sent \<and>
     vt_last_send t = (if sent = [] then None else Some (fst (last sent))) \<and>
     last_change is = (case vt_pending t of Some level \<Rightarrow> Some level
       | None \<Rightarrow> if sent = [] then None else Some (snd (last sent))))"

lemma sorted_wrt_last:
  assumes "sorted_wrt (\<lambda>a b. fst a + m \<le> fst b) xs" "xs \<noteq> []" "x \<in> set xs"
  shows "fst x \<le> (fst (last xs) :: nat)"
  using assms
proof (induction xs)
  case (Cons y ys)
  show ?case
  proof (cases "ys = []")
    case False
    then have "fst y + m \<le> fst (last ys)" using Cons.prems(1) by simp
    then have "fst y \<le> fst (last ys)" by (rule add_leD1)
    with False Cons show ?thesis by auto
  qed (use Cons in simp)
qed simp

lemma throttle_inv_step:
  assumes "throttle_inv is (t, sent)"
  shows "throttle_inv (is @ [i]) (throttle_step (t, sent) i)"
proof (cases i)
  case (Change level)
  then show ?thesis
    using assms by (simp add: throttle_inv_def throttle_step_def note_change_def last_change_snoc)
next
  case (Poll now)
  have "fst x + MIN_INTERVAL \<le> now"
    if "x \<in> set sent" "now - fst (last sent) \<ge> MIN_INTERVAL" for x
  proof -
    have "fst x \<le> fst (last sent)"
      using that(1) assms by (intro sorted_wrt_last [where xs = sent]) (auto simp: throttle_inv_def)
    moreover have "0 < MIN_INTERVAL" by (simp add: MIN_INTERVAL_def from_millis_def)
    ultimately show ?thesis using that(2) by linarith
  qed
  then show ?thesis
    using assms
    by (auto simp: Poll throttle_inv_def throttle_step_def throttle_poll_def last_change_snoc sorted_wrt_append
        split: option.splits if_splits)
qed

lemma throttle_inv_run: "throttle_inv is (foldl throttle_step (throttle_new, []) is)"
proof (induction "is" rule: rev_induct)
  case Nil
  show ?case by (simp add: throttle_inv_def throttle_new_def)
next
  case (snoc i "is")
  then show ?case
    using throttle_inv_step [of "is" "fst (foldl throttle_step (throttle_new, []) is)"
        "snd (foldl throttle_step (throttle_new, []) is)" i]
    by simp
qed

text \<open>The slider sends at most one volume per 100 milliseconds and the last position wins: whatever
  changes and polls there are, two volumes sent are at least that far apart, and when nothing is
  queued the last one sent is the last position of the slider.\<close>

theorem volume_throttled:
  assumes "foldl throttle_step (throttle_new, []) inputs = (t, sent)"
  shows "sorted_wrt (\<lambda>a b. fst a + MIN_INTERVAL \<le> fst b) sent \<and>
    (vt_pending t = None \<longrightarrow> last_change inputs = (if sent = [] then None else Some (snd (last sent))))"
  using throttle_inv_run [of inputs] assms by (auto simp: throttle_inv_def)

theorem volume_throttled_witness:
  "let inputs = [Change 1, Poll 0, Change 2, Poll 1, Change 3, Poll (from_millis 100)]
   in snd (foldl throttle_step (throttle_new, []) inputs) = [(0, 1), (from_millis 100, 3)] \<and>
      sorted_wrt (\<lambda>a b. fst a + MIN_INTERVAL \<le> fst b) (snd (foldl throttle_step (throttle_new, []) inputs))"
proof -
  let ?inputs = "[Change 1, Poll 0, Change 2, Poll 1, Change 3, Poll (from_millis 100)]"
  let ?ts = "foldl throttle_step (throttle_new, []) ?inputs"
  have "snd ?ts = [(0, 1), (from_millis 100, 3)]"
    by (simp add: throttle_step_def note_change_def throttle_poll_def throttle_new_def MIN_INTERVAL_def from_millis_def)
  moreover have "sorted_wrt (\<lambda>a b. fst a + MIN_INTERVAL \<le> fst b) (snd ?ts)"
    using volume_throttled [of ?inputs "fst ?ts" "snd ?ts"] by simp
  ultimately show ?thesis by (simp add: Let_def)
qed

section \<open>A failed display cannot be chosen again\<close>

text \<open>After the screen pipeline of a display has failed, choosing that display again in the
  drop-down sends nothing: the selection is kept through the failure, and only another display can be
  started.\<close>

theorem failed_display_not_restarted:
  assumes "db_channel_open d" "d' = apply_event percent (StreamError message) (select_display_cmd name d)"
  shows "choose_display name d' = d' \<and>
    (\<forall>other. other = name \<or> db_commands (choose_display other d') = db_commands d' @ [SelectDisplay other])"
  using assms by (auto simp: choose_display_def select_display_cmd_def dispatch_def dashboard_simps)

theorem failed_display_not_restarted_witness:
  "let d = apply_event (\<lambda>_. 0) (StreamError []) (select_display_cmd (str ''DP-1'') (dashboard_new True))
   in choose_display (str ''DP-1'') d = d"
  using failed_display_not_restarted [of "dashboard_new True" _ "\<lambda>_. 0" "[]" "str ''DP-1''", OF _ refl]
  by (simp add: dashboard_new_def)

end
