(* ===== verification/Dashboard_View.thy ===== *)
theory Dashboard_View
  imports Dashboard
begin

text \<open>
  One frame of the GUI (the rendering half of \<open>src/app.rs\<close>): the panels in the order \<open>ui\<close>
  draws them, each a function from the dashboard to the dashboard and the widgets it shows.

  egui is a parameter: a frame is given what the user did to it, at most one click, one edit of a
  field and one movement of the slider. A widget reacts only if it is shown, and a button only if it
  is enabled; these are the rules by which egui reports a response.
\<close>

section \<open>Widgets and input\<close>

datatype colour = Red | Amber | Green

datatype widget =
    Heading rstring
  | Text rstring
  | Colored colour rstring
  | Button rstring bool
  | Spinner
  | Selectable bool rstring
  | Field rstring
  | Combo bool rstring "rstring list"
  | Slider u8
  | Checkbox rstring bool
  | NumberField u16
  | Separator

datatype ui_click =
    ClickSettings | ClickManual | ClickConnect | ClickRetry | ClickReceiver nat | ClickTab source_tab
  | ClickDisplay nat | ClickBrowse | ClickApply | ClickPlay | ClickPause | ClickStop | ClickMute
  | ClickDismissSecurity | ClickDismissError | ClickSave | ClickCancel | ClickYes | ClickNo

datatype ui_edit = EditIp rstring | EditPort rstring | EditUrl rstring | EditProxyPort u16

record frame_input =
  fi_events :: "backend_event list"
  fi_now :: instant
  fi_click :: "ui_click option"
  fi_edit :: "ui_edit option"
  fi_slider :: "u8 option"
  fi_dragged :: bool
  fi_drag_stopped :: bool
  fi_picker :: "bytes option option"

text \<open>The conversions of the volume, how an address prints, and the URL parser.\<close>

record gui_env =
  ge_percent :: "u32 \<Rightarrow> u8"
  ge_level :: "u8 \<Rightarrow> u32"
  ge_print :: "ip_addr \<times> u16 \<Rightarrow> rstring"
  ge_url :: "rstring \<Rightarrow> parsed_url option"
  ge_decode :: "rstring \<Rightarrow> bytes"

definition clicked :: "ui_click \<Rightarrow> frame_input \<Rightarrow> bool" where
  "clicked c i \<longleftrightarrow> fi_click i = Some c"

section \<open>Actions of the controls\<close>

definition play_cmd :: "dashboard \<Rightarrow> dashboard" where
  "play_cmd = dispatch PlayCommand"

definition pause_cmd :: "dashboard \<Rightarrow> dashboard" where
  "pause_cmd = dispatch PauseCommand"

definition stop_cmd :: "dashboard \<Rightarrow> dashboard" where
  "stop_cmd = dispatch StopCommand"

definition set_volume_dragging :: "bool \<Rightarrow> dashboard \<Rightarrow> dashboard" where
  "set_volume_dragging dragging d = d\<lparr>db_volume_dragging := dragging\<rparr>"

definition start_file_picker :: "dashboard \<Rightarrow> dashboard" where
  "start_file_picker d = (if db_picker_open d then d else d\<lparr>db_picker_open := True\<rparr>)"

definition REPAINT_INTERVAL :: duration where
  "REPAINT_INTERVAL = from_millis 200"

definition REPAINT_SCANNING_INTERVAL :: duration where
  "REPAINT_SCANNING_INTERVAL = from_millis 100"

section \<open>The panels\<close>

text \<open>The bytes of the characters outside ASCII in the labels.\<close>

definition ellipsis :: rstring where
  "ellipsis = [0xE2, 0x80, 0xA6]"

definition top_bar :: "frame_input \<Rightarrow> dashboard \<Rightarrow> dashboard \<times> widget list" where
  "top_bar i d =
     (if clicked ClickSettings i then d\<lparr>db_settings_open := True\<rparr> else d,
      [Heading (str ''cast-app''), Button (str ''Settings'') True])"

text \<open>The fold-out for a manual address, shown while it is open.\<close>

definition manual_group :: "gui_env \<Rightarrow> frame_input \<Rightarrow> dashboard \<Rightarrow> dashboard \<times> widget list" where
  "manual_group env i d =
     (let d = (case fi_edit i of Some (EditIp s) \<Rightarrow> d\<lparr>db_manual_ip := s, db_manual_error := None\<rparr> | _ \<Rightarrow> d);
          ip = db_manual_ip d;
          d = (case fi_edit i of Some (EditPort s) \<Rightarrow> d\<lparr>db_manual_port := s, db_manual_error := None\<rparr> | _ \<Rightarrow> d);
          can_connect = (trim (db_manual_ip d) \<noteq> []);
          port = db_manual_port d;
          d = (if can_connect \<and> clicked ClickConnect i then snd (try_manual_connect (ge_print env) d) else d)
      in (d,
          [Text (str ''Direct IP without mDNS''), Field ip, Text (str ''Port''), Field port,
           Button (str ''Connect'') can_connect] @
          (if trim (db_manual_port d) = [] \<and> trim (db_manual_ip d) \<noteq> []
           then [Text (str ''Default port '' @ show_nat (unat DEFAULT_CAST_PORT) @ str '' will be used'')] else []) @
          (case db_manual_error d of Some e \<Rightarrow> [Colored Red e] | None \<Rightarrow> []) @ [Separator]))"

definition device_row_text :: "cast_device \<Rightarrow> rstring" where
  "device_row_text device = cd_name device @ [10] @ cd_addr device"

definition discovery_list :: "frame_input \<Rightarrow> dashboard \<Rightarrow> dashboard \<times> widget list" where
  "discovery_list i d =
     (case db_discovery d of
        Scanning \<Rightarrow> (d, [Spinner, Text (str ''Scanning'' @ ellipsis)])
      | NoReceivers \<Rightarrow> (d, [Text (str ''No receivers found'')])
      | DiscoveryError message \<Rightarrow>
          (if clicked ClickRetry i then retry_discovery d else d,
           [Colored Red (str ''Discovery error: '' @ message), Button (str ''Retry'') True])
      | DiscoveryReady \<Rightarrow>
          (case fi_click i of
             Some (ClickReceiver n) \<Rightarrow>
               if n < length (db_receivers d) then select_receiver (db_receivers d ! n) d else d
           | _ \<Rightarrow> d,
           map (\<lambda>device. Selectable (db_selected_receiver d = Some device) (device_row_text device)) (db_receivers d)))"

definition receivers_panel :: "gui_env \<Rightarrow> frame_input \<Rightarrow> dashboard \<Rightarrow> dashboard \<times> widget list" where
  "receivers_panel env i d =
     (let label = str ''Manual connection '' @ (if db_manual_open d then [0xE2, 0x96, 0xBE] else [0xE2, 0x96, 0xB8]);
          d = (if clicked ClickManual i then d\<lparr>db_manual_open := \<not> db_manual_open d\<rparr> else d);
          (d, manual) = (if db_manual_open d then manual_group env i d else (d, []));
          (d, listed) = discovery_list i d
      in (d, [Heading (str ''Receivers''), Button label True] @ manual @ listed))"

definition display_tab :: "frame_input \<Rightarrow> dashboard \<Rightarrow> dashboard \<times> widget list" where
  "display_tab i d =
     (let notice =
            (if \<not> db_ffmpeg_available d
             then [Colored Red (str ''ffmpeg not found on PATH '' @ [0xE2, 0x80, 0x94] @ str '' Display capture is unavailable.'')]
             else if db_displays d = [] then [Colored Amber (str ''No monitors detected.'')] else []);
          enabled = display_dropdown_enabled d;
          current = (case db_selected_display d of Some name \<Rightarrow> name | None \<Rightarrow> []);
          chosen = (case fi_click i of
              Some (ClickDisplay n) \<Rightarrow> if enabled \<and> n < length (db_displays d) then Some (db_displays d ! n) else None
            | _ \<Rightarrow> None)
      in (case chosen of Some name \<Rightarrow> choose_display name d | None \<Rightarrow> d,
          notice @ [Combo enabled current (db_displays d)]))"

definition local_file_tab :: "frame_input \<Rightarrow> dashboard \<Rightarrow> dashboard \<times> widget list" where
  "local_file_tab i d =
     (let d = (if clicked ClickBrowse i then start_file_picker d else d)
      in (d, [Button (str ''Browse'' @ ellipsis) True] @
             (if db_picker_open d then [Text (str ''Choose a media file'' @ ellipsis)] else [])))"

text \<open>Whether the field is valid is decided before it is edited.\<close>

definition web_url_tab :: "gui_env \<Rightarrow> frame_input \<Rightarrow> dashboard \<Rightarrow> dashboard \<times> widget list" where
  "web_url_tab env i d =
     (let valid = gui_validate_url (ge_url env) (ge_decode env) (db_url_input d);
          d = (case fi_edit i of Some (EditUrl s) \<Rightarrow> d\<lparr>db_url_input := s\<rparr> | _ \<Rightarrow> d);
          input = db_url_input d;
          d = (if valid \<and> clicked ClickApply i then select_url (trim (db_url_input d)) d else d)
      in (d,
          [Text (str ''Remote media URL (http:// or https://, or smb:// for anonymous network shares)''),
           Field input, Button (str ''Apply'') valid] @
          (if valid then []
           else [Colored Amber (str ''Enter an absolute http(s):// URL with a host, or an anonymous smb://host/share/file URL (no credentials).'')])))"

definition source_panel :: "gui_env \<Rightarrow> frame_input \<Rightarrow> dashboard \<Rightarrow> dashboard \<times> widget list" where
  "source_panel env i d =
     (let tabs = [(Display, str ''Display''), (LocalFile, str ''Local File''), (WebUrl, str ''Web URL'')];
          d0 = d;
          d = (case fi_click i of Some (ClickTab tab) \<Rightarrow> select_tab tab d | _ \<Rightarrow> d);
          (d, body) = (case db_source_tab d of
              Display \<Rightarrow> display_tab i d
            | LocalFile \<Rightarrow> local_file_tab i d
            | WebUrl \<Rightarrow> web_url_tab env i d)
      in (d, map (\<lambda>(tab, label). Selectable (db_source_tab d0 = tab) label) tabs @ [Separator] @ body))"

definition status_strip :: "dashboard \<Rightarrow> widget list" where
  "status_strip d =
     (case db_connection d of
        NotSeen \<Rightarrow> [Colored Amber [0xE2, 0x97, 0x8F], Text (str ''Scanning'')]
      | ConnectedTo device \<Rightarrow> [Colored Green [0xE2, 0x97, 0x8F], Text (str ''Connected '' @ cd_name device)]
      | NotConnected \<Rightarrow> [Colored Red [0xE2, 0x97, 0x8F], Text (str ''Disconnected'')]) @
     [Separator,
      Text (case db_playback d of
              PlaybackIdle \<Rightarrow> str ''Idle'' | PlaybackPlaying \<Rightarrow> str ''Playing''
            | PlaybackPaused \<Rightarrow> str ''Paused'' | PlaybackBuffering \<Rightarrow> str ''Buffering'')]"

text \<open>The slider takes values up to 100.\<close>

definition volume_slider :: "gui_env \<Rightarrow> frame_input \<Rightarrow> dashboard \<Rightarrow> dashboard" where
  "volume_slider env i d =
     (let d = (case fi_slider i of Some v \<Rightarrow> d\<lparr>db_volume := min v 100\<rparr> | None \<Rightarrow> d);
          d = (if fi_dragged i then set_volume_cmd (ge_level env) (db_volume d) (set_volume_dragging True d)
               else if fi_slider i \<noteq> None then set_volume_cmd (ge_level env) (db_volume d) d
               else d)
      in if fi_drag_stopped i then set_volume_dragging False d else d)"

definition controls_bar :: "gui_env \<Rightarrow> frame_input \<Rightarrow> dashboard \<Rightarrow> dashboard \<times> widget list" where
  "controls_bar env i d =
     (let can_transport = (db_selected_receiver d \<noteq> None);
          can_play_pause = can_play d;
          d = (if can_play_pause \<and> clicked ClickPlay i then play_cmd d else d);
          d = (if can_play_pause \<and> clicked ClickPause i then pause_cmd d else d);
          d = (if can_transport \<and> clicked ClickStop i then stop_cmd d else d);
          d = volume_slider env i d;
          shown = db_volume d;
          d = (if clicked ClickMute i then toggle_mute (\<not> db_muted d) d else d)
      in (d, [Button (str ''Play'') can_play_pause, Button (str ''Pause'') can_play_pause,
              Button (str ''Stop'') can_transport, Separator, Slider shown, Checkbox (str ''Mute'') (db_muted d)] @
             status_strip d))"

definition error_banner_bar :: "frame_input \<Rightarrow> dashboard \<Rightarrow> dashboard \<times> widget list" where
  "error_banner_bar i d =
     (if clicked ClickDismissError i then dismiss_error d else d,
      [Colored Red (str ''Error:'')] @ (case db_error_banner d of Some m \<Rightarrow> [Text m] | None \<Rightarrow> []) @
      [Button (str ''Dismiss'') True])"

definition banner_bars :: "frame_input \<Rightarrow> dashboard \<Rightarrow> dashboard \<times> widget list" where
  "banner_bars i d =
     (let (d, notice) = (case db_security_warning d of
              Some message \<Rightarrow>
                (if clicked ClickDismissSecurity i then dismiss_security_warning d else d,
                 [Colored Amber (str ''Security notice:''), Text message, Button (str ''Dismiss'') True])
            | None \<Rightarrow> (d, []));
          (d, banner) = error_banner_bar i d
      in (d, notice @ banner))"

text \<open>The number field keeps its value in the range 1024 to 65535.\<close>

definition settings_window :: "frame_input \<Rightarrow> dashboard \<Rightarrow> dashboard \<times> widget list" where
  "settings_window i d =
     (let d = (case fi_edit i of Some (EditProxyPort p) \<Rightarrow> d\<lparr>db_port_draft := max 1024 p\<rparr> | _ \<Rightarrow> d);
          draft = db_port_draft d;
          current = db_proxy_port d;
          valid = (1024 \<le> db_port_draft d);
          d = (if valid \<and> clicked ClickSave i then (save_proxy_port (db_port_draft d) d)\<lparr>db_settings_open := False\<rparr> else d);
          d = (if clicked ClickCancel i then d\<lparr>db_settings_open := False\<rparr> else d)
      in (d, [Heading (str ''Settings''),
              Text (str ''Media server (proxy) port: the backend rebinds the HTTP listener and the advertised URL changes.''),
              NumberField draft, Text (str ''Current port: '' @ show_nat (unat current)),
              Button (str ''Save'') valid, Button (str ''Cancel'') True]))"

definition exposure_text :: rstring where
  "exposure_text =
     str ''Normally the media server binds only the network interface used to reach the selected Chromecast, so only devices on that LAN segment can access the stream. While bound to 0.0.0.0, any device that can reach this computer can fetch /stream '' @
     [0xE2, 0x80, 0x94] @
     str '' devices on the LAN, other Wi-Fi networks, and any VPN tunnel or virtual adapter. With a VPN active, the tunnel interface is part of that exposure.''"

definition bind_fallback_window :: "frame_input \<Rightarrow> rstring \<Rightarrow> dashboard \<Rightarrow> dashboard \<times> widget list" where
  "bind_fallback_window i reason d =
     (let d = (if clicked ClickYes i then answer_bind_fallback True d else d);
          d = (if clicked ClickNo i then answer_bind_fallback False d else d)
      in (d, [Heading (str ''Bind the media server to all interfaces?''), Text reason, Text exposure_text,
              Button (str ''Yes, bind all interfaces'') True, Button (str ''No, keep restricted binding'') True]))"

section \<open>A frame\<close>

text \<open>Draining the events and polling the throttle; the flag asks for an immediate repaint.\<close>

definition ui_drain :: "gui_env \<Rightarrow> frame_input \<Rightarrow> dashboard \<Rightarrow> bool \<times> dashboard" where
  "ui_drain env i d =
     (case handle_events (ge_percent env) (fi_events i) d of (handled, d1) \<Rightarrow>
      (case poll_and_dispatch_volume (fi_now i) d1 of (sent, d2) \<Rightarrow> (0 < handled \<or> sent, d2)))"

text \<open>The panels in their order; a modal window is drawn if its flag is set by then.\<close>

definition ui_panels :: "gui_env \<Rightarrow> frame_input \<Rightarrow> dashboard \<Rightarrow> dashboard \<times> widget list" where
  "ui_panels env i d =
     (let (d, w1) = (if db_error_banner d \<noteq> None \<or> db_security_warning d \<noteq> None then banner_bars i d else (d, []));
          (d, w2) = controls_bar env i d;
          (d, w3) = top_bar i d;
          (d, w4) = receivers_panel env i d;
          (d, w5) = source_panel env i d;
          (d, w6) = (if db_settings_open d then settings_window i d else (d, []));
          (d, w7) = (case db_bind_fallback d of Some reason \<Rightarrow> bind_fallback_window i reason d | None \<Rightarrow> (d, []))
      in (d, w1 @ w2 @ w3 @ w4 @ w5 @ w6 @ w7))"

text \<open>The whole of \<open>ui\<close>, with the delay after which it asks for the next frame.\<close>

definition ui_frame :: "gui_env \<Rightarrow> frame_input \<Rightarrow> dashboard \<Rightarrow> dashboard \<times> widget list \<times> duration" where
  "ui_frame env i d =
     (let (repaint, d) = ui_drain env i d;
          (d, widgets) = ui_panels env i d;
          d = poll_file_picker (fi_picker i) d
      in (d, widgets,
          if repaint then 0 else if db_discovery d = Scanning then REPAINT_SCANNING_INTERVAL else REPAINT_INTERVAL))"

section \<open>What a frame sends\<close>

text \<open>The fields of the manual address and of the settings as a frame leaves them.\<close>

definition edited_ip :: "frame_input \<Rightarrow> dashboard \<Rightarrow> rstring" where
  "edited_ip i d = (case fi_edit i of Some (EditIp s) \<Rightarrow> s | _ \<Rightarrow> db_manual_ip d)"

definition edited_port :: "frame_input \<Rightarrow> dashboard \<Rightarrow> rstring" where
  "edited_port i d = (case fi_edit i of Some (EditPort s) \<Rightarrow> s | _ \<Rightarrow> db_manual_port d)"

definition edited_url :: "frame_input \<Rightarrow> dashboard \<Rightarrow> rstring" where
  "edited_url i d = (case fi_edit i of Some (EditUrl s) \<Rightarrow> s | _ \<Rightarrow> db_url_input d)"

definition edited_proxy_port :: "frame_input \<Rightarrow> dashboard \<Rightarrow> u16" where
  "edited_proxy_port i d = (case fi_edit i of Some (EditProxyPort p) \<Rightarrow> max 1024 p | _ \<Rightarrow> db_port_draft d)"

text \<open>The specification of a click: the one command it stands for, in the state that permits it, and
  nothing in every other state. A click that is not listed sends nothing.\<close>

fun click_answer :: "gui_env \<Rightarrow> frame_input \<Rightarrow> dashboard \<Rightarrow> ui_click \<Rightarrow> app_command option" where
  "click_answer env i d ClickPlay = (if can_play d then Some PlayCommand else None)"
| "click_answer env i d ClickPause = (if can_play d then Some PauseCommand else None)"
| "click_answer env i d ClickStop = (if can_stop d then Some StopCommand else None)"
| "click_answer env i d ClickMute = Some (Mute (\<not> db_muted d))"
| "click_answer env i d (ClickReceiver n) =
     (if db_discovery d = DiscoveryReady \<and> n < length (db_receivers d) then Some (SelectReceiver (db_receivers d ! n)) else None)"
| "click_answer env i d ClickRetry = (case db_discovery d of DiscoveryError m \<Rightarrow> Some Rescan | _ \<Rightarrow> None)"
| "click_answer env i d ClickConnect =
     (if db_manual_open d \<and> trim (edited_ip i d) \<noteq> []
      then (case parse_manual_addr (edited_ip i d) (edited_port i d) of
              Inr addr \<Rightarrow> Some (ManualConnect (ge_print env addr)) | Inl e \<Rightarrow> None)
      else None)"
| "click_answer env i d (ClickTab tab) = Some (SelectSource tab)"
| "click_answer env i d (ClickDisplay n) =
     (if db_source_tab d = Display \<and> db_ffmpeg_available d \<and> n < length (db_displays d) \<and>
         db_selected_display d \<noteq> Some (db_displays d ! n)
      then Some (SelectDisplay (db_displays d ! n)) else None)"
| "click_answer env i d ClickApply =
     (if db_source_tab d = WebUrl \<and> gui_validate_url (ge_url env) (ge_decode env) (db_url_input d)
      then Some (SelectUrl (trim (trim (edited_url i d)))) else None)"
| "click_answer env i d ClickSave =
     (if db_settings_open d \<and> 1024 \<le> edited_proxy_port i d then Some (SetProxyPort (edited_proxy_port i d)) else None)"
| "click_answer env i d ClickYes = (if db_bind_fallback d \<noteq> None then Some (BindFallback True) else None)"
| "click_answer env i d ClickNo = (if db_bind_fallback d \<noteq> None then Some (BindFallback False) else None)"
| "click_answer env i d _ = None"

text \<open>A volume that is due, and a file the user has picked in the system's dialog.\<close>

definition volume_answer :: "frame_input \<Rightarrow> dashboard \<Rightarrow> app_command option" where
  "volume_answer i d = map_option SetVolumeCommand (fst (throttle_poll (fi_now i) (db_throttle d)))"

definition picker_answer :: "frame_input \<Rightarrow> dashboard \<Rightarrow> app_command option" where
  "picker_answer i d =
     (if db_picker_open d \<or> fi_click i = Some ClickBrowse \<and> db_source_tab d = LocalFile
      then (case fi_picker i of Some (Some path) \<Rightarrow> Some (SelectFile path) | _ \<Rightarrow> None)
      else None)"

definition issued :: "dashboard \<Rightarrow> app_command option \<Rightarrow> app_command list" where
  "issued d c = (if db_channel_open d then (case c of Some x \<Rightarrow> [x] | None \<Rightarrow> []) else [])"

lemma set_issued: "x \<in> set (issued d c) \<longleftrightarrow> db_channel_open d \<and> c = Some x"
  by (cases c; cases "db_channel_open d") (auto simp: issued_def)

text \<open>The panel each click belongs to, and the part of the specification it answers for.\<close>

datatype panel = PanelBanner | PanelControls | PanelTop | PanelReceivers | PanelSource | PanelSettings | PanelConsent

fun panel_of :: "ui_click \<Rightarrow> panel" where
  "panel_of ClickDismissSecurity = PanelBanner"
| "panel_of ClickDismissError = PanelBanner"
| "panel_of ClickPlay = PanelControls"
| "panel_of ClickPause = PanelControls"
| "panel_of ClickStop = PanelControls"
| "panel_of ClickMute = PanelControls"
| "panel_of ClickSettings = PanelTop"
| "panel_of ClickManual = PanelReceivers"
| "panel_of ClickConnect = PanelReceivers"
| "panel_of ClickRetry = PanelReceivers"
| "panel_of (ClickReceiver n) = PanelReceivers"
| "panel_of (ClickTab tab) = PanelSource"
| "panel_of (ClickDisplay n) = PanelSource"
| "panel_of ClickBrowse = PanelSource"
| "panel_of ClickApply = PanelSource"
| "panel_of ClickSave = PanelSettings"
| "panel_of ClickCancel = PanelSettings"
| "panel_of ClickYes = PanelConsent"
| "panel_of ClickNo = PanelConsent"

definition answer_in :: "panel \<Rightarrow> gui_env \<Rightarrow> frame_input \<Rightarrow> dashboard \<Rightarrow> app_command list" where
  "answer_in p env i d =
     issued d (case fi_click i of Some c \<Rightarrow> if panel_of c = p then click_answer env i d c else None | None \<Rightarrow> None)"

text \<open>The parts of the state the panels decide by.\<close>

definition controls_basis :: "dashboard \<Rightarrow> cast_device option \<times> bool \<times> bool" where
  "controls_basis d = (db_selected_receiver d, db_has_active_source d, db_muted d)"

definition receivers_basis :: "dashboard \<Rightarrow> cast_device list \<times> discovery_state \<times> bool \<times> rstring \<times> rstring" where
  "receivers_basis d = (db_receivers d, db_discovery d, db_manual_open d, db_manual_ip d, db_manual_port d)"

definition source_basis :: "dashboard \<Rightarrow> rstring list \<times> bool \<times> rstring option \<times> rstring \<times> source_tab" where
  "source_basis d = (db_displays d, db_ffmpeg_available d, db_selected_display d, db_url_input d, db_source_tab d)"

definition settings_basis :: "dashboard \<Rightarrow> bool \<times> u16" where
  "settings_basis d = (db_settings_open d, db_port_draft d)"

definition frame_basis :: "dashboard \<Rightarrow> rstring option \<times> bool \<times> bool" where
  "frame_basis d = (db_bind_fallback d, db_channel_open d, db_picker_open d)"

lemmas basis_defs = controls_basis_def receivers_basis_def source_basis_def settings_basis_def frame_basis_def

lemmas view_defs = dispatch_def play_cmd_def pause_cmd_def stop_cmd_def toggle_mute_def set_volume_cmd_def
  set_volume_dragging_def dismiss_error_def dismiss_security_warning_def clicked_def basis_defs Let_def

lemma edited_cong:
  "db_manual_ip d = db_manual_ip d0 \<Longrightarrow> edited_ip i d = edited_ip i d0"
  "db_manual_port d = db_manual_port d0 \<Longrightarrow> edited_port i d = edited_port i d0"
  "db_url_input d = db_url_input d0 \<Longrightarrow> edited_url i d = edited_url i d0"
  "db_port_draft d = db_port_draft d0 \<Longrightarrow> edited_proxy_port i d = edited_proxy_port i d0"
  by (simp_all add: edited_ip_def edited_port_def edited_url_def edited_proxy_port_def
      split: option.splits ui_edit.splits)

lemma edited_opened [simp]:
  "edited_ip i (d\<lparr>db_manual_open := b\<rparr>) = edited_ip i d" "edited_port i (d\<lparr>db_manual_open := b\<rparr>) = edited_port i d"
  "edited_proxy_port i (d\<lparr>db_settings_open := b\<rparr>) = edited_proxy_port i d"
  by (rule edited_cong; simp)+

lemma answer_none [simp]: "fi_click i = None \<Longrightarrow> answer_in p env i d = []"
  by (simp add: answer_in_def issued_def)

lemma answer_click [simp]:
  "fi_click i = Some c \<Longrightarrow> answer_in p env i d = (if panel_of c = p then issued d (click_answer env i d c) else [])"
  by (simp add: answer_in_def issued_def)

lemma click_answer_cong:
  "controls_basis d = controls_basis d0 \<Longrightarrow> panel_of c = PanelControls \<Longrightarrow> click_answer env i d c = click_answer env i d0 c"
  "receivers_basis d = receivers_basis d0 \<Longrightarrow> panel_of c = PanelReceivers \<Longrightarrow> click_answer env i d c = click_answer env i d0 c"
  "source_basis d = source_basis d0 \<Longrightarrow> panel_of c = PanelSource \<Longrightarrow> click_answer env i d c = click_answer env i d0 c"
  by (cases c; simp add: basis_defs can_play_def can_stop_def edited_cong [of d d0])+

lemma answer_cong:
  assumes "frame_basis d = frame_basis d0"
  shows "controls_basis d = controls_basis d0 \<Longrightarrow> answer_in PanelControls env i d = answer_in PanelControls env i d0"
    "receivers_basis d = receivers_basis d0 \<Longrightarrow> answer_in PanelReceivers env i d = answer_in PanelReceivers env i d0"
    "source_basis d = source_basis d0 \<Longrightarrow> answer_in PanelSource env i d = answer_in PanelSource env i d0"
proof -
  have "issued d c = issued d0 c" for c using assms by (simp add: issued_def frame_basis_def)
  note this [simp]
  show "answer_in PanelControls env i d = answer_in PanelControls env i d0" if "controls_basis d = controls_basis d0"
    using click_answer_cong(1) [OF that] by (cases "fi_click i") auto
  show "answer_in PanelReceivers env i d = answer_in PanelReceivers env i d0" if "receivers_basis d = receivers_basis d0"
    using click_answer_cong(2) [OF that] by (cases "fi_click i") auto
  show "answer_in PanelSource env i d = answer_in PanelSource env i d0" if "source_basis d = source_basis d0"
    using click_answer_cong(3) [OF that] by (cases "fi_click i") auto
qed

lemma banner_bars_answers:
  "db_commands (fst (banner_bars i d)) = db_commands d \<and> controls_basis (fst (banner_bars i d)) = controls_basis d \<and>
   receivers_basis (fst (banner_bars i d)) = receivers_basis d \<and> source_basis (fst (banner_bars i d)) = source_basis d \<and>
   settings_basis (fst (banner_bars i d)) = settings_basis d \<and> frame_basis (fst (banner_bars i d)) = frame_basis d"
  by (auto simp: banner_bars_def error_banner_bar_def view_defs split: option.splits)

lemma volume_slider_keeps:
  "db_commands (volume_slider env i d) = db_commands d \<and> controls_basis (volume_slider env i d) = controls_basis d \<and>
   receivers_basis (volume_slider env i d) = receivers_basis d \<and> source_basis (volume_slider env i d) = source_basis d \<and>
   settings_basis (volume_slider env i d) = settings_basis d \<and> frame_basis (volume_slider env i d) = frame_basis d"
  by (auto simp: volume_slider_def view_defs split: option.splits)

lemma controls_bar_answers:
  "db_commands (fst (controls_bar env i d)) = db_commands d @ answer_in PanelControls env i d \<and>
   receivers_basis (fst (controls_bar env i d)) = receivers_basis d \<and> source_basis (fst (controls_bar env i d)) = source_basis d \<and>
   settings_basis (fst (controls_bar env i d)) = settings_basis d \<and> frame_basis (fst (controls_bar env i d)) = frame_basis d"
proof (cases "fi_click i")
  case None
  then show ?thesis using volume_slider_keeps [of env i d] by (simp add: controls_bar_def clicked_def Let_def answer_in_def issued_def)
next
  case (Some c)
  then show ?thesis
    using volume_slider_keeps [of env i]
    by (cases c) (auto simp: controls_bar_def view_defs can_stop_def answer_in_def issued_def)
qed

lemma top_bar_answers:
  "db_commands (fst (top_bar i d)) = db_commands d \<and> receivers_basis (fst (top_bar i d)) = receivers_basis d \<and>
   source_basis (fst (top_bar i d)) = source_basis d \<and> frame_basis (fst (top_bar i d)) = frame_basis d \<and>
   db_port_draft (fst (top_bar i d)) = db_port_draft d \<and>
   (fi_click i \<noteq> Some ClickSettings \<longrightarrow> settings_basis (fst (top_bar i d)) = settings_basis d)"
  by (simp add: top_bar_def view_defs)

lemma manual_group_answers:
  "db_commands (fst (manual_group env i d)) =
     db_commands d @ issued d (if fi_click i = Some ClickConnect then click_answer env i (d\<lparr>db_manual_open := True\<rparr>) ClickConnect else None) \<and>
   db_receivers (fst (manual_group env i d)) = db_receivers d \<and> db_discovery (fst (manual_group env i d)) = db_discovery d \<and>
   source_basis (fst (manual_group env i d)) = source_basis d \<and> settings_basis (fst (manual_group env i d)) = settings_basis d \<and>
   frame_basis (fst (manual_group env i d)) = frame_basis d"
  by (auto simp: manual_group_def try_manual_connect_def view_defs issued_def edited_ip_def edited_port_def
      split: option.splits ui_edit.splits sum.splits)

lemma discovery_list_answers:
  "db_commands (fst (discovery_list i d)) =
     db_commands d @ issued d (case fi_click i of
       Some (ClickReceiver n) \<Rightarrow> click_answer env i d (ClickReceiver n)
     | Some ClickRetry \<Rightarrow> click_answer env i d ClickRetry | _ \<Rightarrow> None) \<and>
   source_basis (fst (discovery_list i d)) = source_basis d \<and> settings_basis (fst (discovery_list i d)) = settings_basis d \<and>
   frame_basis (fst (discovery_list i d)) = frame_basis d"
  by (auto simp: discovery_list_def select_receiver_def retry_discovery_def view_defs issued_def
      split: option.splits ui_click.splits discovery_state.splits)

lemma receivers_panel_answers:
  "db_commands (fst (receivers_panel env i d)) = db_commands d @ answer_in PanelReceivers env i d \<and>
   source_basis (fst (receivers_panel env i d)) = source_basis d \<and> settings_basis (fst (receivers_panel env i d)) = settings_basis d \<and>
   frame_basis (fst (receivers_panel env i d)) = frame_basis d"
proof -
  define d1 where "d1 = (if clicked ClickManual i then d\<lparr>db_manual_open := \<not> db_manual_open d\<rparr> else d)"
  define d2 where "d2 = fst (if db_manual_open d1 then manual_group env i d1 else (d1, []))"
  have eq: "fst (receivers_panel env i d) = fst (discovery_list i d2)"
    by (simp add: receivers_panel_def d1_def [symmetric] d2_def case_prod_unfold Let_def)
  have keep: "source_basis d2 = source_basis d" "settings_basis d2 = settings_basis d" "frame_basis d2 = frame_basis d"
      "db_receivers d2 = db_receivers d" "db_discovery d2 = db_discovery d"
    using manual_group_answers [of env i d1] by (auto simp: d2_def d1_def basis_defs)
  have open2: "db_channel_open d2 = db_channel_open d" using keep(3) by (simp add: frame_basis_def)
  have sent2: "db_commands d2 = db_commands d @ (if fi_click i = Some ClickConnect then answer_in PanelReceivers env i d else [])"
    using manual_group_answers [of env i d1]
    by (auto simp: d2_def d1_def clicked_def answer_in_def issued_def)
  have "db_commands (fst (discovery_list i d2)) = db_commands d @ answer_in PanelReceivers env i d"
    using discovery_list_answers [of i d2 env] sent2 keep open2
    by (cases "fi_click i"; (cases "the (fi_click i)")?) (simp_all add: answer_in_def issued_def)
  then show ?thesis using discovery_list_answers [of i d2 env] keep unfolding eq by simp
qed

text \<open>The body of the open tab. The tab's own click, which has opened it, is handled before.\<close>

definition tab_answer :: "gui_env \<Rightarrow> frame_input \<Rightarrow> dashboard \<Rightarrow> app_command list" where
  "tab_answer env i d =
     issued d (case fi_click i of
       Some (ClickDisplay n) \<Rightarrow> click_answer env i d (ClickDisplay n)
     | Some ClickApply \<Rightarrow> click_answer env i d ClickApply | _ \<Rightarrow> None)"

definition tab_body :: "gui_env \<Rightarrow> frame_input \<Rightarrow> dashboard \<Rightarrow> dashboard \<times> widget list" where
  "tab_body env i d =
     (case db_source_tab d of Display \<Rightarrow> display_tab i d | LocalFile \<Rightarrow> local_file_tab i d | WebUrl \<Rightarrow> web_url_tab env i d)"

lemma tab_body_answers:
  "db_commands (fst (tab_body env i d)) = db_commands d @ tab_answer env i d \<and>
   settings_basis (fst (tab_body env i d)) = settings_basis d \<and> db_bind_fallback (fst (tab_body env i d)) = db_bind_fallback d \<and>
   db_channel_open (fst (tab_body env i d)) = db_channel_open d \<and>
   db_picker_open (fst (tab_body env i d)) =
     (db_picker_open d \<or> fi_click i = Some ClickBrowse \<and> db_source_tab d = LocalFile)"
  by (cases "db_source_tab d"; cases "fi_click i"; (cases "the (fi_click i)")?)
    (auto simp: tab_body_def tab_answer_def display_tab_def local_file_tab_def web_url_tab_def choose_display_def
      select_display_cmd_def start_file_picker_def select_url_def display_dropdown_enabled_def edited_url_def
      issued_def view_defs split: option.splits ui_edit.splits)

lemma source_panel_answers:
  "db_commands (fst (source_panel env i d)) = db_commands d @ answer_in PanelSource env i d \<and>
   settings_basis (fst (source_panel env i d)) = settings_basis d \<and>
   db_bind_fallback (fst (source_panel env i d)) = db_bind_fallback d \<and>
   db_channel_open (fst (source_panel env i d)) = db_channel_open d \<and>
   db_picker_open (fst (source_panel env i d)) =
     (db_picker_open d \<or> fi_click i = Some ClickBrowse \<and> db_source_tab d = LocalFile)"
proof -
  define d1 where "d1 = (case fi_click i of Some (ClickTab tab) \<Rightarrow> select_tab tab d | _ \<Rightarrow> d)"
  have eq: "fst (source_panel env i d) = fst (tab_body env i d1)"
    by (simp add: source_panel_def tab_body_def d1_def [symmetric] case_prod_unfold Let_def)
  show ?thesis
    unfolding eq using tab_body_answers [of env i d1]
    by (cases "fi_click i"; (cases "the (fi_click i)")?)
      (auto simp: d1_def select_tab_def dispatch_def answer_in_def tab_answer_def issued_def settings_basis_def)
qed

lemma settings_window_answers:
  "db_commands (fst (settings_window i d)) =
     db_commands d @ issued d (if fi_click i = Some ClickSave then click_answer env i (d\<lparr>db_settings_open := True\<rparr>) ClickSave else None) \<and>
   frame_basis (fst (settings_window i d)) = frame_basis d"
  by (auto simp: settings_window_def save_proxy_port_def edited_proxy_port_def issued_def view_defs
      split: option.splits ui_edit.splits)

lemma settings_part_answers:
  "db_commands (fst (if db_settings_open d then settings_window i d else (d, []))) =
     db_commands d @ answer_in PanelSettings env i d \<and>
   frame_basis (fst (if db_settings_open d then settings_window i d else (d, []))) = frame_basis d"
  using settings_window_answers [of i d env]
  by (cases "fi_click i"; (cases "the (fi_click i)")?) (auto simp: answer_in_def issued_def)

lemma bind_fallback_window_answers:
  assumes "db_bind_fallback d \<noteq> None"
  shows "db_commands (fst (bind_fallback_window i reason d)) = db_commands d @ answer_in PanelConsent env i d \<and>
    db_channel_open (fst (bind_fallback_window i reason d)) = db_channel_open d \<and>
    db_picker_open (fst (bind_fallback_window i reason d)) = db_picker_open d"
  using assms
  by (cases "fi_click i"; (cases "the (fi_click i)")?)
    (simp_all add: bind_fallback_window_def answer_bind_fallback_def answer_in_def issued_def view_defs)

text \<open>The panels before the last window.\<close>

lemma ui_panels_before_consent:
  "\<exists>d6. db_commands d6 = db_commands d @ answer_in PanelControls env i d @ answer_in PanelReceivers env i d @
      answer_in PanelSource env i d @ answer_in PanelSettings env i d \<and>
    db_bind_fallback d6 = db_bind_fallback d \<and> db_channel_open d6 = db_channel_open d \<and>
    db_picker_open d6 = (db_picker_open d \<or> fi_click i = Some ClickBrowse \<and> db_source_tab d = LocalFile) \<and>
    fst (ui_panels env i d) =
      (case db_bind_fallback d of Some reason \<Rightarrow> fst (bind_fallback_window i reason d6) | None \<Rightarrow> d6)"
proof -
  define d1 where "d1 = fst (if db_error_banner d \<noteq> None \<or> db_security_warning d \<noteq> None then banner_bars i d else (d, []))"
  define d2 where "d2 = fst (controls_bar env i d1)"
  define d3 where "d3 = fst (top_bar i d2)"
  define d4 where "d4 = fst (receivers_panel env i d3)"
  define d5 where "d5 = fst (source_panel env i d4)"
  define d6 where "d6 = fst (if db_settings_open d5 then settings_window i d5 else (d5, []))"
  define d7 where "d7 = fst (case db_bind_fallback d6 of Some reason \<Rightarrow> bind_fallback_window i reason d6 | None \<Rightarrow> (d6, []))"
  have 1: "db_commands d1 = db_commands d" "controls_basis d1 = controls_basis d" "receivers_basis d1 = receivers_basis d"
      "source_basis d1 = source_basis d" "settings_basis d1 = settings_basis d" "frame_basis d1 = frame_basis d"
    using banner_bars_answers [of i d] by (simp_all add: d1_def)
  have 2: "db_commands d2 = db_commands d @ answer_in PanelControls env i d" "receivers_basis d2 = receivers_basis d"
      "source_basis d2 = source_basis d" "settings_basis d2 = settings_basis d" "frame_basis d2 = frame_basis d"
    using controls_bar_answers [of env i d1] 1 answer_cong(1) [OF 1(6,2), of env i] by (simp_all add: d2_def)
  have 3: "db_commands d3 = db_commands d2" "receivers_basis d3 = receivers_basis d" "source_basis d3 = source_basis d"
      "frame_basis d3 = frame_basis d" "fi_click i \<noteq> Some ClickSettings \<Longrightarrow> settings_basis d3 = settings_basis d"
    using top_bar_answers [of i d2] 2 by (simp_all add: d3_def)
  have 4: "db_commands d4 = db_commands d3 @ answer_in PanelReceivers env i d" "source_basis d4 = source_basis d"
      "settings_basis d4 = settings_basis d3" "frame_basis d4 = frame_basis d"
    using receivers_panel_answers [of env i d3] 3 answer_cong(2) [OF 3(4,2), of env i] by (simp_all add: d4_def)
  have 5: "db_commands d5 = db_commands d4 @ answer_in PanelSource env i d" "settings_basis d5 = settings_basis d3"
      "db_bind_fallback d5 = db_bind_fallback d" "db_channel_open d5 = db_channel_open d"
      "db_picker_open d5 = (db_picker_open d \<or> fi_click i = Some ClickBrowse \<and> db_source_tab d = LocalFile)"
    using source_panel_answers [of env i d4] 4 answer_cong(3) [OF 4(4,2), of env i]
    by (simp_all add: d5_def frame_basis_def source_basis_def)
  have "answer_in PanelSettings env i d5 = answer_in PanelSettings env i d"
    using 3(5) 5(2,4) edited_cong(4) [of d5 d i]
    by (cases "fi_click i"; (cases "the (fi_click i)")?)
      (simp_all add: answer_in_def issued_def settings_basis_def)
  then have 6: "db_commands d6 = db_commands d5 @ answer_in PanelSettings env i d" "frame_basis d6 = frame_basis d5"
    using settings_part_answers [of d5 i env] by (simp_all add: d6_def)
  have "fst (ui_panels env i d) = d7"
    by (simp only: ui_panels_def Let_def case_prod_unfold fst_conv
        d1_def [symmetric] d2_def [symmetric] d3_def [symmetric] d4_def [symmetric] d5_def [symmetric]
        d6_def [symmetric] d7_def [symmetric])
  moreover have "d7 = (case db_bind_fallback d of Some reason \<Rightarrow> fst (bind_fallback_window i reason d6) | None \<Rightarrow> d6)"
    using 6(2) 5(3) by (simp add: d7_def frame_basis_def split: option.splits)
  ultimately show ?thesis
    using 2(1) 3(1) 4(1) 5 6 by (intro exI [of _ d6]) (simp add: frame_basis_def)
qed

text \<open>All panels: the parts add up to the answer of the click.\<close>

definition frame_answer :: "gui_env \<Rightarrow> frame_input \<Rightarrow> dashboard \<Rightarrow> app_command option" where
  "frame_answer env i d = (case fi_click i of Some c \<Rightarrow> click_answer env i d c | None \<Rightarrow> None)"

lemma answer_parts:
  "answer_in PanelControls env i d @ answer_in PanelReceivers env i d @ answer_in PanelSource env i d @
   answer_in PanelSettings env i d @ answer_in PanelConsent env i d = issued d (frame_answer env i d)"
  by (cases "fi_click i"; (cases "the (fi_click i)")?) (simp_all add: answer_in_def frame_answer_def issued_def)

lemma no_consent_answer: "db_bind_fallback d = None \<Longrightarrow> answer_in PanelConsent env i d = []"
  by (cases "fi_click i"; (cases "the (fi_click i)")?) (simp_all add: answer_in_def issued_def)

lemma consent_answer_cong:
  "db_bind_fallback d = db_bind_fallback d0 \<Longrightarrow> db_channel_open d = db_channel_open d0 \<Longrightarrow>
   answer_in PanelConsent env i d = answer_in PanelConsent env i d0"
  by (cases "fi_click i"; (cases "the (fi_click i)")?) (simp_all add: answer_in_def issued_def)

lemma ui_panels_answers:
  "db_commands (fst (ui_panels env i d)) = db_commands d @ issued d (frame_answer env i d) \<and>
   db_channel_open (fst (ui_panels env i d)) = db_channel_open d \<and>
   db_picker_open (fst (ui_panels env i d)) =
     (db_picker_open d \<or> fi_click i = Some ClickBrowse \<and> db_source_tab d = LocalFile)"
proof -
  obtain d6 where d6: "db_commands d6 = db_commands d @ answer_in PanelControls env i d @ answer_in PanelReceivers env i d @
      answer_in PanelSource env i d @ answer_in PanelSettings env i d"
    "db_bind_fallback d6 = db_bind_fallback d" "db_channel_open d6 = db_channel_open d"
    "db_picker_open d6 = (db_picker_open d \<or> fi_click i = Some ClickBrowse \<and> db_source_tab d = LocalFile)"
    "fst (ui_panels env i d) = (case db_bind_fallback d of Some reason \<Rightarrow> fst (bind_fallback_window i reason d6) | None \<Rightarrow> d6)"
    using ui_panels_before_consent [of d env i] by blast
  show ?thesis
    using d6 bind_fallback_window_answers [of d6 i _ env] no_consent_answer [of d env i]
      consent_answer_cong [OF d6(2,3), of env i] answer_parts [of env i d]
    by (cases "db_bind_fallback d") simp_all
qed

lemma ui_drain_answers:
  "db_commands (snd (ui_drain env i d)) = db_commands d @ issued d (volume_answer i d) \<and>
   db_channel_open (snd (ui_drain env i d)) = db_channel_open d"
proof -
  have keep: "db_commands (fold (apply_event percent) es d) = db_commands d \<and>
      db_channel_open (fold (apply_event percent) es d) = db_channel_open d \<and>
      db_throttle (fold (apply_event percent) es d) = db_throttle d" for percent es
  proof (induction es arbitrary: d)
    case (Cons e es)
    have "db_commands (apply_event percent e d) = db_commands d \<and> db_channel_open (apply_event percent e d) = db_channel_open d \<and>
        db_throttle (apply_event percent e d) = db_throttle d"
      by (cases e) (auto simp: dashboard_simps)
    with Cons.IH [of "apply_event percent e d"] show ?case by simp
  qed simp
  show ?thesis
    using keep [of "ge_percent env" "fi_events i"]
    by (auto simp: ui_drain_def handle_events_def poll_and_dispatch_volume_def dispatch_def issued_def volume_answer_def
        split: prod.splits option.splits)
qed

text \<open>C18: What a frame sends is exactly what the user asked for in it. A frame sends, in this order: the
  volume that is due; the one command that the user's click in this frame stands for, if the state
  after the frame's events permits it; and the file picked in the open dialog. The click of a receiver
  sends that receiver, of a display that display, if it is not the one selected, and so on for every
  widget; without a click, or when the state does not permit it, no command is sent, and nothing at
  all once the backend is gone.\<close>

theorem frame_sends_what_was_asked:
  "let u = snd (ui_drain env i d)
   in db_commands (fst (ui_frame env i d)) =
        db_commands d @ issued d (volume_answer i d) @ issued d (frame_answer env i u) @ issued d (picker_answer i u)"
proof -
  let ?u = "snd (ui_drain env i d)"
  let ?w = "fst (ui_panels env i ?u)"
  have eq: "fst (ui_frame env i d) = poll_file_picker (fi_picker i) ?w"
    by (simp add: ui_frame_def case_prod_unfold Let_def)
  have w: "db_commands ?w = db_commands ?u @ issued ?u (frame_answer env i ?u)" "db_channel_open ?w = db_channel_open ?u"
      "db_picker_open ?w = (db_picker_open ?u \<or> fi_click i = Some ClickBrowse \<and> db_source_tab ?u = LocalFile)"
    using ui_panels_answers [of env i ?u] by simp_all
  have "db_commands (poll_file_picker (fi_picker i) ?w) = db_commands ?w @ issued ?u (picker_answer i ?u)"
    using w(2,3)
    by (auto simp: poll_file_picker_def select_file_def dispatch_def issued_def picker_answer_def split: option.splits)
  then show ?thesis
    using ui_drain_answers [of env i d] w(1) unfolding Let_def eq by (simp add: issued_def)
qed

section \<open>The question for consent over many frames\<close>

definition ui_run :: "gui_env \<Rightarrow> bool \<Rightarrow> frame_input list \<Rightarrow> dashboard" where
  "ui_run env ffmpeg = run (\<lambda>d i. fst (ui_frame env i d)) (dashboard_new ffmpeg)"

fun is_consent :: "app_command \<Rightarrow> bool" where
  "is_consent (BindFallback consent) \<longleftrightarrow> True"
| "is_consent _ \<longleftrightarrow> False"

fun is_question :: "backend_event \<Rightarrow> bool" where
  "is_question (BindFallbackRequested reason) \<longleftrightarrow> True"
| "is_question _ \<longleftrightarrow> False"

definition consent_answers :: "dashboard \<Rightarrow> app_command list" where
  "consent_answers d = filter is_consent (db_commands d)"

text \<open>An open question counts as not yet answered.\<close>

definition open_question :: "dashboard \<Rightarrow> nat" where
  "open_question d = (if db_bind_fallback d = None then 0 else 1)"

lemma drained_questions:
  "consent_answers (snd (ui_drain env i d)) = consent_answers d \<and>
   open_question (snd (ui_drain env i d)) \<le> open_question d + length (filter is_question (fi_events i))"
proof -
  have "open_question (fold (apply_event percent) es d) \<le> open_question d + length (filter is_question es)" for percent es
  proof (induction es arbitrary: d)
    case (Cons e es)
    have "open_question (apply_event percent e d) \<le> open_question d + (if is_question e then 1 else 0)"
      by (cases e) (auto simp: dashboard_simps open_question_def)
    with Cons.IH [of "apply_event percent e d"] show ?case by auto
  qed simp
  moreover have "db_bind_fallback (snd (ui_drain env i d)) =
      db_bind_fallback (fold (apply_event (ge_percent env)) (fi_events i) d)"
    by (auto simp: ui_drain_def handle_events_def poll_and_dispatch_volume_def dispatch_def split: prod.splits option.splits)
  ultimately have "open_question (snd (ui_drain env i d)) \<le> open_question d + length (filter is_question (fi_events i))"
    by (simp add: open_question_def)
  moreover have "filter is_consent (issued d (volume_answer i d)) = []"
    unfolding filter_empty_conv by (auto simp: set_issued volume_answer_def)
  ultimately show ?thesis using ui_drain_answers [of env i d] by (simp add: consent_answers_def)
qed

lemma only_the_window_answers: "click_answer env i d c = Some x \<Longrightarrow> panel_of c \<noteq> PanelConsent \<Longrightarrow> \<not> is_consent x"
  by (cases c) (auto split: if_splits sum.splits discovery_state.splits)

lemma only_the_window_consents: "p \<noteq> PanelConsent \<Longrightarrow> filter is_consent (answer_in p env i d) = []"
  unfolding filter_empty_conv
  by (cases "fi_click i") (auto simp: set_issued dest: only_the_window_answers split: if_splits)

lemma panels_answer:
  "\<exists>new. consent_answers (fst (ui_panels env i d)) = consent_answers d @ new \<and>
     length new + open_question (fst (ui_panels env i d)) \<le> open_question d \<and>
     (BindFallback True \<in> set new \<longrightarrow> fi_click i = Some ClickYes)"
proof -
  obtain d6 where d6: "db_commands d6 = db_commands d @ answer_in PanelControls env i d @ answer_in PanelReceivers env i d @
      answer_in PanelSource env i d @ answer_in PanelSettings env i d"
    "db_bind_fallback d6 = db_bind_fallback d"
    "fst (ui_panels env i d) = (case db_bind_fallback d of Some reason \<Rightarrow> fst (bind_fallback_window i reason d6) | None \<Rightarrow> d6)"
    using ui_panels_before_consent [of d env i] by blast
  have "consent_answers d6 = consent_answers d" by (simp add: consent_answers_def d6(1) only_the_window_consents)
  with d6(2,3) show ?thesis
    by (cases "db_bind_fallback d"; cases "fi_click i = Some ClickYes"; cases "fi_click i = Some ClickNo")
      (auto simp: bind_fallback_window_def answer_bind_fallback_def dispatch_def clicked_def consent_answers_def open_question_def Let_def)
qed

lemma picker_answers:
  "consent_answers (poll_file_picker p d) = consent_answers d \<and> open_question (poll_file_picker p d) = open_question d"
  by (auto simp: poll_file_picker_def select_file_def dispatch_def consent_answers_def open_question_def split: option.splits)

lemma frame_answers:
  "\<exists>new. consent_answers (fst (ui_frame env i d)) = consent_answers d @ new \<and>
     length new + open_question (fst (ui_frame env i d)) \<le> open_question d + length (filter is_question (fi_events i)) \<and>
     (BindFallback True \<in> set new \<longrightarrow> fi_click i = Some ClickYes)"
proof -
  have "fst (ui_frame env i d) = poll_file_picker (fi_picker i) (fst (ui_panels env i (snd (ui_drain env i d))))"
    by (simp add: ui_frame_def case_prod_unfold Let_def)
  with panels_answer [of env i "snd (ui_drain env i d)"] drained_questions [of env i d] picker_answers show ?thesis
    by fastforce
qed

lemma run_answers:
  "\<exists>new. consent_answers (run (\<lambda>d i. fst (ui_frame env i d)) d inputs) = consent_answers d @ new \<and>
     length new + open_question (run (\<lambda>d i. fst (ui_frame env i d)) d inputs) \<le>
       open_question d + length (filter is_question (concat (map fi_events inputs))) \<and>
     (BindFallback True \<in> set new \<longrightarrow> (\<exists>i \<in> set inputs. fi_click i = Some ClickYes))"
proof (induction inputs arbitrary: d)
  case (Cons i inputs)
  obtain new where 1: "consent_answers (fst (ui_frame env i d)) = consent_answers d @ new"
    "length new + open_question (fst (ui_frame env i d)) \<le> open_question d + length (filter is_question (fi_events i))"
    "BindFallback True \<in> set new \<longrightarrow> fi_click i = Some ClickYes"
    using frame_answers [of env i d] by blast
  obtain new' where 2: "consent_answers (run (\<lambda>d i. fst (ui_frame env i d)) (fst (ui_frame env i d)) inputs) =
      consent_answers (fst (ui_frame env i d)) @ new'"
    "length new' + open_question (run (\<lambda>d i. fst (ui_frame env i d)) (fst (ui_frame env i d)) inputs) \<le>
      open_question (fst (ui_frame env i d)) + length (filter is_question (concat (map fi_events inputs)))"
    "BindFallback True \<in> set new' \<longrightarrow> (\<exists>i \<in> set inputs. fi_click i = Some ClickYes)"
    using Cons.IH [of "fst (ui_frame env i d)"] by blast
  from 1 2 show ?case by (intro exI [of _ "new @ new'"]) auto
qed simp

text \<open>Consent for the wildcard bind is never given twice for one question and never without the
  user: in every run of frames, the answers sent are at most as many as the questions received,
  with an open question not yet counted, and a yes is sent only if the user clicked the button of
  the question's window in some frame.\<close>

theorem consent_asked_before_given:
  "length (consent_answers (ui_run env ffmpeg inputs)) + open_question (ui_run env ffmpeg inputs) \<le>
     length (filter is_question (concat (map fi_events inputs))) \<and>
   (BindFallback True \<in> set (consent_answers (ui_run env ffmpeg inputs)) \<longrightarrow> (\<exists>i \<in> set inputs. fi_click i = Some ClickYes))"
  using run_answers [of env "dashboard_new ffmpeg" inputs]
  by (auto simp: ui_run_def consent_answers_def open_question_def dashboard_new_def)

definition sample_gui :: gui_env where
  "sample_gui = \<lparr>ge_percent = (\<lambda>_. 0), ge_level = (\<lambda>_. 0), ge_print = (\<lambda>_. []), ge_url = (\<lambda>_. None), ge_decode = (\<lambda>s. s)\<rparr>"

definition quiet_frame :: frame_input where
  "quiet_frame = \<lparr>fi_events = [], fi_now = 0, fi_click = None, fi_edit = None, fi_slider = None,
     fi_dragged = False, fi_drag_stopped = False, fi_picker = None\<rparr>"

lemmas frame_eval = ui_run_def ui_frame_def ui_drain_def handle_events_def poll_and_dispatch_volume_def throttle_poll_def
  throttle_new_def apply_event_def ui_panels_def controls_bar_def can_play_def volume_slider_def toggle_mute_def top_bar_def
  receivers_panel_def discovery_list_def source_panel_def display_tab_def display_dropdown_enabled_def
  bind_fallback_window_def answer_bind_fallback_def dispatch_def poll_file_picker_def clicked_def quiet_frame_def
  dashboard_new_def sample_gui_def consent_answers_def

theorem consent_asked_before_given_witness:
  "let inputs = [quiet_frame\<lparr>fi_events := [BindFallbackRequested []]\<rparr>, quiet_frame\<lparr>fi_click := Some ClickYes\<rparr>]
   in BindFallback True \<in> set (consent_answers (ui_run sample_gui True inputs)) \<and>
      (\<exists>i \<in> set inputs. fi_click i = Some ClickYes) \<and> length (consent_answers (ui_run sample_gui True inputs)) \<le> 1"
proof -
  let ?is = "[quiet_frame\<lparr>fi_events := [BindFallbackRequested []]\<rparr>, quiet_frame\<lparr>fi_click := Some ClickYes\<rparr>]"
  have "BindFallback True \<in> set (consent_answers (ui_run sample_gui True ?is))"
    by (simp add: frame_eval)
  moreover have "length (filter is_question (concat (map fi_events ?is))) = 1" by (simp add: quiet_frame_def)
  ultimately show ?thesis
    using consent_asked_before_given [of sample_gui True ?is] unfolding Let_def by auto
qed

end
