(* ===== verification/Tls.thy ===== *)
theory Tls
  imports Tofu App_State
begin

text \<open>
  The TLS transport (\<open>src/cast/tls.rs\<close>) and the connector that pins certificates
  (\<open>TlsConnector\<close> of \<open>src/cast/connection/transport.rs\<close>): the certificate verifier, the
  handshake worker with its deadline, the gauge of running workers, the outcome the caller waits for
  and the check of the peer's fingerprint against the store of pins.

  rustls, the socket and SHA-256 are parameters: an attempt is given what they answer, with the time
  every blocking call takes.
\<close>

section \<open>Errors and the verifier\<close>

datatype tls_error =
    ConnectFailed rstring io_error
  | ConnectTimeout rstring duration
  | Rustls rstring
  | TlsIo io_error
  | HandshakeTimeout duration
  | WorkerPanicked

definition HANDSHAKE_TIMEOUT :: duration where
  "HANDSHAKE_TIMEOUT = from_secs 5"

definition verify_server_cert :: "bytes \<Rightarrow> rstring + unit" where
  "verify_server_cert end_entity =
     (if end_entity = [] then Inl (str ''receiver sent no certificate'') else Inr ())"

text \<open>The signature checks are those of the crypto library, over its own algorithms.\<close>

definition verify_tls12_signature ::
  "(bytes \<Rightarrow> bytes \<Rightarrow> 'dss \<Rightarrow> rstring + unit) \<Rightarrow> bytes \<Rightarrow> bytes \<Rightarrow> 'dss \<Rightarrow> rstring + unit" where
  "verify_tls12_signature ring message cert dss = ring message cert dss"

definition verify_tls13_signature ::
  "(bytes \<Rightarrow> bytes \<Rightarrow> 'dss \<Rightarrow> rstring + unit) \<Rightarrow> bytes \<Rightarrow> bytes \<Rightarrow> 'dss \<Rightarrow> rstring + unit" where
  "verify_tls13_signature ring message cert dss = ring message cert dss"

section \<open>The handshake worker\<close>

text \<open>An established stream: the certificates the peer presented, if any.\<close>

record tls_stream =
  st_peer_certificates :: "bytes list option"

text \<open>One call of \<open>complete_io\<close>: it ends with the handshake finished or not, or fails.\<close>

datatype io_step = HandshakeDone "bytes list option" | StillHandshaking | IoFailed io_error

text \<open>What one attempt meets. \<open>ae_io t budget\<close> is the call of \<open>complete_io\<close> begun at \<open>t\<close> with the socket
  timeouts set to \<open>budget\<close>, with what each of the socket reads and writes it makes in turn took. The
  timeouts bound every one of them on its own, not the call.\<close>

record attempt_env =
  ae_tcp :: "(io_error + unit) option"  \<comment> \<open>\<open>None\<close>: the deadline passed\<close>
  ae_socket :: "io_error + unit"        \<comment> \<open>\<open>into_std\<close>, \<open>set_nonblocking\<close>, \<open>set_nodelay\<close>\<close>
  ae_config :: "rstring + unit"
  ae_client :: "rstring + unit"         \<comment> \<open>\<open>ClientConnection::new\<close>\<close>
  ae_arm :: "instant \<Rightarrow> io_error + unit"  \<comment> \<open>setting the two socket timeouts\<close>
  ae_io :: "instant \<Rightarrow> duration \<Rightarrow> io_step \<times> duration list"
  ae_panic :: "duration option"  \<comment> \<open>the worker panics after that time\<close>
  ae_delay :: duration  \<comment> \<open>from the start of the worker's clock to the caller's wait\<close>

text \<open>The loop that re-arms the socket timeouts to what is left of the budget and drives the handshake.
  The clock advances from one call to the next, by a nanosecond at least.\<close>

function handshake_loop ::
  "(instant \<Rightarrow> io_error + unit) \<Rightarrow> (instant \<Rightarrow> duration \<Rightarrow> io_step \<times> duration list) \<Rightarrow> rstring \<Rightarrow> duration \<Rightarrow>
   instant \<Rightarrow> instant \<Rightarrow> (tls_error + tls_stream) \<times> instant" where
  "handshake_loop arm io addr deadline deadline_at now =
     (let remaining = deadline_at - now in
      if remaining = 0 then (Inl (HandshakeTimeout deadline), now)
      else (case arm now of
        Inl e \<Rightarrow> (Inl (TlsIo e), now)
      | Inr _ \<Rightarrow>
          let now' = now + max 1 (sum_list (snd (io now remaining))) in
          (case fst (io now remaining) of
             HandshakeDone certs \<Rightarrow> (Inr \<lparr>st_peer_certificates = certs\<rparr>, now')
           | StillHandshaking \<Rightarrow> handshake_loop arm io addr deadline deadline_at now'
           | IoFailed e \<Rightarrow>
               if e \<in> {WouldBlock, TimedOut} then handshake_loop arm io addr deadline deadline_at now'
               else if e \<in> {ConnectionRefused, ConnectionReset} then (Inl (ConnectFailed addr e), now')
               else (Inl (TlsIo e), now'))))"
  by pat_completeness auto
termination
  by (relation "measure (\<lambda>(arm, io, addr, deadline, deadline_at, now). deadline_at - now)") auto

declare handshake_loop.simps [simp del]

text \<open>The body of the worker; \<open>None\<close> is a panic.\<close>

definition worker :: "attempt_env \<Rightarrow> rstring \<Rightarrow> duration \<Rightarrow> instant \<Rightarrow> (tls_error + tls_stream) option \<times> instant" where
  "worker env addr deadline now =
     (case ae_panic env of
        Some d \<Rightarrow> (None, now + d)
      | None \<Rightarrow>
          (case ae_client env of
             Inl e \<Rightarrow> (Some (Inl (Rustls e)), now)
           | Inr _ \<Rightarrow>
               (case handshake_loop (ae_arm env) (ae_io env) addr deadline (now + deadline) now of
                  (r, t) \<Rightarrow> (Some r, t))))"

text \<open>The caller's wait: the result if the worker has sent one by the deadline.\<close>

definition caller_wait :: "duration \<Rightarrow> instant \<Rightarrow> (tls_error + tls_stream) option \<times> instant \<Rightarrow> tls_error + tls_stream" where
  "caller_wait deadline started w =
     (case w of (outcome, t) \<Rightarrow>
        if t > started + deadline then Inl (HandshakeTimeout deadline)
        else (case outcome of None \<Rightarrow> Inl WorkerPanicked | Some r \<Rightarrow> r))"

text \<open>An attempt: its result, and when the worker it spawned has exited, if it spawned one.\<close>

definition connect_with_timeout ::
  "attempt_env \<Rightarrow> rstring \<Rightarrow> duration \<Rightarrow> instant \<Rightarrow> (tls_error + tls_stream) \<times> instant option" where
  "connect_with_timeout env addr deadline now =
     (case ae_tcp env of
        None \<Rightarrow> (Inl (ConnectTimeout addr deadline), None)
      | Some (Inl e) \<Rightarrow> (Inl (ConnectFailed addr e), None)
      | Some (Inr _) \<Rightarrow>
          (case ae_socket env of
             Inl e \<Rightarrow> (Inl (ConnectFailed addr e), None)
           | Inr _ \<Rightarrow>
               (case ae_config env of
                  Inl e \<Rightarrow> (Inl (Rustls e), None)
                | Inr _ \<Rightarrow>
                    let w = worker env addr deadline now
                    in (caller_wait deadline (now + ae_delay env) w, Some (snd w)))))"

definition tls_connect :: "attempt_env \<Rightarrow> rstring \<Rightarrow> instant \<Rightarrow> (tls_error + tls_stream) \<times> instant option" where
  "tls_connect env addr now = connect_with_timeout env addr HANDSHAKE_TIMEOUT now"

definition peer_fingerprint :: "(bytes \<Rightarrow> fingerprint) \<Rightarrow> tls_stream \<Rightarrow> fingerprint option" where
  "peer_fingerprint sha256 stream =
     (case st_peer_certificates stream of
        Some (end_entity # _) \<Rightarrow> Some (sha256 end_entity) | _ \<Rightarrow> None)"

section \<open>The gauge of running workers\<close>

text \<open>\<open>IN_FLIGHT_HANDSHAKES\<close> with the workers that run: an attempt counts itself before it spawns its
  worker, and the guard of the worker uncounts it when the worker exits, by a panic too.\<close>

record gauge =
  ga_count :: u64
  ga_running :: "nat list"

datatype gauge_event = WorkerSpawned nat | WorkerExits nat

definition gauge_step :: "gauge \<Rightarrow> gauge_event \<Rightarrow> gauge" where
  "gauge_step g e =
     (case e of
        WorkerSpawned i \<Rightarrow> g\<lparr>ga_count := ga_count g + 1, ga_running := i # ga_running g\<rparr>
      | WorkerExits i \<Rightarrow>
          if i \<in> set (ga_running g) then g\<lparr>ga_count := ga_count g - 1, ga_running := remove1 i (ga_running g)\<rparr>
          else g)"

section \<open>The connector\<close>

definition READ_POLL_INTERVAL :: duration where
  "READ_POLL_INTERVAL = from_millis 100"

definition WRITE_TIMEOUT :: duration where
  "WRITE_TIMEOUT = from_secs 5"

definition record_pin ::
  "((rstring \<times> rstring) list \<Rightarrow> bytes option) \<Rightarrow> save_outcome \<Rightarrow> cast_device \<Rightarrow> fingerprint \<Rightarrow>
   tofu_store \<times> disk \<Rightarrow> pin_check \<times> tofu_store \<times> disk" where
  "record_pin to_vec oc device fp s = check to_vec oc (cd_tofu_key device) fp s"

text \<open>\<open>TlsConnector::connect\<close>; \<open>timeouts\<close> is what setting the read and write timeouts gives.\<close>

definition connector_connect ::
  "(bytes \<Rightarrow> fingerprint) \<Rightarrow> ((rstring \<times> rstring) list \<Rightarrow> bytes option) \<Rightarrow> save_outcome \<Rightarrow> attempt_env \<Rightarrow> io_error + unit \<Rightarrow>
   cast_device \<Rightarrow> instant \<Rightarrow> tofu_store \<times> disk \<Rightarrow> (tls_error + tls_stream \<times> pin_check) \<times> tofu_store \<times> disk" where
  "connector_connect sha256 to_vec oc env timeouts device now s =
     (case fst (tls_connect env (cd_addr device) now) of
        Inl e \<Rightarrow> (Inl e, s)
      | Inr stream \<Rightarrow>
          (case timeouts of
             Inl e \<Rightarrow> (Inl (TlsIo e), s)
           | Inr _ \<Rightarrow>
               (case peer_fingerprint sha256 stream of
                  Some fp \<Rightarrow> (case record_pin to_vec oc device fp s of (pin, s') \<Rightarrow> (Inr (stream, pin), s'))
                | None \<Rightarrow> (Inr (stream, Disabled), s))))"

section \<open>Bounded handshakes\<close>

text \<open>The worker exits at the deadline or with a call begun before it.\<close>

lemma handshake_loop_end:
  assumes "\<And>t. now \<le> t \<Longrightarrow> t < deadline_at \<Longrightarrow> t + sum_list (snd (io t (deadline_at - t))) \<le> bound"
    and "now \<le> bound" "deadline_at \<le> bound"
  shows "snd (handshake_loop arm io addr deadline deadline_at now) \<le> bound"
  using assms
proof (induction arm io addr deadline deadline_at now rule: handshake_loop.induct)
  case (1 arm io addr deadline deadline_at now)
  show ?case
  proof (cases "deadline_at - now = 0")
    case False
    have now': "now + max 1 (sum_list (snd (io now (deadline_at - now)))) \<le> bound"
      using "1.prems"(1) [of now] "1.prems"(3) False by auto
    then show ?thesis
      using "1.IH" [OF refl False _ refl] "1.prems" False
      by (subst handshake_loop.simps) (auto simp: Let_def split: sum.splits io_step.splits)
  qed (use "1.prems" in \<open>simp add: handshake_loop.simps\<close>)
qed

lemma sum_list_bound: "\<forall>d \<in> set ds. d \<le> (m :: nat) \<Longrightarrow> sum_list ds \<le> length ds * m"
  by (induction ds) auto

text \<open>The times at which the worker calls \<open>complete_io\<close>: calls that stall or time out are repeated
  while budget is left.\<close>

inductive retried ::
  "(instant \<Rightarrow> io_error + unit) \<Rightarrow> (instant \<Rightarrow> duration \<Rightarrow> io_step \<times> duration list) \<Rightarrow> instant \<Rightarrow> instant \<Rightarrow> instant \<Rightarrow> bool"
  for arm io deadline_at where
  retried_refl: "retried arm io deadline_at now now"
| retried_step: "t < deadline_at \<Longrightarrow> arm t = Inr () \<Longrightarrow>
    fst (io t (deadline_at - t)) \<in> {StillHandshaking, IoFailed WouldBlock, IoFailed TimedOut} \<Longrightarrow>
    retried arm io deadline_at (t + max 1 (sum_list (snd (io t (deadline_at - t))))) t' \<Longrightarrow> retried arm io deadline_at t t'"

lemma handshake_loop_retry:
  assumes "retried arm io deadline_at now t"
  shows "handshake_loop arm io addr deadline deadline_at now = handshake_loop arm io addr deadline deadline_at t"
  using assms
proof (induction rule: retried.induct)
  case (retried_step t t')
  then show ?case by (subst handshake_loop.simps) (auto simp: Let_def)
qed simp

lemma handshake_loop_ends:
  "\<exists>t. retried arm io deadline_at now t \<and>
    (deadline_at \<le> t \<or> arm t \<noteq> Inr () \<or> fst (io t (deadline_at - t)) \<notin> {StillHandshaking, IoFailed WouldBlock, IoFailed TimedOut})"
proof (induction "deadline_at - now" arbitrary: now rule: less_induct)
  case less
  show ?case
  proof (cases "now < deadline_at \<and> arm now = Inr () \<and>
      fst (io now (deadline_at - now)) \<in> {StillHandshaking, IoFailed WouldBlock, IoFailed TimedOut}")
    case True
    let ?next = "now + max 1 (sum_list (snd (io now (deadline_at - now))))"
    have "deadline_at - ?next < deadline_at - now" using True by (intro diff_less_mono2) auto
    from less [OF this] obtain t where t: "retried arm io deadline_at ?next t"
      "deadline_at \<le> t \<or> arm t \<noteq> Inr () \<or>
       fst (io t (deadline_at - t)) \<notin> {StillHandshaking, IoFailed WouldBlock, IoFailed TimedOut}" by auto
    from True retried_step [OF _ _ _ t(1)] have "retried arm io deadline_at now t" by blast
    with t(2) show ?thesis by blast
  next
    case False
    then show ?thesis by (metis retried_refl linorder_not_le)
  qed
qed

text \<open>C29: The handshake succeeds exactly when, before the deadline and after stalls and timeouts only,
  a call of \<open>complete_io\<close> finishes it; the stream then carries the certificates presented there.\<close>

theorem handshake_succeeds_iff:
  "handshake_loop arm io addr deadline deadline_at now = (Inr stream, t') \<longleftrightarrow>
   (\<exists>t. retried arm io deadline_at now t \<and> t < deadline_at \<and> arm t = Inr () \<and>
      fst (io t (deadline_at - t)) = HandshakeDone (st_peer_certificates stream) \<and>
      t' = t + max 1 (sum_list (snd (io t (deadline_at - t)))))"
proof
  assume ok: "handshake_loop arm io addr deadline deadline_at now = (Inr stream, t')"
  obtain t where t: "retried arm io deadline_at now t"
    "deadline_at \<le> t \<or> arm t \<noteq> Inr () \<or>
     fst (io t (deadline_at - t)) \<notin> {StillHandshaking, IoFailed WouldBlock, IoFailed TimedOut}"
    using handshake_loop_ends [of arm io deadline_at now] by blast
  have "handshake_loop arm io addr deadline deadline_at t = (Inr stream, t')"
    using ok handshake_loop_retry [OF t(1)] by simp
  with t show "\<exists>t. retried arm io deadline_at now t \<and> t < deadline_at \<and> arm t = Inr () \<and>
      fst (io t (deadline_at - t)) = HandshakeDone (st_peer_certificates stream) \<and>
      t' = t + max 1 (sum_list (snd (io t (deadline_at - t))))"
    by (subst (asm) handshake_loop.simps)
      (auto simp: Let_def split: if_splits sum.splits io_step.splits intro!: exI [of _ t])
next
  assume "\<exists>t. retried arm io deadline_at now t \<and> t < deadline_at \<and> arm t = Inr () \<and>
      fst (io t (deadline_at - t)) = HandshakeDone (st_peer_certificates stream) \<and>
      t' = t + max 1 (sum_list (snd (io t (deadline_at - t))))"
  then obtain t where t: "retried arm io deadline_at now t" "t < deadline_at" "arm t = Inr ()"
    "fst (io t (deadline_at - t)) = HandshakeDone (st_peer_certificates stream)"
    "t' = t + max 1 (sum_list (snd (io t (deadline_at - t))))" by blast
  then have "handshake_loop arm io addr deadline deadline_at t = (Inr stream, t')"
    by (subst handshake_loop.simps) (simp add: Let_def)
  with handshake_loop_retry [OF t(1)] show "handshake_loop arm io addr deadline deadline_at now = (Inr stream, t')"
    by simp
qed

text \<open>C31: The handshake worker is bounded by socket timeouts alone. If every socket read or write ends
  within its timeout and \<open>slack\<close>, and \<open>complete_io\<close> makes at most \<open>k\<close> of them in a call, the worker of
  an attempt has exited, whatever the peer does and whatever became of the caller, at most \<open>k\<close> times
  the deadline and \<open>slack\<close> after it was started: a call begun late is armed with what is left, so
  however many calls there are, only the socket operations of one of them count.\<close>

theorem handshake_worker_bounded:
  assumes "\<And>t b. length (snd (ae_io env t b)) \<le> k" "0 < k"
    and "\<And>t b d. d \<in> set (snd (ae_io env t b)) \<Longrightarrow> d \<le> b + slack"
    and "ae_panic env = None" "snd (connect_with_timeout env addr deadline now) = Some t"
  shows "t \<le> now + k * (deadline + slack)"
proof -
  have "snd (handshake_loop (ae_arm env) (ae_io env) addr deadline (now + deadline) now) \<le> now + k * (deadline + slack)"
  proof (rule handshake_loop_end)
    fix t
    assume t: "now \<le> t" "t < now + deadline"
    let ?b = "now + deadline - t"
    have "sum_list (snd (ae_io env t ?b)) \<le> length (snd (ae_io env t ?b)) * (?b + slack)"
      by (rule sum_list_bound) (use assms(3) in blast)
    also have "\<dots> \<le> k * (?b + slack)" using assms(1) by (rule mult_le_mono1)
    finally have "t + sum_list (snd (ae_io env t ?b)) \<le> t + k * (?b + slack)" by simp
    also have "k * (?b + slack) + k * (t - now) = k * (deadline + slack)"
      unfolding distrib_left [symmetric] using t by simp
    moreover have "t - now \<le> k * (t - now)" using assms(2) by simp
    ultimately show "t + sum_list (snd (ae_io env t ?b)) \<le> now + k * (deadline + slack)" using t by linarith
  next
    have "deadline + slack \<le> k * (deadline + slack)" using assms(2) by (cases k) auto
    then show "now + deadline \<le> now + k * (deadline + slack)" by (rule add_left_mono [OF order_trans [OF le_add1]])
  qed simp
  moreover have "now \<le> now + k * (deadline + slack)" by simp
  ultimately show ?thesis
    using assms(4,5)
    by (auto simp: connect_with_timeout_def worker_def Let_def split: option.splits sum.splits prod.splits)
qed

theorem handshake_worker_bounded_witness:
  "\<exists>t. snd (connect_with_timeout
      \<lparr>ae_tcp = Some (Inr ()), ae_socket = Inr (), ae_config = Inr (), ae_client = Inr (), ae_arm = (\<lambda>_. Inr ()),
       ae_io = (\<lambda>t b. (IoFailed TimedOut, [1, b])), ae_panic = None, ae_delay = 0\<rparr> (str ''1.2.3.4:8009'') 5 100) = Some t \<and>
      t \<le> 112"
proof -
  let ?env = "\<lparr>ae_tcp = Some (Inr ()), ae_socket = Inr (), ae_config = Inr (), ae_client = Inr (), ae_arm = (\<lambda>_. Inr ()),
    ae_io = (\<lambda>t b. (IoFailed TimedOut, [1, b])), ae_panic = None, ae_delay = 0\<rparr>"
  obtain t where "snd (connect_with_timeout ?env (str ''1.2.3.4:8009'') 5 100) = Some t"
    by (simp add: connect_with_timeout_def Let_def)
  moreover have "d \<le> b + 1" if "d \<in> set (snd (ae_io ?env t b))" for t b d using that by auto
  ultimately show ?thesis using handshake_worker_bounded [of ?env 2 1 "str ''1.2.3.4:8009''" 5 100 t] by auto
qed

text \<open>The bound is reached. A peer that answers every socket call just in time keeps the worker of one
  call running for all of its \<open>k\<close> operations, long after the caller has given up.\<close>

lemma dripping_peer_outlasts_deadline:
  assumes "0 < k" "0 < deadline"
  shows "connect_with_timeout
      \<lparr>ae_tcp = Some (Inr ()), ae_socket = Inr (), ae_config = Inr (), ae_client = Inr (), ae_arm = (\<lambda>_. Inr ()),
       ae_io = (\<lambda>t b. (StillHandshaking, replicate k b)), ae_panic = None, ae_delay = 0\<rparr> addr deadline now =
    (Inl (HandshakeTimeout deadline), Some (now + k * deadline))"
proof -
  have "max 1 (k * deadline) = k * deadline" "deadline \<le> k * deadline" using assms by simp_all
  then show ?thesis
    using assms
    by (simp add: connect_with_timeout_def worker_def caller_wait_def Let_def sum_list_replicate handshake_loop.simps)
qed

text \<open>A refused or reset peer is reported as a failed connect whether the TCP connect or the handshake
  meets it.\<close>

lemma refused_is_connect_error:
  assumes "e \<in> {ConnectionRefused, ConnectionReset}"
    and "ae_tcp env = Some (Inl e) \<or>
      ae_tcp env = Some (Inr ()) \<and> ae_socket env = Inr () \<and> ae_config env = Inr () \<and> ae_client env = Inr () \<and>
      ae_panic env = None \<and> 0 < deadline \<and> ae_arm env now = Inr () \<and>
      fst (ae_io env now deadline) = IoFailed e \<and> sum_list (snd (ae_io env now deadline)) \<le> deadline"
  shows "fst (connect_with_timeout env addr deadline now) = Inl (ConnectFailed addr e)"
  using assms
  by (auto simp: connect_with_timeout_def worker_def caller_wait_def handshake_loop.simps Let_def)

section \<open>The gauge counts the running workers\<close>

definition gauge_inv :: "gauge \<Rightarrow> bool" where
  "gauge_inv g \<longleftrightarrow> ga_count g = of_nat (length (ga_running g))"

lemma of_nat_pred: "x \<in> set xs \<Longrightarrow> of_nat (length xs) - 1 = (of_nat (length xs - 1) :: u64)"
  by (cases xs) auto

interpretation in_flight: step_invariant "\<lparr>ga_count = 0, ga_running = []\<rparr>" gauge_step "\<lambda>_. True" gauge_inv
  by unfold_locales
    (auto simp: gauge_inv_def gauge_step_def length_remove1 of_nat_pred [simplified] split: gauge_event.splits)

text \<open>The gauge of handshakes in flight never drifts: in every interleaving of attempts, whose
  workers return or panic in any order, it is the number of running workers, and 0 when all have
  exited.\<close>

theorem gauge_counts_workers:
  "ga_count (run gauge_step \<lparr>ga_count = 0, ga_running = []\<rparr> events) =
     of_nat (length (ga_running (run gauge_step \<lparr>ga_count = 0, ga_running = []\<rparr> events)))"
  using in_flight.inv_run [of events] by (simp add: gauge_inv_def list_all_iff)

section \<open>A history of connections\<close>

text \<open>What one call of the connector meets.\<close>

record pin_attempt =
  pa_device :: cast_device
  pa_env :: attempt_env
  pa_timeouts :: "io_error + unit"
  pa_save :: save_outcome
  pa_now :: instant

definition connect_attempt ::
  "(bytes \<Rightarrow> fingerprint) \<Rightarrow> ((rstring \<times> rstring) list \<Rightarrow> bytes option) \<Rightarrow> pin_attempt \<Rightarrow>
   tofu_store \<times> disk \<Rightarrow> (tls_error + tls_stream \<times> pin_check) \<times> tofu_store \<times> disk" where
  "connect_attempt sha256 to_vec a =
     connector_connect sha256 to_vec (pa_save a) (pa_env a) (pa_timeouts a) (pa_device a) (pa_now a)"

definition connect_attempts ::
  "(bytes \<Rightarrow> fingerprint) \<Rightarrow> ((rstring \<times> rstring) list \<Rightarrow> bytes option) \<Rightarrow> tofu_store \<times> disk \<Rightarrow> pin_attempt list \<Rightarrow>
   tofu_store \<times> disk" where
  "connect_attempts sha256 to_vec = run (\<lambda>s a. snd (connect_attempt sha256 to_vec a s))"

text \<open>The certificate an attempt shows to the store, if the handshake and the socket options work and
  the peer presented one.\<close>

definition presented :: "(bytes \<Rightarrow> fingerprint) \<Rightarrow> pin_attempt \<Rightarrow> (rstring \<times> fingerprint \<times> save_outcome) option" where
  "presented sha256 a =
     (case fst (tls_connect (pa_env a) (cd_addr (pa_device a)) (pa_now a)) of
        Inl _ \<Rightarrow> None
      | Inr stream \<Rightarrow>
          if is_ok (pa_timeouts a)
          then map_option (\<lambda>fp. (cd_tofu_key (pa_device a), fp, pa_save a)) (peer_fingerprint sha256 stream)
          else None)"

lemma connect_attempt_presented:
  "snd (connect_attempt sha256 to_vec a s) =
   (case presented sha256 a of None \<Rightarrow> s | Some (key, fp, oc) \<Rightarrow> snd (check to_vec oc key fp s))"
  by (auto simp: connect_attempt_def connector_connect_def presented_def record_pin_def
      split: sum.splits option.splits prod.splits)

lemma connect_attempts_presented:
  "connect_attempts sha256 to_vec s as = snd (check_all to_vec (List.map_filter (presented sha256) as) s)"
proof (induction as arbitrary: s)
  case (Cons a as)
  show ?case
  proof (cases "presented sha256 a")
    case None
    with Cons.IH [of s] show ?thesis
      by (simp add: connect_attempts_def connect_attempt_presented List.map_filter_simps)
  next
    case (Some p)
    obtain key fp oc where p: "p = (key, fp, oc)" by (cases p)
    obtain r s' where "check to_vec oc key fp s = (r, s')" by (cases "check to_vec oc key fp s") blast
    with Cons.IH [of s'] Some p show ?thesis
      by (simp add: connect_attempts_def connect_attempt_presented List.map_filter_simps case_prod_unfold)
  qed
qed (simp add: connect_attempts_def List.map_filter_simps)

text \<open>Pinning at the connector: after any history of connection attempts, failed ones included, a
  handshake that completes with an end-entity certificate yields a usable stream together with the
  verdict on that certificate: pinned if no earlier handshake showed one under the device's key,
  matched if its digest is that of the first one shown, and a mismatch with that first one
  otherwise. A mismatch does not fail the connection.\<close>

lemma connector_pins_first_certificate:
  assumes "fst (tls_connect (pa_env a) (cd_addr (pa_device a)) (pa_now a)) = Inr stream"
    and "st_peer_certificates stream = Some (certificate # chain)" and "pa_timeouts a = Inr ()"
  shows "fst (connect_attempt sha256 to_vec a
      (connect_attempts sha256 to_vec (in_memory\<lparr>ts_path := path\<rparr>, d) history)) =
    Inr (stream,
      case first_seen (List.map_filter (presented sha256) history) (cd_tofu_key (pa_device a)) of
        None \<Rightarrow> Pinned
      | Some first \<Rightarrow> if first = sha256 certificate then Matched else Mismatch first (sha256 certificate))"
proof -
  let ?s = "connect_attempts sha256 to_vec (in_memory\<lparr>ts_path := path\<rparr>, d) history"
  let ?shown = "List.map_filter (presented sha256) history"
  have "map_of (ts_pins (fst ?s)) (cd_tofu_key (pa_device a)) = first_seen ?shown (cd_tofu_key (pa_device a))"
    using check_all_pins [of to_vec ?shown "in_memory\<lparr>ts_path := path\<rparr>" d]
    by (simp add: connect_attempts_presented in_memory_def)
  then show ?thesis
    using assms
    by (auto simp: connect_attempt_def connector_connect_def peer_fingerprint_def record_pin_def check_def
        Let_def split: prod.splits option.splits)
qed

end
