(* ===== verification/Transport.thy ===== *)
theory Transport
  imports Connection_Properties Tls
begin

text \<open>
  The edges of the connection task: the handle through which the application drives it
  (\<open>CastConnection\<close> of \<open>src/cast/connection/mod.rs\<close>), the closing of a TLS transport
  (\<open>src/cast/connection/transport.rs\<close>, \<open>src/cast/tls.rs\<close>), the connector's answer as the
  outcome of a connect attempt, and the in-memory transport and connector of
  \<open>test_support\<close>.
\<close>

section \<open>The handle\<close>

text \<open>The sending half of the unbounded channel: what was sent and not yet received, and whether the
  task still holds the receiver. \<open>fc_received\<close> is what the task has taken from the channel.\<close>

record cast_connection =
  fc_queue :: "command list"
  fc_open :: bool
  fc_received :: "command list"

definition facade_start :: cast_connection where
  "facade_start = \<lparr>fc_queue = [], fc_open = True, fc_received = []\<rparr>"

definition send_command :: "command \<Rightarrow> cast_connection \<Rightarrow> cast_connection" where
  "send_command c h = (if fc_open h then h\<lparr>fc_queue := fc_queue h @ [c]\<rparr> else h)"

definition facade_select :: "cast_device \<Rightarrow> cast_connection \<Rightarrow> cast_connection" where
  "facade_select device = send_command (Select device)"

definition launch_default_receiver :: "cast_connection \<Rightarrow> cast_connection" where
  "launch_default_receiver = send_command LaunchDefaultReceiver"

definition facade_load :: "rstring \<Rightarrow> rstring \<Rightarrow> stream_type \<Rightarrow> cast_connection \<Rightarrow> cast_connection" where
  "facade_load content_id content_type st = send_command (Load content_id content_type st)"

definition facade_play :: "cast_connection \<Rightarrow> cast_connection" where
  "facade_play = send_command Play"

definition facade_pause :: "cast_connection \<Rightarrow> cast_connection" where
  "facade_pause = send_command Pause"

definition facade_stop :: "cast_connection \<Rightarrow> cast_connection" where
  "facade_stop = send_command Stop"

definition facade_set_volume :: "u32 \<Rightarrow> bool \<Rightarrow> cast_connection \<Rightarrow> cast_connection" where
  "facade_set_volume level muted = send_command (SetVolume level muted)"

definition facade_get_status :: "cast_connection \<Rightarrow> cast_connection" where
  "facade_get_status = send_command GetStatus"

definition facade_shutdown :: "cast_connection \<Rightarrow> cast_connection" where
  "facade_shutdown = send_command Shutdown"

text \<open>A use of the channel: one of the calls above, the task receiving, or the task ending.\<close>

datatype facade_input =
    CallSelect cast_device
  | CallLaunch
  | CallLoad rstring rstring stream_type
  | CallPlay
  | CallPause
  | CallStop
  | CallSetVolume u32 bool
  | CallGetStatus
  | CallShutdown
  | TaskReceives
  | TaskEnds

fun facade_step :: "cast_connection \<Rightarrow> facade_input \<Rightarrow> cast_connection" where
  "facade_step h (CallSelect device) = facade_select device h"
| "facade_step h CallLaunch = launch_default_receiver h"
| "facade_step h (CallLoad content_id content_type st) = facade_load content_id content_type st h"
| "facade_step h CallPlay = facade_play h"
| "facade_step h CallPause = facade_pause h"
| "facade_step h CallStop = facade_stop h"
| "facade_step h (CallSetVolume level muted) = facade_set_volume level muted h"
| "facade_step h CallGetStatus = facade_get_status h"
| "facade_step h CallShutdown = facade_shutdown h"
| "facade_step h TaskReceives =
     (case fc_queue h of
        [] \<Rightarrow> h
      | c # cs \<Rightarrow> if fc_open h then h\<lparr>fc_queue := cs, fc_received := fc_received h @ [c]\<rparr> else h)"
| "facade_step h TaskEnds = h\<lparr>fc_open := False\<rparr>"

text \<open>The command a call stands for, by its documentation.\<close>

fun call_command :: "facade_input \<Rightarrow> command option" where
  "call_command (CallSelect device) = Some (Select device)"
| "call_command CallLaunch = Some LaunchDefaultReceiver"
| "call_command (CallLoad content_id content_type st) = Some (Load content_id content_type st)"
| "call_command CallPlay = Some Play"
| "call_command CallPause = Some Pause"
| "call_command CallStop = Some Stop"
| "call_command (CallSetVolume level muted) = Some (SetVolume level muted)"
| "call_command CallGetStatus = Some GetStatus"
| "call_command CallShutdown = Some Shutdown"
| "call_command TaskReceives = None"
| "call_command TaskEnds = None"

section \<open>Closing a transport\<close>

text \<open>What \<open>close\<close> and \<open>shutdown\<close> of the TLS transport do to the socket, in order.\<close>

datatype tls_action = SendCloseNotify | FlushTls | SocketShutdown

definition tls_transport_close :: "tls_action list" where
  "tls_transport_close = [SendCloseNotify, FlushTls, SocketShutdown]"

definition tls_transport_shutdown :: "tls_action list" where
  "tls_transport_shutdown = [SocketShutdown]"

definition close_notify :: "tls_action list" where
  "close_notify = [SendCloseNotify, FlushTls]"

section \<open>The in-memory transport\<close>

record mock_pipe =
  mp_incoming :: bytes
  mp_outgoing :: bytes
  mp_closed :: bool

definition mock_pipe_new :: mock_pipe where
  "mock_pipe_new = \<lparr>mp_incoming = [], mp_outgoing = [], mp_closed = False\<rparr>"

definition push_incoming :: "bytes \<Rightarrow> mock_pipe \<Rightarrow> mock_pipe" where
  "push_incoming bs p = p\<lparr>mp_incoming := mp_incoming p @ bs\<rparr>"

definition take_outgoing :: "mock_pipe \<Rightarrow> bytes \<times> mock_pipe" where
  "take_outgoing p = (mp_outgoing p, p\<lparr>mp_outgoing := []\<rparr>)"

definition push_outgoing :: "bytes \<Rightarrow> mock_pipe \<Rightarrow> mock_pipe" where
  "push_outgoing bs p = p\<lparr>mp_outgoing := bs @ mp_outgoing p\<rparr>"

definition mock_close :: "mock_pipe \<Rightarrow> mock_pipe" where
  "mock_close p = p\<lparr>mp_closed := True\<rparr>"

definition mock_is_closed :: "mock_pipe \<Rightarrow> bool" where
  "mock_is_closed p = mp_closed p"

text \<open>A wait on the condition variable gives the state found afterwards, whether it timed out, and the
  time. \<open>None\<close>: still waiting when the script ends.\<close>

record mock_wait =
  mw_state :: mock_pipe
  mw_timed_out :: bool
  mw_now :: instant

fun wait_outgoing :: "instant \<Rightarrow> instant \<Rightarrow> mock_wait list \<Rightarrow> mock_pipe \<Rightarrow> (bytes \<times> mock_pipe) option" where
  "wait_outgoing deadline now ws p =
     (if mp_outgoing p \<noteq> [] \<or> mp_closed p \<or> now \<ge> deadline then Some (take_outgoing p)
      else (case ws of
        [] \<Rightarrow> None
      | w # ws' \<Rightarrow>
          if mw_timed_out w then Some (take_outgoing (mw_state w))
          else wait_outgoing deadline (mw_now w) ws' (mw_state w)))"

fun mock_read :: "nat \<Rightarrow> mock_wait list \<Rightarrow> mock_pipe \<Rightarrow> ((io_error + bytes) \<times> mock_pipe) option" where
  "mock_read n ws p =
     (if mp_incoming p \<noteq> [] then
        Some (Inr (take n (mp_incoming p)), p\<lparr>mp_incoming := drop n (mp_incoming p)\<rparr>)
      else if mp_closed p then Some (Inr [], p)
      else (case ws of
        [] \<Rightarrow> None
      | w # ws' \<Rightarrow> if mw_timed_out w then Some (Inl WouldBlock, mw_state w) else mock_read n ws' (mw_state w)))"

declare wait_outgoing.simps [simp del] mock_read.simps [simp del]

definition mock_write :: "bytes \<Rightarrow> mock_pipe \<Rightarrow> nat \<times> mock_pipe" where
  "mock_write bs p = (length bs, p\<lparr>mp_outgoing := mp_outgoing p @ bs\<rparr>)"

section \<open>The in-memory connector\<close>

text \<open>The pipes handed out, by number; a handle of a pipe is its number.\<close>

record mock_connector =
  mc_fail_connections :: nat
  mc_pipes :: "mock_pipe list"

definition mock_connector_new :: mock_connector where
  "mock_connector_new = \<lparr>mc_fail_connections = 0, mc_pipes = []\<rparr>"

definition fail_next :: "nat \<Rightarrow> mock_connector \<Rightarrow> mock_connector" where
  "fail_next n c = c\<lparr>mc_fail_connections := n\<rparr>"

definition last_pipe :: "mock_connector \<Rightarrow> mock_pipe option" where
  "last_pipe c = (if mc_pipes c = [] then None else Some (last (mc_pipes c)))"

definition mock_connect :: "cast_device \<Rightarrow> mock_connector \<Rightarrow> (tls_error + nat \<times> pin_check) \<times> mock_connector" where
  "mock_connect device c =
     (if mc_fail_connections c > 0 then
        (Inl (ConnectFailed (cd_addr device) ConnectionRefused), c\<lparr>mc_fail_connections := mc_fail_connections c - 1\<rparr>)
      else (Inr (length (mc_pipes c), Disabled), c\<lparr>mc_pipes := mc_pipes c @ [mock_pipe_new]\<rparr>))"

section \<open>The connector's answer as an attempt of the task\<close>

definition attempt_of :: "tls_error + tls_stream \<times> pin_check \<Rightarrow> transport \<Rightarrow> bool \<Rightarrow> attempt" where
  "attempt_of r tr spawned =
     \<lparr>at_connect = (case r of Inl _ \<Rightarrow> None | Inr (_, pin) \<Rightarrow> Some (tr, pin)), at_spawn = spawned\<rparr>"

section \<open>Properties of the handle\<close>

lemmas facade_defs = facade_select_def launch_default_receiver_def facade_load_def facade_play_def facade_pause_def
  facade_stop_def facade_set_volume_def facade_get_status_def facade_shutdown_def send_command_def

definition through_channel :: "cast_connection \<Rightarrow> command list" where
  "through_channel h = fc_received h @ fc_queue h"

lemma facade_closed: "\<not> fc_open h \<Longrightarrow> through_channel (run facade_step h inputs) = through_channel h"
proof (induction inputs arbitrary: h)
  case (Cons i inputs)
  then have "through_channel (facade_step h i) = through_channel h" "\<not> fc_open (facade_step h i)"
    by (cases i; simp add: facade_defs through_channel_def split: list.splits)+
  with Cons.IH show ?case by simp
qed simp

lemma facade_step_open:
  "fc_open h \<Longrightarrow> i \<noteq> TaskEnds \<Longrightarrow> fc_open (facade_step h i) \<and>
   through_channel (facade_step h i) = through_channel h @ (case call_command i of None \<Rightarrow> [] | Some c \<Rightarrow> [c])"
  by (cases i) (simp_all add: facade_defs through_channel_def split: list.splits)

lemma facade_open:
  "fc_open h \<Longrightarrow> through_channel (run facade_step h inputs) =
     through_channel h @ List.map_filter call_command (takeWhile (\<lambda>i. i \<noteq> TaskEnds) inputs)"
proof (induction inputs arbitrary: h)
  case (Cons i inputs)
  show ?case
  proof (cases "i = TaskEnds")
    case True
    then show ?thesis using facade_closed [of "h\<lparr>fc_open := False\<rparr>" inputs]
      by (simp add: through_channel_def List.map_filter_simps)
  next
    case False
    with Cons facade_step_open [of h i] show ?thesis
      by (simp add: List.map_filter_simps split: option.splits)
  qed
qed (simp add: List.map_filter_simps)

text \<open>The handle loses, reorders and invents no command: what the task has received, followed by
  what waits in the channel, is the command of every call made before the task ended, in the order
  of the calls.\<close>

theorem handle_delivers_in_order:
  "fc_received (run facade_step facade_start inputs) @ fc_queue (run facade_step facade_start inputs) =
   List.map_filter call_command (takeWhile (\<lambda>i. i \<noteq> TaskEnds) inputs)"
  using facade_open [of facade_start inputs] by (simp add: facade_start_def through_channel_def)

section \<open>Properties of the in-memory transport\<close>

text \<open>A byte stream that is fed at one end and pulled from at the other.\<close>

locale byte_stream =
  fixes pending :: "'s \<Rightarrow> bytes"
    and feed :: "bytes \<Rightarrow> 's \<Rightarrow> 's"
    and pull :: "nat \<Rightarrow> 's \<Rightarrow> bytes \<times> 's"
  assumes pending_feed: "pending (feed bs s) = pending s @ bs"
    and pending_pull: "pull n s = (bs, s') \<Longrightarrow> pending s = bs @ pending s' \<and> length bs \<le> n"
begin

fun transfer :: "'s \<Rightarrow> (bytes + nat) list \<Rightarrow> bytes \<times> 's" where
  "transfer s [] = ([], s)"
| "transfer s (Inl bs # ops) = transfer (feed bs s) ops"
| "transfer s (Inr n # ops) =
     (case pull n s of (bs, s1) \<Rightarrow> (case transfer s1 ops of (rest, s2) \<Rightarrow> (bs @ rest, s2)))"

fun fed :: "(bytes + nat) list \<Rightarrow> bytes" where
  "fed [] = []"
| "fed (Inl bs # ops) = bs @ fed ops"
| "fed (Inr n # ops) = fed ops"

text \<open>Nothing is lost, duplicated or reordered, however feeding and pulling interleave.\<close>

lemma transfer_conserves: "transfer s ops = (bs, s') \<Longrightarrow> bs @ pending s' = pending s @ fed ops"
proof (induction s ops arbitrary: bs s' rule: transfer.induct)
  case (2 s fs ops)
  then show ?case using pending_feed [of fs s] by simp
next
  case (3 s n ops)
  obtain ps s1 where p: "pull n s = (ps, s1)" by fastforce
  obtain rest s2 where t: "transfer s1 ops = (rest, s2)" by fastforce
  from 3 p t pending_pull [OF p] show ?case by auto
qed simp

end

text \<open>A read of the mock that finds data, and its writes.\<close>

definition pull_incoming :: "nat \<Rightarrow> mock_pipe \<Rightarrow> bytes \<times> mock_pipe" where
  "pull_incoming n p =
     (case mock_read n [] p of Some (Inr bs, p') \<Rightarrow> (bs, p') | _ \<Rightarrow> ([], p))"

definition feed_outgoing :: "bytes \<Rightarrow> mock_pipe \<Rightarrow> mock_pipe" where
  "feed_outgoing bs p = snd (mock_write bs p)"

interpretation incoming: byte_stream mp_incoming push_incoming pull_incoming
  by unfold_locales
    (auto simp: push_incoming_def pull_incoming_def mock_read.simps [of _ "[]"] split: if_splits)

interpretation outgoing: byte_stream mp_outgoing feed_outgoing "\<lambda>n p. if length (mp_outgoing p) \<le> n then take_outgoing p else ([], p)"
  by unfold_locales (auto simp: feed_outgoing_def mock_write_def take_outgoing_def split: if_splits)

text \<open>Putting back what was taken restores the pipe.\<close>

lemma push_outgoing_take: "take_outgoing p = (bs, p') \<Longrightarrow> push_outgoing bs p' = p"
  by (auto simp: take_outgoing_def push_outgoing_def)

text \<open>After \<open>fail_next n\<close> exactly the next \<open>n\<close> attempts are refused.\<close>

fun mock_connects :: "cast_device \<Rightarrow> nat \<Rightarrow> mock_connector \<Rightarrow> (tls_error + nat \<times> pin_check) list" where
  "mock_connects device 0 c = []"
| "mock_connects device (Suc k) c = (case mock_connect device c of (r, c') \<Rightarrow> r # mock_connects device k c')"

lemma fail_next_refuses:
  "mock_connects device (Suc n) (fail_next n c) =
   replicate n (Inl (ConnectFailed (cd_addr device) ConnectionRefused)) @ [Inr (length (mc_pipes c), Disabled)]"
proof (induction n arbitrary: c)
  case (Suc n)
  from Suc [of c] show ?case by (simp add: fail_next_def mock_connect_def)
qed (simp add: fail_next_def mock_connect_def)

section \<open>A changed certificate\<close>

text \<open>C6: A changed certificate is always announced, and never silently accepted: after any history of
  connection attempts, an attempt whose handshake completes with a certificate whose digest differs
  from the first one shown under the device's key emits \<open>CertificateMismatch\<close> with both digests
  before anything else, whether the attempt then succeeds or not; and an attempt that shows the
  first certificate again, or the first one under its key, emits none.\<close>

theorem changed_certificate_announced:
  assumes "fst (tls_connect (pa_env a) (cd_addr (pa_device a)) (pa_now a)) = Inr stream"
    and "st_peer_certificates stream = Some (certificate # chain)" and "pa_timeouts a = Inr ()"
    and "st = connect_attempts sha256 to_vec (in_memory\<lparr>ts_path := path\<rparr>, d) history"
    and "seen = first_seen (List.map_filter (presented sha256) history) (cd_tofu_key (pa_device a))"
  shows "st_events (snd (establish env cfg now (attempt_of (fst (connect_attempt sha256 to_vec a st)) tr spawned) (pa_device a) rs)) =
    st_events rs @
    (case seen of
       Some first \<Rightarrow> if first \<noteq> sha256 certificate then [EvCertificateMismatch (pa_device a) first (sha256 certificate)] else []
     | None \<Rightarrow> []) @
    (if is_ok (fst (establish env cfg now (attempt_of (fst (connect_attempt sha256 to_vec a st)) tr spawned) (pa_device a) rs))
     then [EvConnected (pa_device a)] else [])"
proof -
  have "fst (connect_attempt sha256 to_vec a st) = Inr (stream,
      case seen of None \<Rightarrow> Pinned
      | Some first \<Rightarrow> if first = sha256 certificate then Matched else Mismatch first (sha256 certificate))"
    unfolding assms(4,5) by (rule connector_pins_first_certificate [OF assms(1-3)])
  then show ?thesis
    by (auto simp: attempt_of_def establish_def emit_def Let_def split: option.splits prod.splits sum.splits)
qed

theorem changed_certificate_announced_witness:
  "let a = \<lparr>pa_device = \<lparr>cd_id = [1], cd_name = [2], cd_addr = [3], cd_tofu_key = [4]\<rparr>,
        pa_env = \<lparr>ae_tcp = Some (Inr ()), ae_socket = Inr (), ae_config = Inr (), ae_client = Inr (), ae_arm = (\<lambda>_. Inr ()),
          ae_io = (\<lambda>t b. (HandshakeDone (Some [[9]]), [1])), ae_panic = None, ae_delay = 0\<rparr>,
        pa_timeouts = Inr (), pa_save = \<lparr>so_mkdir = True, so_write = None, so_rename = True, so_remove = True\<rparr>, pa_now = 0\<rparr>;
       old = a\<lparr>pa_env := (pa_env a)\<lparr>ae_io := (\<lambda>t b. (HandshakeDone (Some [[8]]), [1]))\<rparr>\<rparr>;
       st = connect_attempts (\<lambda>c. c) (\<lambda>_. None) (in_memory, \<lambda>_. None) [old];
       at = attempt_of (fst (connect_attempt (\<lambda>c. c) (\<lambda>_. None) a st)) \<lparr>tr_sent = [], tr_closed = False, tr_script = [SendFail 0 BrokenPipe]\<rparr> True
   in st_events (snd (establish toy_env default_config 0 at (pa_device a) run_state_new)) =
      [EvCertificateMismatch (pa_device a) [8] [9]]"
proof -
  let ?a = "\<lparr>pa_device = \<lparr>cd_id = [1], cd_name = [2], cd_addr = [3], cd_tofu_key = [4]\<rparr>,
    pa_env = \<lparr>ae_tcp = Some (Inr ()), ae_socket = Inr (), ae_config = Inr (), ae_client = Inr (), ae_arm = (\<lambda>_. Inr ()),
      ae_io = (\<lambda>t b. (HandshakeDone (Some [[9]]), [1])), ae_panic = None, ae_delay = 0\<rparr>,
    pa_timeouts = Inr (), pa_save = \<lparr>so_mkdir = True, so_write = None, so_rename = True, so_remove = True\<rparr>, pa_now = 0\<rparr> :: pin_attempt"
  let ?old = "?a\<lparr>pa_env := (pa_env ?a)\<lparr>ae_io := (\<lambda>t b. (HandshakeDone (Some [[8]]), [1]))\<rparr>\<rparr>"
  let ?tr = "\<lparr>tr_sent = [], tr_closed = False, tr_script = [SendFail 0 BrokenPipe]\<rparr>"
  note defs = tls_connect_def connect_with_timeout_def worker_def caller_wait_def handshake_loop.simps HANDSHAKE_TIMEOUT_def from_secs_def
  have ok: "fst (tls_connect (pa_env ?a) (cd_addr (pa_device ?a)) (pa_now ?a)) = Inr \<lparr>st_peer_certificates = Some [[9]]\<rparr>"
    by (simp add: defs)
  have old: "List.map_filter (presented (\<lambda>c. c)) [?old] = [([4], [8], pa_save ?old)]"
    by (simp add: defs presented_def peer_fingerprint_def List.map_filter_simps)
  have mem: "in_memory\<lparr>ts_path := None\<rparr> = in_memory" by (simp add: in_memory_def)
  show ?thesis
    using changed_certificate_announced [OF ok, of "[9]" "[]" _ "\<lambda>c. c" "\<lambda>_. None" None "\<lambda>_. None" "[?old]" _ toy_env
        default_config 0 ?tr True run_state_new, OF _ _ refl refl]
    unfolding Let_def old mem
    by (simp add: run_state_new_def establish_def send_payload_def attempt_of_def Let_def split: sum.splits prod.splits)
qed

end
