(* ===== verification/Portal.thy ===== *)
theory Portal
  imports Screen_Encoder
begin

text \<open>
  The client of the desktop portal (\<open>src/screen/portal.rs\<close>): the requests \<open>CreateSession\<close>,
  \<open>SelectSources\<close> and \<open>Start\<close>, each a D-Bus call followed by a wait for the response
  signal that races the abort signal, then \<open>OpenPipeWireRemote\<close> and \<open>Close\<close>.

  The zbus crate is a parameter: what its calls and its message stream give are inputs of a
  request, and the conversions of its dynamically typed values (\<open>zvariant\<close>) are functions of a
  record over an arbitrary type of values.
\<close>

section \<open>Values, errors and calls\<close>

type_synonym 'v results = "(rstring \<times> 'v) list"

text \<open>\<open>try_from\<close> of the values the client reads; \<open>Inl\<close> is the printed conversion error.\<close>

record 'v zvariant =
  zv_string :: "'v \<Rightarrow> rstring + rstring"
  zv_streams :: "'v \<Rightarrow> rstring + (u32 \<times> 'v results) list"
  zv_size :: "'v \<Rightarrow> rstring + (u32 \<times> u32)"
  zv_object_path :: "rstring \<Rightarrow> rstring + rstring"

datatype portal_error =
    Dbus rstring
  | Canceled
  | PortalRejected rstring
  | PortalMalformed rstring
  | Aborted

fun show_portal_error :: "portal_error \<Rightarrow> rstring" where
  "show_portal_error (Dbus e) = str ''dbus error: '' @ e"
| "show_portal_error Canceled = str ''screen share was canceled by the user''"
| "show_portal_error (PortalRejected e) = str ''the portal rejected the request: '' @ e"
| "show_portal_error (PortalMalformed e) = str ''the portal response was malformed: '' @ e"
| "show_portal_error Aborted = str ''screen capture aborted''"

record portal_stream =
  po_id :: u32
  po_size :: "u32 \<times> u32"

definition PORTAL_NAME :: rstring where
  "PORTAL_NAME = str ''org.freedesktop.portal.Desktop''"

definition MAIN_PATH :: rstring where
  "MAIN_PATH = str ''/org/freedesktop/portal/desktop''"

definition SCREENCAST_IFACE :: rstring where
  "SCREENCAST_IFACE = str ''org.freedesktop.portal.ScreenCast''"

definition REQUEST_IFACE :: rstring where
  "REQUEST_IFACE = str ''org.freedesktop.portal.Request''"

definition SESSION_IFACE :: rstring where
  "SESSION_IFACE = str ''org.freedesktop.portal.Session''"

definition REQUEST_PATH_PREFIX :: rstring where
  "REQUEST_PATH_PREFIX = str ''/org/freedesktop/portal/desktop/request''"

definition RESPONSE_SUCCESS :: u32 where
  "RESPONSE_SUCCESS = 0"

definition RESPONSE_CANCELED :: u32 where
  "RESPONSE_CANCELED = 1"

definition SOURCE_TYPE_MONITOR :: u32 where
  "SOURCE_TYPE_MONITOR = 1"

definition HANDLE_TOKEN :: rstring where
  "HANDLE_TOKEN = str ''cast_app_capture''"

text \<open>The arguments of a call, and what the client does on the bus, in order.\<close>

datatype option_value = OptString rstring | OptU32 u32 | OptBool bool

datatype call_arg = ArgPath rstring | ArgString rstring | ArgDict "(rstring \<times> option_value) list"

datatype bus_action =
    SubscribedResponses rstring rstring rstring  \<comment> \<open>interface, member, path namespace\<close>
  | CalledMethod rstring rstring rstring rstring "call_arg list"  \<comment> \<open>name, path, interface, method, body\<close>

section \<open>The abort signal\<close>

text \<open>One poll of the pair of futures the wait selects from: the next item of the message stream if
  there is one (a message that is an error, a message whose body is not a response, a response, or
  the end of the stream), whether the stop flag is read as set in it, and the shutdown token as it is
  then. The flag is read when a wait begins and when its timer of 50 ms has fired; a poll in between,
  which something else woke, does not read it, and \<open>pp_stop\<close> is false there.\<close>

datatype 'v stream_item =
    MessageError rstring
  | NotAResponse
  | Response u32 "'v results"
  | StreamEnd

record 'v poll =
  pp_next :: "'v stream_item option"
  pp_stop :: bool
  pp_shutdown :: shutdown

text \<open>\<open>AbortSignal::is_aborted\<close>, for the values read at a poll.\<close>

definition is_aborted :: "'v poll \<Rightarrow> bool" where
  "is_aborted p \<longleftrightarrow> pp_stop p \<or> is_shutting_down (pp_shutdown p)"

text \<open>\<open>AbortSignal::wait\<close> at a poll: its first poll subscribes to the token, later ones keep the
  receiver.\<close>

definition abort_wait :: "watch_receiver option \<Rightarrow> 'v poll \<Rightarrow> bool \<times> watch_receiver" where
  "abort_wait rx p =
     (let r = (case rx of Some r \<Rightarrow> r | None \<Rightarrow> subscribe (pp_shutdown p))
      in (changed_ready (pp_shutdown p) r \<or> pp_stop p, r))"

text \<open>A signal nobody can fire, as \<open>create_session\<close> and \<open>select_sources\<close> use it.\<close>

definition throwaway_abort :: "'v poll list \<Rightarrow> 'v poll list" where
  "throwaway_abort = map (\<lambda>p. p\<lparr>pp_stop := False, pp_shutdown := shutdown_new\<rparr>)"

section \<open>Requests\<close>

definition closed_while_waiting :: portal_error where
  "closed_while_waiting = Dbus (str ''the portal closed the connection while waiting for a response'')"

text \<open>The loop of \<open>call_and_wait\<close>; each turn has a fresh wait for the abort. \<open>None\<close>: still
  waiting when the script of polls ends.\<close>

fun response_loop ::
  "('v results \<Rightarrow> bool) \<Rightarrow> watch_receiver option \<Rightarrow> 'v poll list \<Rightarrow> (portal_error + u32 \<times> 'v results) option" where
  "response_loop expect rx [] = None"
| "response_loop expect rx (p # ps) =
     (case pp_next p of
        Some (Response code results) \<Rightarrow>
          if code \<noteq> RESPONSE_SUCCESS \<or> expect results then Some (Inr (code, results))
          else response_loop expect None ps
      | Some NotAResponse \<Rightarrow> response_loop expect None ps
      | Some (MessageError e) \<Rightarrow> Some (Inl (Dbus e))
      | Some StreamEnd \<Rightarrow> Some (Inl closed_while_waiting)
      | None \<Rightarrow>
          (case abort_wait rx p of
             (True, _) \<Rightarrow> Some (Inl Aborted)
           | (False, r) \<Rightarrow> response_loop expect (Some r) ps))"

text \<open>What the bus gives during one request.\<close>

record 'v request_env =
  rq_subscribe :: "rstring + unit"
  rq_call :: "rstring + unit"
  rq_polls :: "'v poll list"

definition response_stream :: "rstring + unit \<Rightarrow> (portal_error + unit) \<times> bus_action list" where
  "response_stream outcome =
     (case outcome of
        Inl e \<Rightarrow> (Inl (Dbus e), [])
      | Inr _ \<Rightarrow> (Inr (), [SubscribedResponses REQUEST_IFACE (str ''Response'') REQUEST_PATH_PREFIX]))"

definition call_and_wait ::
  "rstring \<Rightarrow> call_arg list \<Rightarrow> ('v results \<Rightarrow> bool) \<Rightarrow> 'v request_env \<Rightarrow>
    (portal_error + u32 \<times> 'v results) option \<times> bus_action list" where
  "call_and_wait meth args expect env =
     (case response_stream (rq_subscribe env) of
        (Inl e, actions) \<Rightarrow> (Some (Inl e), actions)
      | (Inr _, actions) \<Rightarrow>
          (case rq_call env of
             Inl e \<Rightarrow> (Some (Inl (Dbus e)), actions @ [CalledMethod PORTAL_NAME MAIN_PATH SCREENCAST_IFACE meth args])
           | Inr _ \<Rightarrow>
               (response_loop expect None (rq_polls env),
                actions @ [CalledMethod PORTAL_NAME MAIN_PATH SCREENCAST_IFACE meth args])))"

definition check_code :: "u32 \<Rightarrow> rstring \<Rightarrow> portal_error + unit" where
  "check_code code request =
     (if code = RESPONSE_SUCCESS then Inr ()
      else if code = RESPONSE_CANCELED then Inl Canceled
      else Inl (PortalRejected (request @ str '': code '' @ show_nat (unat code))))"

definition session_object_path :: "'v zvariant \<Rightarrow> rstring \<Rightarrow> portal_error + rstring" where
  "session_object_path z session =
     map_err (\<lambda>e. PortalMalformed (str ''session_handle: '' @ e)) (zv_object_path z session)"

definition create_session ::
  "'v zvariant \<Rightarrow> rstring \<Rightarrow> 'v request_env \<Rightarrow> (portal_error + rstring) option \<times> bus_action list" where
  "create_session z session_handle_token env =
     (case call_and_wait (str ''CreateSession'')
        [ArgDict [(str ''handle_token'', OptString HANDLE_TOKEN),
                  (str ''session_handle_token'', OptString session_handle_token)]]
        (\<lambda>results. map_of results (str ''session_handle'') \<noteq> None)
        (env\<lparr>rq_polls := throwaway_abort (rq_polls env)\<rparr>) of
        (answer, actions) \<Rightarrow>
          (map_option (\<lambda>r. rbind r (\<lambda>(code, results).
             rbind (check_code code (str ''CreateSession'')) (\<lambda>_.
             rbind (ok_or (PortalMalformed (str ''missing session_handle'')) (map_of results (str ''session_handle'')))
               (\<lambda>handle. map_err (\<lambda>e. PortalMalformed (str ''session_handle: '' @ e)) (zv_string z handle))))) answer,
           actions))"

definition select_sources ::
  "'v zvariant \<Rightarrow> rstring \<Rightarrow> 'v request_env \<Rightarrow> (portal_error + unit) option \<times> bus_action list" where
  "select_sources z session env =
     (case session_object_path z session of
        Inl e \<Rightarrow> (Some (Inl e), [])
      | Inr path \<Rightarrow>
          (case call_and_wait (str ''SelectSources'')
             [ArgPath path, ArgDict [(str ''types'', OptU32 SOURCE_TYPE_MONITOR), (str ''multiple'', OptBool False)]]
             (\<lambda>_. True) (env\<lparr>rq_polls := throwaway_abort (rq_polls env)\<rparr>) of
             (answer, actions) \<Rightarrow>
               (map_option (\<lambda>r. rbind r (\<lambda>(code, _). check_code code (str ''SelectSources''))) answer, actions)))"

definition show_i32 :: "u32 \<Rightarrow> rstring" where
  "show_i32 w =
     (if sint w < 0 then str ''-'' @ show_nat (nat (- sint w)) else show_nat (nat (sint w)))"

text \<open>The stream the response to \<open>Start\<close> describes: the first one, whose size is a pair of
  \<open>i32\<close> that must both be positive.\<close>

definition first_stream :: "'v zvariant \<Rightarrow> 'v results \<Rightarrow> portal_error + portal_stream" where
  "first_stream z results =
     rbind (ok_or (PortalMalformed (str ''missing streams'')) (map_of results (str ''streams''))) (\<lambda>v.
     rbind (map_err (\<lambda>e. PortalMalformed (str ''streams: '' @ e)) (zv_streams z v)) (\<lambda>streams.
     rbind (ok_or (PortalMalformed (str ''no streams in the response'')) (case streams of [] \<Rightarrow> None | s # _ \<Rightarrow> Some s)) (\<lambda>(id, props).
     rbind (ok_or (PortalMalformed (str ''stream without size'')) (map_of props (str ''size''))) (\<lambda>sv.
     rbind (map_err (\<lambda>e. PortalMalformed (str ''size: '' @ e)) (zv_size z sv)) (\<lambda>(w, h).
     if sint w \<le> 0 \<or> sint h \<le> 0
     then Inl (PortalMalformed (str ''invalid stream size ('' @ show_i32 w @ str '', '' @ show_i32 h @ str '')''))
     else Inr \<lparr>po_id = id, po_size = (w, h)\<rparr>)))))"

definition portal_start ::
  "'v zvariant \<Rightarrow> rstring \<Rightarrow> 'v request_env \<Rightarrow> (portal_error + portal_stream) option \<times> bus_action list" where
  "portal_start z session env =
     (case session_object_path z session of
        Inl e \<Rightarrow> (Some (Inl e), [])
      | Inr path \<Rightarrow>
          (case call_and_wait (str ''Start'') [ArgPath path, ArgString [], ArgDict []]
             (\<lambda>results. map_of results (str ''streams'') \<noteq> None) env of
             (answer, actions) \<Rightarrow>
               (map_option (\<lambda>r. rbind r (\<lambda>(code, results).
                  rbind (check_code code (str ''Start'')) (\<lambda>_. first_stream z results))) answer, actions)))"

text \<open>The calls that have their answer in the reply; the second outcome is the decoding of the file
  descriptor.\<close>

definition open_pipewire_remote ::
  "'v zvariant \<Rightarrow> rstring \<Rightarrow> rstring + unit \<Rightarrow> rstring + 'fd \<Rightarrow> (portal_error + 'fd) \<times> bus_action list" where
  "open_pipewire_remote z session call fd =
     (case session_object_path z session of
        Inl e \<Rightarrow> (Inl e, [])
      | Inr path \<Rightarrow>
          (rbind (map_err Dbus call) (\<lambda>_. map_err Dbus fd),
           [CalledMethod PORTAL_NAME MAIN_PATH SCREENCAST_IFACE (str ''OpenPipeWireRemote'') [ArgPath path, ArgDict []]]))"

definition portal_close :: "rstring \<Rightarrow> rstring + unit \<Rightarrow> (portal_error + unit) \<times> bus_action list" where
  "portal_close session call =
     (map_err Dbus call,
      [CalledMethod PORTAL_NAME session SESSION_IFACE (str ''Close'') []])"

definition connect_blocking :: "rstring + unit \<Rightarrow> portal_error + unit" where
  "connect_blocking outcome = map_err Dbus outcome"

text \<open>The probe: connecting, the bus proxy, the name, and the reply code of
  \<open>StartServiceByName\<close>, which zbus reads as success (1) or already running (2).\<close>

definition portal_available ::
  "rstring + unit \<Rightarrow> rstring + unit \<Rightarrow> rstring + unit \<Rightarrow> rstring + u32 \<Rightarrow> bool" where
  "portal_available session proxy name reply \<longleftrightarrow>
     is_ok session \<and> is_ok proxy \<and> is_ok name \<and>
     (case reply of Inl _ \<Rightarrow> False | Inr code \<Rightarrow> code = 1 \<or> code = 2)"

section \<open>Waiting for an answer\<close>

text \<open>
  A wait over a growing script of polls: nothing is answered before the first poll, and an answer,
  once given, is not affected by what would come later.
\<close>

locale awaited_answer =
  fixes answer :: "'p list \<Rightarrow> 'r option"
  assumes answer_Nil: "answer [] = None"
    and answer_append: "answer ps = Some r \<Longrightarrow> answer (ps @ qs) = Some r"
begin

lemma answer_prefix_None: "answer (ps @ qs) = None \<Longrightarrow> answer ps = None"
  using answer_append [of ps _ qs] by (cases "answer ps") auto

lemma answers_agree:
  assumes "answer (ps @ qs) = Some r" "answer (ps @ qs') = Some r'" "answer ps \<noteq> None"
  shows "r = r'"
  using assms answer_append [of ps] by fastforce

text \<open>There is one poll that decides.\<close>

lemma deciding_poll:
  "answer ps = Some r \<Longrightarrow> \<exists>pre p post. ps = pre @ p # post \<and> answer pre = None \<and> answer (pre @ [p]) = Some r"
proof (induction ps rule: rev_induct)
  case Nil
  then show ?case by (simp add: answer_Nil)
next
  case (snoc p ps)
  show ?case
  proof (cases "answer ps")
    case None
    with snoc.prems show ?thesis by blast
  next
    case (Some r')
    with answer_append snoc.prems have "r' = r" by fastforce
    with snoc.IH Some show ?thesis by fastforce
  qed
qed

end

lemma response_loop_append:
  "response_loop expect rx ps = Some r \<Longrightarrow> response_loop expect rx (ps @ qs) = Some r"
  by (induction expect rx ps rule: response_loop.induct)
    (auto split: option.splits stream_item.splits if_splits prod.splits bool.splits)

interpretation response: awaited_answer "response_loop expect rx" for expect rx
  by unfold_locales (auto intro: response_loop_append)

text \<open>A poll that leaves the request undecided, apart from the abort signal.\<close>

fun undecided :: "('v results \<Rightarrow> bool) \<Rightarrow> 'v stream_item option \<Rightarrow> bool" where
  "undecided expect None \<longleftrightarrow> True"
| "undecided expect (Some NotAResponse) \<longleftrightarrow> True"
| "undecided expect (Some (Response code results)) \<longleftrightarrow> code = RESPONSE_SUCCESS \<and> \<not> expect results"
| "undecided expect (Some (MessageError e)) \<longleftrightarrow> False"
| "undecided expect (Some StreamEnd) \<longleftrightarrow> False"

text \<open>What a decisive item says.\<close>

fun verdict :: "'v stream_item \<Rightarrow> portal_error + u32 \<times> 'v results" where
  "verdict (Response code results) = Inr (code, results)"
| "verdict (MessageError e) = Inl (Dbus e)"
| "verdict StreamEnd = Inl closed_while_waiting"
| "verdict NotAResponse = Inl Aborted"

text \<open>No abort: neither the flag nor a change of the token that the wait would see.\<close>

definition calm :: "nat \<Rightarrow> 'v poll \<Rightarrow> bool" where
  "calm version p \<longleftrightarrow> \<not> pp_stop p \<and> sd_version (pp_shutdown p) = version"

definition seen_at :: "nat \<Rightarrow> watch_receiver option \<Rightarrow> bool" where
  "seen_at version rx \<longleftrightarrow> (case rx of None \<Rightarrow> True | Some r \<Rightarrow> wr_seen r = version)"

lemma abort_wait_calm:
  assumes "calm version p" "seen_at version rx"
  shows "\<exists>r. abort_wait rx p = (False, r) \<and> seen_at version (Some r)"
  using assms
  by (cases rx) (auto simp: abort_wait_def calm_def seen_at_def subscribe_def changed_ready_def Let_def)

lemma seen_at_None [simp]: "seen_at version None"
  by (simp add: seen_at_def)

lemma response_loop_undecided:
  assumes "calm version p" "seen_at version rx" "undecided expect (pp_next p)"
  shows "\<exists>rx'. seen_at version rx' \<and> (\<forall>ps. response_loop expect rx (p # ps) = response_loop expect rx' ps)"
proof (cases "pp_next p")
  case None
  with abort_wait_calm [OF assms(1,2)] show ?thesis by auto
next
  case (Some i)
  with assms(3) show ?thesis by (cases i) (auto intro: exI [of _ None])
qed

lemma response_loop_decisive:
  assumes "pp_next p = Some i" "\<not> undecided expect (Some i)"
  shows "response_loop expect rx (p # ps) = Some (verdict i)"
  using assms by (cases i) auto

lemma response_loop_skip:
  assumes "\<forall>q \<in> set pre. calm version q \<and> undecided expect (pp_next q)" "seen_at version rx"
  shows "\<exists>rx'. seen_at version rx' \<and> (\<forall>ps. response_loop expect rx (pre @ ps) = response_loop expect rx' ps)"
  using assms
proof (induction pre arbitrary: rx)
  case (Cons p pre)
  then obtain rx1 where "seen_at version rx1" "\<forall>ps. response_loop expect rx (p # ps) = response_loop expect rx1 ps"
    using response_loop_undecided [of version p rx expect] by auto
  with Cons.IH [of rx1] Cons.prems show ?case by auto
qed auto

text \<open>While nobody aborts, the answer is the verdict of the first decisive item.\<close>

lemma response_loop_calm:
  assumes "list_all (calm version) ps" "seen_at version rx"
  shows "response_loop expect rx ps =
    map_option (\<lambda>p. verdict (the (pp_next p))) (find (\<lambda>p. \<not> undecided expect (pp_next p)) ps)"
  using assms
proof (induction ps arbitrary: rx)
  case (Cons p ps)
  show ?case
  proof (cases "undecided expect (pp_next p)")
    case True
    with Cons.prems response_loop_undecided [of version p rx expect] obtain rx' where
      "seen_at version rx'" "response_loop expect rx (p # ps) = response_loop expect rx' ps" by auto
    with Cons.IH [of rx'] Cons.prems True show ?thesis by simp
  next
    case False
    then obtain i where "pp_next p = Some i" by (cases "pp_next p") auto
    with False response_loop_decisive [of p i expect rx ps] show ?thesis by simp
  qed
qed simp

section \<open>Properties\<close>

lemma throwaway_calm: "list_all (calm 0) (throwaway_abort ps)"
  by (induction ps) (simp_all add: throwaway_abort_def calm_def shutdown_new_def)

lemma find_throwaway:
  "find (\<lambda>p. \<not> undecided expect (pp_next p)) (throwaway_abort ps) =
   map_option (\<lambda>p. p\<lparr>pp_stop := False, pp_shutdown := shutdown_new\<rparr>) (find (\<lambda>p. \<not> undecided expect (pp_next p)) ps)"
  by (induction ps) (simp_all add: throwaway_abort_def)

lemma throwaway_answer:
  "response_loop expect None (throwaway_abort ps) =
   map_option (\<lambda>p. verdict (the (pp_next p))) (find (\<lambda>p. \<not> undecided expect (pp_next p)) ps)"
  by (simp add: response_loop_calm [OF throwaway_calm] find_throwaway option.map_comp comp_def)

lemma find_Some_split:
  "find P xs = Some x \<Longrightarrow> \<exists>pre post. xs = pre @ x # post \<and> P x \<and> list_all (\<lambda>y. \<not> P y) pre"
proof (induction xs)
  case (Cons y ys)
  show ?case
  proof (cases "P y")
    case True
    with Cons.prems show ?thesis by (auto intro: exI [of _ "[]"])
  next
    case False
    with Cons obtain pre post where "ys = pre @ x # post" "P x" "list_all (\<lambda>y. \<not> P y) pre" by auto
    with False show ?thesis by (intro exI [of _ "y # pre"] exI [of _ post]) auto
  qed
qed simp

lemma find_Some_first:
  "find P xs = Some x \<longleftrightarrow> (\<exists>pre post. xs = pre @ x # post \<and> P x \<and> list_all (\<lambda>y. \<not> P y) pre)"
proof
  assume "\<exists>pre post. xs = pre @ x # post \<and> P x \<and> list_all (\<lambda>y. \<not> P y) pre"
  then obtain pre post where "xs = pre @ x # post" "P x" "list_all (\<lambda>y. \<not> P y) pre" by blast
  then show "find P xs = Some x" by (induction pre arbitrary: xs) auto
qed (rule find_Some_split)

lemma verdict_Inr:
  "\<not> undecided expect (pp_next p) \<and> verdict (the (pp_next p)) = Inr (code, results) \<longleftrightarrow>
   pp_next p = Some (Response code results) \<and> (code \<noteq> RESPONSE_SUCCESS \<or> expect results)"
proof (cases "pp_next p")
  case (Some i)
  then show ?thesis by (cases i) auto
qed simp

lemma call_and_wait_answered:
  "fst (call_and_wait meth args expect env) = Some (Inr answer) \<longleftrightarrow>
   is_ok (rq_subscribe env) \<and> is_ok (rq_call env) \<and> response_loop expect None (rq_polls env) = Some (Inr answer)"
  by (cases "rq_subscribe env"; cases "rq_call env") (simp_all add: call_and_wait_def response_stream_def)

lemma check_code_Inr [simp]: "check_code code request = Inr u \<longleftrightarrow> code = RESPONSE_SUCCESS"
  by (simp add: check_code_def)

text \<open>The response that answers a request whose abort signal nobody fires.\<close>

lemma throwaway_response:
  "response_loop expect None (throwaway_abort ps) = Some (Inr (code, results)) \<longleftrightarrow>
   (\<exists>pre p post. ps = pre @ p # post \<and> list_all (\<lambda>q. undecided expect (pp_next q)) pre \<and>
      pp_next p = Some (Response code results) \<and> (code \<noteq> RESPONSE_SUCCESS \<or> expect results))"
  (is "_ \<longleftrightarrow> ?rhs")
proof -
  have "response_loop expect None (throwaway_abort ps) = Some (Inr (code, results)) \<longleftrightarrow>
    (\<exists>p. find (\<lambda>p. \<not> undecided expect (pp_next p)) ps = Some p \<and> verdict (the (pp_next p)) = Inr (code, results))"
    by (auto simp: throwaway_answer)
  also have "\<dots> \<longleftrightarrow> (\<exists>pre p post. ps = pre @ p # post \<and> list_all (\<lambda>q. undecided expect (pp_next q)) pre \<and>
      (\<not> undecided expect (pp_next p) \<and> verdict (the (pp_next p)) = Inr (code, results)))"
    unfolding find_Some_first by auto
  also have "\<dots> \<longleftrightarrow> ?rhs" unfolding verdict_Inr ..
  finally show ?thesis .
qed

lemma create_session_answered:
  "fst (create_session z token env) = Some (Inr session) \<longleftrightarrow>
   is_ok (rq_subscribe env) \<and> is_ok (rq_call env) \<and>
   (\<exists>results handle.
      response_loop (\<lambda>results. map_of results (str ''session_handle'') \<noteq> None) None (throwaway_abort (rq_polls env)) =
        Some (Inr (RESPONSE_SUCCESS, results)) \<and>
      map_of results (str ''session_handle'') = Some handle \<and> zv_string z handle = Inr session)"
proof -
  have "fst (create_session z token env) = Some (Inr session) \<longleftrightarrow>
    (\<exists>results handle. fst (call_and_wait (str ''CreateSession'')
        [ArgDict [(str ''handle_token'', OptString HANDLE_TOKEN), (str ''session_handle_token'', OptString token)]]
        (\<lambda>results. map_of results (str ''session_handle'') \<noteq> None)
        (env\<lparr>rq_polls := throwaway_abort (rq_polls env)\<rparr>)) = Some (Inr (RESPONSE_SUCCESS, results)) \<and>
      map_of results (str ''session_handle'') = Some handle \<and> zv_string z handle = Inr session)"
    by (auto simp: create_session_def rbind_eq_Inr split: prod.splits)
  then show ?thesis unfolding call_and_wait_answered by simp
qed

text \<open>C39: Opening a session: \<open>create_session\<close> returns a handle exactly when both steps before the
  wait work and the first decisive response reports success and carries a readable
  \<open>session_handle\<close>, and it is that handle. Every earlier item was no response or a success
  without a handle, and nothing that arrives later matters.\<close>

theorem session_opened_iff:
  "fst (create_session z token env) = Some (Inr session) \<longleftrightarrow>
   is_ok (rq_subscribe env) \<and> is_ok (rq_call env) \<and>
   (\<exists>pre p post results handle.
      rq_polls env = pre @ p # post \<and>
      list_all (\<lambda>q. undecided (\<lambda>results. map_of results (str ''session_handle'') \<noteq> None) (pp_next q)) pre \<and>
      pp_next p = Some (Response RESPONSE_SUCCESS results) \<and>
      map_of results (str ''session_handle'') = Some handle \<and> zv_string z handle = Inr session)"
  unfolding create_session_answered throwaway_response by fastforce

lemma response_loop_delivered:
  "response_loop expect rx ps = Some (Inr (code, results)) \<Longrightarrow>
   \<exists>p \<in> set ps. pp_next p = Some (Response code results)"
  by (induction expect rx ps rule: response_loop.induct)
    (auto split: option.splits stream_item.splits if_splits prod.splits bool.splits)

lemma portal_start_answered:
  "fst (portal_start z session env) = Some (Inr st) \<longleftrightarrow>
   is_ok (zv_object_path z session) \<and> is_ok (rq_subscribe env) \<and> is_ok (rq_call env) \<and>
   (\<exists>results. response_loop (\<lambda>results. map_of results (str ''streams'') \<noteq> None) None (rq_polls env) =
        Some (Inr (RESPONSE_SUCCESS, results)) \<and> first_stream z results = Inr st)"
proof (cases "zv_object_path z session")
  case (Inr path)
  have "fst (portal_start z session env) = Some (Inr st) \<longleftrightarrow>
    (\<exists>results. fst (call_and_wait (str ''Start'') [ArgPath path, ArgString [], ArgDict []]
        (\<lambda>results. map_of results (str ''streams'') \<noteq> None) env) = Some (Inr (RESPONSE_SUCCESS, results)) \<and>
      first_stream z results = Inr st)"
    using Inr by (auto simp: portal_start_def session_object_path_def rbind_eq_Inr split: prod.splits)
  with Inr show ?thesis unfolding call_and_wait_answered by simp
qed (simp add: portal_start_def session_object_path_def)

lemma case_list_Some: "(case xs of [] \<Rightarrow> None | x # _ \<Rightarrow> Some x) = Some y \<longleftrightarrow> (\<exists>rest. xs = y # rest)"
  by (cases xs) auto

lemma first_stream_Inr:
  "first_stream z results = Inr st \<longleftrightarrow>
   (\<exists>v props rest sv. map_of results (str ''streams'') = Some v \<and> zv_streams z v = Inr ((po_id st, props) # rest) \<and>
      map_of props (str ''size'') = Some sv \<and> zv_size z sv = Inr (po_size st)) \<and>
   0 < sint (fst (po_size st)) \<and> 0 < sint (snd (po_size st))"
  by (cases st; cases "po_size st") (auto 4 5 simp: first_stream_def rbind_eq_Inr case_list_Some not_le)

lemma positive_i32:
  assumes "0 < sint (w :: u32)"
  shows "0 < unat w \<and> unat w < 2 ^ 31 \<and> int (unat w) = sint w"
proof -
  have lt: "sint w < 2 ^ 31" using sint_lt [of w] by simp
  then have "take_bit 32 (sint w) = sint w" using assms by (intro take_bit_int_eq_self) simp_all
  then have "int (unat w) = sint w" by (simp add: uint_sint [of w])
  moreover from this lt have "int (unat w) < int (2 ^ 31)" by simp
  then have "unat w < 2 ^ 31" by (simp only: of_nat_less_iff)
  moreover from \<open>int (unat w) = sint w\<close> assms have "0 < unat w" by linarith
  ultimately show ?thesis by blast
qed

text \<open>The stream the capture is started on is the first one the portal granted in a successful
  response, with the size stated there; both dimensions are positive and fit 31 bits, so reading
  the portal's signed numbers as unsigned ones changes nothing.\<close>

theorem started_stream_as_granted:
  assumes "fst (portal_start z session env) = Some (Inr st)"
  shows "(\<exists>p results v props rest sv. p \<in> set (rq_polls env) \<and> pp_next p = Some (Response RESPONSE_SUCCESS results) \<and>
        map_of results (str ''streams'') = Some v \<and> zv_streams z v = Inr ((po_id st, props) # rest) \<and>
        map_of props (str ''size'') = Some sv \<and> zv_size z sv = Inr (po_size st)) \<and>
     0 < unat (fst (po_size st)) \<and> unat (fst (po_size st)) < 2 ^ 31 \<and> int (unat (fst (po_size st))) = sint (fst (po_size st)) \<and>
     0 < unat (snd (po_size st)) \<and> unat (snd (po_size st)) < 2 ^ 31 \<and> int (unat (snd (po_size st))) = sint (snd (po_size st))"
proof -
  from assms obtain results where "response_loop (\<lambda>results. map_of results (str ''streams'') \<noteq> None) None (rq_polls env) =
      Some (Inr (RESPONSE_SUCCESS, results))" and f: "first_stream z results = Inr st"
    unfolding portal_start_answered by blast
  from response_loop_delivered [OF this(1)] obtain p where
    "p \<in> set (rq_polls env)" "pp_next p = Some (Response RESPONSE_SUCCESS results)" by blast
  with f [unfolded first_stream_Inr] positive_i32 [of "fst (po_size st)"] positive_i32 [of "snd (po_size st)"]
  show ?thesis by blast
qed

theorem started_stream_as_granted_witness:
  "let z = \<lparr>zv_string = Inr, zv_streams = (\<lambda>v. Inr [(7, [(str ''size'', v)])]), zv_size = (\<lambda>v. Inr (3, 2)), zv_object_path = Inr\<rparr>;
       env = \<lparr>rq_subscribe = Inr (), rq_call = Inr (),
         rq_polls = [\<lparr>pp_next = Some NotAResponse, pp_stop = False, pp_shutdown = shutdown_new\<rparr>,
           \<lparr>pp_next = None, pp_stop = False, pp_shutdown = shutdown_new\<rparr>,
           \<lparr>pp_next = Some (Response 0 [(str ''streams'', [])]), pp_stop = False, pp_shutdown = shutdown_new\<rparr>]\<rparr>;
       st = \<lparr>po_id = 7, po_size = (3, 2)\<rparr>
   in fst (portal_start z (str ''/s'') env) = Some (Inr st) \<and> int (unat (fst (po_size st))) = sint (fst (po_size st))"
proof -
  let ?z = "\<lparr>zv_string = Inr, zv_streams = (\<lambda>v. Inr [(7, [(str ''size'', v)])]), zv_size = (\<lambda>v. Inr (3, 2)), zv_object_path = Inr\<rparr>"
  let ?env = "\<lparr>rq_subscribe = Inr (), rq_call = Inr (),
    rq_polls = [\<lparr>pp_next = Some NotAResponse, pp_stop = False, pp_shutdown = shutdown_new\<rparr>,
      \<lparr>pp_next = None, pp_stop = False, pp_shutdown = shutdown_new\<rparr>,
      \<lparr>pp_next = Some (Response 0 [(str ''streams'', [])]), pp_stop = False, pp_shutdown = shutdown_new\<rparr>]\<rparr>"
  have "fst (portal_start ?z (str ''/s'') ?env) = Some (Inr \<lparr>po_id = 7, po_size = (3, 2)\<rparr>)"
    unfolding portal_start_answered
    by (simp add: first_stream_def abort_wait_def subscribe_def changed_ready_def shutdown_new_def RESPONSE_SUCCESS_def)
  with started_stream_as_granted [OF this] show ?thesis unfolding Let_def by blast
qed

text \<open>C30: A share dialog that stays open does not block a stop: while the portal has said nothing
  decisive, the stop flag, at the next poll that reads it, or a shutdown triggered after the wait has
  begun, at the next poll, ends \<open>Start\<close> with \<open>Aborted\<close>.\<close>

theorem start_is_abortable:
  assumes "rq_polls env = pre @ p # post"
    and "\<forall>q \<in> set pre. calm version q \<and> undecided (\<lambda>results. map_of results (str ''streams'') \<noteq> None) (pp_next q)"
    and "pp_next p = None"
    and "pp_stop p \<or> pre \<noteq> [] \<and> pp_next (last pre) = None \<and> sd_version (pp_shutdown p) \<noteq> version"
    and "is_ok (zv_object_path z session)" "is_ok (rq_subscribe env)" "is_ok (rq_call env)"
  shows "fst (portal_start z session env) = Some (Inl Aborted)"
proof -
  let ?expect = "\<lambda>results. map_of results (str ''streams'') \<noteq> None"
  have "response_loop ?expect None (rq_polls env) = Some (Inl Aborted)"
  proof (cases "pp_stop p")
    case True
    from response_loop_skip [OF assms(2) seen_at_None] obtain rx where
      "\<forall>ps. response_loop ?expect None (pre @ ps) = response_loop ?expect rx ps" by auto
    with True assms(1,3) show ?thesis by (simp add: abort_wait_def Let_def)
  next
    case False
    then obtain pre' q where pre: "pre = pre' @ [q]" "pp_next q = None" "sd_version (pp_shutdown p) \<noteq> version"
      using assms(4) by (metis append_butlast_last_id)
    from response_loop_skip [of pre' version ?expect None] assms(2) pre(1) obtain rx where
      rx: "seen_at version rx" "\<forall>ps. response_loop ?expect None (pre' @ ps) = response_loop ?expect rx ps" by auto
    from abort_wait_calm [of version q rx] assms(2) pre(1) rx(1) obtain r where
      "abort_wait rx q = (False, r)" "wr_seen r = version" by (auto simp: seen_at_def)
    with assms(1,3) pre rx(2) show ?thesis by (simp add: abort_wait_def [of "Some r"] changed_ready_def)
  qed
  with assms(5-7) show ?thesis
    by (auto simp: portal_start_def session_object_path_def call_and_wait_def response_stream_def is_ok_iff)
qed

theorem start_is_abortable_witness:
  "fst (portal_start \<lparr>zv_string = Inr, zv_streams = (\<lambda>v. Inr []), zv_size = (\<lambda>v. Inr (3, 2)), zv_object_path = Inr\<rparr> (str ''/s'')
     \<lparr>rq_subscribe = Inr (), rq_call = Inr (),
      rq_polls = [\<lparr>pp_next = None, pp_stop = False, pp_shutdown = shutdown_new\<rparr>,
        \<lparr>pp_next = None, pp_stop = False, pp_shutdown = trigger shutdown_new\<rparr>]\<rparr>) = Some (Inl Aborted)"
  by (rule start_is_abortable [where pre = "[\<lparr>pp_next = None, pp_stop = False, pp_shutdown = shutdown_new\<rparr>]" and version = 0
        and p = "\<lparr>pp_next = None, pp_stop = False, pp_shutdown = trigger shutdown_new\<rparr>" and post = "[]"])
    (simp_all add: calm_def shutdown_new_def trigger_def)

text \<open>A shutdown that was triggered before the wait begins is missed: the fresh receiver has seen
  the token's value already, so \<open>Start\<close> goes on waiting for the user, at every poll, although the
  signal is aborted.\<close>

theorem earlier_shutdown_does_not_abort_start:
  "fst (portal_start (z\<lparr>zv_object_path := Inr\<rparr>) session
      \<lparr>rq_subscribe = Inr (), rq_call = Inr (),
       rq_polls = replicate n \<lparr>pp_next = None, pp_stop = False, pp_shutdown = trigger s\<rparr>\<rparr>) = None \<and>
   is_aborted \<lparr>pp_next = None, pp_stop = False, pp_shutdown = trigger s\<rparr>"
proof -
  let ?p = "\<lparr>pp_next = None, pp_stop = False, pp_shutdown = trigger s\<rparr> :: 'a poll"
  let ?expect = "\<lambda>results. map_of results (str ''streams'') \<noteq> (None :: 'a option)"
  have "list_all (calm (sd_version (trigger s))) (replicate n ?p)" by (induction n) (simp_all add: calm_def)
  from response_loop_calm [OF this, of None ?expect] have "response_loop ?expect None (replicate n ?p) = None"
    by (simp add: find_None_iff)
  then show ?thesis
    by (simp add: portal_start_def session_object_path_def call_and_wait_def response_stream_def
        is_aborted_def is_shutting_down_def trigger_def)
qed

text \<open>A code other than success decides the request whatever the payload: 1 is the user's
  cancellation, everything above a rejection that names the request and the code.\<close>

lemma refused_start:
  assumes "pp_next p = Some (Response code results)" "code \<noteq> RESPONSE_SUCCESS"
  shows "fst (portal_start (z\<lparr>zv_object_path := Inr\<rparr>) session \<lparr>rq_subscribe = Inr (), rq_call = Inr (), rq_polls = p # post\<rparr>) =
    Some (Inl (if code = RESPONSE_CANCELED then Canceled
      else PortalRejected (str ''Start: code '' @ show_nat (unat code))))"
  using assms
  by (simp add: portal_start_def session_object_path_def call_and_wait_def response_stream_def check_code_def str_def)

end
