(* ===== verification/Frame_Source.thy ===== *)
theory Frame_Source
  imports Screen_Capture
begin

text \<open>
  The sources of frames of \<open>src/screen/capture.rs\<close>: the interface \<open>FrameSource\<close>, the capture loop
  driven by a source, the monitor of \<open>xcap\<close> and the scripted source, and what the loop does when a
  source dries up.
\<close>

section \<open>The loop and its source\<close>

text \<open>Whether a turn that got \<open>r\<close> from \<open>capture_frame\<close> goes on to call \<open>reacquire\<close>.\<close>

definition reacquires :: "capture_thread \<Rightarrow> rstring + frame \<Rightarrow> bool" where
  "reacquires c r \<longleftrightarrow>
     \<not> (\<not> is_ok r \<and> ct_capture_failures c + 1 \<ge> MAX_CONSECUTIVE_FAILURES) \<and>
     unat (ct_frame_count c + 1) mod MONITOR_REACQUIRE_INTERVAL = 0"

definition source_turn ::
  "('s \<Rightarrow> (rstring + frame) \<times> 's) \<Rightarrow> ('s \<Rightarrow> (rstring + unit) \<times> 's) \<Rightarrow>
   's \<times> capture_thread \<times> pipeline \<Rightarrow> 's \<times> capture_thread \<times> pipeline" where
  "source_turn capture_frame reacquire st =
     (case st of (s, c, p) \<Rightarrow>
        if \<not> ct_running c \<or> teardown_requested p then (s, c\<lparr>ct_running := False\<rparr>, p)
        else (case capture_frame s of (r, s1) \<Rightarrow>
          if reacquires c r
          then (case reacquire s1 of (q, s2) \<Rightarrow> (s2, capture_turn (c, p) (r, q)))
          else (s1, capture_turn (c, p) (r, Inr ()))))"

section \<open>The monitor\<close>

text \<open>The source with what it will meet: the images the display still delivers and, once they are used
  up, the error of every further capture; and the monitor lsts of the re-acquisitions, the last of
  which stays.\<close>

record x11_source =
  xs_name :: rstring
  xs_monitor :: "monitor option"
  xs_images :: "(rstring + frame) list"
  xs_gone :: rstring
  xs_lists :: "(rstring + monitor list) list"

definition x11_new ::
  "rstring \<Rightarrow> rstring + monitor list \<Rightarrow> (rstring + frame) list \<Rightarrow> rstring \<Rightarrow> (rstring + monitor list) list \<Rightarrow>
   monitor_error + x11_source" where
  "x11_new name monitors images gone lsts =
     rbind (monitor_by_name name monitors) (\<lambda>mon.
       Inr \<lparr>xs_name = name, xs_monitor = Some mon, xs_images = images, xs_gone = gone, xs_lists = lsts\<rparr>)"

definition x11_capture_frame :: "x11_source \<Rightarrow> (rstring + frame) \<times> x11_source" where
  "x11_capture_frame s =
     (case xs_monitor s of
        None \<Rightarrow> (Inl (str ''monitor handle lost''), s\<lparr>xs_images := drop 1 (xs_images s)\<rparr>)
      | Some _ \<Rightarrow>
          (case xs_images s of
             [] \<Rightarrow> (Inl (xs_gone s), s)
           | img # images \<Rightarrow> (img, s\<lparr>xs_images := images\<rparr>)))"

definition x11_reacquire :: "(monitor_error \<Rightarrow> rstring) \<Rightarrow> x11_source \<Rightarrow> (rstring + unit) \<times> x11_source" where
  "x11_reacquire show s =
     (case xs_lists s of
        [] \<Rightarrow> (Inl (show (NoMonitorNamed (xs_name s))), s)
      | monitors # lsts \<Rightarrow>
          (let s' = s\<lparr>xs_lists := (if lsts = [] then [monitors] else lsts)\<rparr> in
           case monitor_by_name (xs_name s) monitors of
             Inl e \<Rightarrow> (Inl (show e), s')
           | Inr mon \<Rightarrow> (Inr (), s'\<lparr>xs_monitor := Some mon\<rparr>)))"

definition is_wayland_session :: "bool \<Rightarrow> (rstring \<Rightarrow> bytes option) \<Rightarrow> bool" where
  "is_wayland_session linux var_os =
     wayland_for linux (var_os (str ''XDG_SESSION_TYPE'')) (var_os (str ''WAYLAND_DISPLAY''))"

text \<open>The handle of the thread: joining it takes it, and taking it twice panics (\<open>None\<close>).\<close>

record capture_handle =
  ch_initial_resolution :: "u32 \<times> u32"
  ch_thread :: bool

definition handle_join :: "capture_handle \<Rightarrow> bool \<times> capture_handle" where
  "handle_join h = (ch_thread h, h\<lparr>ch_thread := False\<rparr>)"

definition join_handle :: "capture_handle \<Rightarrow> capture_handle option" where
  "join_handle h = (if ch_thread h then Some (h\<lparr>ch_thread := False\<rparr>) else None)"

section \<open>The scripted source\<close>

record scripted_source =
  sc_script :: "(rstring + frame) list"
  sc_reacquire_script :: "(rstring + unit) list"
  sc_cursor :: nat
  sc_reacquire_cursor :: nat

definition scripted_new :: "(rstring + frame) list \<Rightarrow> scripted_source" where
  "scripted_new script = \<lparr>sc_script = script, sc_reacquire_script = [Inr ()], sc_cursor = 0, sc_reacquire_cursor = 0\<rparr>"

definition with_reacquire :: "rstring + unit \<Rightarrow> scripted_source \<Rightarrow> scripted_source" where
  "with_reacquire result s = s\<lparr>sc_reacquire_script := [result]\<rparr>"

definition with_reacquire_script :: "(rstring + unit) list \<Rightarrow> scripted_source \<Rightarrow> scripted_source" where
  "with_reacquire_script results s = (if results \<noteq> [] then s\<lparr>sc_reacquire_script := results\<rparr> else s)"

definition scripted_capture_frame :: "scripted_source \<Rightarrow> (rstring + frame) \<times> scripted_source" where
  "scripted_capture_frame s =
     (if sc_cursor s \<ge> length (sc_script s) then (Inl (str ''script exhausted''), s)
      else (sc_script s ! sc_cursor s, s\<lparr>sc_cursor := sc_cursor s + 1\<rparr>))"

definition scripted_reacquire :: "scripted_source \<Rightarrow> (rstring + unit) \<times> scripted_source" where
  "scripted_reacquire s =
     (sc_reacquire_script s ! (sc_reacquire_cursor s mod length (sc_reacquire_script s)),
      s\<lparr>sc_reacquire_cursor := sc_reacquire_cursor s + 1\<rparr>)"

definition empty_frame :: "u32 \<Rightarrow> u32 \<Rightarrow> frame" where
  "empty_frame width height =
     \<lparr>fr_width = width, fr_height = height, fr_bytes = replicate (unat (width * height * 4)) 0\<rparr>"

section \<open>A source that dries up\<close>

text \<open>A turn of a running thread: it goes on with the failures counted, or it ends with a report.\<close>

lemma reacquire_turn_effect:
  assumes "reacquire_turn q (c, p) = (c', p')"
  shows "if ct_running c' then p' = p \<and> ct_running c \<and> ct_capture_failures c' = ct_capture_failures c
    else \<not> ct_running c \<and> p' = p \<or> pl_failed p' \<and> pl_stop p'"
  using assms by (auto simp: reacquire_turn_def report_once_def Let_def split: if_splits sum.splits)

lemma captured_effect:
  "captured f (c, p) = (c', p') \<Longrightarrow>
   ct_capture_failures c' = 0 \<and> ct_running c' = ct_running c \<and> teardown_requested p' = teardown_requested p"
  by (auto simp: captured_def push_frame_def teardown_requested_def Let_def split: if_splits)

lemma capture_turn_effect:
  assumes "ct_running c" "\<not> teardown_requested p" "capture_turn (c, p) (r, q) = (c', p')"
  shows "if ct_running c'
    then \<not> teardown_requested p' \<and> ct_capture_failures c' = (if is_ok r then 0 else Suc (ct_capture_failures c)) \<and>
      (\<not> is_ok r \<longrightarrow> Suc (ct_capture_failures c) < MAX_CONSECUTIVE_FAILURES)
    else pl_failed p' \<and> pl_stop p'"
proof (cases r)
  case (Inl e)
  let ?c = "c\<lparr>ct_capture_failures := ct_capture_failures c + 1\<rparr>"
  show ?thesis
  proof (cases "Suc (ct_capture_failures c) < MAX_CONSECUTIVE_FAILURES")
    case True
    with assms Inl have "reacquire_turn q (?c, p) = (c', p')" by (simp add: capture_turn_def)
    from reacquire_turn_effect [OF this] assms Inl True show ?thesis by (auto split: if_splits)
  qed (use assms Inl in \<open>auto simp: capture_turn_def report_once_def Let_def\<close>)
next
  case (Inr f)
  obtain c1 p1 where k: "captured f (c, p) = (c1, p1)" by fastforce
  with assms Inr have "reacquire_turn q (c1, p1) = (c', p')" by (simp add: capture_turn_def)
  from reacquire_turn_effect [OF this] captured_effect [OF k] assms Inr show ?thesis by (auto split: if_splits)
qed

definition healthy_thread :: "'s \<times> capture_thread \<times> pipeline \<Rightarrow> bool" where
  "healthy_thread st = (case st of (s, c, p) \<Rightarrow>
     if ct_running c then \<not> teardown_requested p \<and> ct_capture_failures c < MAX_CONSECUTIVE_FAILURES
     else pl_failed p \<and> pl_stop p)"

text \<open>The interface: a source whose \<open>rank\<close> bounds the captures it still answers otherwise than with
  an error.\<close>

locale finite_source =
  fixes capture_frame :: "'s \<Rightarrow> (rstring + frame) \<times> 's"
    and reacquire :: "'s \<Rightarrow> (rstring + unit) \<times> 's"
    and rank :: "'s \<Rightarrow> nat"
  assumes rank_capture: "0 < rank s \<Longrightarrow> rank (snd (capture_frame s)) < rank s"
    and dry: "rank s = 0 \<Longrightarrow> \<not> is_ok (fst (capture_frame s)) \<and> rank (snd (capture_frame s)) = 0"
    and rank_reacquire: "rank (snd (reacquire s)) \<le> rank s"
begin

text \<open>What is left to do: the captures of the source and then the failures up to the limit.\<close>

definition remaining :: "'s \<times> capture_thread \<times> pipeline \<Rightarrow> nat" where
  "remaining st = (case st of (s, c, p) \<Rightarrow>
     if \<not> ct_running c then 0
     else if rank s = 0 then MAX_CONSECUTIVE_FAILURES - ct_capture_failures c
     else rank s + MAX_CONSECUTIVE_FAILURES)"

lemma turn:
  assumes "healthy_thread st"
  shows "healthy_thread (source_turn capture_frame reacquire st) \<and>
    remaining (source_turn capture_frame reacquire st) \<le> remaining st - 1"
proof -
  obtain s c p where st: "st = (s, c, p)" by (metis prod_cases3)
  show ?thesis
  proof (cases "ct_running c")
    case False
    then show ?thesis using assms by (simp add: st source_turn_def healthy_thread_def remaining_def)
  next
    case True
    obtain r s1 where cap: "capture_frame s = (r, s1)" by fastforce
    obtain q s2 where turn: "source_turn capture_frame reacquire st = (s2, capture_turn (c, p) (r, q))" "rank s2 \<le> rank s1"
      using True assms cap rank_reacquire [of s1]
      by (cases "reacquire s1"; cases "reacquires c r") (auto simp: st source_turn_def healthy_thread_def)
    obtain c' p' where e: "capture_turn (c, p) (r, q) = (c', p')" by fastforce
    have "\<not> teardown_requested p" using assms True by (simp add: st healthy_thread_def)
    note effect = capture_turn_effect [OF True this e]
    have "healthy_thread (s2, c', p')"
      using effect by (auto simp: healthy_thread_def MAX_CONSECUTIVE_FAILURES_def split: if_splits)
    moreover have "remaining (s2, c', p') \<le> remaining (s, c, p) - 1"
    proof (cases "rank s = 0")
      case True
      with dry [of s] cap turn(2) have "\<not> is_ok r" "rank s2 = 0" by auto
      with effect True \<open>ct_running c\<close> show ?thesis by (auto simp: remaining_def split: if_splits)
    next
      case False
      with rank_capture [of s] cap turn(2) \<open>ct_running c\<close> show ?thesis
        by (auto simp: remaining_def)
    qed
    ultimately show ?thesis using turn(1) e st by simp
  qed
qed

lemma turns:
  "healthy_thread st \<Longrightarrow> healthy_thread ((source_turn capture_frame reacquire ^^ n) st) \<and>
   remaining ((source_turn capture_frame reacquire ^^ n) st) \<le> remaining st - n"
proof (induction n)
  case (Suc n)
  with turn [of "(source_turn capture_frame reacquire ^^ n) st"] show ?case by auto
qed simp

lemma ends_with_report:
  assumes "healthy_thread (s, c, p)" "rank s + MAX_CONSECUTIVE_FAILURES \<le> n"
  shows "case (source_turn capture_frame reacquire ^^ n) (s, c, p) of (s', c', p') \<Rightarrow>
    \<not> ct_running c' \<and> pl_failed p' \<and> pl_stop p'"
proof -
  obtain s' c' p' where e: "(source_turn capture_frame reacquire ^^ n) (s, c, p) = (s', c', p')" by (metis prod_cases3)
  have "remaining (s, c, p) \<le> n" using assms(2) by (auto simp: remaining_def)
  with turns [OF assms(1), of n] e show ?thesis
    by (auto simp: healthy_thread_def remaining_def split: if_splits)
qed

end

interpretation scripted: finite_source scripted_capture_frame scripted_reacquire "\<lambda>s. length (sc_script s) - sc_cursor s"
  by unfold_locales (auto simp: scripted_capture_frame_def scripted_reacquire_def is_ok_iff)

interpretation monitor: finite_source x11_capture_frame "x11_reacquire show" "\<lambda>s. length (xs_images s)"
  by unfold_locales
    (auto simp: x11_capture_frame_def x11_reacquire_def is_ok_iff Let_def split: option.splits list.splits sum.splits)

lemma start_healthy: "healthy_thread (s, capture_start, pipeline_new)"
  by (simp add: healthy_thread_def capture_start_def pipeline_new_def teardown_requested_def MAX_CONSECUTIVE_FAILURES_def)

text \<open>C28: A display that goes away ends the capture: whatever images it has delivered before, and
  whatever the monitor lists say when it is looked for again, five turns after its last image the
  capture thread has ended, has reported an error and has stopped the pipeline; so does the loop driven
  by a script, five turns after its end.\<close>

theorem lost_display_ends_capture:
  "(case x11_new name monitors images gone lsts of
      Inl e \<Rightarrow> True
    | Inr s \<Rightarrow>
        (case (source_turn x11_capture_frame (x11_reacquire show) ^^ (length images + 5)) (s, capture_start, pipeline_new) of
           (s', c, p) \<Rightarrow> \<not> ct_running c \<and> pl_failed p \<and> pl_stop p)) \<and>
   (case (source_turn scripted_capture_frame scripted_reacquire ^^ (length script + 5))
       (with_reacquire_script results (scripted_new script), capture_start, pipeline_new) of
      (s', c, p) \<Rightarrow> \<not> ct_running c \<and> pl_failed p \<and> pl_stop p)"
proof (rule conjI)
  show "case x11_new name monitors images gone lsts of
      Inl e \<Rightarrow> True
    | Inr s \<Rightarrow>
        (case (source_turn x11_capture_frame (x11_reacquire show) ^^ (length images + 5)) (s, capture_start, pipeline_new) of
           (s', c, p) \<Rightarrow> \<not> ct_running c \<and> pl_failed p \<and> pl_stop p)"
  proof (cases "x11_new name monitors images gone lsts")
    case (Inr s)
    then have "length (xs_images s) + MAX_CONSECUTIVE_FAILURES \<le> length images + 5"
      by (auto simp: x11_new_def rbind_eq_Inr MAX_CONSECUTIVE_FAILURES_def)
    from monitor.ends_with_report [OF start_healthy this] Inr show ?thesis by simp
  qed simp
  show "case (source_turn scripted_capture_frame scripted_reacquire ^^ (length script + 5))
       (with_reacquire_script results (scripted_new script), capture_start, pipeline_new) of
      (s', c, p) \<Rightarrow> \<not> ct_running c \<and> pl_failed p \<and> pl_stop p"
    by (rule scripted.ends_with_report [OF start_healthy])
      (simp add: with_reacquire_script_def scripted_new_def MAX_CONSECUTIVE_FAILURES_def)
qed

end
