(* ===== verification/Screen_Pipeline.thy ===== *)
theory Screen_Pipeline
  imports Screen_Controller Screen_Output Portal Frame_Source
begin

text \<open>
  How the parts of the screen pipeline are started, connected and released: the life of the encoder's
  process (\<open>src/screen/ffmpeg.rs\<close>), the set-up of the PipeWire stream (\<open>pipewire.rs\<close>), the threads of
  a pipeline (\<open>start_pipeline\<close> and \<open>join\<close> of \<open>bridge/mod.rs\<close>, \<open>bridge/capture_link.rs\<close>).
\<close>

section \<open>The encoder's process\<close>

text \<open>What happens to the process and to the thread that reads its stderr, in order.\<close>

datatype proc_event = ProcSpawned | StderrReaderSpawned | ProcKilled | ProcReaped | StderrReaderJoined

record spawn_env =
  sn_spawn :: "io_error + unit"
  sn_stderr :: bool  \<comment> \<open>the child has a piped stderr\<close>
  sn_thread :: "io_error + unit"

definition spawn_inner :: "spawn_env \<Rightarrow> (io_error + unit) \<times> proc_event list" where
  "spawn_inner env =
     (case sn_spawn env of
        Inl e \<Rightarrow> (Inl e, [])
      | Inr _ \<Rightarrow>
          if \<not> sn_stderr env then (Inl OtherIo, [ProcSpawned])
          else (case sn_thread env of
                  Inl e \<Rightarrow> (Inl e, [ProcSpawned])
                | Inr _ \<Rightarrow> (Inr (), [ProcSpawned, StderrReaderSpawned])))"

text \<open>The program the three ways to spawn run: the one found on the search path, or its bare name.\<close>

definition default_program :: "bytes option \<Rightarrow> bytes" where
  "default_program found = (case found of Some p \<Rightarrow> p | None \<Rightarrow> str ''ffmpeg'')"

definition ffmpeg_spawn_program :: "bytes \<Rightarrow> u32 \<Rightarrow> u32 \<Rightarrow> encoder_command" where
  "ffmpeg_spawn_program program width height = build_command program width height (str ''rgba'')"

definition ffmpeg_spawn :: "bytes option \<Rightarrow> u32 \<Rightarrow> u32 \<Rightarrow> encoder_command" where
  "ffmpeg_spawn found width height = ffmpeg_spawn_program (default_program found) width height"

definition ffmpeg_spawn_pipewire :: "bytes option \<Rightarrow> rstring \<Rightarrow> u32 \<Rightarrow> u32 \<Rightarrow> encoder_command" where
  "ffmpeg_spawn_pipewire found pix_fmt width height = build_command (default_program found) width height pix_fmt"

definition ffmpeg_spawn_custom :: "bytes \<Rightarrow> rstring list \<Rightarrow> encoder_command" where
  "ffmpeg_spawn_custom program args = (program, args)"

text \<open>The stderr reader: the lines up to the first that cannot be decoded, of which the tail is kept.\<close>

fun stderr_reader :: "rstring list \<Rightarrow> (io_error + rstring) list \<Rightarrow> rstring list" where
  "stderr_reader t [] = t"
| "stderr_reader t (Inl e # ls) = t"
| "stderr_reader t (Inr line # ls) = stderr_reader (push_tail t line) ls"

text \<open>A child by the times of its exit: \<open>exits False\<close> on its own, \<open>exits True\<close> once killed; \<open>None\<close>
  is never. \<open>try_wait\<close> sees the exit from then on.\<close>

definition probe_of :: "(bool \<Rightarrow> instant option) \<Rightarrow> int \<Rightarrow> bool \<Rightarrow> instant \<Rightarrow> io_error + int option" where
  "probe_of exits status killed t =
     Inr (case exits killed of Some e \<Rightarrow> if e \<le> t then Some status else None | None \<Rightarrow> None)"

text \<open>When the child exits if it is killed at \<open>now\<close> at the latest; \<open>Child::wait\<close> returns then, and so
  does the end of its stderr. \<open>None\<close>: it never returns.\<close>

definition child_wait :: "(bool \<Rightarrow> instant option) \<Rightarrow> instant \<Rightarrow> instant option" where
  "child_wait exits now =
     (case exits False of
        Some e \<Rightarrow> if e \<le> now then Some now else map_option (max now) (exits True)
      | None \<Rightarrow> map_option (max now) (exits True))"

text \<open>\<open>Drop\<close>: kill, wait, join the reader.\<close>

definition ffmpeg_drop :: "(bool \<Rightarrow> instant option) \<Rightarrow> instant \<Rightarrow> instant option \<times> proc_event list" where
  "ffmpeg_drop exits now =
     (case child_wait exits now of
        None \<Rightarrow> (None, [ProcKilled])
      | Some t \<Rightarrow> (Some t, [ProcKilled, ProcReaped, StderrReaderJoined]))"

text \<open>\<open>EncoderState::teardown\<close> followed by the end of the encoder's scope; stdin is closed before.\<close>

definition encoder_teardown ::
  "(bool \<Rightarrow> instant option) \<Rightarrow> int \<Rightarrow> (instant \<Rightarrow> duration) \<Rightarrow> instant \<Rightarrow> (io_error + int) \<times> instant option" where
  "encoder_teardown exits status jitter now =
     (case wait_graceful (probe_of exits status) jitter GRACE_PERIOD now of
        (r, killed, t) \<Rightarrow> (r, fst (ffmpeg_drop exits t)))"

section \<open>The PipeWire stream\<close>

record pod_choice =
  pd_formats :: "video_format list"  \<comment> \<open>the default first\<close>
  pd_min_size :: "nat \<times> nat"
  pd_max_size :: "nat \<times> nat"
  pd_framerate :: "(nat \<times> nat) \<times> (nat \<times> nat) \<times> (nat \<times> nat)"  \<comment> \<open>default, least, greatest\<close>

definition capture_format_pod :: pod_choice where
  "capture_format_pod =
     \<lparr>pd_formats = [VfBGRx, VfBGRx, VfRGBx, VfBGRA, VfRGBA], pd_min_size = (1, 1),
      pd_max_size = (MAX_STREAM_DIMENSION, MAX_STREAM_DIMENSION), pd_framerate = ((30, 1), (0, 1), (1000, 1))\<rparr>"

text \<open>The set-up, with what the calls of the crate give, then the loop, whose runs are \<open>pw_step\<close>.\<close>

record pw_setup =
  pw_loop :: "rstring + unit"
  pw_context :: "rstring + unit"
  pw_connect_fd :: "rstring + unit"
  pw_stream :: "rstring + unit"
  pw_listener :: "rstring + unit"
  pw_pod :: "rstring + unit"
  pw_connect :: "rstring + unit"

definition pipewire_setup :: "pw_setup \<Rightarrow> rstring + unit" where
  "pipewire_setup env =
     rbind (pw_loop env) (\<lambda>_. rbind (pw_context env) (\<lambda>_. rbind (pw_connect_fd env) (\<lambda>_.
     rbind (pw_stream env) (\<lambda>_. rbind (pw_listener env) (\<lambda>_. rbind (pw_pod env) (\<lambda>_. pw_connect env))))))"

text \<open>What the status channel carries of a capture whose set-up fails: nothing, and then its end.\<close>

definition setup_status :: "pw_setup \<Rightarrow> status_recv list \<Rightarrow> status_recv list" where
  "setup_status env later = (case pipewire_setup env of Inl _ \<Rightarrow> [Disconnected] | Inr _ \<Rightarrow> later)"

section \<open>Threads of a pipeline\<close>

datatype pipeline_thread = CaptureThread | ControllerThread | ForwarderThread

record start_env =
  se_capture :: "rstring + unit"
  se_controller :: "rstring + unit"
  se_forwarder :: "rstring + unit"

text \<open>The result, which holds the threads the bridge joins, with the threads that were started and
  whether the media server was given the stream.\<close>

definition start_pipeline ::
  "bool \<Rightarrow> start_env \<Rightarrow> (rstring + pipeline_thread list) \<times> pipeline_thread list \<times> bool" where
  "start_pipeline with_capture env =
     (case (if with_capture then map_sum id (\<lambda>_. [CaptureThread]) (se_capture env) else Inr []) of
        Inl e \<Rightarrow> (Inl e, [], False)
      | Inr capture \<Rightarrow>
          (case se_controller env of
             Inl e \<Rightarrow> (Inl e, capture, False)
           | Inr _ \<Rightarrow>
               (case se_forwarder env of
                  Inl e \<Rightarrow> (Inl e, capture @ [ControllerThread], True)
                | Inr _ \<Rightarrow>
                    (Inr (capture @ [ControllerThread, ForwarderThread]),
                     capture @ [ControllerThread, ForwarderThread], True))))"

text \<open>The other two ways in: the portal pipeline and the one without a capture thread. \<open>custom\<close> is
  whether a program stands in for the encoder.\<close>

definition start_portal :: "bool \<Rightarrow> bool \<Rightarrow> portal_env \<Rightarrow> bridge_error + pipeline_input" where
  "start_portal custom ffmpeg env = (if \<not> custom \<and> \<not> ffmpeg then Inl FfmpegMissing else Inr (PortalInput env))"

definition start_with_encoder :: "u32 \<Rightarrow> u32 \<Rightarrow> start_env \<Rightarrow>
    pipeline_input \<times> (rstring + pipeline_thread list) \<times> pipeline_thread list \<times> bool" where
  "start_with_encoder width height env = (Frames width height, start_pipeline False env)"

text \<open>\<open>spawn_capture_thread\<close> hands the thread of the capture to the bridge.\<close>

definition spawn_capture_thread :: "(monitor_error \<Rightarrow> rstring) \<Rightarrow> monitor_error + capture_handle \<Rightarrow> rstring + capture_handle option" where
  "spawn_capture_thread show started = map_sum show join_handle started"

text \<open>\<open>spawn_stdout_reader\<close>: a thread that cannot be spawned is only logged.\<close>

definition spawn_stdout_reader :: "('h \<Rightarrow> bool) \<Rightarrow> io_error + 'h \<Rightarrow> 'h list \<Rightarrow> 'h list" where
  "spawn_stdout_reader is_finished spawned handles =
     (case spawned of Inr reader \<Rightarrow> register_reader is_finished handles reader | Inl _ \<Rightarrow> handles)"

section \<open>What the bridge tells\<close>

definition pipeline_last_error :: "pipeline \<Rightarrow> rstring option" where
  "pipeline_last_error p = pl_last_error p"

definition frames_len :: "pipeline \<Rightarrow> nat" where
  "frames_len p = queue_len (pl_frames p)"

definition output_len :: "output_pipe \<Rightarrow> nat" where
  "output_len o1 = queue_len (op_queue o1)"

definition dropped_segments :: "output_pipe \<Rightarrow> nat" where
  "dropped_segments o1 = op_dropped o1"

section \<open>Joining\<close>

datatype join_action = JoinStops | ThreadJoined pipeline_thread | StdoutReaderJoined nat

text \<open>\<open>join\<close>, for the threads of the bridge and the number of readers left.\<close>

definition bridge_join :: "pipeline_thread list \<Rightarrow> nat \<Rightarrow> join_action list" where
  "bridge_join threads readers = JoinStops # map ThreadJoined threads @ map StdoutReaderJoined [0..<readers]"

text \<open>A cloneable feeder pushes into the same queue.\<close>

definition feeder_push :: "bytes \<Rightarrow> pipeline \<Rightarrow> pipeline" where
  "feeder_push bs p = push_frame bs p"

section \<open>Properties\<close>

lemma poll_exit_never:
  assumes "\<And>t. probe t = Inr None"
  shows "fst (poll_exit probe jitter deadline now) = Inr None"
proof (induction "deadline - now" arbitrary: now rule: less_induct)
  case less
  have "\<not> deadline \<le> now \<Longrightarrow> deadline - (now + WAIT_POLL + jitter now) < deadline - now"
    by (simp add: WAIT_POLL_def from_millis_def)
  with less show ?case by (subst poll_exit.simps) (auto simp: assms)
qed

lemma wait_graceful_never:
  assumes "\<And>k t. probe k t = Inr None"
  shows "fst (wait_graceful probe jitter grace now) = Inl TimedOut"
proof -
  obtain t where 1: "poll_exit (probe False) jitter (now + grace) now = (Inr None, t)"
    using poll_exit_never [of "probe False" jitter "now + grace" now] assms by (metis prod.collapse)
  obtain t' where "poll_exit (probe True) jitter (t + KILL_WAIT) t = (Inr None, t')"
    using poll_exit_never [of "probe True" jitter "t + KILL_WAIT" t] assms by (metis prod.collapse)
  with 1 show ?thesis by (simp add: wait_graceful_def)
qed

text \<open>A child that survives the kill hangs the controller after all. \<open>wait_graceful\<close> gives up on it
  with an error, which leaves it to the system, but the encoder is then dropped, and \<open>Drop\<close> waits
  for the child without a bound. With a child that can be killed, the teardown returns, at the
  latest when the child is gone.\<close>

theorem unkillable_child_hangs_teardown:
  "encoder_teardown (\<lambda>_. None) status jitter now = (Inl TimedOut, None) \<and>
   (\<exists>t. snd (encoder_teardown (\<lambda>killed. if killed then Some e else None) status jitter now) = Some t \<and> e \<le> t)"
proof -
  have "fst (wait_graceful (probe_of (\<lambda>_. None) status) jitter GRACE_PERIOD now) = Inl TimedOut"
    by (rule wait_graceful_never) (simp add: probe_of_def)
  then have "encoder_teardown (\<lambda>_. None) status jitter now = (Inl TimedOut, None)"
    by (auto simp: encoder_teardown_def ffmpeg_drop_def child_wait_def split: prod.splits)
  moreover have "\<exists>t. snd (encoder_teardown (\<lambda>killed. if killed then Some e else None) status jitter now) = Some t \<and> e \<le> t"
    by (auto simp: encoder_teardown_def ffmpeg_drop_def child_wait_def split: prod.splits)
  ultimately show ?thesis by blast
qed

text \<open>A failed start leaves threads behind that nobody can stop: when the forwarder cannot be spawned,
  the capture thread and the controller keep running without an owner, and when the controller cannot
  be spawned, the capture thread does; the stop flag is dropped with the error. A process whose stderr
  reader cannot be spawned is left running as well.\<close>

lemma failed_start_leaks:
  "start_pipeline True \<lparr>se_capture = Inr (), se_controller = Inr (), se_forwarder = Inl e\<rparr> =
     (Inl e, [CaptureThread, ControllerThread], True)"
  "start_pipeline True \<lparr>se_capture = Inr (), se_controller = Inl e, se_forwarder = x\<rparr> = (Inl e, [CaptureThread], False)"
  "spawn_inner \<lparr>sn_spawn = Inr (), sn_stderr = True, sn_thread = Inl io\<rparr> = (Inl io, [ProcSpawned])"
  by (simp_all add: start_pipeline_def spawn_inner_def)

text \<open>A generation whose stdout reader cannot be spawned has no reader: nothing is registered, nothing
  is reported, and the controller goes on feeding an encoder whose output nobody reads.\<close>

lemma unspawned_reader_unnoticed: "spawn_stdout_reader is_finished (Inl e) handles = handles"
  by (simp add: spawn_stdout_reader_def)

text \<open>The handle of a started capture is taken exactly once, so the \<open>expect\<close> cannot fail.\<close>

lemma capture_handle_taken:
  "spawn_capture_thread show (Inr \<lparr>ch_initial_resolution = r, ch_thread = True\<rparr>) =
     Inr (Some \<lparr>ch_initial_resolution = r, ch_thread = False\<rparr>)"
  by (simp add: spawn_capture_thread_def join_handle_def)

lemma started_threads_owned:
  assumes "fst (start_pipeline with_capture env) = Inr threads"
  shows "fst (snd (start_pipeline with_capture env)) = threads \<and> distinct threads \<and>
    (ThreadJoined t \<in> set (bridge_join threads readers) \<longleftrightarrow> t \<in> set threads)"
  using assms
  by (cases "se_capture env") (auto simp: start_pipeline_def bridge_join_def split: sum.splits if_splits)

text \<open>What the client offers it can use: every stream the compositor picks from the offered formats
  and sizes passes the negotiation, with the pixel format of its video format.\<close>

theorem offered_formats_negotiable:
  assumes "f \<in> set (pd_formats capture_format_pod)"
    and "fst (pd_min_size capture_format_pod) \<le> unat w" "unat w \<le> fst (pd_max_size capture_format_pod)"
    and "snd (pd_min_size capture_format_pod) \<le> unat h" "unat h \<le> snd (pd_max_size capture_format_pod)"
  shows "\<exists>p. from_video_format f = Some p \<and> negotiated f w h = Inr \<lparr>pw_width = w, pw_height = h, pw_pix_fmt = p\<rparr>"
  using assms by (auto simp: capture_format_pod_def negotiated_def)

theorem offered_formats_negotiable_witness:
  "\<exists>p. from_video_format VfBGRA = Some p \<and> negotiated VfBGRA 1920 1080 = Inr \<lparr>pw_width = 1920, pw_height = 1080, pw_pix_fmt = p\<rparr>"
  by (rule offered_formats_negotiable) (simp_all add: capture_format_pod_def MAX_STREAM_DIMENSION_def)

end
