(* ===== verification/Startup.thy ===== *)
theory Startup
  imports Runtime_Properties Screen_Encoder Tls
begin

text \<open>
  The program as a process: where it keeps its state (\<open>platform_log_dir\<close> of \<open>src/main.rs\<close> and
  \<open>default_store_path\<close> of \<open>src/cast/tofu.rs\<close>), its logging, the \<open>Backend\<close> of \<open>src/runtime.rs\<close>, the
  handle of the media server (\<open>MediaServer\<close> of \<open>src/media/server.rs\<close>) and \<open>main\<close>.

  Paths are those of Unix. The environment variables, the temporary directory and the target system
  are the record \<open>process_env\<close>; the filter type of the logging crate and its parser are parameters.
\<close>

section \<open>Where the state is kept\<close>

record process_env =
  pv_var :: "rstring \<Rightarrow> bytes option"
  pv_temp_dir :: bytes
  pv_macos :: bool

abbreviation path_joins :: "bytes \<Rightarrow> rstring list \<Rightarrow> bytes" where
  "path_joins \<equiv> foldl path_join"

definition home_dir :: "process_env \<Rightarrow> bytes option" where
  "home_dir env = pv_var env (str ''HOME'')"

definition platform_log_dir :: "process_env \<Rightarrow> bytes" where
  "platform_log_dir env =
     (case pv_var env (str ''LOCALAPPDATA'') of
        Some base \<Rightarrow> path_joins base [str ''cast-app'', str ''logs'']
      | None \<Rightarrow>
     (case (if pv_macos env then home_dir env else None) of
        Some home \<Rightarrow> path_joins home [str ''Library'', str ''Logs'', str ''cast-app'']
      | None \<Rightarrow>
     (case pv_var env (str ''XDG_STATE_HOME'') of
        Some base \<Rightarrow> path_joins base [str ''cast-app'', str ''logs'']
      | None \<Rightarrow>
     (case home_dir env of
        Some home \<Rightarrow> path_joins home [str ''.local'', str ''state'', str ''cast-app'', str ''logs'']
      | None \<Rightarrow> path_joins (pv_temp_dir env) [str ''cast-app'', str ''logs'']))))"

text \<open>The directory, and the directories that were created: \<open>mkdir\<close> is whether \<open>create_dir_all\<close>
  succeeds.\<close>

definition log_file_dir :: "(bytes \<Rightarrow> bool) \<Rightarrow> process_env \<Rightarrow> bytes \<times> bytes list" where
  "log_file_dir mkdir env =
     (let dir = platform_log_dir env in
      if mkdir dir then (dir, [dir]) else (path_joins (pv_temp_dir env) [str ''cast-app'', str ''logs''], []))"

definition PIN_FILE_NAME :: rstring where
  "PIN_FILE_NAME = str ''known_hosts.json''"

definition default_store_path :: "process_env \<Rightarrow> bytes" where
  "default_store_path env =
     (case pv_var env (str ''LOCALAPPDATA'') of
        Some base \<Rightarrow> path_joins base [str ''cast-app'', PIN_FILE_NAME]
      | None \<Rightarrow>
     (case (if pv_macos env then pv_var env (str ''HOME'') else None) of
        Some home \<Rightarrow> path_joins home [str ''Library'', str ''Application Support'', str ''cast-app'', PIN_FILE_NAME]
      | None \<Rightarrow>
     (case pv_var env (str ''XDG_STATE_HOME'') of
        Some base \<Rightarrow> path_joins base [str ''cast-app'', PIN_FILE_NAME]
      | None \<Rightarrow>
     (case pv_var env (str ''HOME'') of
        Some home \<Rightarrow> path_joins home [str ''.local'', str ''state'', str ''cast-app'', PIN_FILE_NAME]
      | None \<Rightarrow> path_joins (pv_temp_dir env) [str ''cast-app'', PIN_FILE_NAME]))))"

definition load_default ::
  "(bytes \<Rightarrow> (rstring \<times> rstring) list option) \<Rightarrow> process_env \<Rightarrow> disk \<Rightarrow> tofu_store" where
  "load_default from_slice env disk = load_store from_slice disk (default_store_path env)"

definition store_len :: "tofu_store \<Rightarrow> nat" where
  "store_len store = length (ts_pins store)"

definition store_is_empty :: "tofu_store \<Rightarrow> bool" where
  "store_is_empty store \<longleftrightarrow> store_len store = 0"

section \<open>Logging\<close>

text \<open>\<open>std::env::var\<close> refuses a value that is not UTF-8.\<close>

fun first_filter :: "(rstring \<Rightarrow> 'f option) \<Rightarrow> process_env \<Rightarrow> rstring list \<Rightarrow> 'f option" where
  "first_filter try_new env [] = None"
| "first_filter try_new env (name # names) =
     (case pv_var env name of
        None \<Rightarrow> first_filter try_new env names
      | Some v \<Rightarrow>
          if \<not> utf8_valid v then first_filter try_new env names
          else (case try_new v of Some f \<Rightarrow> Some f | None \<Rightarrow> first_filter try_new env names))"

definition env_filter :: "(rstring \<Rightarrow> 'f option) \<Rightarrow> (rstring \<Rightarrow> 'f) \<Rightarrow> process_env \<Rightarrow> 'f" where
  "env_filter try_new new env =
     (case first_filter try_new env [str ''CAST_APP_LOG'', str ''RUST_LOG''] of
        Some f \<Rightarrow> f | None \<Rightarrow> new (str ''info''))"

datatype log_level = LError | LWarn | LInfo | LDebug | LTrace

record 'f log_layer =
  ly_path :: "bytes option"  \<comment> \<open>\<open>None\<close>: the console\<close>
  ly_ansi :: bool
  ly_max :: log_level
  ly_filter :: 'f

definition init_logging ::
  "(rstring \<Rightarrow> 'f option) \<Rightarrow> (rstring \<Rightarrow> 'f) \<Rightarrow> (bytes \<Rightarrow> bool) \<Rightarrow> bool \<Rightarrow> process_env \<Rightarrow> bytes \<times> 'f log_layer list" where
  "init_logging try_new new mkdir terminal env =
     (let log_dir = fst (log_file_dir mkdir env); flt = env_filter try_new new env in
      (log_dir,
       [\<lparr>ly_path = None, ly_ansi = terminal, ly_max = LInfo, ly_filter = flt\<rparr>,
        \<lparr>ly_path = Some (path_join log_dir (str ''cast-app.log'')), ly_ansi = False, ly_max = LTrace, ly_filter = flt\<rparr>]))"

section \<open>The media server's handle\<close>

definition DEFAULT_PORT :: u16 where
  "DEFAULT_PORT = 8080"

text \<open>\<open>bind\<close>: the port of the listener, if the bind and the question for its address succeed.\<close>

definition bind_listener :: "io_error + (io_error + u16) \<Rightarrow> io_error + u16" where
  "bind_listener bound = rbind bound (\<lambda>local_addr. local_addr)"

definition start_with_handle :: "u16 \<Rightarrow> io_error + (io_error + u16) \<Rightarrow> media_server" where
  "start_with_handle port bound = server_start (Some (show_ipv4 0, port)) (bind_listener bound)"

definition media_server_start :: "u16 \<Rightarrow> io_error + (io_error + u16) \<Rightarrow> media_server" where
  "media_server_start port bound = start_with_handle port bound"

definition start_unbound_with_handle :: media_server where
  "start_unbound_with_handle = server_start None (Inl OtherIo)"

text \<open>\<open>accept\<close>: \<open>None\<close> is pending, for ever when there is no listener.\<close>

definition accept_peer :: "(ip \<times> u16) option \<Rightarrow> (io_error + 'a) option \<Rightarrow> (io_error + 'a) option" where
  "accept_peer listener ready = (case listener of Some _ \<Rightarrow> ready | None \<Rightarrow> None)"

record server_handle =
  sh_commands :: "server_input list"
  sh_open :: bool  \<comment> \<open>the task still receives\<close>

definition handle_send :: "server_input \<Rightarrow> server_handle \<Rightarrow> server_handle" where
  "handle_send c h = (if sh_open h then h\<lparr>sh_commands := sh_commands h @ [c]\<rparr> else h)"

definition handle_set_source :: "active_source \<Rightarrow> server_handle \<Rightarrow> server_handle" where
  "handle_set_source source = handle_send (SetSource source)"

definition handle_attach_screen_stream :: "nat \<Rightarrow> server_handle \<Rightarrow> server_handle" where
  "handle_attach_screen_stream receiver = handle_send (AttachScreenStream receiver)"

text \<open>The outcome of the bind is the one the task will meet.\<close>

definition handle_set_port :: "u16 \<Rightarrow> io_error + u16 \<Rightarrow> server_handle \<Rightarrow> server_handle" where
  "handle_set_port port outcome = handle_send (SetPort port outcome)"

definition handle_set_bind_addr :: "ip \<Rightarrow> u16 \<Rightarrow> io_error + u16 \<Rightarrow> server_handle \<Rightarrow> server_handle" where
  "handle_set_bind_addr ip port outcome = handle_send (SetBindAddr ip port outcome)"

definition handle_shutdown :: "server_handle \<Rightarrow> server_handle" where
  "handle_shutdown = handle_send ServerShutdown"

section \<open>The backend\<close>

definition RUNTIME_DRAIN :: duration where
  "RUNTIME_DRAIN = from_secs 5"

record backend =
  bk_shutdown :: shutdown
  bk_supervisor :: supervisor
  bk_drain :: "duration option"  \<comment> \<open>the window given to stragglers before the runtime is dropped\<close>

text \<open>\<open>bind_socket\<close> of \<open>src/cast/mdns.rs\<close>: the errors of the bind, of joining the group and of the
  non-blocking mode, as they print.\<close>

definition bind_socket :: "rstring + unit \<Rightarrow> rstring + unit \<Rightarrow> rstring + unit \<Rightarrow> rstring + unit" where
  "bind_socket bound joined nonblocking = rbind bound (\<lambda>_. rbind joined (\<lambda>_. rbind nonblocking (\<lambda>_. Inr ())))"

text \<open>\<open>None\<close>: the runtime cannot be built, and the \<open>expect\<close> panics.\<close>

definition start_with :: "bool \<Rightarrow> runtime_env \<Rightarrow> rstring + unit \<Rightarrow> u16 \<Rightarrow> backend option" where
  "start_with runtime_ok env discovery initial_port =
     (if runtime_ok
      then Some \<lparr>bk_shutdown = shutdown_new, bk_supervisor = supervise_start env discovery initial_port, bk_drain = None\<rparr>
      else None)"

definition backend_start :: "bool \<Rightarrow> runtime_env \<Rightarrow> rstring + unit \<Rightarrow> backend option" where
  "backend_start runtime_ok env mdns = start_with runtime_ok env mdns DEFAULT_PORT"

text \<open>\<open>shutdown\<close>, with the events the connection task still sends while the supervisor ends.\<close>

definition backend_shutdown :: "(connection_error \<Rightarrow> rstring) \<Rightarrow> connection_event list \<Rightarrow> backend \<Rightarrow> backend" where
  "backend_shutdown show_error drained b =
     b\<lparr>bk_shutdown := trigger (bk_shutdown b),
       bk_supervisor := supervisor_step show_error (bk_supervisor b) (SvEnd drained),
       bk_drain := Some RUNTIME_DRAIN\<rparr>"

section \<open>main.rs\<close>

datatype main_action = BannerPrinted | LoggingStarted bytes | CryptoInstalled | BackendStarted | GuiReturned | BackendStopped

text \<open>\<open>gui\<close> is what reaches the supervisor while the window is open, \<open>result\<close> what the window returns.\<close>

definition main_run ::
  "(connection_error \<Rightarrow> rstring) \<Rightarrow> (bytes \<Rightarrow> bool) \<Rightarrow> process_env \<Rightarrow> bool \<Rightarrow> runtime_env \<Rightarrow> rstring + unit \<Rightarrow>
   supervisor_input list \<Rightarrow> connection_event list \<Rightarrow> 'r \<Rightarrow> main_action list \<times> ('r \<times> backend) option" where
  "main_run show_error mkdir penv runtime_ok env mdns gui drained result =
     (let started = [BannerPrinted, LoggingStarted (fst (log_file_dir mkdir penv)), CryptoInstalled] in
      case backend_start runtime_ok env mdns of
        None \<Rightarrow> (started, None)
      | Some b \<Rightarrow>
          (let b = b\<lparr>bk_supervisor := run (supervisor_step show_error) (bk_supervisor b) gui\<rparr>;
               b = backend_shutdown show_error drained b
           in (started @ [BackendStarted, GuiReturned, BackendStopped], Some (result, b))))"

section \<open>Pins survive a restart\<close>

text \<open>C19: A receiver seen in one run of the program is recognised in the next: when a certificate was
  pinned on first use and the store was written, a later process with the same environment accepts
  that certificate and reports every other one as a mismatch with it. The JSON library has to read
  back what it has written.\<close>

theorem pins_survive_restart:
  assumes b: "to_vec (pins_file store) = Some b" "from_slice b = Some (pins_file store)"
    and "check to_vec oc k fp (load_default from_slice env disk, disk) = (Pinned, store, disk')"
    and "length fp = 32" "so_mkdir oc" "so_write oc = None" "so_rename oc"
  shows "load_default from_slice env disk' = store \<and>
    fst (check to_vec oc' k fp' (load_default from_slice env disk', disk')) =
      (if fp' = fp then Matched else Mismatch fp fp')"
proof -
  let ?s = "load_default from_slice env disk" and ?path = "default_store_path env"
  from assms(3) have new: "store = ?s\<lparr>ts_pins := AList.update k fp (ts_pins ?s)\<rparr>" "disk' = save to_vec oc store disk"
    by (auto simp: check_def Let_def split: option.splits if_splits)
  have path: "ts_path store = Some ?path" by (simp add: new load_default_def load_store_def)
  have inv: "store_inv store"
    using store_inv_check [OF _ assms(4,3)] store_inv_load by (auto simp: load_default_def)
  have "load_default from_slice env disk' = store"
    unfolding load_default_def
    by (rule load_saved [of store "default_store_path env" from_slice b, OF inv path b(2)]) (simp add: new(2) save_complete [of store "default_store_path env" to_vec b oc, OF path b(1) assms(5-7)])
  moreover have "map_of (ts_pins store) k = Some fp" by (simp add: new update_conv')
  ultimately show ?thesis by (auto simp: check_def)
qed

theorem pins_survive_restart_witness:
  "let env = \<lparr>pv_var = [str ''HOME'' \<mapsto> str ''/home/u''], pv_temp_dir = str ''/tmp'', pv_macos = False\<rparr>;
       fp = replicate 32 (7 :: u8);
       to_vec = (\<lambda>_. Some [9]); from_slice = (\<lambda>_. Some [(str ''tv'', fingerprint_to_hex fp)]);
       oc = \<lparr>so_mkdir = True, so_write = None, so_rename = True, so_remove = True\<rparr>;
       disk' = snd (snd (check to_vec oc (str ''tv'') fp (load_default from_slice env (\<lambda>_. None), \<lambda>_. None)))
   in fst (check to_vec oc (str ''tv'') (replicate 32 8) (load_default from_slice env disk', disk')) =
        Mismatch fp (replicate 32 8)"
proof -
  let ?env = "\<lparr>pv_var = [str ''HOME'' \<mapsto> str ''/home/u''], pv_temp_dir = str ''/tmp'', pv_macos = False\<rparr>"
    and ?fp = "replicate 32 (7 :: u8)" and ?to = "\<lambda>_ :: (rstring \<times> rstring) list. Some [9 :: u8]"
    and ?oc = "\<lparr>so_mkdir = True, so_write = None, so_rename = True, so_remove = True\<rparr>"
  let ?from = "\<lambda>_ :: bytes. Some [(str ''tv'', fingerprint_to_hex ?fp)]"
  let ?store = "\<lparr>ts_pins = [(str ''tv'', ?fp)], ts_path = Some (default_store_path ?env)\<rparr>"
  have "check ?to ?oc (str ''tv'') ?fp (load_default ?from ?env (\<lambda>_. None), \<lambda>_. None) =
      (Pinned, ?store, save ?to ?oc ?store (\<lambda>_. None))"
    by (simp add: check_def load_default_def load_store_def Let_def)
  note first = this
  have "fst (check ?to ?oc (str ''tv'') (replicate 32 8)
      (load_default ?from ?env (save ?to ?oc ?store (\<lambda>_. None)), save ?to ?oc ?store (\<lambda>_. None))) =
      Mismatch ?fp (replicate 32 8)"
    using pins_survive_restart [OF _ _ first, of "[9]" ?oc "replicate 32 8", THEN conjunct2] by (simp add: pins_file_def)
  then show ?thesis unfolding Let_def first snd_conv .
qed

section \<open>The log directory\<close>

text \<open>The directory the log file is put in was created, except in the fallback: when the platform's
  directory cannot be created, the one below the temporary directory is used as it is.\<close>

lemma log_dir_created_iff:
  "fst (log_file_dir mkdir env) \<in> set (snd (log_file_dir mkdir env)) \<longleftrightarrow> mkdir (platform_log_dir env)"
  by (simp add: log_file_dir_def Let_def)

text \<open>A variable that is set but empty counts: the pins then lie below the current directory.\<close>

lemma empty_state_home_is_relative:
  "default_store_path \<lparr>pv_var = [str ''XDG_STATE_HOME'' \<mapsto> [], str ''HOME'' \<mapsto> home], pv_temp_dir = tmp, pv_macos = False\<rparr> =
     str ''cast-app/known_hosts.json''"
  by (simp add: default_store_path_def path_join_def PIN_FILE_NAME_def) (simp add: str_def)

section \<open>The program ends with everything stopped\<close>

lemma forward_keeps [simp]:
  "sv_shutdown (forward_connection_event sh e s) = sv_shutdown s"
  "sv_server (forward_connection_event sh e s) = sv_server s"
  by (simp_all add: forward_connection_event_def send_event_def split: connection_event.splits)

lemma forward_tasks [simp]:
  "sv_mdns (forward_connection_event sh e s) = sv_mdns s"
  "sv_screen (forward_connection_event sh e s) = sv_screen s"
  "sv_retired (forward_connection_event sh e s) = sv_retired s"
  "sv_cast (forward_connection_event sh e s) = sv_cast s"
  by (simp_all add: forward_connection_event_def send_event_def split: connection_event.splits)

lemma forward_all_tasks [simp]:
  "sv_mdns (fold (forward_connection_event sh) es s) = sv_mdns s"
  "sv_screen (fold (forward_connection_event sh) es s) = sv_screen s"
  "sv_retired (fold (forward_connection_event sh) es s) = sv_retired s"
  "sv_cast (fold (forward_connection_event sh) es s) = sv_cast s"
  by (induction es arbitrary: s) simp_all

lemma forward_all_keeps [simp]:
  "sv_shutdown (fold (forward_connection_event sh) es s) = sv_shutdown s"
  "sv_server (fold (forward_connection_event sh) es s) = sv_server s"
  by (induction es arbitrary: s) simp_all

text \<open>What the shutdown has to find, read off the commands alone. The loop handles its inputs up to the
  first one that ends it; discovery runs when its socket could be bound at the start or by a rescan; a
  display chosen by the user replaces the pipeline before it, and runs when its own could be started.\<close>

definition is_end :: "supervisor_input \<Rightarrow> bool" where
  "is_end i = (case i of SvEnd _ \<Rightarrow> True | _ \<Rightarrow> False)"

definition handled :: "supervisor_input list \<Rightarrow> supervisor_input list" where
  "handled = takeWhile (\<lambda>i. \<not> is_end i)"

definition rescan_bound :: "supervisor_input \<Rightarrow> bool" where
  "rescan_bound i = (case i of SvCommand env Rescan \<Rightarrow> is_ok (re_mdns_bind env) | _ \<Rightarrow> False)"

definition discovery_runs :: "rstring + unit \<Rightarrow> supervisor_input list \<Rightarrow> bool" where
  "discovery_runs mdns is = (is_ok mdns \<or> list_ex rescan_bound is)"

definition chosen_display :: "supervisor_input \<Rightarrow> rstring option option" where
  "chosen_display i =
     (case i of SvCommand env (SelectDisplay mon) \<Rightarrow> Some (if re_screen env = Some (Inr ()) then Some mon else None)
      | _ \<Rightarrow> None)"

definition open_screen :: "supervisor_input list \<Rightarrow> rstring option" where
  "open_screen is = fold (\<lambda>i scr. case chosen_display i of Some c \<Rightarrow> c | None \<Rightarrow> scr) is None"

definition started_screens :: "supervisor_input list \<Rightarrow> rstring list" where
  "started_screens is = List.map_filter id (List.map_filter chosen_display is)"

abbreviation held :: "'a option \<Rightarrow> 'a list" where
  "held m \<equiv> (case m of Some x \<Rightarrow> [x] | None \<Rightarrow> [])"

text \<open>The record of a complete shutdown: what ran is stopped, once each and in order, the handles are
  given up, and each task was told so by its last command and by no earlier one.\<close>

definition stopped_in_order :: "bool \<Rightarrow> rstring option \<Rightarrow> supervisor \<Rightarrow> bool" where
  "stopped_in_order mdns scr s \<longleftrightarrow>
     sv_shutdown s = [HttpStopped, CastStopped] @ (if mdns then [MdnsStopped] else []) @ map ScreenJoined (held scr) \<and>
     sv_screen s = None \<and>
     (\<exists>before. sv_server s = before @ [ServerShutdown] \<and> ServerShutdown \<notin> set before) \<and>
     (\<exists>before. sv_cast s = before @ [Shutdown] \<and> Shutdown \<notin> set before)"

text \<open>What the loop keeps of it while it runs.\<close>

definition not_yet_stopped :: "supervisor \<Rightarrow> bool" where
  "not_yet_stopped s \<longleftrightarrow>
     sv_running s \<and> sv_shutdown s = [] \<and> ServerShutdown \<notin> set (sv_server s) \<and> Shutdown \<notin> set (sv_cast s)"

lemma coordinated_shutdown_stops:
  "not_yet_stopped s \<Longrightarrow>
   stopped_in_order (sv_mdns s) (sv_screen s) (coordinated_shutdown sh es s) \<and>
   sv_retired (coordinated_shutdown sh es s) = sv_retired s"
  by (auto simp: stopped_in_order_def not_yet_stopped_def coordinated_shutdown_def Let_def send_server_def send_cast_def
      split: option.splits)

lemma command_not_stopped: "not_yet_stopped s \<Longrightarrow> not_yet_stopped (handle_app_command env c s)"
  by (cases c)
    (auto simp: not_yet_stopped_def handle_app_command_def select_device_def rebind_to_lan_ip_def bind_addr_def
      bind_wildcard_def request_wildcard_fallback_def refresh_displays_def select_display_def set_active_source_def
      retire_screen_def play_command_def rescan_command_def send_cast_def send_server_def send_event_def Let_def
      split: option.splits sum.splits active_source.splits)

lemma forward_not_stopped: "not_yet_stopped s \<Longrightarrow> not_yet_stopped (forward_connection_event sh e s)"
  by (simp add: not_yet_stopped_def)

lemma command_tasks:
  "sv_mdns (handle_app_command env c s) = (sv_mdns s \<or> rescan_bound (SvCommand env c))"
  "sv_screen (handle_app_command env c s) = (case chosen_display (SvCommand env c) of Some m \<Rightarrow> m | None \<Rightarrow> sv_screen s)"
  "sv_retired (handle_app_command env c s) @ held (sv_screen (handle_app_command env c s)) =
     sv_retired s @ held (sv_screen s) @ started_screens [SvCommand env c]"
  by (cases c;
      auto simp: rescan_bound_def chosen_display_def started_screens_def map_filter_simps handle_app_command_def
        select_device_def rebind_to_lan_ip_def bind_addr_def bind_wildcard_def request_wildcard_fallback_def
        refresh_displays_def select_display_def set_active_source_def retire_screen_def play_command_def
        rescan_command_def send_cast_def send_server_def send_event_def Let_def
        split: option.splits sum.splits active_source.splits)+

lemma started_screens_Cons: "started_screens (i # is) = started_screens [i] @ started_screens is"
  by (simp add: started_screens_def map_filter_simps split: option.splits)

lemma handled_run:
  fixes sh :: "connection_error \<Rightarrow> rstring" and "is" :: "supervisor_input list"
  assumes "not_yet_stopped s" "\<forall>i \<in> set is. \<not> is_end i"
  defines "t \<equiv> run (supervisor_step sh) s is"
  shows "not_yet_stopped t \<and> sv_mdns t = (sv_mdns s \<or> list_ex rescan_bound is) \<and>
    sv_screen t = fold (\<lambda>i scr. case chosen_display i of Some c \<Rightarrow> c | None \<Rightarrow> scr) is (sv_screen s) \<and>
    sv_retired t @ held (sv_screen t) = sv_retired s @ held (sv_screen s) @ started_screens is"
  using assms(1,2) unfolding t_def
proof (induction "is" arbitrary: s)
  case Nil
  then show ?case by (simp add: started_screens_def map_filter_simps)
next
  case (Cons i "is")
  let ?s' = "supervisor_step sh s i"
  have step: "not_yet_stopped ?s' \<and> sv_mdns ?s' = (sv_mdns s \<or> rescan_bound i) \<and>
      sv_screen ?s' = (case chosen_display i of Some c \<Rightarrow> c | None \<Rightarrow> sv_screen s) \<and>
      sv_retired ?s' @ held (sv_screen ?s') = sv_retired s @ held (sv_screen s) @ started_screens [i]"
  proof (cases i)
    case (SvCommand env c)
    have "sv_running s" using Cons.prems by (simp add: not_yet_stopped_def)
    then have "?s' = handle_app_command env c s" by (simp add: supervisor_step_def SvCommand)
    then show ?thesis using command_tasks [of env c s] command_not_stopped [OF Cons.prems(1)] SvCommand by simp
  next
    case (SvConnection e)
    have "?s' = forward_connection_event sh e s"
      using Cons.prems by (simp add: supervisor_step_def SvConnection not_yet_stopped_def)
    then show ?thesis using forward_not_stopped [OF Cons.prems(1)] SvConnection
      by (simp add: rescan_bound_def chosen_display_def started_screens_def map_filter_simps forward_tasks)
  next
    case SvPortChanged
    then show ?thesis using Cons.prems
      by (simp add: supervisor_step_def rescan_bound_def chosen_display_def started_screens_def map_filter_simps)
  next
    case (SvEnd es)
    then show ?thesis using Cons.prems by (simp add: is_end_def)
  qed
  then show ?case
    using Cons.IH [of ?s'] Cons.prems(2) started_screens_Cons [of i "is"] by auto
qed

lemma run_ends:
  fixes sh :: "connection_error \<Rightarrow> rstring" and drained :: "connection_event list" and "is" :: "supervisor_input list"
  assumes "not_yet_stopped s"
  defines "t \<equiv> run (supervisor_step sh) s (handled is)" and "u \<equiv> run (supervisor_step sh) s (is @ [SvEnd drained])"
  shows "stopped_in_order (sv_mdns t) (sv_screen t) u \<and> sv_retired u = sv_retired t \<and> \<not> sv_running u"
proof -
  have t: "not_yet_stopped t"
    unfolding t_def by (rule handled_run [THEN conjunct1]) (use assms(1) in \<open>auto simp: handled_def dest: set_takeWhileD\<close>)
  obtain es rest where split: "is @ [SvEnd drained] = handled is @ SvEnd es # rest"
  proof (cases "dropWhile (\<lambda>i. \<not> is_end i) is")
    case Nil
    then have "handled is = is" using takeWhile_dropWhile_id [of "\<lambda>i. \<not> is_end i" "is"] by (simp add: handled_def)
    then show ?thesis using that by simp
  next
    case (Cons i rest)
    then have "is_end i" using hd_dropWhile [of "\<lambda>i. \<not> is_end i" "is"] by simp
    then obtain es where "i = SvEnd es" by (auto simp: is_end_def split: supervisor_input.splits)
    then have "is @ [SvEnd drained] = handled is @ SvEnd es # rest @ [SvEnd drained]"
      using takeWhile_dropWhile_id [of "\<lambda>i. \<not> is_end i" "is"] Cons by (simp add: handled_def)
    then show ?thesis by (rule that)
  qed
  have "supervisor_step sh t (SvEnd es) = coordinated_shutdown sh es t"
    using t by (simp add: supervisor_step_def not_yet_stopped_def)
  then have "u = coordinated_shutdown sh es t"
    unfolding u_def split run_append t_def [symmetric]
    by (simp add: stopped_run coordinated_shutdown_shown)
  then show ?thesis using coordinated_shutdown_stops [OF t] by (simp add: coordinated_shutdown_shown)
qed

lemma start_not_stopped:
  "not_yet_stopped (supervise_start env mdns port) \<and> sv_mdns (supervise_start env mdns port) = is_ok mdns \<and>
   sv_screen (supervise_start env mdns port) = None \<and> sv_retired (supervise_start env mdns port) = []"
  by (auto simp: not_yet_stopped_def supervise_start_def supervisor_init_def refresh_displays_def
      request_wildcard_fallback_def send_event_def Let_def split: sum.splits option.splits)

lemma stopped_server_stays:
  "\<not> ms_running s \<and> ms_listener s = None \<Longrightarrow>
   \<not> ms_running (run server_step s is) \<and> ms_listener (run server_step s is) = None"
proof (induction "is" arbitrary: s)
  case (Cons i "is")
  have "\<not> ms_running (server_step s i) \<and> ms_listener (server_step s i) = None"
    using Cons.prems by (cases i) (auto simp: server_step_simps split: option.splits)
  then show ?case using Cons.IH by simp
qed simp

interpretation listening: step_invariant start_unbound_with_handle server_step "\<lambda>_. True" "\<lambda>s. ms_running s \<or> ms_listener s = None"
proof unfold_locales
  show "ms_running start_unbound_with_handle \<or> ms_listener start_unbound_with_handle = None"
    by (simp add: start_unbound_with_handle_def server_start_def)
  show "ms_running (server_step s i) \<or> ms_listener (server_step s i) = None"
    if "ms_running s \<or> ms_listener s = None" for s i
    using that by (cases i) (auto simp: server_step_simps split: option.splits sum.splits bool.splits)
qed

lemma shutdown_closes_listener:
  "ms_listener (run server_step start_unbound_with_handle (pre @ ServerShutdown # post)) = None"
proof -
  let ?s = "run server_step start_unbound_with_handle pre"
  have "ms_running ?s \<or> ms_listener ?s = None" by (rule listening.inv_run) (simp add: list_all_iff)
  then have "\<not> ms_running (server_step ?s ServerShutdown) \<and> ms_listener (server_step ?s ServerShutdown) = None"
    by (auto simp: server_step_simps)
  from stopped_server_stays [OF this] show ?thesis by (simp add: run_append)
qed

text \<open>C17: When \<open>main\<close> returns, everything that ran has been stopped: whatever happened while the window
  was open and whether it ended with an error, the result of the window is returned after the shutdown
  token has been triggered and the supervisor has stopped, once each and in this order, the HTTP server,
  the cast session, the discovery exactly if its socket was bound at the start or by a handled rescan,
  and the screen pipeline exactly if the last display the user chose could be started, which is then
  the one joined. Every pipeline that was ever started is either that one or was retired by a later
  choice. The server and the connection task get their shutdown as the last command and only once, and a
  media server that has received it has no listener, whatever it met before and meets after.\<close>

theorem exit_stops_everything:
  "case main_run show_error mkdir penv runtime_ok env mdns gui drained result of
     (actions, None) \<Rightarrow> \<not> runtime_ok
   | (actions, Some (r, b)) \<Rightarrow>
       r = result \<and> last actions = BackendStopped \<and> is_shutting_down (bk_shutdown b) \<and>
       \<not> sv_running (bk_supervisor b) \<and>
       stopped_in_order (discovery_runs mdns (handled gui)) (open_screen (handled gui)) (bk_supervisor b) \<and>
       sv_retired (bk_supervisor b) @ held (open_screen (handled gui)) = started_screens (handled gui) \<and>
       ms_listener (run server_step start_unbound_with_handle (pre @ last (sv_server (bk_supervisor b)) # post)) = None"
proof -
  let ?s0 = "supervise_start env mdns DEFAULT_PORT"
  let ?t = "run (supervisor_step show_error) ?s0 (handled gui)"
    and ?u = "run (supervisor_step show_error) ?s0 (gui @ [SvEnd drained])"
  note start = start_not_stopped [of env mdns DEFAULT_PORT]
  have "\<forall>i \<in> set (handled gui). \<not> is_end i" by (auto simp: handled_def dest: set_takeWhileD)
  from handled_run [OF start [THEN conjunct1] this, of show_error] start
  have t: "sv_mdns ?t = discovery_runs mdns (handled gui)" and scr: "sv_screen ?t = open_screen (handled gui)"
    and ret: "sv_retired ?t @ held (sv_screen ?t) = started_screens (handled gui)"
    by (auto simp: discovery_runs_def open_screen_def)
  note ends = run_ends [OF start [THEN conjunct1], of show_error gui drained]
  then have order: "stopped_in_order (discovery_runs mdns (handled gui)) (open_screen (handled gui)) ?u" "\<not> sv_running ?u"
      "sv_retired ?u @ held (open_screen (handled gui)) = started_screens (handled gui)"
    using t scr ret by simp_all
  then have "last (sv_server ?u) = ServerShutdown" by (auto simp: stopped_in_order_def)
  then show ?thesis
    using order shutdown_closes_listener [of pre post]
    by (auto simp: main_run_def backend_start_def start_with_def backend_shutdown_def run_append Let_def
        is_shutting_down_def trigger_def)
qed

end
