(* ===== verification/Fuzz_Targets.thy ===== *)
theory Fuzz_Targets
  imports Framing Proto Segments Media_Range Media_Serve
begin

text \<open>
  The fuzz targets of \<open>fuzz/fuzz_targets\<close> as predicates on their input: a target holds when none of
  its assertions fails and none of its \<open>panic!\<close> branches is taken. What the fuzzer samples is
  proved here for every input.
\<close>

section \<open>framing.rs\<close>

definition fuzz_framing :: "bytes \<Rightarrow> bool" where
  "fuzz_framing data =
     (let _ = read_frame (cursor data);
          payload = (if length data > 1024 then take 1024 data else data);
          framed = encode_frame payload;
          round_trip = (case fst (read_frame (cursor framed)) of
              Inr (Some decoded) \<Rightarrow> decoded = payload
            | Inr None \<Rightarrow> False
            | Inl _ \<Rightarrow> False);
          same = (write_frame [] payload = framed);
          oversized = u32_to_be_bytes (of_nat MAX_FRAME_SIZE + 1) @ replicate 8 0
      in round_trip \<and> same \<and> \<not> is_ok (fst (read_frame (cursor oversized))))"

section \<open>proto.rs\<close>

definition fuzz_proto :: "bytes \<Rightarrow> bool" where
  "fuzz_proto data =
     ((case varint_decode data of
         Inr (v, consumed) \<Rightarrow>
           (case varint_decode (varint_encode v) of Inr (decoded, _) \<Rightarrow> v = decoded | Inl _ \<Rightarrow> True) \<and>
           consumed \<le> length data
       | Inl _ \<Rightarrow> True) \<and>
      (case decode_cast_message data of
         Inr msg \<Rightarrow>
           (let _ = decode_cast_message (encode_cast_message (source_id msg) (destination_id msg) (namespace msg) (payload_utf8 msg))
            in True)
       | Inl _ \<Rightarrow> True))"

section \<open>range.rs\<close>

text \<open>\<open>u64::saturating_add\<close>, and the product \<open>data.len() as u64 * 13\<close>, which wraps in a release
  build.\<close>

definition saturating_add :: "u64 \<Rightarrow> u64 \<Rightarrow> u64" where
  "saturating_add a b = (if unat a + unat b < 2 ^ 64 then a + b else - 1)"

definition fuzz_size :: "bytes \<Rightarrow> bytes \<Rightarrow> u64" where
  "fuzz_size data size_bytes =
     saturating_add
       (case size_bytes of
          [a, b] \<Rightarrow> ucast a + push_bit 8 (ucast b)
        | [a] \<Rightarrow> ucast a
        | _ \<Rightarrow> 0)
       (of_nat (length data) * 13)"

definition fuzz_range :: "bytes \<Rightarrow> bool" where
  "fuzz_range data =
     (let (size_bytes, header_bytes) = (if length data \<ge> 2 then (take 2 data, drop 2 data) else (data, []));
          size = fuzz_size data size_bytes;
          header_opt = (if header_bytes = [] then None else Some (from_utf8_lossy header_bytes))
      in case parse_range header_opt size of
           Partial start stop \<Rightarrow> start \<le> stop \<and> (size > 0 \<longrightarrow> stop < size)
         | Unsatisfiable \<Rightarrow> True
         | Full \<Rightarrow> True)"

section \<open>segments.rs\<close>

definition seg_len :: "encoded_segment \<Rightarrow> nat" where
  "seg_len g = length (seg_bytes g)"

definition seg_is_empty :: "encoded_segment \<Rightarrow> bool" where
  "seg_is_empty g \<longleftrightarrow> seg_bytes g = []"

text \<open>The feeding loop: the byte at the offset decides the length of the next chunk; the third argument
  counts the segments produced.\<close>

function fuzz_feed :: "mp4_segmenter \<Rightarrow> bytes \<Rightarrow> nat \<Rightarrow> bool \<times> mp4_segmenter" where
  "fuzz_feed segmenter [] produced = (True, segmenter)"
| "fuzz_feed segmenter (b # bs) produced =
     (let chunk_len = unat b mod 32 + 1;
          chunk = take chunk_len (b # bs)
      in case feed segmenter chunk of
           (s', segments) \<Rightarrow>
             if \<not> list_all (\<lambda>g. \<not> seg_is_empty g \<or> is_init g) segments then (False, s')
             else if produced + length segments > 1024 then (True, s')
             else fuzz_feed s' (drop chunk_len (b # bs)) (produced + length segments))"
  by pat_completeness auto
termination
  by (relation "measure (\<lambda>(s, bs, n). length bs)") auto

declare fuzz_feed.simps(2) [simp del]

definition fuzz_segments :: "bytes \<Rightarrow> bool" where
  "fuzz_segments data =
     (case fuzz_feed segmenter_new data 0 of
        (ok, s) \<Rightarrow>
          let _ = finish s;
              _ = finish (fst (feed segmenter_new data));
              _ = finish (fst (feed_all segmenter_new (map (\<lambda>b. [b]) data)))
          in ok)"

section \<open>smb\_url.rs\<close>

definition fuzz_smb_url :: "(rstring \<Rightarrow> parsed_url option) \<Rightarrow> (rstring \<Rightarrow> bytes) \<Rightarrow> bytes \<Rightarrow> bool" where
  "fuzz_smb_url url_parse percent_decode data =
     (let raw = from_utf8_lossy data;
          is_smb = is_smb_url raw;
          ok = (case smb_url_parse url_parse percent_decode raw of
              Inr url \<Rightarrow>
                su_host url \<noteq> [] \<and> su_share url \<noteq> [] \<and> su_file_path url \<noteq> [] \<and>
                \<not> contains_sub (str ''//'') (su_file_path url) \<and> \<not> starts_with (str ''/'') (su_file_path url) \<and> is_smb
            | Inl _ \<Rightarrow> True);
          _ = mime_for_extension raw
      in ok)"

section \<open>No input fails\<close>

lemma oversized_rejected:
  "\<not> is_ok (fst (read_frame (cursor (u32_to_be_bytes (of_nat MAX_FRAME_SIZE + 1) @ rest))))"
proof -
  have "parse_frame (u32_to_be_bytes (of_nat MAX_FRAME_SIZE + 1) @ rest) =
      Inl (FrameTooLarge (of_nat MAX_FRAME_SIZE + 1))"
    by (simp add: parse_frame_def MAX_FRAME_SIZE_def Let_def u32_to_be_bytes_def)
  with read_frame_cursor [of "u32_to_be_bytes (of_nat MAX_FRAME_SIZE + 1) @ rest"] show ?thesis by auto
qed

lemma fuzz_framing_holds: "fuzz_framing data"
proof -
  let ?p = "if length data > 1024 then take 1024 data else data"
  have "parse_frame (encode_frame ?p) = Inr (Some (?p, []))"
    using parse_frame_encode [of ?p "[]"] by (simp add: MAX_FRAME_SIZE_def)
  with read_frame_cursor [of "encode_frame ?p"] oversized_rejected [of "replicate 8 0"] show ?thesis
    by (auto simp: fuzz_framing_def Let_def write_frame_def)
qed

lemma fuzz_proto_holds: "fuzz_proto data"
  using varint_round_trip [where rest = "[]"]
  by (auto simp: fuzz_proto_def dest: varint_decode_consumed split: sum.splits)

lemma fuzz_range_holds: "fuzz_range data"
  by (auto simp: fuzz_range_def Let_def parse_range_def split: range_decision.splits option.splits if_splits
      dest: parse_single_range_bounds)

text \<open>A fragment that is open holds its \<open>moof\<close> box, so no fragment is empty; in the opaque mode a
  segment is the chunk.\<close>

definition open_fragment_full :: "mp4_segmenter \<Rightarrow> bool" where
  "open_fragment_full s \<longleftrightarrow> (sg_in_fragment s \<longrightarrow> sg_fragment s \<noteq> [])"

abbreviation full_segments :: "encoded_segment list \<Rightarrow> bool" where
  "full_segments \<equiv> list_all (\<lambda>g. \<not> seg_is_empty g)"

lemma take_box_full:
  "open_fragment_full s \<Longrightarrow> b \<noteq> [] \<Longrightarrow> full_segments out \<Longrightarrow> take_box b s out = (s', out') \<Longrightarrow>
   open_fragment_full s' \<and> full_segments out'"
  by (auto simp: take_box_def open_fragment_full_def seg_is_empty_def Let_def split: if_splits)

lemma feed_loop_full:
  "open_fragment_full s \<Longrightarrow> full_segments out \<Longrightarrow> feed_loop s out = (s', out') \<Longrightarrow>
   open_fragment_full s' \<and> full_segments out'"
proof (induction s out arbitrary: s' out' rule: feed_loop.induct)
  case (1 s out)
  show ?case
  proof (cases "box_head (sg_pending s)")
    case NotBox
    with "1.prems" show ?thesis
      by (auto simp: feed_loop.simps [of s] enter_opaque_def open_fragment_full_def seg_is_empty_def Let_def split: if_splits)
  next
    case (CompleteBox n)
    let ?b = "take n (sg_pending s)" and ?s = "s\<lparr>sg_pending := drop n (sg_pending s)\<rparr>"
    obtain s1 o1 where t: "take_box ?b ?s out = (s1, o1)" by fastforce
    have "?b \<noteq> []" "open_fragment_full ?s"
      using box_head_bounds [OF CompleteBox] "1.prems"(1) by (auto simp: open_fragment_full_def)
    with take_box_full [OF _ _ _ t] "1.prems"(2) have "open_fragment_full s1" "full_segments o1" by auto
    with "1.IH" [OF CompleteBox t [symmetric]] "1.prems"(3) CompleteBox t show ?thesis
      by (simp add: feed_loop.simps [of s])
  qed (use "1.prems" in \<open>simp add: feed_loop.simps [of s]\<close>)
qed

lemma feed_full:
  "open_fragment_full s \<Longrightarrow> chunk \<noteq> [] \<Longrightarrow> feed s chunk = (s', segments) \<Longrightarrow> open_fragment_full s' \<and> full_segments segments"
  using feed_loop_full [of "s\<lparr>sg_pending := sg_pending s @ chunk\<rparr>" "[]" s' segments]
  by (auto simp: feed_def open_fragment_full_def seg_is_empty_def split: if_splits)

lemma fuzz_feed_holds: "open_fragment_full s \<Longrightarrow> fst (fuzz_feed s data n)"
proof (induction s data n rule: fuzz_feed.induct)
  case (2 s b bs n)
  let ?chunk = "take (unat b mod 32 + 1) (b # bs)"
  obtain s' segments where f: "feed s ?chunk = (s', segments)" by fastforce
  from feed_full [OF "2.prems" _ f] have full: "open_fragment_full s'" "full_segments segments" by auto
  then have "list_all (\<lambda>g. \<not> seg_is_empty g \<or> is_init g) segments" by (auto simp: list_all_iff)
  with "2.IH" [OF refl refl f [symmetric] _ _ full(1)] f show ?case
    by (simp add: fuzz_feed.simps(2) Let_def)
qed simp

lemma fuzz_segments_holds: "fuzz_segments data"
proof -
  have "open_fragment_full segmenter_new" by (simp add: open_fragment_full_def segmenter_new_def)
  from fuzz_feed_holds [OF this, of data 0] show ?thesis
    by (cases "fuzz_feed segmenter_new data 0") (simp add: fuzz_segments_def)
qed

text \<open>The fuzz oracles hold for every input: frames survive encoding and reading and oversized ones
  are refused, decoded varints are re-encoded to the same value and never read past the input, every
  partial range lies inside the resource, and no fragment the segmenter emits is empty, however the
  input itself chooses the chunks.\<close>

theorem fuzz_oracles_hold:
  "fuzz_framing data \<and> fuzz_proto data \<and> fuzz_range data \<and> fuzz_segments data"
  using fuzz_framing_holds fuzz_proto_holds fuzz_range_holds fuzz_segments_holds by blast

section \<open>The share URL\<close>

lemma split_on_no_sep: "w \<in> set (split_on d s) \<Longrightarrow> d \<notin> set w"
  by (induction d s arbitrary: w rule: split_on.induct) (force split: if_splits list.splits)+

lemma starts_with_slash [simp]: "starts_with (str ''/'') s \<longleftrightarrow> (\<exists>t. s = 47 # t)"
  by (cases s) (auto simp: starts_with_def str_def)

lemma strip_slashes [simp]: "strip_prefix (str ''//'') s = None \<longleftrightarrow> (\<nexists>t. s = 47 # 47 # t)"
  by (cases s; cases "List.tl s") (auto simp: str_def)

lemma slashes_not_Nil [simp]: "str ''//'' \<noteq> []"
  by (simp add: str_def)

lemma contains_segment:
  "47 \<notin> set w \<Longrightarrow> rest = [] \<or> (\<exists>c t. rest = 47 # c # t \<and> c \<noteq> 47) \<Longrightarrow> \<not> contains_sub (str ''//'') rest \<Longrightarrow>
   \<not> contains_sub (str ''//'') (w @ rest)"
  by (induction w) auto

lemma join_slash_clean:
  "\<forall>w \<in> set ws. w \<noteq> [] \<and> 47 \<notin> set w \<Longrightarrow> ws \<noteq> [] \<Longrightarrow>
   \<not> contains_sub (str ''//'') (join_slash ws) \<and> (\<exists>c t. join_slash ws = c # t \<and> c \<noteq> 47)"
proof (induction ws rule: join_slash.induct)
  case (2 x)
  then show ?case using contains_segment [of x "[]"] by (cases x) auto
next
  case (3 x y zs)
  then obtain c t where j: "join_slash (y # zs) = c # t" "c \<noteq> 47" "\<not> contains_sub (str ''//'') (c # t)" by auto
  have "\<not> contains_sub (str ''//'') (47 # c # t)" using j by simp
  with contains_segment [of x "47 # c # t"] 3(2) j show ?case by (cases x) auto
qed simp

text \<open>The oracle for share URLs rests on the URL parser: with one that gives no empty host, and that
  takes the scheme \<open>smb\<close> only from a text which starts with \<open>smb://\<close> but for case and blanks, no input
  fails.\<close>

theorem smb_url_oracle_holds:
  assumes "\<And>raw u. url_parse raw = Some u \<Longrightarrow> pu_host u \<noteq> Some []"
    and "\<And>raw u. url_parse raw = Some u \<Longrightarrow> eq_ignore_ascii_case (pu_scheme u) (str ''smb'') \<Longrightarrow> pu_host u \<noteq> None \<Longrightarrow> is_smb_url raw"
  shows "fuzz_smb_url url_parse percent_decode data"
proof (cases "smb_url_parse url_parse percent_decode (from_utf8_lossy data)")
  case (Inr url)
  let ?segments = "\<lambda>u. split_on 47 (trim_start_slashes (from_utf8_lossy (percent_decode (pu_path u))))"
  from Inr obtain u where u: "url_parse (from_utf8_lossy data) = Some u" "eq_ignore_ascii_case (pu_scheme u) (str ''smb'')"
    "pu_host u = Some (su_host url)" "su_share url = hd (?segments u)" "hd (?segments u) \<noteq> []"
    "List.tl (?segments u) \<noteq> []" "[] \<notin> set (List.tl (?segments u))" "su_file_path url = join_slash (List.tl (?segments u))"
    by (auto simp: smb_url_parse_def Let_def list_ex_iff split: option.splits if_splits)
  have "\<forall>w \<in> set (List.tl (?segments u)). w \<noteq> [] \<and> 47 \<notin> set w"
    using u(7) by (auto dest: list.set_sel(2) [rotated] split_on_no_sep)
  from join_slash_clean [OF this u(6)] obtain c t where "\<not> contains_sub (str ''//'') (su_file_path url)"
    "su_file_path url = c # t" "c \<noteq> 47"
    unfolding u(8) by blast
  with assms [OF u(1)] u Inr show ?thesis by (auto simp: fuzz_smb_url_def Let_def)
qed (simp add: fuzz_smb_url_def Let_def)

end
