(* ===== verification/Forbid_Unsafe.thy ===== *)
theory Forbid_Unsafe
  imports Text_Lemmas Media_Range "HOL-Library.Sublist"
begin

text \<open>
  The build task that enforces the memory-safety policy (\<open>xtask/forbid_unsafe.rs\<close>): a scan of the
  source directories for lines with the forbidden keyword. The file system is a tree; a directory or
  a file that cannot be read carries the printed error. Names are UTF-8.
\<close>

datatype fs_node =
    FsDir rstring "rstring option" "fs_node list"
  | FsFile rstring "rstring + rstring"

definition TOKEN :: rstring where
  "TOKEN = str ''uns'' @ [0x61] @ str ''fe''"

definition ALLOWED_ATTR :: rstring where
  "ALLOWED_ATTR = str ''forbid('' @ TOKEN @ str ''_code)''"

definition TARGETS :: "rstring list" where
  "TARGETS = [str ''src'', str ''tests'', str ''xtask'']"

text \<open>\<open>str::lines\<close>: lines end with a line feed, which is removed together with
  a carriage return before it; the empty rest after the last one is no line.\<close>

definition chomp_cr :: "rstring \<Rightarrow> rstring" where
  "chomp_cr line = (if line \<noteq> [] \<and> last line = 13 then butlast line else line)"

definition str_lines :: "rstring \<Rightarrow> rstring list" where
  "str_lines s =
     (let parts = split_on 10 s
      in map chomp_cr (butlast parts) @ (if last parts = [] then [] else [last parts]))"

definition line_violates :: "rstring \<Rightarrow> bool" where
  "line_violates line \<longleftrightarrow> contains_sub TOKEN line \<and> \<not> contains_sub ALLOWED_ATTR (trim line)"

definition scan_content :: "rstring \<Rightarrow> rstring \<Rightarrow> rstring list" where
  "scan_content path content =
     map (\<lambda>(index, line). path @ str '':'' @ show_nat (index + 1) @ str '': '' @ line)
       (filter (\<lambda>(index, line). line_violates line) (enumerate 0 (str_lines content)))"

definition scan_file :: "rstring \<Rightarrow> rstring + rstring \<Rightarrow> rstring list" where
  "scan_file path outcome =
     (case outcome of
        Inl err \<Rightarrow> [str ''cannot read '' @ path @ str '': '' @ err]
      | Inr content \<Rightarrow> scan_content path content)"

fun scan_dir :: "rstring \<Rightarrow> fs_node \<Rightarrow> rstring list" where
  "scan_dir parent (FsDir name err entries) =
     (case err of
        Some e \<Rightarrow> [str ''cannot read '' @ parent @ str ''/'' @ name @ str '': '' @ e]
      | None \<Rightarrow> concat (map (scan_dir (parent @ str ''/'' @ name)) entries))"
| "scan_dir parent (FsFile name outcome) =
     (if path_extension name = Some (str ''rs'') then scan_file (parent @ str ''/'' @ name) outcome else [])"

text \<open>\<open>main\<close>: the exit status and what is printed, for the trees found under the root.\<close>

definition forbid_main :: "rstring \<Rightarrow> fs_node list \<Rightarrow> bool \<times> rstring list" where
  "forbid_main root trees =
     (let violations = concat (map (scan_dir root) trees) in (violations = [], violations))"

section \<open>The verdict\<close>

lemma contains_sub_iff: "contains_sub sub s \<longleftrightarrow> sublist sub s"
proof (induction s)
  case (Cons c cs)
  have "strip_prefix sub (c # cs) \<noteq> None \<longleftrightarrow> prefix sub (c # cs)"
    using strip_prefix_Some [of sub "c # cs"] by (auto simp: prefix_def)
  with Cons show ?case by (simp add: sublist_Cons_right)
qed auto

text \<open>The sources a scan reaches.\<close>

fun rust_files :: "fs_node \<Rightarrow> (rstring + rstring) list" where
  "rust_files (FsDir name err entries) =
     (case err of Some e \<Rightarrow> [] | None \<Rightarrow> concat (map rust_files entries))"
| "rust_files (FsFile name outcome) = (if path_extension name = Some (str ''rs'') then [outcome] else [])"

fun readable_dirs :: "fs_node \<Rightarrow> bool" where
  "readable_dirs (FsDir name err entries) \<longleftrightarrow> err = None \<and> list_all readable_dirs entries"
| "readable_dirs (FsFile name outcome) \<longleftrightarrow> True"

lemma filter_enumerate_Nil: "filter (\<lambda>(i, x). P x) (enumerate n xs) = [] \<longleftrightarrow> list_all (\<lambda>x. \<not> P x) xs"
  by (induction xs arbitrary: n) auto

lemma scan_content_Nil: "scan_content path content = [] \<longleftrightarrow> list_all (\<lambda>l. \<not> line_violates l) (str_lines content)"
  by (simp add: scan_content_def filter_enumerate_Nil)

lemma scan_dir_Nil:
  "scan_dir parent node = [] \<longleftrightarrow> readable_dirs node \<and>
   (\<forall>f \<in> set (rust_files node). \<exists>content. f = Inr content \<and> list_all (\<lambda>l. \<not> line_violates l) (str_lines content))"
proof (induction parent node rule: scan_dir.induct)
  case (1 parent name err entries)
  then show ?case by (cases err) (auto simp: list_all_iff)
next
  case (2 parent name outcome)
  then show ?case by (cases outcome) (auto simp: scan_file_def scan_content_Nil)
qed

text \<open>The policy check passes exactly when every directory below the targets can be read, every
  Rust file in them can be read, and on every line of every such file the keyword occurs only
  where, after trimming, the permitted attribute occurs as well.\<close>

theorem policy_check_passes_iff:
  "fst (forbid_main root trees) \<longleftrightarrow>
   list_all readable_dirs trees \<and>
   (\<forall>tree \<in> set trees. \<forall>f \<in> set (rust_files tree). \<exists>content. f = Inr content \<and>
      (\<forall>line \<in> set (str_lines content). sublist TOKEN line \<longrightarrow> sublist ALLOWED_ATTR (trim line)))"
  by (auto simp: forbid_main_def scan_dir_Nil list_all_iff line_violates_def contains_sub_iff)

text \<open>A line that names the permitted attribute anywhere, say in a comment, may use the keyword
  besides it, so a source with such a block passes.\<close>

theorem attribute_in_comment_hides_block:
  "fst (forbid_main [] [FsDir (str ''src'') None
     [FsFile (str ''a.rs'') (Inr (str ''/* forbid('' @ TOKEN @ str ''_code) */ '' @ TOKEN @ str '' { f() }''))]])"
proof -
  let ?l = "str ''/* forbid('' @ TOKEN @ str ''_code) */ '' @ TOKEN @ str '' { f() }''"
  have free: "split_on 10 ?l = [?l]" by (rule split_on_free) (simp add: str_def TOKEN_def)
  have solid: "trim ?l = ?l"
    by (rule trim_solid) (simp_all add: str_def TOKEN_def solid_byte_def)
  have "?l = str ''/* '' @ ALLOWED_ATTR @ (str '' */ '' @ TOKEN @ str '' { f() }'')"
    by (simp add: ALLOWED_ATTR_def str_def)
  then have "sublist ALLOWED_ATTR ?l" unfolding sublist_def by blast
  then have "\<not> line_violates ?l" by (simp add: line_violates_def contains_sub_iff solid)
  then show ?thesis
    using free by (simp add: forbid_main_def scan_file_def scan_content_Nil str_lines_def Let_def)
qed

end
