(* ===== verification/Refinement.thy ===== *)
theory Refinement
  imports Cast_Prelude
begin

text \<open>
  The interface for refinement: runs of an implementation, runs of a specification with causes
  and observations, and the locale that lifts a simulation of single steps to whole runs.
\<close>
section \<open>Runs and simulations\<close>

text \<open>
  Runs of a labelled step relation; several steps of a relation whose steps have observations; and
  the runs of a specification, whose turns have a cause and observations.
\<close>

inductive runs :: "('s \<Rightarrow> 'i \<Rightarrow> 's \<Rightarrow> bool) \<Rightarrow> 's \<Rightarrow> 'i list \<Rightarrow> 's \<Rightarrow> bool" for step where
  runs_Nil: "runs step s [] s"
| runs_Cons: "step s i s1 \<Longrightarrow> runs step s1 is s2 \<Longrightarrow> runs step s (i # is) s2"

inductive_simps runs_simps [simp]: "runs step s [] s'" "runs step s (i # is) s'"

inductive steps :: "('a \<Rightarrow> 'o list \<Rightarrow> 'a \<Rightarrow> bool) \<Rightarrow> 'a \<Rightarrow> 'o list \<Rightarrow> 'a \<Rightarrow> bool" for spec where
  steps_refl: "steps spec a [] a"
| steps_step: "spec a os a1 \<Longrightarrow> steps spec a1 os' a2 \<Longrightarrow> steps spec a (os @ os') a2"

lemma steps_single: "spec a os a' \<Longrightarrow> steps spec a os a'"
  using steps_step [OF _ steps_refl] by fastforce

lemma steps_trans: "steps spec a os a1 \<Longrightarrow> steps spec a1 os' a2 \<Longrightarrow> steps spec a (os @ os') a2"
  by (induction rule: steps.induct) (auto intro: steps_step)

inductive spec_runs :: "('c \<Rightarrow> 'a \<Rightarrow> 'o list \<Rightarrow> 'a \<Rightarrow> bool) \<Rightarrow> 'a \<Rightarrow> 'c list \<Rightarrow> 'o list \<Rightarrow> 'a \<Rightarrow> bool" for spec where
  spec_runs_Nil: "spec_runs spec a [] [] a"
| spec_runs_Cons: "spec c a os a1 \<Longrightarrow> spec_runs spec a1 cs os' a2 \<Longrightarrow> spec_runs spec a (c # cs) (os @ os') a2"

text \<open>
  An implementation with a step relation over inputs refines a specification when every step,
  from related states, is matched by a turn of the specification with the cause of the input and
  exactly the observations the step adds.
\<close>

locale simulation =
  fixes step :: "'s \<Rightarrow> 'i \<Rightarrow> 's \<Rightarrow> bool"
    and spec :: "'c \<Rightarrow> 'a \<Rightarrow> 'o list \<Rightarrow> 'a \<Rightarrow> bool"
    and cause :: "'i \<Rightarrow> 'c"
    and obs :: "'s \<Rightarrow> 'o list"
    and rel :: "'s \<Rightarrow> 'a \<Rightarrow> bool"
  assumes simulates: "rel s a \<Longrightarrow> step s i s' \<Longrightarrow>
    \<exists>os a'. spec (cause i) a os a' \<and> obs s' = obs s @ os \<and> rel s' a'"
begin

lemma runs_refine:
  "runs step s is s' \<Longrightarrow> rel s a \<Longrightarrow>
   \<exists>os a'. spec_runs spec a (map cause is) os a' \<and> obs s' = obs s @ os \<and> rel s' a'"
proof (induction arbitrary: a rule: runs.induct)
  case (runs_Nil s)
  then show ?case using spec_runs_Nil by fastforce
next
  case (runs_Cons s i s1 "is" s2)
  from simulates [OF runs_Cons.prems runs_Cons.hyps(1)] obtain os a1
    where 1: "spec (cause i) a os a1" "obs s1 = obs s @ os" "rel s1 a1" by blast
  from runs_Cons.IH [OF 1(3)] obtain os' a2
    where "spec_runs spec a1 (map cause is) os' a2" "obs s2 = obs s1 @ os'" "rel s2 a2" by blast
  with 1 show ?case using spec_runs_Cons [of spec "cause i" a os a1] by fastforce
qed

end

end
