(* ===== verification/Link.thy ===== *)
theory Link
  imports Connection_Properties Refinement
begin

text \<open>
  What the connection task promises its clients, as an abstract machine, and that the task
  refines it. The machine knows the receiver, the phase of the session, whether a \<open>LOAD\<close> waits for
  the launch, and the failed attempts of a retry; its steps have a cause and the events the
  backend sees. Two facts that clients rely on are proved on the machine and carried over.
\<close>

section \<open>The specification\<close>

datatype link =
    LinkIdle
  | LinkUp cast_device phase bool
  | LinkRetry cast_device nat
  | LinkEnded

datatype cause =
    Selects cast_device
  | Commands command
  | Receives
  | Trouble
  | RetryDue
  | Ends
  | Triggered
  | Dropped
  | NoCause

text \<open>Leaving a session is announced; a changed certificate is announced before the outcome of the
  attempt that met it; an attempt fails for one of two reasons.\<close>

fun leaving :: "link \<Rightarrow> connection_event list" where
  "leaving (LinkUp d _ _) = [EvDisconnected d]"
| "leaving _ = []"

definition pin_notice :: "cast_device \<Rightarrow> connection_event list \<Rightarrow> bool" where
  "pin_notice d evs \<longleftrightarrow> evs = [] \<or> (\<exists>p c. evs = [EvCertificateMismatch d p c])"

definition connect_error :: "cast_device \<Rightarrow> connection_error \<Rightarrow> bool" where
  "connect_error d e \<longleftrightarrow> e = TlsFailed (cd_addr d) \<or> e = ReaderThread"

fun is_load :: "command \<Rightarrow> bool" where
  "is_load (Load _ _ _) = True"
| "is_load _ = False"

definition has_app :: "phase \<Rightarrow> bool" where
  "has_app p \<longleftrightarrow> p = Ready \<or> p = Streaming"

text \<open>The causes under which a write or the peer can fail, so that the session is lost.\<close>

fun may_lose :: "cause \<Rightarrow> bool" where
  "may_lose (Commands _) = True"
| "may_lose Receives = True"
| "may_lose Trouble = True"
| "may_lose _ = False"

inductive link_step :: "nat \<Rightarrow> cause \<Rightarrow> link \<Rightarrow> connection_event list \<Rightarrow> link \<Rightarrow> bool" for K where
  selected: "l \<noteq> LinkEnded \<Longrightarrow> pin_notice d ps \<Longrightarrow>
    link_step K (Selects d) l (leaving l @ ps @ [EvConnected d]) (LinkUp d Connected False)"
| select_failed: "l \<noteq> LinkEnded \<Longrightarrow> pin_notice d ps \<Longrightarrow> connect_error d e \<Longrightarrow>
    link_step K (Selects d) l (leaving l @ ps @ [EvError e]) LinkIdle"
| launched: "c = LaunchDefaultReceiver \<or> is_load c \<Longrightarrow>
    link_step K (Commands c) (LinkUp d Connected False) [] (LinkUp d Launching (is_load c))"
| loaded: "is_load c \<Longrightarrow> has_app p \<Longrightarrow>
    link_step K (Commands c) (LinkUp d p False) [] (LinkUp d Streaming False)"
| stopped: "has_app p \<Longrightarrow> link_step K (Commands Stop) (LinkUp d p False) [] (LinkUp d Ready False)"
| ready: "link_step K Receives (LinkUp d Launching q) [EvReady t i] (LinkUp d Ready q)"
| queued_load: "link_step K Receives (LinkUp d Ready True) [] (LinkUp d Streaming False)"
| volume: "link_step K Receives (LinkUp d p q) [EvVolume v m] (LinkUp d p q)"
| media_status: "(buffering \<longrightarrow> playing) \<Longrightarrow>
    link_step K Receives (LinkUp d p q) [EvMediaStatus playing buffering] (LinkUp d p q)"
| lost: "may_lose c \<Longrightarrow> 0 < K \<Longrightarrow> link_step K c (LinkUp d p q) [EvDisconnected d] (LinkRetry d 0)"
| lost_for_good: "may_lose c \<Longrightarrow> K = 0 \<Longrightarrow> link_step K c (LinkUp d p q)
    [EvDisconnected d, EvError (ReconnectExhausted (cd_name d) (cd_addr d) 0)] LinkIdle"
| reconnected: "pin_notice d ps \<Longrightarrow>
    link_step K RetryDue (LinkRetry d n) (ps @ [EvConnected d]) (LinkUp d Connected False)"
| retry_failed: "pin_notice d ps \<Longrightarrow> Suc n < K \<Longrightarrow>
    link_step K RetryDue (LinkRetry d n) ps (LinkRetry d (Suc n))"
| exhausted: "pin_notice d ps \<Longrightarrow> Suc n = K \<Longrightarrow> link_step K RetryDue (LinkRetry d n)
    (ps @ [EvError (ReconnectExhausted (cd_name d) (cd_addr d) K)]) LinkIdle"
| ended: "c = Ends \<or> c = Triggered \<Longrightarrow> l \<noteq> LinkEnded \<Longrightarrow> link_step K c l (leaving l) LinkEnded"
| dropped: "l \<noteq> LinkEnded \<Longrightarrow> link_step K Dropped l [] LinkEnded"

text \<open>A turn: a selection, the shutdown command and the closing of the command channel take exactly
  one step unless the machine has ended; other causes may take several steps or none.\<close>

fun urgent :: "cause \<Rightarrow> bool" where
  "urgent (Selects _) = True"
| "urgent Ends = True"
| "urgent Dropped = True"
| "urgent _ = False"

definition link_turn :: "nat \<Rightarrow> cause \<Rightarrow> link \<Rightarrow> connection_event list \<Rightarrow> link \<Rightarrow> bool" where
  "link_turn K c l os l' \<longleftrightarrow>
     (if urgent c \<and> l \<noteq> LinkEnded then link_step K c l os l' else steps (link_step K c) l os l')"

inductive_cases link_step_endedE [elim!]: "link_step K c LinkEnded os l"
inductive_cases link_step_retryE: "link_step K c (LinkRetry d n) os l"

section \<open>The abstraction\<close>

definition queued :: "session \<Rightarrow> bool" where
  "queued s \<longleftrightarrow> ss_pending_command s \<noteq> None"

definition link_of :: "run_state \<Rightarrow> link" where
  "link_of st =
     (if \<not> st_running st then LinkEnded
      else case st_session st of
        Some s \<Rightarrow> LinkUp (ss_device s) (ss_phase s) (queued s)
      | None \<Rightarrow> (case st_reconnect st of Some r \<Rightarrow> LinkRetry (rc_device r) (rc_attempts r) | None \<Rightarrow> LinkIdle))"

fun cause_of :: "conn_input \<Rightarrow> cause" where
  "cause_of (InCommand (Select d)) = Selects d"
| "cause_of (InCommand Shutdown) = Ends"
| "cause_of (InCommand c) = Commands c"
| "cause_of InCommandsClosed = Dropped"
| "cause_of (InFrame _) = Receives"
| "cause_of InReaderGone = Trouble"
| "cause_of InHeartbeat = Trouble"
| "cause_of InWatchdog = Trouble"
| "cause_of InReconnect = RetryDue"
| "cause_of InShutdown = Triggered"
| "cause_of InTriggerWhileBusy = NoCause"

text \<open>The delays left and the attempts made add up to the configured budget.\<close>

definition retry_budget :: "nat \<Rightarrow> run_state \<Rightarrow> bool" where
  "retry_budget K st \<longleftrightarrow>
     (\<forall>r. st_reconnect st = Some r \<longrightarrow> Suc (rc_attempts r + bo_remaining (rc_backoff r)) = K)"

definition moves :: "nat \<Rightarrow> cause \<Rightarrow> run_state \<Rightarrow> run_state \<Rightarrow> bool" where
  "moves K c st st' \<longleftrightarrow> retry_budget K st' \<and>
     (\<exists>os. link_turn K c (link_of st) os (link_of st') \<and> st_events st' = st_events st @ os)"

lemma may_lose_not_urgent [simp]: "may_lose c \<Longrightarrow> \<not> urgent c"
  by (cases c) simp_all

lemma moves_step:
  "link_step K c (link_of st) os (link_of st') \<Longrightarrow> st_events st' = st_events st @ os \<Longrightarrow>
   retry_budget K st' \<Longrightarrow> moves K c st st'"
  by (auto simp: moves_def link_turn_def intro: steps_single)

lemma moves_stay:
  "\<not> urgent c \<or> link_of st = LinkEnded \<Longrightarrow> link_of st' = link_of st \<Longrightarrow> st_events st' = st_events st \<Longrightarrow> retry_budget K st' \<Longrightarrow> moves K c st st'"
  by (auto simp: moves_def link_turn_def intro: exI [of _ "[]"] steps_refl)

lemma moves_trans: "\<not> urgent c \<Longrightarrow> moves K c st st1 \<Longrightarrow> moves K c st1 st2 \<Longrightarrow> moves K c st st2"
  by (auto simp: moves_def link_turn_def intro: steps_trans)

lemma moves_reap: "moves K c st st' \<Longrightarrow> moves K c st (reap now st')"
  by (auto simp: moves_def reap_def link_of_def retry_budget_def queued_def
      split: option.splits intro: exI)

section \<open>Every turn of the task is a turn of the machine\<close>

lemma link_of_running:
  "st_running st \<Longrightarrow> st_session st = Some s \<Longrightarrow> link_of st = LinkUp (ss_device s) (ss_phase s) (queued s)"
  "st_running st \<Longrightarrow> st_session st = None \<Longrightarrow> st_reconnect st = Some r \<Longrightarrow>
     link_of st = LinkRetry (rc_device r) (rc_attempts r)"
  "st_running st \<Longrightarrow> st_session st = None \<Longrightarrow> st_reconnect st = None \<Longrightarrow> link_of st = LinkIdle"
  by (simp_all add: link_of_def)

lemma teardown_leaves:
  assumes "conn_inv n st" "n + 1 < ID_CYCLE" "teardown_session env now st = Inr st1" "st_running st"
  shows "st_events st1 = st_events st @ leaving (link_of st)" "torn_down st st1"
proof -
  show "torn_down st st1"
    using teardown_session_ok [OF assms(1,2), of env now] assms(3) by (simp add: succeeds_def)
  show "st_events st1 = st_events st @ leaving (link_of st)"
  proof (cases "st_session st")
    case None
    then show ?thesis using assms(3,4) by (auto simp: teardown_session_def link_of_def split: option.splits)
  next
    case (Some s)
    then have "session_ok n s" using assms(1) by (simp add: conn_inv_def)
    from teardown_messages_ok [OF this assms(2), of env now] obtain s'
      where "teardown_messages env now s = Inr s'" "ss_device s' = ss_device s"
      unfolding succeeds_def by blast
    with Some assms(3,4) show ?thesis
      by (auto simp: teardown_session_def emit_def link_of_def)
  qed
qed

lemma establish_effect:
  assumes "establish env cfg now at d st = (r, st')"
  shows "\<exists>ps. pin_notice d ps \<and> st_reconnect st' = st_reconnect st \<and> st_running st' = st_running st \<and>
    (case r of
       Inl e \<Rightarrow> connect_error d e \<and> st_events st' = st_events st @ ps \<and> st_session st' = st_session st
     | Inr _ \<Rightarrow> st_events st' = st_events st @ ps @ [EvConnected d] \<and>
         (\<exists>s. st_session st' = Some s \<and> ss_device s = d \<and> ss_phase s = Connected \<and> \<not> queued s))"
proof (cases "at_connect at")
  case None
  then show ?thesis using assms by (intro exI [of _ "[]"]) (auto simp: establish_def pin_notice_def connect_error_def)
next
  case (Some x)
  obtain tr pin where x: "x = (tr, pin)" by (cases x)
  define ps where "ps = (case pin of Mismatch p c \<Rightarrow> [EvCertificateMismatch d p c] | _ \<Rightarrow> [])"
  obtain w tr1 where w: "send_payload tr (encode_cast_message SOURCE_ID RECEIVER_ID CONNECTION_NS
      (connect_msg (ce_json env) (ce_version env))) = (w, tr1)" by fastforce
  have st1: "(case pin of Mismatch p c \<Rightarrow> emit [EvCertificateMismatch d p c] st | _ \<Rightarrow> st) = emit ps st"
    by (cases pin) (simp_all add: ps_def emit_def)
  have "pin_notice d ps" by (cases pin) (simp_all add: ps_def pin_notice_def)
  then show ?thesis
    using assms unfolding establish_def Some x option.case prod.case Let_def w st1
    by (intro exI [of _ ps], cases w)
      (auto simp: emit_def connect_error_def session_new_def queued_def split: if_splits)
qed

lemma schedule_moves:
  assumes "st_running st" "st_session st = None"
  shows "schedule now d bo k st = st' \<Longrightarrow> 0 < bo_remaining bo \<Longrightarrow>
      link_of st' = LinkRetry d k \<and> st_events st' = st_events st \<and>
      (Suc (k + bo_remaining bo) = Suc K \<longrightarrow> retry_budget K st')"
    and "schedule now d bo k st = st' \<Longrightarrow> bo_remaining bo = 0 \<Longrightarrow> st_reconnect st = None \<Longrightarrow>
      link_of st' = LinkIdle \<and> retry_budget K st' \<and>
      st_events st' = st_events st @ [EvError (ReconnectExhausted (cd_name d) (cd_addr d) k)]"
  using assms
  by (auto simp: schedule_Some schedule_None link_of_def retry_budget_def emit_def advance_def backoff_next_def)

lemma connection_lost_steps:
  assumes "conn_inv n st" "n + 1 < ID_CYCLE" "st_running st" "st_session st = Some s"
    and "connection_lost env cfg now st = Inr st'" "may_lose c"
  shows "\<exists>os. (\<forall>p q. link_step (bo_remaining (cfg_backoff cfg)) c (LinkUp (ss_device s) p q) os (link_of st')) \<and>
    st_events st' = st_events st @ os \<and> retry_budget (bo_remaining (cfg_backoff cfg)) st'"
proof -
  let ?K = "bo_remaining (cfg_backoff cfg)"
  obtain st1 where t: "teardown_session env now st = Inr st1"
    using assms(5) by (auto simp: connection_lost_def rbind_eq_Inr)
  note l = teardown_leaves [OF assms(1,2) t assms(3)]
  have des: "st_desired st = Some (ss_device s)" "st_reconnect st = None"
    using assms(1,4) by (auto simp: conn_inv_def)
  then have st1: "st_running st1" "st_session st1 = None" "st_reconnect st1 = None"
    using l(2) assms(3) by (auto simp: torn_down_def)
  have st': "schedule now (ss_device s) (cfg_backoff cfg) 0 st1 = st'"
    using assms(5) t l(2) des by (auto simp: connection_lost_def torn_down_def)
  have ev: "st_events st1 = st_events st @ [EvDisconnected (ss_device s)]"
    using l(1) by (simp add: link_of_running(1) [OF assms(3,4)])
  show ?thesis
  proof (cases "0 < ?K")
    case True
    show ?thesis
      using schedule_moves(1) [OF st1(1,2) st' True, of ?K] ev lost [OF assms(6) True]
      by (intro exI [of _ "[EvDisconnected (ss_device s)]"]) simp
  next
    case False
    then have z: "bo_remaining (cfg_backoff cfg) = 0" by simp
    show ?thesis
      using schedule_moves(2) [OF st1(1,2) st' z st1(3), of ?K] ev lost_for_good [OF assms(6) z]
      by (intro exI [of _ "[EvDisconnected (ss_device s),
          EvError (ReconnectExhausted (cd_name (ss_device s)) (cd_addr (ss_device s)) 0)]"]) simp
  qed
qed

text \<open>Writing leaves what the machine sees of a session alone.\<close>

definition shown_as :: "session \<Rightarrow> cast_device \<times> phase \<times> bool" where
  "shown_as s = (ss_device s, ss_phase s, queued s)"

lemma shown_as_update [simp]:
  "shown_as (s\<lparr>ss_transport := tr\<rparr>) = shown_as s" "shown_as (s\<lparr>ss_request_id := r\<rparr>) = shown_as s"
  "shown_as (s\<lparr>ss_pending := p\<rparr>) = shown_as s"
  by (simp_all add: shown_as_def queued_def)

lemma shown_as_send: "session_send s payload = (r, s') \<Longrightarrow> shown_as s' = shown_as s"
  by (rule session_send_cases [of s payload]) auto

lemma shown_as_next_request: "next_request now s = Inr (i, s') \<Longrightarrow> shown_as s' = shown_as s"
  by (auto simp: next_request_def split: option.splits sum.splits)

lemma receiver_request_shown:
  assumes "receiver_request now msg upd s = Inr (r, s')"
  obtains s1 where "shown_as s1 = shown_as s" "shown_as s' = shown_as (upd s1)"
proof -
  obtain i s1 where n: "next_request now s = Inr (i, s1)"
    and s': "session_send (upd s1) (encode_cast_message SOURCE_ID RECEIVER_ID RECEIVER_NS (msg i)) = (r, s')"
    using assms by (auto simp: receiver_request_def rbind_eq_Inr)
  show thesis by (rule that [OF shown_as_next_request [OF n] shown_as_send [OF s']])
qed

lemma media_request_shown:
  assumes "media_request now msg upd s = Inr (r, s')"
  shows "shown_as s' = shown_as s \<or>
    (has_app (ss_phase s) \<and> (\<exists>s1. shown_as s1 = shown_as s \<and> shown_as s' = shown_as (upd s1)))"
proof (cases "has_app (ss_phase s)")
  case True
  then obtain i s1 where n: "next_request now s = Inr (i, s1)"
    and s': "session_send (upd s1) (encode_cast_message SOURCE_ID (media_destination s1) MEDIA_NS (msg i)) = (r, s')"
    using assms by (auto simp: media_request_def rbind_eq_Inr has_app_def)
  then show ?thesis using True shown_as_next_request [OF n] shown_as_send [OF s'] by blast
qed (use assms in \<open>auto simp: media_request_def has_app_def\<close>)

lemma send_load_shown:
  assumes "send_load env now a b k s = Inr (r, s')"
  shows "((\<exists>e. r = Inl e) \<and> shown_as s' = shown_as s) \<or> shown_as s' = (ss_device s, Streaming, queued s)"
proof -
  obtain e s1 where w: "session_send s (encode_cast_message SOURCE_ID (media_destination s) CONNECTION_NS
      (connect_msg (ce_json env) (ce_version env))) = (e, s1)" by fastforce
  note s1 = shown_as_send [OF w]
  show ?thesis
  proof (cases e)
    case (Inl x)
    then show ?thesis using assms w s1 by (auto simp: send_load_def)
  next
    case (Inr u)
    then obtain i s2 sid where n: "next_request now s1 = Inr (i, s2)"
      and s': "session_send (s2\<lparr>ss_phase := Streaming\<rparr>) (encode_cast_message SOURCE_ID (media_destination s) MEDIA_NS
          (load (ce_json env) i sid a b k)) = (r, s')"
      using assms w by (auto simp: send_load_def rbind_eq_Inr)
    have "shown_as (s2\<lparr>ss_phase := Streaming\<rparr>) = (ss_device s, Streaming, queued s)"
      using shown_as_next_request [OF n] s1 by (simp add: shown_as_def queued_def)
    then show ?thesis using shown_as_send [OF s'] by simp
  qed
qed

definition link_up :: "session \<Rightarrow> link" where
  "link_up s = LinkUp (ss_device s) (ss_phase s) (queued s)"

lemma link_up_shown: "shown_as s' = shown_as s \<Longrightarrow> link_up s' = link_up s"
  by (simp add: link_up_def shown_as_def)

lemma handle_command_link:
  assumes "handle_command env now c s = Inr (r, s')" "session_ok n s"
  shows "steps (link_step K (Commands c)) (link_up s) [] (link_up s')"
proof -
  have stay: "steps (link_step K (Commands c)) (link_up s) [] (link_up s')" if "shown_as s' = shown_as s"
    by (simp add: link_up_shown [OF that] steps_refl)
  have unqueued: "\<not> queued s" if "ss_phase s \<noteq> Launching"
    using assms(2) that by (auto simp: session_ok_def queued_def)
  show ?thesis
  proof (cases c)
    case LaunchDefaultReceiver
    show ?thesis
    proof (cases "ss_phase s = Connected")
      case True
      from assms(1) True LaunchDefaultReceiver
      have "receiver_request now (launch (ce_json env)) (\<lambda>s. s\<lparr>ss_phase := Launching\<rparr>) s = Inr (r, s')" by simp
      then obtain s1 where "shown_as s1 = shown_as s" "shown_as s' = shown_as (s1\<lparr>ss_phase := Launching\<rparr>)"
        by (rule receiver_request_shown)
      then have "link_up s' = LinkUp (ss_device s) Launching False"
        using unqueued True by (simp add: link_up_def shown_as_def queued_def)
      moreover have "link_up s = LinkUp (ss_device s) Connected False"
        using True unqueued by (simp add: link_up_def)
      ultimately show ?thesis
        using launched [of LaunchDefaultReceiver K "ss_device s"] LaunchDefaultReceiver by (simp add: steps_single)
    qed (use assms(1) LaunchDefaultReceiver stay in simp)
  next
    case (Load a b k)
    consider "has_app (ss_phase s)" | "ss_phase s = Connected" | "\<not> has_app (ss_phase s)" "ss_phase s \<noteq> Connected"
      by blast
    then show ?thesis
    proof cases
      case 1
      then have u: "\<not> queued s" using unqueued by (auto simp: has_app_def)
      from assms(1) Load 1 have "send_load env now a b k s = Inr (r, s')" by (simp add: has_app_def)
      from send_load_shown [OF this] show ?thesis
      proof
        assume "shown_as s' = (ss_device s, Streaming, queued s)"
        then have "link_up s' = LinkUp (ss_device s) Streaming False" using u by (simp add: link_up_def shown_as_def)
        moreover have "link_up s = LinkUp (ss_device s) (ss_phase s) False" using u by (simp add: link_up_def)
        ultimately show ?thesis using loaded [of c, OF _ 1, of K] Load by (simp add: steps_single)
      qed (simp add: stay)
    next
      case 2
      let ?upd = "\<lambda>s. s\<lparr>ss_phase := Launching, ss_pending_command := Some (PendingLoad a b k)\<rparr>"
      from assms(1) Load 2 have "receiver_request now (launch (ce_json env)) ?upd s = Inr (r, s')" by simp
      then obtain s1 where "shown_as s1 = shown_as s" "shown_as s' = shown_as (?upd s1)"
        by (rule receiver_request_shown)
      then have "link_up s' = LinkUp (ss_device s) Launching True"
        by (simp add: link_up_def shown_as_def queued_def)
      moreover have "link_up s = LinkUp (ss_device s) Connected False"
        using 2 unqueued by (simp add: link_up_def)
      ultimately show ?thesis using launched [of c K "ss_device s"] Load by (simp add: steps_single)
    next
      case 3
      then show ?thesis using assms(1) Load stay by (simp add: has_app_def)
    qed
  next
    case Stop
    let ?upd = "\<lambda>s. s\<lparr>ss_phase := Ready\<rparr>"
    from assms(1) Stop have "media_request now (stop_msg (ce_json env)) ?upd s = Inr (r, s')" by simp
    from media_request_shown [OF this] show ?thesis
    proof
      assume a: "has_app (ss_phase s) \<and> (\<exists>s1. shown_as s1 = shown_as s \<and> shown_as s' = shown_as (?upd s1))"
      then have u: "\<not> queued s" using unqueued by (auto simp: has_app_def)
      with a have "link_up s' = LinkUp (ss_device s) Ready False" "link_up s = LinkUp (ss_device s) (ss_phase s) False"
        by (auto simp: link_up_def shown_as_def queued_def)
      then show ?thesis using stopped [of "ss_phase s" K "ss_device s"] a Stop by (simp add: steps_single)
    qed (rule stay)
  next
    case Play
    with assms(1) have "media_request now (play (ce_json env)) id s = Inr (r, s')" by simp
    from media_request_shown [OF this] show ?thesis by (auto intro: stay)
  next
    case Pause
    with assms(1) have "media_request now (pause (ce_json env)) id s = Inr (r, s')" by simp
    from media_request_shown [OF this] show ?thesis by (auto intro: stay)
  next
    case (SetVolume v m)
    with assms(1) have "receiver_request now (\<lambda>i. set_volume (ce_json env) i v m) id s = Inr (r, s')" by simp
    then show ?thesis by (rule receiver_request_shown) (auto intro: stay)
  next
    case GetStatus
    with assms(1) have "receiver_request now (get_status (ce_json env)) id s = Inr (r, s')" by simp
    then show ?thesis by (rule receiver_request_shown) (auto intro: stay)
  qed (use assms(1) in auto)
qed

lemma lost_on_error_moves:
  assumes "conn_inv n st" "n + 1 < ID_CYCLE" "st_running st" "st_session st = Some s" "may_lose c"
    and "lost_on_error env cfg now r st = Inr st'"
  shows "moves (bo_remaining (cfg_backoff cfg)) c st st'"
proof (cases r)
  case (Inl e)
  then have "connection_lost env cfg now st = Inr st'" using assms(6) by (simp add: lost_on_error_def)
  from connection_lost_steps [OF assms(1-4) this assms(5)] obtain os
    where "link_step (bo_remaining (cfg_backoff cfg)) c (link_of st) os (link_of st')"
      "st_events st' = st_events st @ os" "retry_budget (bo_remaining (cfg_backoff cfg)) st'"
    using link_of_running(1) [OF assms(3,4)] by metis
  then show ?thesis by (rule moves_step)
next
  case (Inr u)
  moreover have "st_reconnect st = None" using assms(1,4) by (simp add: conn_inv_def)
  ultimately show ?thesis using assms(5,6) by (auto simp: lost_on_error_def retry_budget_def intro!: moves_stay)
qed

lemma moves_session:
  assumes "conn_inv n st" "st_running st" "st_session st = Some s"
    and "steps (link_step K c) (link_up s) os (link_up s1)"
    and "st_session st1 = Some s1" "st_running st1" "st_reconnect st1 = st_reconnect st" "\<not> urgent c"
    and "st_events st1 = st_events st @ os"
  shows "moves K c st st1"
proof -
  have "st_reconnect st1 = None" using assms(1,3,7) by (simp add: conn_inv_def)
  with assms(4,8,9) show ?thesis
    by (auto simp: moves_def link_turn_def retry_budget_def link_of_running(1) [OF assms(2,3)]
        link_of_running(1) [OF assms(6,5)] link_up_def)
qed

lemma on_select_moves:
  assumes "conn_inv n st" "n + 1 < ID_CYCLE" "st_running st"
    and "on_command env cfg now at (Select d) st = Inr st'"
  shows "moves K (Selects d) st st'"
proof -
  obtain st1 where t: "teardown_session env now st = Inr st1"
    using assms(4) by (auto simp: on_command_def rbind_eq_Inr)
  let ?st1 = "st1\<lparr>st_reconnect := None, st_desired := Some d\<rparr>"
  obtain r st2 where e: "establish env cfg now at d ?st1 = (r, st2)" by fastforce
  from teardown_leaves [OF assms(1,2) t assms(3)] assms(3)
  have l: "st_events st1 = st_events st @ leaving (link_of st)" "st_session st1 = None" "st_running st1"
    by (auto simp: torn_down_def)
  have live: "link_of st \<noteq> LinkEnded" using assms(3) by (auto simp: link_of_def split: option.splits)
  obtain ps where ps: "pin_notice d ps" "st_reconnect st2 = None" "st_running st2"
    "case r of
       Inl err \<Rightarrow> connect_error d err \<and> st_events st2 = st_events st @ leaving (link_of st) @ ps \<and> st_session st2 = None
     | Inr _ \<Rightarrow> st_events st2 = st_events st @ leaving (link_of st) @ ps @ [EvConnected d] \<and>
         (\<exists>s. st_session st2 = Some s \<and> ss_device s = d \<and> ss_phase s = Connected \<and> \<not> queued s)"
    using establish_effect [OF e] l by (cases r) force+
  show ?thesis
  proof (cases r)
    case (Inl err)
    with ps assms(4) t e select_failed [OF live ps(1), of err K] show ?thesis
      by (intro moves_step [where os = "leaving (link_of st) @ ps @ [EvError err]"])
        (auto simp: on_command_def emit_def link_of_def retry_budget_def)
  next
    case (Inr u)
    with ps assms(4) t e selected [OF live ps(1), of K] show ?thesis
      by (intro moves_step [where os = "leaving (link_of st) @ ps @ [EvConnected d]"])
        (auto simp: on_command_def link_of_def retry_budget_def)
  qed
qed

lemma on_other_command_moves:
  assumes "conn_inv n st" "n + 2 < ID_CYCLE" "st_running st" "retry_budget (bo_remaining (cfg_backoff cfg)) st"
    and "on_command env cfg now at c st = Inr st'" "c \<noteq> Shutdown" "\<And>d. c \<noteq> Select d"
  shows "moves (bo_remaining (cfg_backoff cfg)) (Commands c) st st'"
proof -
  have r: "(case st_session st of None \<Rightarrow> Inr st
      | Some s \<Rightarrow> rbind (handle_command env now c s) (\<lambda>(r, s1).
          lost_on_error env cfg now r (st\<lparr>st_session := Some s1\<rparr>))) = Inr st'"
    using assms(5-7) by (cases c) (auto simp: on_command_def)
  show ?thesis
  proof (cases "st_session st")
    case None
    then show ?thesis using r assms(4) by (auto intro!: moves_stay)
  next
    case (Some s)
    then obtain w s1 where h: "handle_command env now c s = Inr (w, s1)"
      and l: "lost_on_error env cfg now w (st\<lparr>st_session := Some s1\<rparr>) = Inr st'"
      using r by (auto simp: rbind_eq_Inr)
    have s: "session_ok n s" using assms(1) Some by (simp add: conn_inv_def)
    have "write_ok (Suc n) s (w, s1)"
      using handle_command_ok [OF s _ assms(6,7), of env now] h assms(2) by (simp add: succeeds_def)
    then have i: "conn_inv (Suc n) (st\<lparr>st_session := Some s1\<rparr>)"
      using conn_inv_session [OF assms(1) Some] by (simp add: write_ok_def)
    have "moves (bo_remaining (cfg_backoff cfg)) (Commands c) st (st\<lparr>st_session := Some s1\<rparr>)"
      by (rule moves_session [OF assms(1,3) Some handle_command_link [OF h s]]) (simp_all add: assms(3))
    moreover have "moves (bo_remaining (cfg_backoff cfg)) (Commands c) (st\<lparr>st_session := Some s1\<rparr>) st'"
      by (rule lost_on_error_moves [OF i _ _ _ _ l]) (use assms(2,3) in simp_all)
    ultimately show ?thesis by (rule moves_trans [rotated]) simp
  qed
qed

lemma correlate_shown [simp]: "link_up (correlate env v s) = link_up s"
  by (simp add: link_up_def queued_def)

definition action_events :: "inbound_action \<Rightarrow> connection_event list" where
  "action_events a = (case a of ActEvents evs \<Rightarrow> evs | _ \<Rightarrow> [])"

lemma receiver_status_link:
  "steps (link_step K Receives) (link_up s) (fst (apply_receiver_status status s))
     (link_up (snd (apply_receiver_status status s)))"
proof -
  let ?s' = "snd (apply_receiver_status status s)"
  let ?vol = "case rs_volume status of Some v \<Rightarrow> [EvVolume (vi_level v) (vi_muted v)] | None \<Rightarrow> []"
  have vol: "steps (link_step K Receives) (link_up ?s') ?vol (link_up ?s')"
    using volume [of K] by (auto simp: link_up_def steps_refl intro: steps_single split: option.split)
  obtain rd where evs: "fst (apply_receiver_status status s) = rd @ ?vol"
    and rd: "(rd = [] \<and> link_up ?s' = link_up s) \<or>
      (\<exists>t i. rd = [EvReady t i] \<and> link_up s = LinkUp (ss_device s) Launching (queued s) \<and>
        link_up ?s' = LinkUp (ss_device s) Ready (queued s))"
    by (cases s; cases "rs_transport_id status"; cases "rs_session_id status"; cases "ss_phase s";
        cases "ss_transport_id s"; cases "ss_session_id s")
      (auto simp: apply_receiver_status_def link_up_def queued_def Let_def)
  from rd have "steps (link_step K Receives) (link_up s) rd (link_up ?s')"
    using steps_single [of "link_step K Receives", OF ready [of K "ss_device s" "queued s"]]
    by (auto simp: steps_refl)
  from steps_trans [OF this vol] show ?thesis unfolding evs .
qed

lemma route_inbound_link:
  assumes "route_inbound env payload s = (a, s')"
  shows "steps (link_step K Receives) (link_up s) (action_events a) (link_up s')"
proof -
  have rs: "steps (link_step K Receives) (link_up s) (fst (apply_receiver_status status (correlate env v s)))
      (link_up (snd (apply_receiver_status status (correlate env v s))))" for status v
    using receiver_status_link [of K "correlate env v s" status] by simp
  have ms: "steps (link_step K Receives) (link_up s) (apply_media_status info) (link_up s)" for info
    using media_status [of _ _ K] by (auto simp: apply_media_status_def link_up_def intro!: steps_single)
  show ?thesis
    using assms rs ms steps_refl [of "link_step K Receives" "link_up s"]
    by (auto simp: route_inbound_def action_events_def Let_def case_prod_unfold
        split: sum.splits option.splits if_splits)
qed

lemma on_frame_moves:
  assumes "conn_inv n st" "n + 2 < ID_CYCLE" "st_running st" "retry_budget (bo_remaining (cfg_backoff cfg)) st"
    and "on_frame env cfg now payload st = Inr st'"
  shows "moves (bo_remaining (cfg_backoff cfg)) Receives st st'"
proof (cases "st_session st")
  case None
  then show ?thesis using assms(4,5) by (auto simp: on_frame_def intro!: moves_stay)
next
  case (Some s)
  let ?K = "bo_remaining (cfg_backoff cfg)"
  have s: "session_ok n s" using assms(1) Some by (simp add: conn_inv_def)
  obtain a s1 where r: "route_inbound env payload s = (a, s1)" by fastforce
  define st1 where "st1 = (case a of
      ActPong \<Rightarrow> st\<lparr>st_watchdog := map_option (\<lambda>_. now + watchdog_timeout cfg) (st_watchdog st)\<rparr>
    | ActEvents evs \<Rightarrow> emit evs st | ActIgnore \<Rightarrow> st)"
  have st1: "st_running st1" "st_reconnect st1 = st_reconnect st" "st_session st1 = Some s"
    "st_events st1 = st_events st @ action_events a"
    using assms(3) Some by (cases a; simp add: st1_def emit_def action_events_def)+
  note link = route_inbound_link [OF r, of ?K]
  show ?thesis
  proof (cases "ss_phase s1 = Ready \<and> ss_pending_command s1 \<noteq> None")
    case False
    then have "st' = st1\<lparr>st_session := Some s1\<rparr>"
      using assms(5) Some r by (auto simp: on_frame_def st1_def [symmetric] split: option.splits if_splits)
    then show ?thesis
      using st1 by (intro moves_session [OF assms(1,3) Some link]) simp_all
  next
    case True
    then obtain x y k where q: "ss_pending_command s1 = Some (PendingLoad x y k)"
      using pending_command.exhaust by (metis option.exhaust)
    let ?s1 = "s1\<lparr>ss_pending_command := None\<rparr>"
    from q True assms(5) Some r obtain w s2 where sl: "send_load env now x y k ?s1 = Inr (w, s2)"
      and l: "lost_on_error env cfg now w (st1\<lparr>st_session := Some s2\<rparr>) = Inr st'"
      by (auto simp: on_frame_def st1_def [symmetric] rbind_eq_Inr)
    note ro = route_inbound_ok [OF s r]
    have s2: "session_ok (Suc n) s2" "ss_device s2 = ss_device s"
      using send_load_ok [of n ?s1 env now x y k] sl ro True assms(2)
      by (auto simp: routed_ok_def write_ok_def)
    have c1: "conn_inv n st1"
      using assms(1) Some route_inbound_events [of env payload s _ s1] r session_log_neutral
      by (auto simp: st1_def conn_inv_def emit_def session_log_append split: inbound_action.splits)
    have i: "conn_inv (Suc n) (st1\<lparr>st_session := Some s2\<rparr>)"
      using conn_inv_session [OF c1 st1(3) s2] .
    have up: "link_up s1 = LinkUp (ss_device s) Ready True"
      using True ro by (simp add: link_up_def queued_def routed_ok_def)
    show ?thesis
    proof (cases w)
      case (Inr u)
      have "link_up s2 = LinkUp (ss_device s) Streaming False"
        using send_load_shown [OF sl] Inr ro by (auto simp: shown_as_def queued_def link_up_def routed_ok_def)
      then have "steps (link_step ?K Receives) (link_up s1) [] (link_up s2)"
        unfolding up using queued_load [of ?K "ss_device s"] by (simp add: steps_single)
      from steps_trans [OF link this] have "moves ?K Receives st (st1\<lparr>st_session := Some s2\<rparr>)"
        using st1 by (intro moves_session [OF assms(1,3) Some]) simp_all
      moreover have "st' = st1\<lparr>st_session := Some s2\<rparr>" using l Inr by (simp add: lost_on_error_def)
      ultimately show ?thesis by simp
    next
      case (Inl err)
      then have cl: "connection_lost env cfg now (st1\<lparr>st_session := Some s2\<rparr>) = Inr st'"
        using l by (simp add: lost_on_error_def)
      obtain os where os: "link_step ?K Receives (link_up s1) os (link_of st')"
        "st_events st' = st_events st1 @ os" "retry_budget ?K st'"
        using connection_lost_steps [OF i _ _ _ cl, of s2 Receives] s2(2) up st1(1) assms(2) by auto
      show ?thesis
        using os st1(4) link
          steps_trans [OF link steps_single [of "link_step ?K Receives", OF os(1)]]
        by (auto simp: moves_def link_turn_def link_of_running(1) [OF assms(3) Some] link_up_def)
    qed
  qed
qed

lemma link_of_timers [simp]:
  "link_of (st\<lparr>st_inbound := x\<rparr>) = link_of st" "link_of (st\<lparr>st_watchdog := w\<rparr>) = link_of st"
  "link_of (st\<lparr>st_heartbeat := h\<rparr>) = link_of st" "link_of (st\<lparr>st_triggered := t\<rparr>) = link_of st"
  by (simp_all add: link_of_def cong: option.case_cong)

lemma trouble_moves:
  assumes "conn_inv n st" "n + 2 < ID_CYCLE" "st_running st" "retry_budget (bo_remaining (cfg_backoff cfg)) st"
  shows "on_reader_gone env cfg now st = Inr st' \<Longrightarrow> moves (bo_remaining (cfg_backoff cfg)) Trouble st st'"
    and "on_watchdog env cfg now st = Inr st' \<Longrightarrow> moves (bo_remaining (cfg_backoff cfg)) Trouble st st'"
    and "on_heartbeat env cfg now st = Inr st' \<Longrightarrow> moves (bo_remaining (cfg_backoff cfg)) Trouble st st'"
proof -
  let ?K = "bo_remaining (cfg_backoff cfg)"
  have lost: "moves ?K Trouble st st'"
    if l: "st_session st = Some s" "conn_inv n (st\<lparr>st_session := Some s1\<rparr>)" "shown_as s1 = shown_as s"
      "connection_lost env cfg now (st\<lparr>st_session := Some s1\<rparr>) = Inr st'" for s s1
  proof -
    obtain os where "\<forall>p q. link_step ?K Trouble (LinkUp (ss_device s1) p q) os (link_of st')"
      "st_events st' = st_events st @ os" "retry_budget ?K st'"
      using connection_lost_steps [OF l(2) _ _ _ l(4), of s1 Trouble] assms(2,3) by auto
    moreover have "ss_device s1 = ss_device s" using l(3) by (simp add: shown_as_def)
    ultimately show ?thesis
      using link_of_running(1) [OF assms(3) l(1)] by (intro moves_step [where os = os]) simp_all
  qed
  have same: "st\<lparr>st_session := Some s\<rparr> = st" if "st_session st = Some s" for s using that by simp
  have idle: "moves ?K Trouble st (st\<lparr>st_inbound := False\<rparr>)" "moves ?K Trouble st (st\<lparr>st_watchdog := None\<rparr>)"
    "moves ?K Trouble st (st\<lparr>st_heartbeat := None\<rparr>)"
    using assms(4) by (auto intro!: moves_stay simp: retry_budget_def)
  have gone: "moves ?K Trouble st st'" if g: "connection_lost env cfg now st = Inr st'" "st_session st \<noteq> None"
  proof -
    obtain s where s: "st_session st = Some s" using g(2) by blast
    then show ?thesis using lost [OF s, of s] same [OF s] assms(1) g(1) by simp
  qed
  show "on_reader_gone env cfg now st = Inr st' \<Longrightarrow> moves ?K Trouble st st'"
    using gone idle(1) by (auto simp: on_reader_gone_def split: if_splits)
  show "on_watchdog env cfg now st = Inr st' \<Longrightarrow> moves ?K Trouble st st'"
    using gone idle(2) by (auto simp: on_watchdog_def split: if_splits)
  show "moves ?K Trouble st st'" if h: "on_heartbeat env cfg now st = Inr st'"
  proof (cases "st_session st")
    case None
    then show ?thesis using h idle(3) by (auto simp: on_heartbeat_def)
  next
    case (Some s)
    obtain r tr where send: "session_send s (encode_cast_message SOURCE_ID TRANSPORT_ID HEARTBEAT_NS
        (ping (ce_json env))) = (r, s\<lparr>ss_transport := tr\<rparr>)" by (rule session_send_cases)
    have i: "conn_inv n (st\<lparr>st_session := Some (s\<lparr>ss_transport := tr\<rparr>)\<rparr>)"
      using assms(1) Some by (simp add: conn_inv_def)
    show ?thesis
    proof (cases r)
      case (Inl e)
      then show ?thesis using lost [OF Some i] h send Some by (auto simp: on_heartbeat_def)
    next
      case (Inr u)
      have "steps (link_step ?K Trouble) (link_up s) [] (link_up (s\<lparr>ss_transport := tr\<rparr>))"
        by (simp add: link_up_def queued_def steps_refl)
      then show ?thesis
        using Inr h send Some assms(3)
        by (intro moves_session [OF assms(1,3) Some]) (auto simp: on_heartbeat_def)
    qed
  qed
qed

lemma on_reconnect_moves:
  assumes "conn_inv n st" "st_running st" "retry_budget K st"
    and "on_reconnect env cfg now at st = Inr st'"
  shows "moves K RetryDue st st'"
proof (cases "st_reconnect st")
  case None
  then show ?thesis using assms(3,4) by (auto simp: on_reconnect_def intro!: moves_stay)
next
  case (Some r)
  have none: "st_session st = None" using assms(1) Some by (auto simp: conn_inv_def split: option.splits)
  have K: "Suc (rc_attempts r + bo_remaining (rc_backoff r)) = K"
    using assms(3) Some by (simp add: retry_budget_def)
  obtain res st1 where e: "establish env cfg now at (rc_device r) (st\<lparr>st_reconnect := None\<rparr>) = (res, st1)" by fastforce
  obtain ps where ps: "pin_notice (rc_device r) ps" "st_reconnect st1 = None" "st_running st1"
    "case res of Inl err \<Rightarrow> st_events st1 = st_events st @ ps \<and> st_session st1 = None
     | Inr _ \<Rightarrow> st_events st1 = st_events st @ ps @ [EvConnected (rc_device r)] \<and>
         (\<exists>s. st_session st1 = Some s \<and> ss_device s = rc_device r \<and> ss_phase s = Connected \<and> \<not> queued s)"
    using establish_effect [OF e] none assms(2) by (cases res) force+
  note retry = link_of_running(2) [OF assms(2) none Some]
  show ?thesis
  proof (cases res)
    case (Inr u)
    then have "st' = st1" using assms(4) Some e by (simp add: on_reconnect_def)
    moreover have "link_of st1 = LinkUp (rc_device r) Connected False"
      using Inr ps link_of_running(1) [OF ps(3)] by auto
    ultimately show ?thesis
      using Inr ps reconnected [OF ps(1), of K "rc_attempts r"]
      by (intro moves_step [where os = "ps @ [EvConnected (rc_device r)]"]) (simp_all add: retry retry_budget_def)
  next
    case (Inl err)
    then have st': "schedule now (rc_device r) (rc_backoff r) (Suc (rc_attempts r)) st1 = st'"
      and st1: "st_session st1 = None" "st_events st1 = st_events st @ ps"
      using assms(4) Some e ps(4) by (auto simp: on_reconnect_def)
    show ?thesis
    proof (cases "0 < bo_remaining (rc_backoff r)")
      case True
      then have "Suc (rc_attempts r) < K" using K by simp
      with schedule_moves(1) [OF ps(3) st1(1) st' True, of K] K st1(2)
        retry_failed [OF ps(1), of "rc_attempts r" K] show ?thesis
        by (intro moves_step [where os = ps]) (auto simp: retry)
    next
      case False
      then have z: "bo_remaining (rc_backoff r) = 0" by simp
      with schedule_moves(2) [OF ps(3) st1(1) st' z ps(2), of K] K st1(2)
        exhausted [OF ps(1), of "rc_attempts r" K] show ?thesis
        by (intro moves_step [where os = "ps @ [EvError (ReconnectExhausted (cd_name (rc_device r))
            (cd_addr (rc_device r)) K)]"]) (auto simp: retry)
    qed
  qed
qed

lemma ending_moves:
  assumes "conn_inv n st" "n + 1 < ID_CYCLE" "st_running st" "retry_budget K st"
    and "teardown_session env now st = Inr st1"
  shows "moves K Ends st (st1\<lparr>st_running := False\<rparr>)" "moves K Triggered st (st1\<lparr>st_triggered := True, st_running := False\<rparr>)"
proof -
  have live: "link_of st \<noteq> LinkEnded" using assms(3) by (auto simp: link_of_def split: option.splits)
  have "link_of (st1\<lparr>st_running := False\<rparr>) = LinkEnded"
    "link_of (st1\<lparr>st_triggered := True, st_running := False\<rparr>) = LinkEnded"
    by (simp_all add: link_of_def)
  then show "moves K Ends st (st1\<lparr>st_running := False\<rparr>)"
    "moves K Triggered st (st1\<lparr>st_triggered := True, st_running := False\<rparr>)"
    using teardown_leaves [OF assms(1,2,5,3)] ended [OF _ live, of _ K] assms(4)
    by (auto intro!: moves_step [where os = "leaving (link_of st)"] simp: retry_budget_def torn_down_def)
qed

lemma conn_step_moves:
  assumes "conn_inv n st" "n + 2 < ID_CYCLE" "retry_budget (bo_remaining (cfg_backoff cfg)) st"
    and "conn_step env cfg st (now, at, i) = Inr st'"
  shows "moves (bo_remaining (cfg_backoff cfg)) (cause_of i) st st'"
proof (cases "enabled st i \<and> i \<noteq> InTriggerWhileBusy")
  case False
  then have "\<not> urgent (cause_of i) \<or> link_of st = LinkEnded"
    by (cases i) (auto simp: enabled_def link_of_def)
  with False show ?thesis
    using assms(3,4) by (auto simp: conn_step_def retry_budget_def split: if_splits intro!: moves_stay)
next
  case True
  then have run: "st_running st" by (simp add: enabled_def)
  have n1: "n + 1 < ID_CYCLE" using assms(2) by simp
  have live: "link_of st \<noteq> LinkEnded" using run by (auto simp: link_of_def split: option.splits)
  have drop: "moves (bo_remaining (cfg_backoff cfg)) Dropped st (st\<lparr>st_running := False\<rparr>)"
    using dropped [OF live] assms(3)
    by (intro moves_step [where os = "[]"]) (auto simp: link_of_def retry_budget_def)
  have cmd: "moves (bo_remaining (cfg_backoff cfg)) (cause_of (InCommand c)) st x"
    if r: "on_command env cfg now at c st = Inr x" for c x
  proof (cases c)
    case (Select d)
    then show ?thesis using on_select_moves [OF assms(1) n1 run] r by simp
  next
    case Shutdown
    with r obtain st1 where "teardown_session env now st = Inr st1" "x = st1\<lparr>st_running := False\<rparr>"
      by (auto simp: on_command_def rbind_eq_Inr)
    with ending_moves(1) [OF assms(1) n1 run assms(3)] Shutdown show ?thesis by simp
  qed (use on_other_command_moves [OF assms(1,2) run assms(3) r] in simp_all)
  note turns = cmd on_frame_moves [OF assms(1,2) run assms(3)] trouble_moves [OF assms(1,2) run assms(3)]
    on_reconnect_moves [OF assms(1) run assms(3)] ending_moves [OF assms(1) n1 run assms(3)] drop
  show ?thesis
    using assms(4) True turns
    by (cases i) (auto simp: conn_step_def rbind_eq_Inr intro!: moves_reap)
qed

section \<open>Refinement of whole runs\<close>

text \<open>A turn of the task, counted so that the invariant's bound on outstanding requests holds.\<close>

definition task_turn ::
  "'v cast_env \<Rightarrow> connection_config \<Rightarrow> nat \<times> run_state \<Rightarrow> instant \<times> attempt \<times> conn_input \<Rightarrow>
   nat \<times> run_state \<Rightarrow> bool" where
  "task_turn env cfg s i s' \<longleftrightarrow>
     fst s + 2 < ID_CYCLE \<and> fst s' = Suc (fst s) \<and> conn_step env cfg (snd s) i = Inr (snd s')"

definition refines_link :: "nat \<Rightarrow> nat \<times> run_state \<Rightarrow> link \<Rightarrow> bool" where
  "refines_link K s l \<longleftrightarrow> conn_inv (fst s) (snd s) \<and> retry_budget K (snd s) \<and> l = link_of (snd s)"

interpretation task: simulation "task_turn env cfg" "link_turn (bo_remaining (cfg_backoff cfg))"
  "\<lambda>i. cause_of (snd (snd i))" "\<lambda>s. st_events (snd s)" "refines_link (bo_remaining (cfg_backoff cfg))" for env cfg
proof unfold_locales
  fix s l i s'
  assume r: "refines_link (bo_remaining (cfg_backoff cfg)) s l" and t: "task_turn env cfg s i s'"
  obtain now at inp where i: "i = (now, at, inp)" by (cases i)
  from r t have s: "conn_inv (fst s) (snd s)" "fst s + 2 < ID_CYCLE"
    "retry_budget (bo_remaining (cfg_backoff cfg)) (snd s)" "conn_step env cfg (snd s) (now, at, inp) = Inr (snd s')"
    "fst s' = Suc (fst s)" "l = link_of (snd s)"
    by (auto simp: refines_link_def task_turn_def i)
  have "conn_inv (fst s') (snd s')"
    using conn_step_ok [OF s(1,2), of env cfg i] s(4,5) by (simp add: i)
  with conn_step_moves [OF s(1-4)] s(6)
  show "\<exists>os a'. link_turn (bo_remaining (cfg_backoff cfg)) (cause_of (snd (snd i))) l os a' \<and>
      st_events (snd s') = st_events (snd s) @ os \<and> refines_link (bo_remaining (cfg_backoff cfg)) s' a'"
    by (auto simp: moves_def refines_link_def i)
qed

lemma conn_run_turns:
  "conn_run env cfg st is = Inr st' \<Longrightarrow> n + length is + 2 < ID_CYCLE \<Longrightarrow>
   runs (task_turn env cfg) (n, st) is (n + length is, st')"
proof (induction "is" arbitrary: n st)
  case Nil
  then show ?case by simp
next
  case (Cons i "is")
  then obtain st1 where "conn_step env cfg st i = Inr st1" "conn_run env cfg st1 is = Inr st'"
    by (auto simp: rbind_eq_Inr)
  with Cons.IH [of st1 "Suc n"] Cons.prems(2) show ?case
    by (auto simp: task_turn_def)
qed

definition causes :: "(instant \<times> attempt \<times> conn_input) list \<Rightarrow> cause list" where
  "causes inputs = map (\<lambda>i. cause_of (snd (snd i))) inputs"

lemma conn_run_link:
  assumes "conn_run env cfg run_state_new inputs = Inr st" "length inputs + 2 < ID_CYCLE"
  shows "spec_runs (link_turn (bo_remaining (cfg_backoff cfg))) LinkIdle (causes inputs) (st_events st) (link_of st)"
proof -
  have "refines_link (bo_remaining (cfg_backoff cfg)) (0, run_state_new) LinkIdle"
    using conn_inv_new [of 0] by (simp add: refines_link_def retry_budget_def link_of_def run_state_new_def)
  from task.runs_refine [OF conn_run_turns [OF assms(1), of 0] this] assms(2) show ?thesis
    by (auto simp: refines_link_def causes_def run_state_new_def)
qed

text \<open>C5: the connection task refines the machine: whatever commands, frames, timers and failures
  it meets (fewer than \<open>2 ^ 32 - 3\<close>), it does not panic, the events it sends the backend are those of
  a run of the machine under the same causes, and it ends in the state that run ends in.\<close>

theorem connection_refines_link:
  assumes "length inputs + 2 < 2 ^ 32 - 1"
  shows "\<exists>st. conn_run env cfg run_state_new inputs = Inr st \<and>
    spec_runs (link_turn (bo_remaining (cfg_backoff cfg))) LinkIdle (causes inputs) (st_events st) (link_of st)"
  using conn_run_reachable [of inputs env cfg] conn_run_link [of env cfg inputs] assms
  by (metis ID_CYCLE_def)

theorem connection_refines_link_witness:
  "\<exists>st. conn_run toy_env default_config run_state_new [(0, toy_attempt, InCommand (Select toy_device))] = Inr st \<and>
    spec_runs (link_turn 5) LinkIdle [Selects toy_device] (st_events st) (link_of st)"
  using connection_refines_link [of "[(0, toy_attempt, InCommand (Select toy_device))]" toy_env default_config]
  by (simp add: causes_def default_config_def backoff_new_def with_params_def DEFAULT_MAX_def)

section \<open>The receiver the task is busy with\<close>

fun target :: "link \<Rightarrow> cast_device option" where
  "target (LinkUp d _ _) = Some d"
| "target (LinkRetry d _) = Some d"
| "target _ = None"

fun last_selected :: "cast_device option \<Rightarrow> cause list \<Rightarrow> cast_device option" where
  "last_selected x [] = x"
| "last_selected x (Selects d # cs) = last_selected (Some d) cs"
| "last_selected x (_ # cs) = last_selected x cs"

lemma last_selected_Cons: "\<forall>d. c \<noteq> Selects d \<Longrightarrow> last_selected x (c # cs) = last_selected x cs"
  by (cases c) simp_all

lemma target_step:
  "link_step K c l os l' \<Longrightarrow> target l' = None \<or>
     (case c of Selects d \<Rightarrow> target l' = Some d | _ \<Rightarrow> target l' = target l)"
  by (induction rule: link_step.induct) (auto split: cause.splits)

lemma target_steps: "steps (link_step K c) l os l' \<Longrightarrow> \<forall>d. c \<noteq> Selects d \<Longrightarrow> target l' = None \<or> target l' = target l"
proof (induction rule: steps.induct)
  case (steps_step a os a1 os' a2)
  have "target a1 = None \<or> target a1 = target a"
    using target_step [OF steps_step.hyps(1)] steps_step.prems by (cases c) auto
  with steps_step show ?case by auto
qed simp

lemma steps_ended: "steps (link_step K c) l os l' \<Longrightarrow> l = LinkEnded \<Longrightarrow> os = [] \<and> l' = LinkEnded"
  by (induction rule: steps.induct) auto

lemma target_runs:
  "spec_runs (link_turn K) l cs os l' \<Longrightarrow> target l = None \<or> target l = x \<Longrightarrow>
   target l' = None \<or> target l' = last_selected x cs"
proof (induction arbitrary: x rule: spec_runs.induct)
  case (spec_runs_Cons c l os l1 cs os' l2)
  show ?case
  proof (cases "\<exists>d. c = Selects d")
    case True
    then obtain d where c: "c = Selects d" by blast
    have "target l1 = None \<or> target l1 = Some d"
      using spec_runs_Cons.hyps(1) target_step [of K c l os l1] steps_ended [of K c l os l1]
      by (auto simp: link_turn_def c split: if_splits)
    from spec_runs_Cons.IH [OF this] show ?thesis by (simp add: c)
  next
    case False
    then have "target l1 = None \<or> target l1 = target l"
      using spec_runs_Cons.hyps(1) target_steps [of K c l os l1] target_step [of K c l os l1]
      by (auto simp: link_turn_def split: if_splits cause.splits)
    with spec_runs_Cons.prems have "target l1 = None \<or> target l1 = x" by auto
    from spec_runs_Cons.IH [OF this] show ?thesis using False by (simp add: last_selected_Cons)
  qed
qed simp

text \<open>C12: the task is only ever connected to, or trying to reach again, the receiver the user
  selected last, whatever failures, retries and late frames came in between.\<close>

theorem only_the_selected_receiver:
  assumes "length inputs + 2 < 2 ^ 32 - 1" "conn_run env cfg run_state_new inputs = Inr st" "st_running st"
  shows "(\<forall>s. st_session st = Some s \<longrightarrow> last_selected None (causes inputs) = Some (ss_device s)) \<and>
    (\<forall>r. st_reconnect st = Some r \<longrightarrow> last_selected None (causes inputs) = Some (rc_device r))"
proof -
  have len: "length inputs + 2 < ID_CYCLE" using assms(1) by (simp add: ID_CYCLE_def)
  from target_runs [OF conn_run_link [OF assms(2) len], of None]
  have t: "target (link_of st) = None \<or> target (link_of st) = last_selected None (causes inputs)" by simp
  have "conn_inv (length inputs) st"
    using conn_run_reachable [OF len, of env cfg] assms(2) by (metis sum.inject(2))
  then show ?thesis
    using t assms(3) by (auto simp: link_of_def conn_inv_def split: option.splits)
qed

text \<open>A receiver is selected and its connect succeeds.\<close>

definition select_run :: "(instant \<times> attempt \<times> conn_input) list" where
  "select_run = [(0, toy_attempt, InCommand (Select toy_device))]"

lemma select_run_connects:
  obtains st s where "conn_run toy_env default_config run_state_new select_run = Inr st" "st_running st"
    "st_session st = Some s" "ss_device s = toy_device" "ss_phase s = Connected"
    "st_events st = [EvConnected toy_device]"
  by (simp add: select_run_def conn_step_def enabled_def run_state_new_def on_command_def teardown_session_def
      establish_def toy_attempt_def send_payload_def emit_def reap_def session_new_def Let_def)

theorem only_the_selected_receiver_witness:
  "\<exists>st s. conn_run toy_env default_config run_state_new select_run = Inr st \<and>
     st_session st = Some s \<and> last_selected None (causes select_run) = Some (ss_device s)"
proof -
  obtain st s where st: "conn_run toy_env default_config run_state_new select_run = Inr st" "st_running st"
    "st_session st = Some s" by (rule select_run_connects)
  from only_the_selected_receiver [OF _ st(1,2)] st show ?thesis by (auto simp: select_run_def)
qed

section \<open>What the backend sees\<close>

text \<open>The protocol of the events, as an executable monitor: a session is open or not, and its
  application is announced or not.\<close>

datatype view = Away | Here cast_device bool

fun observe :: "nat \<Rightarrow> view \<Rightarrow> connection_event \<Rightarrow> view option" where
  "observe K Away (EvConnected d) = Some (Here d False)"
| "observe K Away (EvCertificateMismatch _ _ _) = Some Away"
| "observe K Away (EvError (ReconnectExhausted _ _ k)) = (if k = K then Some Away else None)"
| "observe K Away (EvError _) = Some Away"
| "observe K (Here d r) (EvDisconnected d') = (if d' = d then Some Away else None)"
| "observe K (Here d False) (EvReady _ _) = Some (Here d True)"
| "observe K (Here d r) (EvVolume _ _) = Some (Here d r)"
| "observe K (Here d r) (EvMediaStatus playing buffering) =
     (if buffering \<and> \<not> playing then None else Some (Here d r))"
| "observe K _ _ = None"

fun protocol :: "nat \<Rightarrow> view \<Rightarrow> connection_event list \<Rightarrow> view option" where
  "protocol K v [] = Some v"
| "protocol K v (e # es) = obind (observe K v e) (\<lambda>v'. protocol K v' es)"

lemma protocol_append: "protocol K v (xs @ ys) = obind (protocol K v xs) (\<lambda>v'. protocol K v' ys)"
  by (induction K v xs rule: protocol.induct) (auto simp: obind_def split: option.splits)

fun view_of :: "link \<Rightarrow> view" where
  "view_of (LinkUp d p _) = Here d (has_app p)"
| "view_of _ = Away"

definition viewed :: "link \<Rightarrow> view \<Rightarrow> bool" where
  "viewed l v \<longleftrightarrow> l = LinkEnded \<or> v = view_of l"

lemma protocol_leaving: "l \<noteq> LinkEnded \<Longrightarrow> protocol K (view_of l) (leaving l) = Some Away"
  by (cases l) (simp_all add: obind_def)

lemma protocol_notice: "pin_notice d ps \<Longrightarrow> protocol K Away ps = Some Away"
  by (auto simp: pin_notice_def obind_def)

lemma protocol_step:
  "link_step K c l os l' \<Longrightarrow> viewed l v \<Longrightarrow> \<exists>v'. protocol K v os = Some v' \<and> viewed l' v'"
  by (induction rule: link_step.induct)
    (auto simp: viewed_def protocol_append protocol_leaving protocol_notice connect_error_def has_app_def obind_def)

lemma protocol_steps:
  "steps (link_step K c) l os l' \<Longrightarrow> viewed l v \<Longrightarrow> \<exists>v'. protocol K v os = Some v' \<and> viewed l' v'"
proof (induction arbitrary: v rule: steps.induct)
  case (steps_step l os l1 os' l2)
  then obtain v1 where "protocol K v os = Some v1" "viewed l1 v1" using protocol_step by blast
  with steps_step.IH [of v1] show ?case by (auto simp: protocol_append obind_def)
qed simp

lemma protocol_runs:
  "spec_runs (link_turn K) l cs os l' \<Longrightarrow> viewed l v \<Longrightarrow> \<exists>v'. protocol K v os = Some v' \<and> viewed l' v'"
proof (induction arbitrary: v rule: spec_runs.induct)
  case (spec_runs_Cons c l os l1 cs os' l2)
  then obtain v1 where "protocol K v os = Some v1" "viewed l1 v1"
    using protocol_step protocol_steps unfolding link_turn_def by metis
  with spec_runs_Cons.IH [of v1] show ?case by (auto simp: protocol_append obind_def)
qed simp

text \<open>C13: the events follow the protocol the GUI relies on, in every run: connects and disconnects
  alternate and name the same receiver; an application is announced at most once per session and
  only within it; media status and volume come only within a session, and a receiver that buffers is
  reported as playing; errors and certificate notices come only between sessions; giving up is
  reported only after the configured number of attempts. While the task runs, the last view is
  that of its state.\<close>

theorem events_follow_protocol:
  assumes "length inputs + 2 < 2 ^ 32 - 1" "conn_run env cfg run_state_new inputs = Inr st"
  shows "\<exists>v. protocol (bo_remaining (cfg_backoff cfg)) Away (st_events st) = Some v \<and>
    (st_running st \<longrightarrow> v = (case st_session st of None \<Rightarrow> Away | Some s \<Rightarrow> Here (ss_device s) (has_app (ss_phase s))))"
proof -
  have len: "length inputs + 2 < ID_CYCLE" using assms(1) by (simp add: ID_CYCLE_def)
  from protocol_runs [OF conn_run_link [OF assms(2) len], of Away] obtain v
    where "protocol (bo_remaining (cfg_backoff cfg)) Away (st_events st) = Some v" "viewed (link_of st) v"
    by (auto simp: viewed_def)
  then show ?thesis
    by (intro exI [of _ v]) (auto simp: viewed_def link_of_def split: option.splits)
qed

theorem events_follow_protocol_witness:
  "\<exists>st. conn_run toy_env default_config run_state_new select_run = Inr st \<and>
     st_events st = [EvConnected toy_device] \<and>
     protocol 5 Away (st_events st) = Some (Here toy_device False)"
proof -
  obtain st s where st: "conn_run toy_env default_config run_state_new select_run = Inr st" "st_running st"
    "st_session st = Some s" "ss_device s = toy_device" "ss_phase s = Connected"
    "st_events st = [EvConnected toy_device]" by (rule select_run_connects)
  have "length select_run + 2 < 2 ^ 32 - 1" by (simp add: select_run_def)
  from events_follow_protocol [OF this st(1)] st show ?thesis
    by (auto simp: default_config_def backoff_new_def with_params_def DEFAULT_MAX_def has_app_def)
qed

end
