(* ===== verification/Casting.thy ===== *)
theory Casting
  imports Runtime_Properties Link
begin

text \<open>
  The way of a file to the television, across the components: the supervisor turns the user's three
  commands into inputs of the media server and of the connection task, the task delivers the
  \<open>LOAD\<close> to the receiver, and the media server answers the request the receiver then makes.
\<close>

section \<open>Connecting\<close>

lemma framed_payload:
  "send_payload tr (encode_cast_message SOURCE_ID dest ns msg) = (r, tr') \<Longrightarrow> quiet tr \<Longrightarrow>
   r = Inr () \<and> quiet tr' \<and> tr_sent tr' = tr_sent tr @ framed dest ns msg"
  by (cases "tr_script tr") (auto simp: send_payload_def framed_def quiet_def)

lemma select_connects:
  assumes "conn_inv n st" "n + 2 < ID_CYCLE" "st_running st"
    and "at_connect at = Some (tr, pin)" "quiet tr" "at_spawn at"
  shows "\<exists>st' s. conn_step env cfg st (t, at, InCommand (Select device)) = Inr st' \<and> conn_inv (Suc n) st' \<and>
    st_running st' \<and> st_session st' = Some s \<and> ss_phase s = Connected \<and> ss_device s = device \<and> quiet (ss_transport s) \<and>
    tr_sent (ss_transport s) = tr_sent tr @ framed RECEIVER_ID CONNECTION_NS (connect_msg (ce_json env) (ce_version env))"
proof -
  obtain st1 where t1: "teardown_session env t st = Inr st1" "torn_down st st1"
    using teardown_session_ok [OF assms(1), of env t] assms(2) by (auto simp: succeeds_def)
  obtain r tr1 where sp: "send_payload tr (encode_cast_message SOURCE_ID RECEIVER_ID CONNECTION_NS
      (connect_msg (ce_json env) (ce_version env))) = (r, tr1)" by fastforce
  note tr1 = framed_payload [OF sp assms(5)]
  let ?st1 = "st1\<lparr>st_reconnect := None, st_desired := Some device\<rparr>"
  obtain e st2 where est: "establish env cfg t at device ?st1 = (e, st2)" by fastforce
  have e: "e = Inr ()" "st_session st2 = Some (session_new device tr1 (request_timeout cfg))" "st_running st2"
    using est sp tr1 assms(3-6) t1(2)
    by (auto simp: establish_def Let_def emit_def torn_down_def split: pin_check.splits)
  have "conn_step env cfg st (t, at, InCommand (Select device)) = Inr (reap t st2)"
    using t1(1) est e(1) assms(3) by (simp add: conn_step_def enabled_def on_command_def)
  moreover from this have "conn_inv (Suc n) (reap t st2)"
    using conn_step_ok [OF assms(1,2), of env cfg "(t, at, InCommand (Select device))"] by simp
  ultimately show ?thesis
    using e tr1 by (auto simp: reap_def session_new_def)
qed

text \<open>Select, \<open>LOAD\<close>, and the receiver's status: the bytes the receiver is sent.\<close>

lemma select_and_load:
  assumes "conn_inv n st" "n + 4 < ID_CYCLE" "st_running st"
    and "at_connect at1 = Some (tr, pin)" "quiet tr" "at_spawn at1"
    and "decode_cast_message payload = Inr m"
    and "parse_receiver_status (ce_json env) (payload_utf8 m) = Some status"
    and "rs_transport_id status = Some tid" "rs_session_id status = Some sid"
  shows "\<exists>i j s' st'. conn_run env cfg st
      [(t1, at1, InCommand (Select device)), (t2, at2, InCommand (Load c ty k)), (t3, at3, InFrame payload)] = Inr st' \<and>
    st_session st' = Some s' \<and> ss_phase s' = Streaming \<and>
    tr_sent (ss_transport s') = tr_sent tr @
      framed RECEIVER_ID CONNECTION_NS (connect_msg (ce_json env) (ce_version env)) @
      framed RECEIVER_ID RECEIVER_NS (launch (ce_json env) i) @
      framed (media_destination_id tid) CONNECTION_NS (connect_msg (ce_json env) (ce_version env)) @
      framed (media_destination_id tid) MEDIA_NS (load (ce_json env) j sid c ty k)"
proof -
  have n: "n + 2 < ID_CYCLE" "Suc n + 2 < ID_CYCLE" "Suc n < ID_CYCLE" "Suc (Suc n) < ID_CYCLE"
    using assms(2) by simp_all
  obtain st1 s1 where one: "conn_step env cfg st (t1, at1, InCommand (Select device)) = Inr st1" "conn_inv (Suc n) st1"
    "st_running st1" "st_session st1 = Some s1" "ss_phase s1 = Connected" "quiet (ss_transport s1)"
    "tr_sent (ss_transport s1) = tr_sent tr @ framed RECEIVER_ID CONNECTION_NS (connect_msg (ce_json env) (ce_version env))"
    using select_connects [OF assms(1) n(1) assms(3-6)] by blast
  obtain i s2 st2 where two: "conn_step env cfg st1 (t2, at2, InCommand (Load c ty k)) = Inr st2"
    "st_session st2 = Some s2" "st_running st2" "st_inbound st2" "ss_phase s2 = Launching"
    "ss_pending_command s2 = Some (PendingLoad c ty k)" "quiet (ss_transport s2)" "i \<noteq> 0"
    "tr_sent (ss_transport s2) = tr_sent (ss_transport s1) @ framed RECEIVER_ID RECEIVER_NS (launch (ce_json env) i)"
    using load_launches [OF one(2) n(3) one(3-6)] by metis
  have "conn_inv (Suc (Suc n)) st2"
    using conn_step_ok [OF one(2) n(2), of env cfg "(t2, at2, InCommand (Load c ty k))"] two(1) by simp
  then have ok: "session_ok (Suc (Suc n)) s2" using two(2) by (simp add: conn_inv_def)
  obtain j s3 st3 where three: "conn_step env cfg st2 (t3, at3, InFrame payload) = Inr st3" "st_session st3 = Some s3"
    "ss_phase s3 = Streaming"
    "tr_sent (ss_transport s3) = tr_sent (ss_transport s2) @
      framed (media_destination_id tid) CONNECTION_NS (connect_msg (ce_json env) (ce_version env)) @
      framed (media_destination_id tid) MEDIA_NS (load (ce_json env) j sid c ty k)"
    using status_dispatches [OF ok n(4) two(3,4,2,5-7) assms(7-10), of cfg t3 at3] by blast
  show ?thesis
    using one two three by (intro exI [of _ i] exI [of _ j] exI [of _ s3] exI [of _ st3]) simp
qed

section \<open>Serving\<close>

text \<open>A well-formed \<open>GET\<close> of the stream, on a connection that takes all writes, is answered with the
  active file.\<close>

lemma stream_request_served:
  assumes "sound_reader rd" "rd_bytes rd = render_request (str ''GET'') (str ''/stream'') minor hs @ rest"
    and "ascii_line minor" "length minor + 21 \<le> MAX_REQUEST_LINE" "list_all wf_field hs" "length hs \<le> MAX_HEADERS"
    and "se_open_file senv path = Inr f" "file_holds f content" "file_sound f" "list_all (\<lambda>x. x = WOk) sc"
  shows "\<exists>w. handle_connection senv False rd (Some (File path)) free now live (writer_new sc) = Returned w False \<and>
    w_written w = resource_response (mime_for_path path) content (map_of (rev (map field_read hs)) (str ''range'')) False"
proof -
  obtain headers where "read_request rd = Inr \<lparr>rq_method = str ''GET'', rq_target = str ''/stream'', rq_headers = headers\<rparr>"
      and headers: "map_of headers = map_of (rev (map field_read hs))"
    using read_request_rendered [OF assms(1,2) _ _ _ _ assms(3) _ assms(5,6)] assms(4)
    by (auto simp: str_def solid_byte_def word_le_nat_alt MAX_REQUEST_LINE_def)
  moreover have "healthy (writer_new sc)" "w_written (writer_new sc) = []"
    using assms(10) by (simp_all add: healthy_def writer_new_def)
  moreover have "str ''GET'' \<noteq> str ''HEAD''" by (simp add: str_def)
  ultimately show ?thesis
    using serve_file_delivers [of "se_open_file senv" path, OF assms(7-9), of "map_of (rev (map field_read hs)) (str ''range'')" False]
    by (auto simp: handle_connection_def dispatch_source_def returned_def delivers_def headers)
qed

section \<open>The whole way\<close>

lemma supervisor_commands:
  "sv_running s \<Longrightarrow> supervisor_step sh s (SvCommand env c) = handle_app_command env c s"
  by (simp add: supervisor_step_def)

text \<open>What the three commands make the supervisor send.\<close>

lemma supervisor_casts_file:
  assumes "sv_running s"
    and "re_bind env (show_ip env (select_lan_ip (re_interfaces env) (re_local env) (Some (re_addr_ip env (cd_addr device)))))
      (sv_proxy_port s) = Inr actual" "actual \<noteq> 0"
    and "s' = run (supervisor_step sh) s
      [SvCommand env (SelectFile path), SvCommand env (SelectReceiver device), SvCommand env' PlayCommand]"
  shows "\<exists>v4. sv_server s' = sv_server s @ [SetSource (File path), SetBindAddr (show_ipv4 v4) (sv_proxy_port s) (Inr actual)] \<and>
    (re_bound_port env' = actual \<longrightarrow> sv_cast s' = sv_cast s @ [Select device,
      Load (str ''http://'' @ show_ipv4 v4 @ str '':'' @ show_nat (unat actual) @ str ''/stream'') (mime_for_path path) Buffered])"
proof -
  obtain v4 where ip: "select_lan_ip (re_interfaces env) (re_local env) (Some (re_addr_ip env (cd_addr device))) = V4 v4"
    using select_lan_ip_v4 by blast
  then show ?thesis
    using assms
    by (intro exI [of _ v4])
      (simp add: supervisor_step_def handle_app_command_def set_active_source_def select_device_def
        rebind_to_lan_ip_def bind_addr_def play_command_def send_cast_def send_server_def show_ip_def Let_def)
qed

text \<open>C4: a file the user casts reaches the television. The user selects a file and a receiver and
  presses play. If the bind, the connection and the writes succeed and the receiver reports the
  application it was told to launch, the receiver is sent, in this order, the virtual connection,
  the launch, the media connection and one \<open>LOAD\<close>; the \<open>LOAD\<close> names the address and port the media
  server listens on and the MIME type of the file; and a \<open>GET\<close> of that URL's path, however the
  network cuts it and whatever range it names, is answered with the file under the same MIME type.\<close>

theorem file_is_cast:
  assumes "sv_running s"
    and "re_bind env (show_ip env (select_lan_ip (re_interfaces env) (re_local env) (Some (re_addr_ip env (cd_addr device)))))
      (sv_proxy_port s) = Inr actual" "actual \<noteq> 0"
    and "s' = run (supervisor_step sh) s
      [SvCommand env (SelectFile path), SvCommand env (SelectReceiver device), SvCommand env' PlayCommand]"
    and "sv_server s' = sv_server s @ cmds" "ms_running ms" "ms' = run server_step ms cmds"
    and "re_bound_port env' = ms_bound_port ms'" "sv_cast s' = sv_cast s @ [c1, c2]"
    and "conn_inv n st" "n + 4 < 2 ^ 32 - 1" "st_running st"
    and "at_connect at1 = Some (tr, pin)" "quiet tr" "at_spawn at1"
    and "decode_cast_message payload = Inr m"
    and "parse_receiver_status (ce_json cenv) (payload_utf8 m) = Some status"
    and "rs_transport_id status = Some tid" "rs_session_id status = Some sid"
    and "sound_reader rd" "rd_bytes rd = render_request (str ''GET'') (str ''/stream'') minor hs @ rest"
    and "ascii_line minor" "length minor + 21 \<le> MAX_REQUEST_LINE" "list_all wf_field hs" "length hs \<le> MAX_HEADERS"
    and "se_open_file senv path = Inr f" "file_holds f content" "file_sound f" "list_all (\<lambda>x. x = WOk) sc"
  shows "\<exists>a p i j ss st' w. ms_listener ms' = Some (a, p) \<and>
    conn_run cenv cfg st [(t1, at1, InCommand c1), (t2, at2, InCommand c2), (t3, at3, InFrame payload)] = Inr st' \<and>
    st_session st' = Some ss \<and> ss_phase ss = Streaming \<and>
    tr_sent (ss_transport ss) = tr_sent tr @
      framed RECEIVER_ID CONNECTION_NS (connect_msg (ce_json cenv) (ce_version cenv)) @
      framed RECEIVER_ID RECEIVER_NS (launch (ce_json cenv) i) @
      framed (media_destination_id tid) CONNECTION_NS (connect_msg (ce_json cenv) (ce_version cenv)) @
      framed (media_destination_id tid) MEDIA_NS (load (ce_json cenv) j sid
        (str ''http://'' @ a @ str '':'' @ show_nat (unat p) @ str ''/stream'') (mime_for_path path) Buffered) \<and>
    handle_connection senv False rd (ms_current ms') free now live (writer_new sc) = Returned w False \<and>
    w_written w = resource_response (mime_for_path path) content (map_of (rev (map field_read hs)) (str ''range'')) False"
proof -
  let ?url = "\<lambda>a p. str ''http://'' @ a @ str '':'' @ show_nat (unat (p :: u16)) @ str ''/stream''"
  obtain v4 where sent: "sv_server s' = sv_server s @ [SetSource (File path), SetBindAddr (show_ipv4 v4) (sv_proxy_port s) (Inr actual)]"
    "re_bound_port env' = actual \<longrightarrow> sv_cast s' = sv_cast s @ [Select device, Load (?url (show_ipv4 v4) actual) (mime_for_path path) Buffered]"
    using supervisor_casts_file [OF assms(1-4)] by blast
  have "cmds = [SetSource (File path), SetBindAddr (show_ipv4 v4) (sv_proxy_port s) (Inr actual)]"
    using sent(1) assms(5) by simp
  then have ms: "ms_listener ms' = Some (show_ipv4 v4, actual)" "ms_bound_port ms' = actual"
    "ms_current ms' = Some (File path)"
    using assms(6,7) by (simp_all add: server_step_simps)
  then have c: "c1 = Select device" "c2 = Load (?url (show_ipv4 v4) actual) (mime_for_path path) Buffered"
    using sent(2) assms(8,9) by simp_all
  have n: "n + 4 < ID_CYCLE" using assms(11) by (simp add: ID_CYCLE_def)
  obtain i j ss st' where conn: "conn_run cenv cfg st
      [(t1, at1, InCommand c1), (t2, at2, InCommand c2), (t3, at3, InFrame payload)] = Inr st'"
    "st_session st' = Some ss" "ss_phase ss = Streaming"
    "tr_sent (ss_transport ss) = tr_sent tr @
      framed RECEIVER_ID CONNECTION_NS (connect_msg (ce_json cenv) (ce_version cenv)) @
      framed RECEIVER_ID RECEIVER_NS (launch (ce_json cenv) i) @
      framed (media_destination_id tid) CONNECTION_NS (connect_msg (ce_json cenv) (ce_version cenv)) @
      framed (media_destination_id tid) MEDIA_NS (load (ce_json cenv) j sid (?url (show_ipv4 v4) actual) (mime_for_path path) Buffered)"
    using select_and_load [OF assms(10) n assms(12-19), of cfg t1 device t2 at2 "?url (show_ipv4 v4) actual" "mime_for_path path" Buffered t3 at3]
    unfolding c by blast
  obtain w where "handle_connection senv False rd (Some (File path)) free now live (writer_new sc) = Returned w False"
    "w_written w = resource_response (mime_for_path path) content (map_of (rev (map field_read hs)) (str ''range'')) False"
    using stream_request_served [OF assms(20-29)] by blast
  then show ?thesis
    using ms conn by (intro exI [of _ "show_ipv4 v4"] exI [of _ actual] exI [of _ i] exI [of _ j]
        exI [of _ ss] exI [of _ st'] exI [of _ w]) simp
qed

text \<open>The sample network, the receiver whose every message is a status, and a file of three bytes
  that is asked for from its second byte on.\<close>

definition sample_file :: fs_file where
  "sample_file = \<lparr>ff_len = Inr 3, ff_start = [Data [1], Data [2, 3]],
     ff_seek = (\<lambda>p. Inr (if unat p < 3 then cursor (drop (unat p) [1, 2, 3]) else []))\<rparr>"

definition sample_server_env :: server_env where
  "sample_server_env = \<lparr>se_open_file = (\<lambda>_. Inr sample_file), se_url_parse = (\<lambda>_. None),
     se_percent_decode = (\<lambda>b. b), se_smb_client = (\<lambda>_ _ _. Inl (KOther, [])), se_http_client = (\<lambda>_ _. FetchError)\<rparr>"

definition sample_request :: reader where
  "sample_request = map (\<lambda>b. Data [b])
     (render_request (str ''GET'') (str ''/stream'') (str ''1'') [range_field (str ''bytes=1-'')])"

lemma sample_file_ok: "file_holds sample_file [1, 2, 3]" "file_sound sample_file"
  by (auto simp: sample_file_def file_holds_def file_sound_def sound_reader_def cursor_def)

lemma sample_request_ok: "sound_reader sample_request"
  "rd_bytes sample_request = render_request (str ''GET'') (str ''/stream'') (str ''1'') [range_field (str ''bytes=1-'')] @ []"
  by (simp_all add: sample_request_def single_bytes)

lemma sample_status: "parse_receiver_status (ce_json status_env) (payload_utf8 empty_message) =
    Some \<lparr>rs_transport_id = Some (str ''web-9''), rs_session_id = Some (str ''s1''), rs_volume = None\<rparr>"
  by (simp add: parse_receiver_status_def status_env_def status_json_def as_object_def status_application_def
      status_volume_def get_str_def DEFAULT_MEDIA_RECEIVER_APP_ID_def Let_def str_eq_iff)

theorem file_is_cast_witness:
  "\<exists>i j ss st' w. conn_run status_env default_config run_state_new
      [(0, toy_attempt, InCommand (Select toy_device)),
       (1, no_attempt, InCommand (Load (str ''http://192.168.1.5:8080/stream'') (str ''video/mp4'') Buffered)),
       (2, no_attempt, InFrame [])] = Inr st' \<and> st_session st' = Some ss \<and> ss_phase ss = Streaming \<and>
    tr_sent (ss_transport ss) =
      framed RECEIVER_ID CONNECTION_NS (connect_msg (ce_json status_env) (ce_version status_env)) @
      framed RECEIVER_ID RECEIVER_NS (launch (ce_json status_env) i) @
      framed (media_destination_id (str ''web-9'')) CONNECTION_NS (connect_msg (ce_json status_env) (ce_version status_env)) @
      framed (media_destination_id (str ''web-9'')) MEDIA_NS
      (load (ce_json status_env) j (str ''s1'') (str ''http://192.168.1.5:8080/stream'') (str ''video/mp4'') Buffered) \<and>
    handle_connection sample_server_env False sample_request (Some (File (str ''/a.mp4''))) False 0 [] (writer_new []) =
      Returned w False \<and>
    w_written w = resource_response (str ''video/mp4'') [1, 2, 3] (Some (str ''bytes=1-'')) False"
proof -
  let ?env = "sample_env (Inr 8080) 0" and ?env' = "sample_env (Inr 8080) 8080"
  let ?s = "supervise_start ?env (Inr ()) 0"
  let ?ins = "[SvCommand ?env (SelectFile (str ''/a.mp4'')), SvCommand ?env (SelectReceiver toy_device),
    SvCommand ?env' PlayCommand]"
  let ?cmds = "[SetSource (File (str ''/a.mp4'')), SetBindAddr (str ''192.168.1.5'') 0 (Inr 8080)]"
  let ?ms = "server_start None (Inl OtherIo)"
  let ?load = "Load (str ''http://192.168.1.5:8080/stream'') (str ''video/mp4'') Buffered"
  have run: "sv_server (run (supervisor_step (\<lambda>_. [])) ?s ?ins) = sv_server ?s @ ?cmds"
    "sv_cast (run (supervisor_step (\<lambda>_. [])) ?s ?ins) = sv_cast ?s @ [Select toy_device, ?load]"
    "sv_running ?s" "sv_proxy_port ?s = 0"
    using sample_url by (simp_all add: supervisor_eval play_command_def)
  have ms: "ms_listener (run server_step ?ms ?cmds) = Some (str ''192.168.1.5'', 8080)"
    "ms_current (run server_step ?ms ?cmds) = Some (File (str ''/a.mp4''))" "ms_running ?ms"
    "re_bound_port ?env' = ms_bound_port (run server_step ?ms ?cmds)"
    by (simp_all add: server_step_simps server_start_def)
  have m: "decode_cast_message [] = Inr empty_message" by (simp add: decode_cast_message_def decode_loop.simps)
  have tr: "at_connect toy_attempt = Some (\<lparr>tr_sent = [], tr_closed = False, tr_script = []\<rparr>, Pinned)"
    "quiet \<lparr>tr_sent = [], tr_closed = False, tr_script = []\<rparr>" "at_spawn toy_attempt" "st_running run_state_new"
    by (simp_all add: toy_attempt_def quiet_def run_state_new_def)
  have wf: "ascii_line (str ''1'')" "length (str ''1'') + 21 \<le> MAX_REQUEST_LINE" "list_all wf_field [range_field (str ''bytes=1-'')]"
    by (simp_all add: head_eval)
  have range_of: "map_of (rev (map field_read [range_field (str ''bytes=1-'')])) (str ''range'') = Some (str ''bytes=1-'')"
    by (simp add: range_field_read)
  have bind: "re_bind ?env (show_ip ?env (select_lan_ip (re_interfaces ?env) (re_local ?env)
      (Some (re_addr_ip ?env (cd_addr toy_device))))) (sv_proxy_port ?s) = Inr 8080" by simp
  have ids: "rs_transport_id \<lparr>rs_transport_id = Some (str ''web-9''), rs_session_id = Some (str ''s1''), rs_volume = None\<rparr> = Some (str ''web-9'')"
    "rs_session_id \<lparr>rs_transport_id = Some (str ''web-9''), rs_session_id = Some (str ''s1''), rs_volume = None\<rparr> = Some (str ''s1'')"
    by simp_all
  have opened: "se_open_file sample_server_env (str ''/a.mp4'') = Inr sample_file" by (simp add: sample_server_env_def)
  note way = file_is_cast [of ?s ?env toy_device 8080 _ "\<lambda>_. []" "str ''/a.mp4''" ?env' ?cmds ?ms _ "Select toy_device" ?load
      0 run_state_new toy_attempt _ _ "[]" empty_message status_env _ "str ''web-9''" "str ''s1''" sample_request
      "str ''1''" "[range_field (str ''bytes=1-'')]" "[]" sample_server_env sample_file "[1, 2, 3]" "[]",
      OF run(3) bind _ refl run(1) ms(3) refl ms(4) run(2) conn_inv_new _ tr(4,1,2,3) m sample_status ids
        sample_request_ok wf _ opened sample_file_ok]
  obtain a p i j ss st' w where W: "ms_listener (run server_step ?ms ?cmds) = Some (a, p)"
    "conn_run status_env default_config run_state_new
      [(0, toy_attempt, InCommand (Select toy_device)), (1, no_attempt, InCommand ?load), (2, no_attempt, InFrame [])] = Inr st'"
    "st_session st' = Some ss" "ss_phase ss = Streaming"
    "tr_sent (ss_transport ss) = [] @
      framed RECEIVER_ID CONNECTION_NS (connect_msg (ce_json status_env) (ce_version status_env)) @
      framed RECEIVER_ID RECEIVER_NS (launch (ce_json status_env) i) @
      framed (media_destination_id (str ''web-9'')) CONNECTION_NS (connect_msg (ce_json status_env) (ce_version status_env)) @
      framed (media_destination_id (str ''web-9'')) MEDIA_NS (load (ce_json status_env) j (str ''s1'')
        (str ''http://'' @ a @ str '':'' @ show_nat (unat p) @ str ''/stream'') (mime_for_path (str ''/a.mp4'')) Buffered)"
    "handle_connection sample_server_env False sample_request (ms_current (run server_step ?ms ?cmds)) False 0 [] (writer_new []) =
      Returned w False"
    "w_written w = resource_response (mime_for_path (str ''/a.mp4'')) [1, 2, 3]
      (Some (str ''bytes=1-'')) False"
    using way [of default_config 0 1 no_attempt 2 no_attempt False 0 "[]"]
    unfolding transport.select_convs MAX_HEADERS_def range_of by force
  have a: "a = str ''192.168.1.5''" "p = 8080" using W(1) ms(1) by simp_all
  show ?thesis
    using W(2-7) unfolding a ms(2) sample_url
    by (intro exI [of _ i] exI [of _ j] exI [of _ ss] exI [of _ st'] exI [of _ w]) simp
qed

end
