(* ===== verification/Screen_Casting.thy ===== *)
theory Screen_Casting
  imports Screen_Output Media_Server
begin

text \<open>
  The way of the screen to the television, from the bytes of the encoder to the body of the HTTP
  response: segmenter, queue, forwarder, channel and the live loop of the media server.
\<close>

section \<open>The live body\<close>

fun live_bytes :: "instant \<times> live_event \<Rightarrow> bytes list" where
  "live_bytes (t, LiveChunk c) = [c]"
| "live_bytes (t, _) = []"

definition live_streaming :: "instant \<times> live_event \<Rightarrow> bool" where
  "live_streaming e \<longleftrightarrow> (case snd e of LiveChunk _ \<Rightarrow> True | LiveDeadline \<Rightarrow> True | _ \<Rightarrow> False)"

text \<open>While chunks come and deadlines pass, the live loop writes each chunk and keeps fewer bytes
  unflushed than its threshold.\<close>

lemma live_step_inv:
  assumes "proxy_inv bt f w" "live_streaming e" "0 < bt"
  shows "\<exists>f' w'. live_step f e w = Inr (f', w') \<and> proxy_inv bt f' w' \<and>
    w_written w' = w_written w @ concat (live_bytes e)"
proof (cases e)
  case (Pair now ev)
  have h: "healthy w" using assms(1) by (simp add: proxy_inv_def)
  show ?thesis
  proof (cases ev)
    case (LiveChunk c)
    obtain sc where w: "write_all c w = (Inr (), w\<lparr>w_written := w_written w @ c, w_script := sc\<rparr>)"
      "list_all (\<lambda>x. x = WOk) sc"
      using healthy_write_all [OF h] by blast
    let ?w1 = "w\<lparr>w_written := w_written w @ c, w_script := sc\<rparr>"
    have "healthy ?w1" using w(2) by (simp add: healthy_def)
    from healthy_flush [OF this] obtain sc' where
      "flush ?w1 = (Inr (), ?w1\<lparr>w_flushed := length (w_written w @ c), w_script := sc'\<rparr>)"
      "list_all (\<lambda>x. x = WOk) sc'" by auto
    with w assms(1,3) Pair LiveChunk show ?thesis
      by (auto simp: live_step_def should_flush_def flush_reset_def Let_def proxy_inv_def flush_inv_def
          healthy_def)
  next
    case LiveDeadline
    obtain sc where "flush w = (Inr (), w\<lparr>w_flushed := length (w_written w), w_script := sc\<rparr>)"
      "list_all (\<lambda>x. x = WOk) sc"
      using healthy_flush [OF h] by blast
    with assms(1) Pair LiveDeadline show ?thesis
      by (auto simp: live_step_def flush_reset_def has_pending_def proxy_inv_def flush_inv_def healthy_def)
  qed (use assms(2) Pair in \<open>auto simp: live_streaming_def\<close>)
qed

lemma live_body_inv:
  "proxy_inv bt f w \<Longrightarrow> list_all live_streaming es \<Longrightarrow> 0 < bt \<Longrightarrow>
   \<exists>f' w'. live_body f es w = Inr (f', w') \<and> proxy_inv bt f' w' \<and>
     w_written w' = w_written w @ concat (concat (map live_bytes es))"
proof (induction es arbitrary: f w)
  case (Cons e es)
  then obtain f1 w1 where "live_step f e w = Inr (f1, w1)" "proxy_inv bt f1 w1"
    "w_written w1 = w_written w @ concat (live_bytes e)"
    using live_step_inv [of bt f w e] by auto
  with Cons.IH [of f1 w1] Cons.prems show ?case by auto
qed simp

definition live_head :: bytes where
  "live_head = response_head 200 (str ''OK'') [(str ''Content-Type'', str ''video/mp4'')]"

lemma serve_live_streams:
  assumes "list_all (\<lambda>x. x = WOk) sc" "list_all live_streaming es"
  shows "\<exists>f w. serve_live_screen now es (writer_new sc) = Inr (f, w) \<and>
    w_written w = live_head @ concat (concat (map live_bytes es)) \<and>
    length (w_written w) - w_flushed w < LIVE_FLUSH_BYTES"
proof -
  have bt: "0 < LIVE_FLUSH_BYTES" by (simp add: LIVE_FLUSH_BYTES_def)
  have "healthy (writer_new sc)" using assms(1) by (simp add: healthy_def writer_new_def)
  from healthy_write_all [OF this, of live_head] obtain w1 where w1: "write_all live_head (writer_new sc) = (Inr (), w1)"
    "healthy w1" "w_written w1 = live_head"
    by (auto simp: healthy_def writer_new_def)
  from healthy_flush [OF w1(2)] obtain w2 where w2: "flush w1 = (Inr (), w2)" "healthy w2"
    "w_written w2 = live_head" "w_flushed w2 = length live_head"
    using w1(3) by (auto simp: healthy_def)
  have "proxy_inv LIVE_FLUSH_BYTES (flush_new LIVE_FLUSH_BYTES LIVE_FLUSH_INTERVAL now) w2"
    using w2 bt by (simp add: proxy_inv_def flush_inv_def flush_new_def)
  from live_body_inv [OF this assms(2) bt] obtain f w
    where "live_body (flush_new LIVE_FLUSH_BYTES LIVE_FLUSH_INTERVAL now) es w2 = Inr (f, w)"
      "proxy_inv LIVE_FLUSH_BYTES f w" "w_written w = live_head @ concat (concat (map live_bytes es))"
    using w2(3) by auto
  then show ?thesis
    using w1 w2(1) bt
    by (intro exI [of _ f] exI [of _ w])
      (auto simp: serve_live_screen_def write_response_head_def live_head_def proxy_inv_def flush_inv_def)
qed

section \<open>The segments that get through\<close>

lemma subseq_init_first:
  assumes "subseq gs (Init i # hs)" "Init i \<in> set gs" "Init i \<notin> set hs"
  shows "\<exists>gs'. gs = Init i # gs' \<and> subseq gs' hs"
proof (cases gs)
  case (Cons g gs')
  show ?thesis
  proof (cases "g = Init i")
    case True
    then show ?thesis using assms(1) Cons by simp
  next
    case False
    then have "subseq gs hs" using assms(1) Cons by simp
    then have "Init i \<in> set hs" using assms(2) by (auto elim: list_emb_set)
    then show ?thesis using assms(3) by simp
  qed
qed (use assms(2) in simp)

text \<open>What the forwarder has sent, when the readers have pushed some first segments of the stream.\<close>

lemma sent_segments:
  assumes "list_all undisturbed inputs" "prefix (produced inputs) (Init i # map Fragment bs)"
  defines "s \<equiv> output_run inputs output_start"
  shows "subseq (op_sent s) (Init i # map Fragment bs)" "op_sent s = [] \<or> hd (op_sent s) = Init i"
    and "sent_in_order s"
proof -
  have ini: "length (inits_of (produced inputs)) \<le> 1"
  proof -
    have "inits_of (produced inputs) = [] \<or> inits_of (produced inputs) = [Init i]"
    proof (cases "produced inputs")
      case (Cons g gs)
      then obtain us where "g = Init i" "gs = map Fragment us"
        using assms(2) by (auto simp: prefix_def map_eq_append_conv)
      then show ?thesis using Cons by (auto simp: filter_empty_conv)
    qed simp
    then show ?thesis by auto
  qed
  have "conveys output_start (produced inputs) s"
    unfolding s_def using assms(1) ini pipe_running_start
    by (intro output_run_conveys) (simp_all add: pending_out_def in_hand_def output_start_def OUTPUT_QUEUE_CAPACITY_def)
  then have c: "subseq (op_sent s @ pending_out s) (produced inputs)"
    "inits_of (op_sent s @ pending_out s) = inits_of (produced inputs)"
    by (auto simp: conveys_def pending_out_def in_hand_def output_start_def)
  have "subseq (op_sent s) (op_sent s @ pending_out s)" by (simp add: prefix_imp_subseq)
  then have sub: "subseq (op_sent s) (produced inputs)" using c(1) by (rule subseq_order.order_trans)
  then show "subseq (op_sent s) (Init i # map Fragment bs)"
    using assms(2) subseq_order.order_trans prefix_imp_subseq by blast
  show "op_sent s = [] \<or> hd (op_sent s) = Init i"
  proof (cases "produced inputs")
    case Nil
    then show ?thesis using sub by simp
  next
    case (Cons g gs)
    then have g: "g = Init i" "prefix gs (map Fragment bs)" using assms(2) by auto
    then have "Init i \<notin> set gs" using set_mono_prefix by fastforce
    moreover have "Init i \<in> set (op_sent s @ pending_out s)"
    proof -
      have "Init i \<in> set (inits_of (produced inputs))" by (simp add: Cons g(1))
      then have "Init i \<in> set (inits_of (op_sent s @ pending_out s))" by (simp only: c(2))
      then show ?thesis by auto
    qed
    ultimately obtain gs' where "op_sent s @ pending_out s = Init i # gs'"
      using subseq_init_first [of "op_sent s @ pending_out s" i gs] c(1) by (auto simp: Cons g(1))
    then show ?thesis by (cases "op_sent s") auto
  qed
  show "sent_in_order s"
    unfolding s_def by (intro sent_in_order_run) (simp add: sent_in_order_def output_start_def)
qed

section \<open>The whole way\<close>

text \<open>C20: the television gets a stream it can start to play. The encoder writes an initialization
  part and fragments, its output is read in arbitrary pieces, reader, forwarder and consumer
  interleave arbitrarily, and the media server's live loop receives what the channel delivers, with
  flush deadlines in between. Then the response consists of its head and whole segments of the
  encoder in their order; the initialization segment comes first and is never dropped, and whatever
  a slow television misses is whole fragments. Fewer bytes than the flush threshold wait for a
  flush.\<close>

theorem screen_reaches_television:
  assumes "list_all complete_box inits" "list_all (\<lambda>b. box_kind b \<noteq> str ''moof'') inits"
    and "concat inits \<noteq> []" "list_all wf_fragment fs" "fs \<noteq> []" "box_head rest = NeedMore"
    and "concat chunks = concat inits @ concat (concat (map fragment_boxes fs)) @ rest"
    and "list_all undisturbed inputs" "prefix (produced inputs) (snd (feed_all segmenter_new chunks))"
    and "s = output_run inputs output_start"
    and "list_all live_streaming es" "concat (map live_bytes es) = op_received s" "list_all (\<lambda>x. x = WOk) sc"
  shows "\<exists>f w got. serve_live_screen now es (writer_new sc) = Inr (f, w) \<and>
    w_written w = live_head @ concat (map seg_bytes got) \<and>
    subseq got (Init (concat inits) # map (\<lambda>f. Fragment (concat (fragment_boxes f))) fs) \<and>
    (got = [] \<or> hd got = Init (concat inits)) \<and>
    length (w_written w) - w_flushed w < LIVE_FLUSH_BYTES"
proof -
  let ?bs = "map (\<lambda>f. concat (fragment_boxes f)) fs"
  have segs: "snd (feed_all segmenter_new chunks) = Init (concat inits) # map Fragment ?bs"
    by (simp add: feed_all_stream [OF assms(1-7)] comp_def)
  note sent = sent_segments [OF assms(8) assms(9) [unfolded segs], folded assms(10)]
  define got where "got = take (length (op_received s)) (op_sent s)"
  have rec: "op_received s = map seg_bytes got"
    using sent(3) unfolding sent_in_order_def got_def by (metis append_eq_conv_conj take_map)
  have sub: "subseq got (Init (concat inits) # map Fragment ?bs)"
    using sent(1) take_is_prefix [of _ "op_sent s"] prefix_imp_subseq subseq_order.order_trans
    unfolding got_def by blast
  have first: "got = [] \<or> hd got = Init (concat inits)"
    using sent(2) unfolding got_def by (cases "op_sent s"; cases "length (op_received s)") auto
  obtain f w where "serve_live_screen now es (writer_new sc) = Inr (f, w)"
    "w_written w = live_head @ concat (concat (map live_bytes es))"
    "length (w_written w) - w_flushed w < LIVE_FLUSH_BYTES"
    using serve_live_streams [OF assms(13,11)] by blast
  then show ?thesis
    using sub first by (intro exI [of _ f] exI [of _ w] exI [of _ got]) (simp add: assms(12) rec comp_def)
qed

theorem screen_reaches_television_witness:
  "let ftyp = [0,0,0,9] @ str ''ftyp'' @ [7];
       frag = concat (fragment_boxes ([0,0,0,8] @ str ''moof'', [], [0,0,0,10] @ str ''mdat'' @ [1,2]))
   in \<exists>f w got. serve_live_screen 0 [(1, LiveChunk ftyp), (2, LiveDeadline), (3, LiveChunk frag)] (writer_new []) = Inr (f, w) \<and>
     w_written w = live_head @ concat (map seg_bytes got) \<and> (got = [] \<or> hd got = Init ftyp)"
proof -
  let ?ftyp = "[0,0,0,9] @ str ''ftyp'' @ [7]"
  let ?f = "([0,0,0,8] @ str ''moof'', [], [0,0,0,10] @ str ''mdat'' @ [1,2])"
  let ?frag = "concat (fragment_boxes ?f)"
  let ?ins = "[SegmentPushed (Init ?ftyp), ForwarderTurn, ForwarderTurn, ConsumerReceives,
    SegmentPushed (Fragment ?frag), ForwarderTurn, ForwarderTurn, ConsumerReceives]"
  let ?es = "[(1, LiveChunk ?ftyp), (2, LiveDeadline), (3, LiveChunk ?frag)]"
  have wf: "list_all complete_box [?ftyp]" "list_all (\<lambda>b. box_kind b \<noteq> str ''moof'') [?ftyp]" "concat [?ftyp] \<noteq> []"
    "list_all wf_fragment [?f]" "[?f] \<noteq> []" "box_head [0,0] = NeedMore"
    by (simp_all add: fragment_boxes_def wf_fragment_def complete_box_def box_head_def box_kind_def str_def MAX_BOX_BYTES_def)
  have cut: "concat (map (\<lambda>x. [x]) (?ftyp @ ?frag @ [0,0])) = concat [?ftyp] @ concat (concat (map fragment_boxes [?f])) @ [0,0]"
    by simp
  have rec: "op_received (output_run ?ins output_start) = [?ftyp, ?frag]"
    by (simp add: output_step_def output_start_def push_segment_def push_or_def forwarder_turn_def forward_segment_def
        try_pop_def OUTPUT_QUEUE_CAPACITY_def SERVER_CHANNEL_CAPACITY_def)
  have "prefix (produced ?ins) (snd (feed_all segmenter_new (map (\<lambda>x. [x]) (?ftyp @ ?frag @ [0,0]))))"
    unfolding feed_all_stream [OF wf cut] by simp
  from screen_reaches_television [OF wf cut _ this refl _ _ , of ?es "[]" 0] rec show ?thesis
    by (auto simp: live_streaming_def Let_def)
qed

text \<open>A \<open>HEAD\<close> request for the screen is answered like a \<open>GET\<close>, with the body, and takes the stream
  from the receiver that is about to fetch it; the other sources honour \<open>HEAD\<close>.\<close>

lemma head_takes_live_stream:
  "dispatch_source env (Some (Screen monitor)) True now es rng True w =
     dispatch_source env (Some (Screen monitor)) True now es rng False w"
  by (simp add: dispatch_source_def)

end
