(* ===== verification/Unit_Tests_Cast.thy ===== *)
theory Unit_Tests_Cast
  imports Util Framing Proto
begin

text \<open>
  The repository's own unit tests, as predicates on the model, with the proof that the model passes
  them: the \<open>tests\<close> modules of \<open>util/retry.rs\<close>, \<open>util/backpressure.rs\<close>, \<open>util/shutdown.rs\<close>,
  \<open>cast/framing.rs\<close>, \<open>cast/connection/reader.rs\<close> and \<open>cast/proto.rs\<close> (under \<open>src/src\<close>). Each
  definition carries the name of its test; what a test asserts, in order, is a conjunct. They check
  the translation against what the authors expect of the code, on the inputs the authors chose.
\<close>

section \<open>retry.rs\<close>

definition default_sequence_is_five_doubling_delays :: bool where
  "default_sequence_is_five_doubling_delays \<longleftrightarrow>
     delays backoff_new = [from_secs 1, from_secs 2, from_secs 4, from_secs 8, from_secs 16]"

fun backoff_nexts :: "nat \<Rightarrow> backoff \<Rightarrow> duration option list" where
  "backoff_nexts 0 b = []"
| "backoff_nexts (Suc n) b = (case backoff_next b of (d, b') \<Rightarrow> d # backoff_nexts n b')"

lemma backoff_nexts_numeral [simp]: "backoff_nexts (numeral k) b =
    (case backoff_next b of (d, b') \<Rightarrow> d # backoff_nexts (pred_numeral k) b')"
  by (simp add: numeral_eq_Suc)

definition exhausted_iterator_stays_empty :: bool where
  "exhausted_iterator_stays_empty \<longleftrightarrow>
     backoff_nexts 7 backoff_new =
       [Some (from_secs 1), Some (from_secs 2), Some (from_secs 4), Some (from_secs 8), Some (from_secs 16), None, None]"

definition delays_cap_at_maximum :: bool where
  "delays_cap_at_maximum \<longleftrightarrow>
     delays (with_params (from_secs 1) (from_secs 3) 10) = [from_secs 1, from_secs 2] @ replicate 8 (from_secs 3)"

definition zero_max_yields_nothing :: bool where
  "zero_max_yields_nothing \<longleftrightarrow> delays (with_params (from_secs 1) (from_secs 30) 0) = []"

definition never_exceeds_cap :: bool where
  "never_exceeds_cap \<longleftrightarrow> list_all (\<lambda>d. d \<le> from_secs 30) (delays (with_params (from_secs 1) (from_secs 30) 20))"

lemmas retry_tests = default_sequence_is_five_doubling_delays_def exhausted_iterator_stays_empty_def
  delays_cap_at_maximum_def zero_max_yields_nothing_def never_exceeds_cap_def

lemma replicate_eight: "replicate 8 x = [x, x, x, x, x, x, x, x]"
  by (simp add: numeral_eq_Suc)

theorem retry_tests_pass:
  "default_sequence_is_five_doubling_delays" "exhausted_iterator_stays_empty" "delays_cap_at_maximum"
  "zero_max_yields_nothing" "never_exceeds_cap"
  by (simp_all add: retry_tests delays.simps backoff_next_def backoff_new_def with_params_def DEFAULT_INITIAL_def
      DEFAULT_CAP_def DEFAULT_MAX_def from_secs_def saturating_mul_def DURATION_MAX_def replicate_eight)

section \<open>backpressure.rs\<close>

definition with_queue :: "nat \<Rightarrow> ('a bounded_drop_oldest \<Rightarrow> bool) \<Rightarrow> bool" where
  "with_queue cap P = (case queue_new cap of None \<Rightarrow> False | Some q \<Rightarrow> P q)"

fun pops :: "nat \<Rightarrow> 'a bounded_drop_oldest \<Rightarrow> 'a option list" where
  "pops 0 q = []"
| "pops (Suc n) q = (case try_pop q of (x, q') \<Rightarrow> x # pops n q')"

lemma pops_numeral [simp]: "pops (numeral k) q = (case try_pop q of (x, q') \<Rightarrow> x # pops (pred_numeral k) q')"
  by (simp add: numeral_eq_Suc)

definition fifo_order_preserved_without_overflow :: bool where
  "fifo_order_preserved_without_overflow \<longleftrightarrow>
     with_queue 4 (\<lambda>q. let q = foldl push q [1 ..< 5] in
       queue_len q = 4 \<and> pops 4 q = map Some [1 ..< 5])"

definition drops_oldest_when_full :: bool where
  "drops_oldest_when_full \<longleftrightarrow>
     with_queue 2 (\<lambda>q. let q = push (push (push q 1) 2) (3 :: nat) in
       queue_len q = 2 \<and> pops 3 q = [Some 2, Some 3, None])"

definition keeps_only_newest_items :: bool where
  "keeps_only_newest_items \<longleftrightarrow>
     with_queue 2 (\<lambda>q. let q = foldl push q [0 ..< 5] in
       queue_len q = 2 \<and> pops 3 q = [Some 3, Some 4, None])"

definition empty_queue_pops_none :: bool where
  "empty_queue_pops_none \<longleftrightarrow>
     with_queue 3 (\<lambda>q :: u32 bounded_drop_oldest. queue_is_empty q \<and> queue_len q = 0 \<and> fst (try_pop q) = None)"

definition drop_oldest_under_continuous_load :: bool where
  "drop_oldest_under_continuous_load \<longleftrightarrow>
     with_queue 3 (\<lambda>q. pops 3 (foldl push q [0 ..< 100]) = [Some 97, Some 98, Some 99])"

definition reports_capacity_and_len :: bool where
  "reports_capacity_and_len \<longleftrightarrow>
     with_queue 5 (\<lambda>q. capacity q = 5 \<and>
       (let q = push (push q ''a'') ''b'' in
        queue_len q = 2 \<and> (case try_pop q of (x, q) \<Rightarrow> x = Some ''a'' \<and> queue_len q = 1)))"

definition zero_capacity_rejected :: bool where
  "zero_capacity_rejected \<longleftrightarrow> (queue_new 0 :: u8 bounded_drop_oldest option) = None"

text \<open>Successive \<open>push_or\<close> calls: what each hands back, and the queue.\<close>

fun push_ors :: "('a \<Rightarrow> bool) \<Rightarrow> 'a list \<Rightarrow> 'a bounded_drop_oldest \<Rightarrow> 'a option list \<times> 'a bounded_drop_oldest" where
  "push_ors p [] q = ([], q)"
| "push_ors p (x # xs) q =
     (case push_or q x p of (r, q1) \<Rightarrow> (case push_ors p xs q1 of (rs, q2) \<Rightarrow> (r # rs, q2)))"

definition push_or_evicts_only_evictable_items :: bool where
  "push_or_evicts_only_evictable_items \<longleftrightarrow>
     with_queue 4 (\<lambda>q. case push_ors (\<lambda>i. i > 0) [0 ..< 5] q of (rs, q) \<Rightarrow>
       list_all (\<lambda>r. r = None) rs \<and> queue_len q = 4 \<and> pops 4 q = [Some 0, Some 2, Some 3, Some 4])"

definition push_or_returns_item_when_nothing_is_evictable :: bool where
  "push_or_returns_item_when_nothing_is_evictable \<longleftrightarrow>
     with_queue 3 (\<lambda>q. case push_ors (\<lambda>i. i > 100) ([0 ..< 3] @ [99]) q of (rs, q) \<Rightarrow>
       rs = [None, None, None, Some 99] \<and> queue_len q = 3 \<and> pops 3 q = [Some 0, Some 1, Some 2])"

definition clear_empties_the_queue :: bool where
  "clear_empties_the_queue \<longleftrightarrow>
     with_queue 4 (\<lambda>q. let q = queue_clear (foldl push q [0 ..< 4]) in
       queue_is_empty q \<and> fst (try_pop q) = None \<and> fst (try_pop (push q 7)) = Some 7)"

text \<open>The continuous load is too long for evaluation; the interface lemma of the queue gives it.\<close>

lemma drop_oldest_under_continuous_load_holds: "drop_oldest_under_continuous_load"
proof -
  let ?q = "\<lparr>items = [], capacity = 3\<rparr> :: nat bounded_drop_oldest"
  have "items (foldl push ?q [0 ..< 100]) = drop 97 [0 ..< 100]"
    using queue.content_pushes [of ?q "[0 ..< 100]"] by (simp add: queue_inv_def)
  then have i: "items (foldl push ?q [0 ..< 100]) = [97, 98, 99]" by (simp add: upt_rec)
  then have "foldl push ?q [0 ..< 100] = \<lparr>items = [97, 98, 99], capacity = capacity (foldl push ?q [0 ..< 100])\<rparr>"
    by (cases "foldl push ?q [0 ..< 100]") simp
  then show ?thesis
    by (simp add: drop_oldest_under_continuous_load_def with_queue_def queue_new_def try_pop_def i)
qed

theorem backpressure_tests_pass:
  "fifo_order_preserved_without_overflow" "drops_oldest_when_full" "keeps_only_newest_items"
  "empty_queue_pops_none" "reports_capacity_and_len"
  "zero_capacity_rejected" "push_or_evicts_only_evictable_items"
  "push_or_returns_item_when_nothing_is_evictable" "clear_empties_the_queue"
  by code_simp+

section \<open>shutdown.rs\<close>

definition starts_running_and_triggers :: bool where
  "starts_running_and_triggers \<longleftrightarrow> \<not> is_shutting_down shutdown_new \<and> is_shutting_down (trigger shutdown_new)"

definition trigger_is_idempotent :: bool where
  "trigger_is_idempotent \<longleftrightarrow> is_shutting_down (trigger (trigger shutdown_new))"

definition subscribers_observe_trigger :: bool where
  "subscribers_observe_trigger \<longleftrightarrow>
     (let s = shutdown_new; first = subscribe s; second = subscribe s in
      \<not> is_shutting_down s \<and>
      (let s = trigger s in changed_ready s first \<and> is_shutting_down s \<and> changed_ready s second))"

definition receiver_yields_initial_state :: bool where
  "receiver_yields_initial_state \<longleftrightarrow> \<not> changed_ready shutdown_new (subscribe shutdown_new) \<and> \<not> is_shutting_down shutdown_new"

theorem shutdown_tests_pass:
  "starts_running_and_triggers" "trigger_is_idempotent" "subscribers_observe_trigger" "receiver_yields_initial_state"
  by code_simp+

section \<open>framing.rs and reader.rs\<close>

definition frame_round_trip :: bool where
  "frame_round_trip \<longleftrightarrow>
     (let payload = [0x7B, 0x22] @ str ''type'' @ [0x22, 0x3A, 0x22] @ str ''PING'' @ [0x22, 0x7D];
          framed = encode_frame payload
      in take 4 framed = u32_to_be_bytes 15 \<and>
         (case read_frame (cursor framed) of (r, rd) \<Rightarrow> r = Inr (Some payload) \<and> fst (read_frame rd) = Inr None))"

definition empty_payload_frame_round_trips :: bool where
  "empty_payload_frame_round_trips \<longleftrightarrow> fst (read_frame (cursor (encode_frame []))) = Inr (Some [])"

definition over_maximum_length_prefix_is_rejected :: bool where
  "over_maximum_length_prefix_is_rejected \<longleftrightarrow>
     fst (read_frame (cursor (u32_to_be_bytes (of_nat MAX_FRAME_SIZE + 1) @ replicate 8 0))) =
       Inl (FrameTooLarge (of_nat MAX_FRAME_SIZE + 1))"

fun is_truncated :: "frame_error + 'a \<Rightarrow> bool" where
  "is_truncated (Inl (Truncated _ _)) = True"
| "is_truncated _ = False"

definition truncated_header_and_payload_are_errors :: bool where
  "truncated_header_and_payload_are_errors \<longleftrightarrow>
     is_truncated (fst (read_frame (cursor [0x00, 0x00, 0x04]))) \<and>
     is_truncated (fst (read_frame (cursor (take (4 + 5) (encode_frame (str ''0123456789''))))))"

fun read_frames :: "nat \<Rightarrow> reader \<Rightarrow> (frame_error + bytes option) list" where
  "read_frames 0 rd = []"
| "read_frames (Suc n) rd = (case read_frame rd of (r, rd') \<Rightarrow> r # read_frames n rd')"

lemma read_frames_numeral [simp]:
  "read_frames (numeral k) rd = (case read_frame rd of (r, rd') \<Rightarrow> r # read_frames (pred_numeral k) rd')"
  by (simp add: numeral_eq_Suc)

definition multiple_frames_in_one_stream :: bool where
  "multiple_frames_in_one_stream \<longleftrightarrow>
     (let payloads = [str ''aa'', str ''bbbb'', str ''cccccccc''];
          stream = concat (map encode_frame payloads)
      in read_frames 4 (cursor stream) = map (\<lambda>p. Inr (Some p)) payloads @ [Inr None])"

definition write_frame_emits_one_frame :: bool where
  "write_frame_emits_one_frame \<longleftrightarrow>
     fst (read_frame (cursor (write_frame [] (str ''hello'')))) = Inr (Some (str ''hello''))"

lemmas framing_eval = read_frame_def read_exact_or_eof.simps cursor_def encode_frame_def u32_to_be_bytes_def
  str_def MAX_FRAME_SIZE_def Let_def

theorem framing_tests_pass:
  "frame_round_trip" "empty_payload_frame_round_trips" "over_maximum_length_prefix_is_rejected"
  "truncated_header_and_payload_are_errors" "multiple_frames_in_one_stream" "write_frame_emits_one_frame"
  by (simp_all add: framing_eval frame_round_trip_def empty_payload_frame_round_trips_def write_frame_def
      over_maximum_length_prefix_is_rejected_def truncated_header_and_payload_are_errors_def
      multiple_frames_in_one_stream_def write_frame_emits_one_frame_def)

definition frame_accumulator_handles_partial_and_multiple_frames :: bool where
  "frame_accumulator_handles_partial_and_multiple_frames \<longleftrightarrow>
     (let one = encode_frame (str ''hello''); two = encode_frame (str ''world'') in
      case push_bytes accumulator_new (take 3 one) of (r1, a1) \<Rightarrow>
        r1 = Inr [] \<and>
        (case push_bytes a1 (drop 3 one @ two) of (r2, a2) \<Rightarrow>
           r2 = Inr [str ''hello'', str ''world''] \<and> fst (push_bytes a2 []) = Inr []))"

definition frame_accumulator_rejects_oversized_prefix :: bool where
  "frame_accumulator_rejects_oversized_prefix \<longleftrightarrow>
     (case fst (push_bytes accumulator_new (u32_to_be_bytes (of_nat MAX_FRAME_SIZE + 1))) of
        Inl (FrameTooLarge _) \<Rightarrow> True | _ \<Rightarrow> False)"

theorem reader_tests_pass:
  "frame_accumulator_handles_partial_and_multiple_frames" "frame_accumulator_rejects_oversized_prefix"
  by (simp_all add: framing_eval push_bytes_def push_loop.simps accumulator_new_def
      frame_accumulator_handles_partial_and_multiple_frames_def frame_accumulator_rejects_oversized_prefix_def)

section \<open>proto.rs\<close>

definition varint_single_byte_values :: bool where
  "varint_single_byte_values \<longleftrightarrow>
     varint_encode 0 = [0x00] \<and> varint_decode [0x00] = Inr (0, 1) \<and>
     varint_encode 127 = [0x7F] \<and> varint_decode [0x7F] = Inr (127, 1) \<and>
     varint_encode 128 = [0x80, 0x01] \<and> varint_decode [0x80, 0x01] = Inr (128, 2) \<and>
     varint_encode 0xFFFFFFFF = [0xFF, 0xFF, 0xFF, 0xFF, 0x0F] \<and>
     varint_decode [0xFF, 0xFF, 0xFF, 0xFF, 0x0F] = Inr (0xFFFFFFFF, 5)"

definition varint_u64_max_round_trip :: bool where
  "varint_u64_max_round_trip \<longleftrightarrow>
     (let encoded = varint_encode 0xFFFFFFFFFFFFFFFF in
      encoded = [0xFF, 0xFF, 0xFF, 0xFF, 0xFF, 0xFF, 0xFF, 0xFF, 0xFF, 0x01] \<and>
      varint_decode encoded = Inr (0xFFFFFFFFFFFFFFFF, 10))"

definition varint_overflow_and_truncation_are_errors :: bool where
  "varint_overflow_and_truncation_are_errors \<longleftrightarrow>
     varint_decode [0x80, 0x80, 0x80, 0x80, 0x80, 0x80, 0x80, 0x80, 0x80, 0x80, 0x01] = Inl VarintOverflow \<and>
     varint_decode [0x80] = Inl (UnexpectedEnd 1) \<and> varint_decode [] = Inl (UnexpectedEnd 0)"

definition varint_tenth_byte_past_bit_63_is_overflow :: bool where
  "varint_tenth_byte_past_bit_63_is_overflow \<longleftrightarrow>
     varint_decode [0xFF, 0xFF, 0xFF, 0xFF, 0xFF, 0xFF, 0xFF, 0xFF, 0xFF, 0x02] = Inl VarintOverflow \<and>
     varint_decode [0x80, 0x80, 0x80, 0x80, 0x80, 0x80, 0x80, 0x80, 0x80, 0x7F] = Inl VarintOverflow"

definition connect_json :: rstring where
  \<open>connect_json = str ''{"type":"CONNECT","origin":{},"userAgent":"cast-app/0.1.0","connType":0,"senderInfo":{"sdkType":2,"version":"0.1.0","browserVersion":"0.1.0","platform":6,"connectionType":1}}''\<close>

definition golden_connect_payload :: bytes where
  "golden_connect_payload =
     [0x08, 0x00, 0x12, 0x08] @ str ''sender-0'' @ [0x1A, 0x0A] @ str ''receiver-0'' @
     [0x22, 0x28] @ str ''urn:x-cast:com.google.cast.tp.connection'' @ [0x28, 0x00] @
     [0x32] @ varint_encode (of_nat (length connect_json)) @ connect_json"

definition encode_matches_golden_connect_message :: bool where
  "encode_matches_golden_connect_message \<longleftrightarrow>
     encode_cast_message (str ''sender-0'') (str ''receiver-0'') (str ''urn:x-cast:com.google.cast.tp.connection'')
       connect_json = golden_connect_payload"

definition decode_round_trips_the_golden_message :: bool where
  "decode_round_trips_the_golden_message \<longleftrightarrow>
     decode_cast_message golden_connect_payload =
       Inr \<lparr>protocol_version = 0, source_id = str ''sender-0'', destination_id = str ''receiver-0'',
         namespace = str ''urn:x-cast:com.google.cast.tp.connection'', payload_type = PString,
         payload_utf8 = connect_json\<rparr>"

definition decode_tolerates_unknown_fields :: bool where
  "decode_tolerates_unknown_fields \<longleftrightarrow>
     (case decode_cast_message
         (golden_connect_payload @ [0xA0, 0x06, 0x2A] @ [0xAA, 0x06, 0x03, 0x01, 0x02, 0x03]) of
        Inr m \<Rightarrow> payload_utf8 m = connect_json | Inl _ \<Rightarrow> False)"

definition decode_rejects_malformed_input :: bool where
  "decode_rejects_malformed_input \<longleftrightarrow>
     \<not> is_ok (decode_cast_message (take (length golden_connect_payload - 3) golden_connect_payload)) \<and>
     decode_cast_message [0x32, 0xFF, 0xFF, 0xFF, 0x7F, 0x01] = Inl FieldTooLarge \<and>
     decode_cast_message [0x1B] = Inl (UnknownWireType 3) \<and>
     decode_cast_message [0x00] = Inl MissingFieldNumber \<and>
     \<not> is_ok (decode_cast_message [0x09, 0x01]) \<and> \<not> is_ok (decode_cast_message [0x0D, 0x01, 0x02])"

theorem varint_tests_pass:
  "varint_single_byte_values" "varint_u64_max_round_trip" "varint_overflow_and_truncation_are_errors"
  "varint_tenth_byte_past_bit_63_is_overflow"
  by (simp_all add: varint_single_byte_values_def varint_u64_max_round_trip_def
      varint_overflow_and_truncation_are_errors_def varint_tenth_byte_past_bit_63_is_overflow_def
      varint_encode.simps varint_decode_def Let_def)

lemma connect_json_ok: "length connect_json = 174" "utf8_valid connect_json"
  by (simp_all add: connect_json_def str_def utf8_valid.simps(2) utf8_step_def utf8_width_def)

lemma golden_encoded: "golden_connect_payload = encode_cast_message (str ''sender-0'') (str ''receiver-0'')
    (str ''urn:x-cast:com.google.cast.tp.connection'') connect_json"
  by (simp add: golden_connect_payload_def encode_cast_message_def write_length_delimited_def connect_json_ok(1)
      key_def varint_encode.simps str_def Let_def)

lemma golden_decoded: "decode_loop golden_connect_payload 0 empty_message =
    Inr \<lparr>protocol_version = 0, source_id = str ''sender-0'', destination_id = str ''receiver-0'',
      namespace = str ''urn:x-cast:com.google.cast.tp.connection'', payload_type = PString,
      payload_utf8 = connect_json\<rparr>"
proof -
  have "utf8_valid (str ''sender-0'')" "utf8_valid (str ''receiver-0'')"
    "utf8_valid (str ''urn:x-cast:com.google.cast.tp.connection'')"
    by (simp_all add: str_def utf8_valid.simps(2) utf8_step_def utf8_width_def)
  moreover have "length (str ''sender-0'') = 8" "length (str ''receiver-0'') = 10"
    "length (str ''urn:x-cast:com.google.cast.tp.connection'') = 40"
    by (simp_all add: str_def)
  ultimately show ?thesis
    unfolding golden_encoded
    by (subst decode_encoded) (simp_all add: connect_json_ok MAX_FIELD_SIZE_def empty_message_def
        set_bytes_field_def set_varint_field_def)
qed

lemma unknown_tail: "decode_loop ([0xA0, 0x06, 0x2A] @ [0xAA, 0x06, 0x03, 0x01, 0x02, 0x03]) 0 m = Inr m"
  by (simp add: decode_loop.simps decode_field_def varint_decode_def wire_type_from_number_def ok_or_def rbind_def
      set_varint_field_def set_bytes_field_def MAX_FIELD_SIZE_def Let_def)

lemma truncated_golden: "\<not> is_ok (decode_cast_message (take (length golden_connect_payload - 3) golden_connect_payload))"
proof -
  let ?head = "[0x08, 0x00, 0x12, 0x08] @ str ''sender-0'' @ [0x1A, 0x0A] @ str ''receiver-0'' @
    [0x22, 0x28] @ str ''urn:x-cast:com.google.cast.tp.connection'' @ [0x28, 0x00]"
  have len: "varint_encode (of_nat (length connect_json)) = [0xAE, 0x01]"
    by (simp add: connect_json_ok(1) varint_encode.simps)
  have split: "golden_connect_payload = (?head @ [0x32, 0xAE, 0x01]) @ connect_json"
    unfolding golden_connect_payload_def len by (simp only: append_assoc append.simps)
  have short: "take (length (xs @ connect_json) - 3) (xs @ connect_json) = xs @ take 171 connect_json" for xs
    by (simp add: connect_json_ok(1))
  have cut: "take (length golden_connect_payload - 3) golden_connect_payload =
      ?head @ [0x32, 0xAE, 0x01] @ take 171 connect_json"
    unfolding split short by (simp only: append_assoc)
  have "\<exists>m. decode_loop ?head 0 empty_message = Inr m"
    by (simp add: decode_loop.simps decode_field_def varint_decode_def wire_type_from_number_def ok_or_def rbind_def
      set_varint_field_def set_bytes_field_def MAX_FIELD_SIZE_def str_def Let_def)
  then obtain m where m: "decode_loop ?head 0 empty_message = Inr m" by blast
  have "decode_loop ([0x32, 0xAE, 0x01] @ take 171 connect_json) 0 m = Inl (TruncatedField 174 171)"
    by (simp add: decode_loop.simps [of _ 0] decode_field_def varint_decode_def wire_type_from_number_def ok_or_def
        rbind_def MAX_FIELD_SIZE_def connect_json_ok(1) Let_def)
  then show ?thesis
    by (simp only: decode_cast_message_def cut decode_loop_append [OF m] is_ok.simps not_False_eq_True)
qed

theorem proto_tests_pass:
  "encode_matches_golden_connect_message" "decode_round_trips_the_golden_message"
  "decode_tolerates_unknown_fields" "decode_rejects_malformed_input"
proof -
  show "encode_matches_golden_connect_message" "decode_round_trips_the_golden_message"
    by (simp_all add: encode_matches_golden_connect_message_def decode_round_trips_the_golden_message_def
        decode_cast_message_def golden_decoded flip: golden_encoded)
  show "decode_tolerates_unknown_fields"
    unfolding decode_tolerates_unknown_fields_def decode_cast_message_def
    by (subst decode_loop_append [OF golden_decoded], subst unknown_tail) simp
  show "decode_rejects_malformed_input"
    using truncated_golden
    by (simp add: decode_rejects_malformed_input_def decode_cast_message_def decode_loop.simps [of _ 0] decode_field_def
        varint_decode_def wire_type_from_number_def ok_or_def rbind_def skip_fixed_def MAX_FIELD_SIZE_def Let_def)
qed

end
