(* ===== verification/Unit_Tests_Identity.thy ===== *)
theory Unit_Tests_Identity
  imports Request_Id Tofu
begin

text \<open>
  The unit tests of \<open>src/src/cast/request_id.rs\<close> and \<open>src/src/cast/tofu.rs\<close> as statements over
  their models, one definition per test and named after it: the model gives what the tests assert of
  the program.
\<close>

section \<open>request_id.rs\<close>

text \<open>The test allocates ten thousand IDs; the model shows what any number of allocations gives.\<close>

fun allocations :: "nat \<Rightarrow> request_id \<Rightarrow> pending_map \<Rightarrow> u32 list option" where
  "allocations 0 r m = Some []"
| "allocations (Suc n) r m =
     (case allocate r m of
        Some (Inr (i, r')) \<Rightarrow> map_option ((#) i) (allocations n r' m)
      | _ \<Rightarrow> None)"

definition ids_are_monotonic_and_never_zero :: bool where
  "ids_are_monotonic_and_never_zero \<longleftrightarrow>
     (case allocations 10000 request_id_new with_default_timeout of
        None \<Rightarrow> False
      | Some ids \<Rightarrow> 0 \<notin> set ids \<and> sorted_wrt (\<lambda>a b. b > a \<or> a = 0xFFFFFFFF) ids)"

definition sequence_wraps_at_u32_max :: bool where
  "sequence_wraps_at_u32_max \<longleftrightarrow>
     allocations 3 \<lparr>next_id = 0xFFFFFFFF\<rparr> with_default_timeout = Some [0xFFFFFFFF, 1, 2]"

definition wrap_skips_still_pending_ids :: bool where
  "wrap_skips_still_pending_ids \<longleftrightarrow>
     (case pending_insert with_default_timeout 0xFFFFFFFF 0 of (new, m) \<Rightarrow>
        new \<and> allocations 2 \<lparr>next_id = 0xFFFFFFFF\<rparr> m = Some [1, 2] \<and>
        allocations 1 \<lparr>next_id = 0xFFFFFFFF\<rparr> (snd (resolve m 0xFFFFFFFF)) = Some [0xFFFFFFFF])"

definition correlation_hit_and_miss :: bool where
  "correlation_hit_and_miss \<longleftrightarrow>
     (case pending_insert with_default_timeout 7 0 of (r1, m1) \<Rightarrow>
      case pending_insert m1 7 0 of (r2, m2) \<Rightarrow>
      case resolve m2 7 of (r3, m3) \<Rightarrow>
      case resolve m3 7 of (r4, m4) \<Rightarrow>
      case resolve m4 99 of (r5, m5) \<Rightarrow>
      case resolve m5 0 of (r6, m6) \<Rightarrow>
        r1 \<and> \<not> r2 \<and> is_pending m2 7 \<and> r3 \<and> \<not> r4 \<and> \<not> r5 \<and> \<not> r6 \<and> pending_len m6 = 0)"

definition timeout_fires_after_five_seconds :: bool where
  "timeout_fires_after_five_seconds \<longleftrightarrow>
     (case pending_insert with_default_timeout 1 0 of (r1, m1) \<Rightarrow>
      case pending_insert m1 2 0 of (r2, m2) \<Rightarrow>
      case expire m2 (from_secs 4) of (early, m3) \<Rightarrow>
      case expire m3 (from_secs 5) of (late, m4) \<Rightarrow>
        r1 \<and> r2 \<and> early = [] \<and> sort late = [1, 2] \<and> pending_len m4 = 0)"

definition expiry_is_per_entry :: bool where
  "expiry_is_per_entry \<longleftrightarrow>
     (case pending_insert with_default_timeout 1 0 of (r1, m1) \<Rightarrow>
      case pending_insert m1 2 (from_secs 3) of (r2, m2) \<Rightarrow>
      case expire m2 (from_secs 6) of (e1, m3) \<Rightarrow>
      case expire m3 (from_secs 9) of (e2, m4) \<Rightarrow>
        r1 \<and> r2 \<and> sort e1 = [1] \<and> is_pending m3 2 \<and> pending_len m3 = 1 \<and> e2 = [2])"

definition custom_timeout_is_used :: bool where
  "custom_timeout_is_used \<longleftrightarrow>
     timeout (pending_new (from_millis 250)) = from_millis 250 \<and> timeout with_default_timeout = from_secs 5"

lemma allocations_numeral [simp]:
  "allocations (numeral k) r m =
     (case allocate r m of
        Some (Inr (i, r')) \<Rightarrow> map_option ((#) i) (allocations (pred_numeral k) r' m)
      | _ \<Rightarrow> None)"
  by (simp add: numeral_eq_Suc)

lemma allocate_empty: "pending m = [] \<Longrightarrow> allocate r m = Some (Inr (next_id r, r\<lparr>next_id := next_in_cycle (next_id r)\<rparr>))"
  by (simp add: allocate_def allocate_loop.simps is_pending_def Let_def)

lemma below_max: "Suc k < 2 ^ 32 \<Longrightarrow> next_in_cycle (of_nat k) = of_nat (Suc k)"
proof -
  assume "Suc k < 2 ^ 32"
  then have "(of_nat k :: u32) \<noteq> 0xFFFFFFFF" by (auto simp: word_unat_eq_iff unat_of_nat take_bit_nat_eq_self)
  then show ?thesis by (simp add: next_in_cycle_def)
qed

lemma allocations_empty:
  "pending m = [] \<Longrightarrow> k + n < 2 ^ 32 \<Longrightarrow> allocations n \<lparr>next_id = of_nat k\<rparr> m = Some (map of_nat [k ..< k + n])"
proof (induction n arbitrary: k)
  case (Suc n)
  then have "allocations n \<lparr>next_id = of_nat (Suc k)\<rparr> m = Some (map of_nat [Suc k ..< k + Suc n])"
    using Suc.IH [of "Suc k"] by simp
  moreover have "next_in_cycle (of_nat k) = of_nat (Suc k) \<or> n = 0"
    using Suc.prems(2) below_max [of k] by auto
  moreover have "[k ..< k + Suc n] = k # [Suc k ..< k + Suc n]" by (simp add: upt_conv_Cons del: upt_Suc)
  ultimately show ?case using Suc.prems(1) by (auto simp: allocate_empty simp del: upt_Suc of_nat_Suc)
qed simp

lemma sorted_of_nat: "n < 2 ^ 32 \<Longrightarrow> sorted_wrt (<) (map (of_nat :: nat \<Rightarrow> u32) [k ..< n])"
  by (auto simp: sorted_wrt_map word_less_nat_alt unat_of_nat take_bit_nat_eq_self
      intro!: sorted_wrt_mono_rel [OF _ sorted_wrt_upt])

theorem ids_test_passes: "ids_are_monotonic_and_never_zero"
proof -
  have "allocations 10000 \<lparr>next_id = of_nat 1\<rparr> with_default_timeout = Some (map of_nat [1 ..< 1 + 10000])"
    by (rule allocations_empty) (simp_all add: with_default_timeout_def pending_new_def)
  moreover have "(0 :: u32) \<notin> set (map of_nat [1 ..< 1 + 10000])"
    by (auto simp: word_unat_eq_iff unat_of_nat take_bit_nat_eq_self)
  moreover have "sorted_wrt (\<lambda>a b :: u32. b > a \<or> a = 0xFFFFFFFF) (map of_nat [1 ..< 1 + 10000])"
    by (rule sorted_wrt_mono_rel [OF _ sorted_of_nat]) auto
  ultimately show ?thesis
    by (simp only: ids_are_monotonic_and_never_zero_def request_id_new_def of_nat_1 option.simps) simp
qed

theorem request_id_tests_pass:
  "sequence_wraps_at_u32_max" "wrap_skips_still_pending_ids" "correlation_hit_and_miss"
  "timeout_fires_after_five_seconds" "expiry_is_per_entry" "custom_timeout_is_used"
proof -
  show "sequence_wraps_at_u32_max"
    by (simp add: sequence_wraps_at_u32_max_def allocate_empty with_default_timeout_def pending_new_def next_in_cycle_def)
  show "wrap_skips_still_pending_ids"
    by (simp add: wrap_skips_still_pending_ids_def allocate_def allocate_loop.simps next_in_cycle_def
      with_default_timeout_def pending_new_def pending_insert_def is_pending_def resolve_def Let_def)
  show "correlation_hit_and_miss"
    by (simp add: correlation_hit_and_miss_def with_default_timeout_def pending_new_def pending_insert_def
        is_pending_def resolve_def pending_len_def)
  show "timeout_fires_after_five_seconds"
    by (auto simp: word_le_nat_alt timeout_fires_after_five_seconds_def with_default_timeout_def pending_new_def pending_insert_def
        is_pending_def expire_def expired_def pending_len_def DEFAULT_REQUEST_TIMEOUT_def from_secs_def)
  show "expiry_is_per_entry"
    by (auto simp: image_iff expiry_is_per_entry_def with_default_timeout_def pending_new_def pending_insert_def
        is_pending_def expire_def expired_def pending_len_def DEFAULT_REQUEST_TIMEOUT_def from_secs_def)
  show "custom_timeout_is_used"
    by (simp add: custom_timeout_is_used_def with_default_timeout_def pending_new_def DEFAULT_REQUEST_TIMEOUT_def)
qed

section \<open>tofu.rs\<close>

definition a_fingerprint :: "u8 \<Rightarrow> fingerprint" where
  "a_fingerprint seed = replicate 32 seed"

text \<open>Checks in a row against a store that lives in memory, and the size of the store after each.\<close>

fun checks :: "(rstring \<times> u8) list \<Rightarrow> tofu_store \<Rightarrow> (pin_check \<times> nat) list" where
  "checks [] s = []"
| "checks ((key, seed) # cs) s =
     (case check (\<lambda>_. None) \<lparr>so_mkdir = False, so_write = None, so_rename = False, so_remove = False\<rparr> key
         (a_fingerprint seed) (s, Map.empty) of
        (r, s', _) \<Rightarrow> (r, length (ts_pins s')) # checks cs s')"

definition receiver_key_prefers_the_txt_id_over_the_fallback :: bool where
  "receiver_key_prefers_the_txt_id_over_the_fallback \<longleftrightarrow>
     receiver_key (Some (str ''1e3c5f6a-9f0c-4b1e-8a2d-7b9c1d2e3f40'')) (str ''Living Room'') (str ''192.168.1.42'') =
       str ''1e3c5f6a-9f0c-4b1e-8a2d-7b9c1d2e3f40''"

definition receiver_key_falls_back_to_name_plus_ip :: bool where
  "receiver_key_falls_back_to_name_plus_ip \<longleftrightarrow>
     receiver_key None (str ''Kitchen TV'') (str ''10.0.0.5'') = str ''Kitchen TV+10.0.0.5''"

definition receiver_key_ignores_an_empty_txt_id :: bool where
  "receiver_key_ignores_an_empty_txt_id \<longleftrightarrow>
     receiver_key (Some []) (str ''Den'') (str ''10.0.0.9'') = str ''Den+10.0.0.9''"

definition first_seen_fingerprint_is_pinned_then_matches :: bool where
  "first_seen_fingerprint_is_pinned_then_matches \<longleftrightarrow>
     length (ts_pins in_memory) = 0 \<and>
     checks [(str ''key'', 0xAA), (str ''key'', 0xAA)] in_memory = [(Pinned, 1), (Matched, 1)]"

definition mismatch_reports_both_digests_and_keeps_the_original_pin :: bool where
  "mismatch_reports_both_digests_and_keeps_the_original_pin \<longleftrightarrow>
     map fst (checks [(str ''key'', 0x11), (str ''key'', 0x22), (str ''key'', 0x11), (str ''key'', 0x22)] in_memory) =
       [Pinned, Mismatch (a_fingerprint 0x11) (a_fingerprint 0x22), Matched,
        Mismatch (a_fingerprint 0x11) (a_fingerprint 0x22)]"

definition pins_are_keyed_independently :: bool where
  "pins_are_keyed_independently \<longleftrightarrow>
     checks [(str ''a'', 1), (str ''b'', 2), (str ''a'', 1), (str ''b'', 2)] in_memory =
       [(Pinned, 1), (Pinned, 2), (Matched, 2), (Matched, 2)]"

text \<open>The tests on a file run with the JSON library and the path of the temporary file as parameters.\<close>

definition persisted_pins_survive_a_store_reload ::
  "((rstring \<times> rstring) list \<Rightarrow> bytes option) \<Rightarrow> (bytes \<Rightarrow> (rstring \<times> rstring) list option) \<Rightarrow> bytes \<Rightarrow> bool" where
  "persisted_pins_survive_a_store_reload to_vec from_slice path \<longleftrightarrow>
     (case check to_vec \<lparr>so_mkdir = True, so_write = None, so_rename = True, so_remove = True\<rparr>
         (str ''Living Room+10.0.0.5'') (a_fingerprint 0x77) (load_store from_slice Map.empty path, Map.empty) of
        (r, _, disk) \<Rightarrow>
          let reloaded = load_store from_slice disk path in
          r = Pinned \<and> length (ts_pins reloaded) = 1 \<and>
          map fst (checks [(str ''Living Room+10.0.0.5'', 0x77), (str ''Living Room+10.0.0.5'', 0x88)]
            (reloaded\<lparr>ts_path := None\<rparr>)) =
            [Matched, Mismatch (a_fingerprint 0x77) (a_fingerprint 0x88)])"

definition a_missing_store_file_starts_empty :: "(bytes \<Rightarrow> (rstring \<times> rstring) list option) \<Rightarrow> bytes \<Rightarrow> bool" where
  "a_missing_store_file_starts_empty from_slice path \<longleftrightarrow>
     length (ts_pins (load_store from_slice Map.empty path)) = 0"

definition a_corrupt_store_file_degrades_to_empty :: "(bytes \<Rightarrow> (rstring \<times> rstring) list option) \<Rightarrow> bytes \<Rightarrow> bool" where
  "a_corrupt_store_file_degrades_to_empty from_slice path \<longleftrightarrow>
     length (ts_pins (load_store from_slice [path \<mapsto> str ''not json at all''] path)) = 0"

definition malformed_pin_entries_are_skipped_on_load ::
  "(bytes \<Rightarrow> (rstring \<times> rstring) list option) \<Rightarrow> bytes \<Rightarrow> bytes \<Rightarrow> bool" where
  "malformed_pin_entries_are_skipped_on_load from_slice content path \<longleftrightarrow>
     (let s = load_store from_slice [path \<mapsto> content] path in
      length (ts_pins s) = 1 \<and> map fst (checks [(str ''good'', 0x5A)] s) = [Matched])"

definition fingerprint_hex_round_trip_test :: bool where
  "fingerprint_hex_round_trip_test \<longleftrightarrow>
     (let hex = fingerprint_to_hex (a_fingerprint 0xAB) in
      length hex = 64 \<and> list_all (\<lambda>c. 48 \<le> c \<and> c \<le> 57 \<or> 97 \<le> c \<and> c \<le> 102) hex \<and>
      hex_to_fingerprint hex = Some (a_fingerprint 0xAB))"

definition hex_to_fingerprint_rejects_bad_input :: bool where
  "hex_to_fingerprint_rejects_bad_input \<longleftrightarrow>
     hex_to_fingerprint [] = None \<and> hex_to_fingerprint (concat (replicate 31 (str ''ab''))) = None \<and>
     hex_to_fingerprint (concat (replicate 33 (str ''ab''))) = None \<and>
     hex_to_fingerprint (concat (replicate 63 (str ''a'')) @ str ''G'') = None"

lemma hex_of_seed: "hex_to_fingerprint (fingerprint_to_hex (a_fingerprint b)) = Some (a_fingerprint b)"
  by (simp add: hex_to_fingerprint_def hex_pairs_encode a_fingerprint_def)

lemma a_fingerprint_eq [simp]: "a_fingerprint a = a_fingerprint b \<longleftrightarrow> a = b"
  by (simp add: a_fingerprint_def)

lemma hex_pairs_bad: "even (length xs) \<Longrightarrow> hex_nibble c = None \<Longrightarrow> hex_pairs (xs @ [d, c]) = None"
  by (induction xs rule: hex_pairs.induct) (auto split: option.splits)

theorem tofu_tests_pass:
  "receiver_key_prefers_the_txt_id_over_the_fallback" "receiver_key_falls_back_to_name_plus_ip"
  "receiver_key_ignores_an_empty_txt_id" "first_seen_fingerprint_is_pinned_then_matches"
  "mismatch_reports_both_digests_and_keeps_the_original_pin" "pins_are_keyed_independently"
  "fingerprint_hex_round_trip_test" "hex_to_fingerprint_rejects_bad_input"
proof -
  show "receiver_key_prefers_the_txt_id_over_the_fallback" "receiver_key_falls_back_to_name_plus_ip"
    "receiver_key_ignores_an_empty_txt_id"
    by (simp_all add: receiver_key_prefers_the_txt_id_over_the_fallback_def receiver_key_falls_back_to_name_plus_ip_def
        receiver_key_ignores_an_empty_txt_id_def receiver_key_def str_def)
  show "first_seen_fingerprint_is_pinned_then_matches"
    "mismatch_reports_both_digests_and_keeps_the_original_pin" "pins_are_keyed_independently"
    by (simp_all add: first_seen_fingerprint_is_pinned_then_matches_def
        mismatch_reports_both_digests_and_keeps_the_original_pin_def pins_are_keyed_independently_def
        in_memory_def check_def save_def Let_def str_def)
  have "fingerprint_to_hex (a_fingerprint 0xAB) = concat (replicate 32 [97, 98])"
    by (simp add: fingerprint_to_hex_def a_fingerprint_def hex_byte_def hex_digit_def)
  moreover have "length (fingerprint_to_hex (a_fingerprint 0xAB)) = 64" by (simp add: a_fingerprint_def)
  ultimately show "fingerprint_hex_round_trip_test"
    using hex_of_seed [of "0xAB"] by (simp add: fingerprint_hex_round_trip_test_def Let_def list_all_iff)
  have "hex_pairs (concat (replicate 62 (str ''a'')) @ [97, 71]) = None"
    by (rule hex_pairs_bad) (simp_all add: length_concat sum_list_replicate str_def hex_nibble_def)
  moreover have "concat (replicate 63 (str ''a'')) @ str ''G'' = concat (replicate 62 (str ''a'')) @ [97, 71]"
    by (simp add: replicate_add [of 62 1, simplified] str_def)
  ultimately have "hex_pairs (concat (replicate 63 (str ''a'')) @ str ''G'') = None" by simp
  then show "hex_to_fingerprint_rejects_bad_input"
    by (simp add: hex_to_fingerprint_rejects_bad_input_def hex_to_fingerprint_def length_concat sum_list_replicate str_def)
qed

theorem tofu_file_tests_pass:
  assumes "\<And>entries. \<exists>b. to_vec entries = Some b \<and> from_slice b = Some entries"
    and "with_extension path (str ''json.tmp'') \<noteq> path"
    and "from_slice (str ''not json at all'') = None"
    and "from_slice content = Some [(str ''good'', fingerprint_to_hex (a_fingerprint 0x5A)), (str ''short'', str ''abcd''),
      (str ''badhex'', replicate 64 103)]"
  shows "persisted_pins_survive_a_store_reload to_vec from_slice path"
    "a_missing_store_file_starts_empty from_slice path" "a_corrupt_store_file_degrades_to_empty from_slice path"
    "malformed_pin_entries_are_skipped_on_load from_slice content path"
proof -
  obtain b where b: "to_vec [(str ''Living Room+10.0.0.5'', fingerprint_to_hex (a_fingerprint 0x77))] = Some b"
    "from_slice b = Some [(str ''Living Room+10.0.0.5'', fingerprint_to_hex (a_fingerprint 0x77))]"
    using assms(1) by blast
  then show "persisted_pins_survive_a_store_reload to_vec from_slice path"
    using assms(2)
    by (simp add: persisted_pins_survive_a_store_reload_def load_store_def check_def save_def pins_file_def hex_of_seed
        Let_def)
  show "a_missing_store_file_starts_empty from_slice path" "a_corrupt_store_file_degrades_to_empty from_slice path"
    using assms(3)
    by (simp_all add: a_missing_store_file_starts_empty_def a_corrupt_store_file_degrades_to_empty_def load_store_def)
  have "hex_to_fingerprint (str ''abcd'') = None" by (simp add: hex_to_fingerprint_def str_def)
  moreover have "hex_to_fingerprint (replicate 64 103) = None"
    by (simp add: hex_to_fingerprint_def replicate_add [of 1 63, simplified] replicate_add [of 1 62, simplified] hex_nibble_def)
  ultimately show "malformed_pin_entries_are_skipped_on_load from_slice content path"
    using assms(4)
    by (simp add: malformed_pin_entries_are_skipped_on_load_def load_store_def check_def hex_of_seed Let_def)
qed

end
