(* ===== verification/Unit_Tests_Media.thy ===== *)
theory Unit_Tests_Media
  imports Media_Range Lan_Ip Namespaces Forbid_Unsafe
begin

text \<open>
  The unit tests of \<open>media/range.rs\<close>, \<open>media/mime.rs\<close>, \<open>media/lan_ip.rs\<close>, \<open>cast/namespaces.rs\<close>
  (under \<open>src/src\<close>) and \<open>xtask/forbid_unsafe.rs\<close> as statements over their models, one definition per
  test and named after it, with the proofs that the models pass.
\<close>

section \<open>range.rs\<close>

abbreviation decided :: "string \<Rightarrow> u64 \<Rightarrow> range_decision" where
  "decided header sz \<equiv> parse_range (Some (str header)) sz"

definition no_header_is_full :: bool where
  "no_header_is_full \<longleftrightarrow> parse_range None 1000 = Full"

definition zero_length_resource_is_unsatisfiable_for_ranges :: bool where
  "zero_length_resource_is_unsatisfiable_for_ranges \<longleftrightarrow>
     decided ''bytes=0-'' 0 = Unsatisfiable \<and> decided ''bytes=-1'' 0 = Unsatisfiable"

definition closed_range_clamps_end_to_eof :: bool where
  "closed_range_clamps_end_to_eof \<longleftrightarrow>
     decided ''bytes=0-499'' 1000 = Partial 0 499 \<and> decided ''bytes=500-9999'' 1000 = Partial 500 999 \<and>
     decided ''bytes=0-0'' 1000 = Partial 0 0 \<and> decided ''bytes=999-999'' 1000 = Partial 999 999"

definition open_ended_range_runs_to_eof :: bool where
  "open_ended_range_runs_to_eof \<longleftrightarrow>
     decided ''bytes=0-'' 1000 = Partial 0 999 \<and> decided ''bytes=500-'' 1000 = Partial 500 999 \<and>
     decided ''bytes=999-'' 1000 = Partial 999 999"

definition suffix_range_takes_last_n_bytes :: bool where
  "suffix_range_takes_last_n_bytes \<longleftrightarrow>
     decided ''bytes=-100'' 1000 = Partial 900 999 \<and> decided ''bytes=-1'' 1000 = Partial 999 999 \<and>
     decided ''bytes=-1000'' 1000 = Partial 0 999 \<and> decided ''bytes=-9999'' 1000 = Partial 0 999"

definition whitespace_is_tolerated :: bool where
  "whitespace_is_tolerated \<longleftrightarrow>
     decided '' bytes=0-499 '' 1000 = Partial 0 499 \<and> decided ''bytes= 0 - 499'' 1000 = Partial 0 499"

definition start_at_eof_is_unsatisfiable :: bool where
  "start_at_eof_is_unsatisfiable \<longleftrightarrow>
     decided ''bytes=1000-'' 1000 = Unsatisfiable \<and> decided ''bytes=1000-1001'' 1000 = Unsatisfiable \<and>
     decided ''bytes=100000-'' 1000 = Unsatisfiable"

definition reversed_bounds_are_unsatisfiable :: bool where
  "reversed_bounds_are_unsatisfiable \<longleftrightarrow> decided ''bytes=1-0'' 1000 = Unsatisfiable"

definition zero_suffix_is_unsatisfiable :: bool where
  "zero_suffix_is_unsatisfiable \<longleftrightarrow> decided ''bytes=-0'' 1000 = Unsatisfiable"

definition malformed_values_are_unsatisfiable :: bool where
  "malformed_values_are_unsatisfiable \<longleftrightarrow>
     decided ''bytes='' 1000 = Unsatisfiable \<and> decided ''bytes=abc'' 1000 = Unsatisfiable \<and>
     decided ''bytes=abc-def'' 1000 = Unsatisfiable \<and> decided ''bytes=-'' 1000 = Unsatisfiable \<and>
     decided ''bytes=1-2-3'' 1000 = Unsatisfiable"

definition multiple_ranges_are_ignored_as_full :: bool where
  "multiple_ranges_are_ignored_as_full \<longleftrightarrow> decided ''bytes=0-10,20-30'' 1000 = Full"

definition non_bytes_unit_is_ignored_as_full :: bool where
  "non_bytes_unit_is_ignored_as_full \<longleftrightarrow> decided ''items=0-10'' 1000 = Full"

definition content_range_formatting :: bool where
  "content_range_formatting \<longleftrightarrow>
     content_range 0 499 1000 = str ''bytes 0-499/1000'' \<and> content_range 900 999 1000 = str ''bytes 900-999/1000'' \<and>
     unsatisfiable_content_range 1000 = str ''bytes */1000''"

text \<open>Trimming text that is solid, or solid but for one space at an end.\<close>

lemma trim_front [simp]: "trim (32 # s) = trim s"
proof -
  have "strip_any (filter (\<lambda>p. p \<noteq> []) whitespace_chars) (32 # s) = Some s" by (simp add: whitespace_chars_def)
  then have "trim_with whitespace_chars (32 # s) = trim_with whitespace_chars s" by (subst trim_with.simps) simp
  then show ?thesis by (simp add: trim_def)
qed

lemma trim_back:
  assumes "solid_byte (hd s)" "last s = 32" "butlast s \<noteq> []" "solid_byte (last (butlast s))"
  shows "trim s = butlast s"
proof -
  obtain t where s: "s = t @ [32]" "t \<noteq> []" using assms(2,3) by (cases s rule: rev_cases) auto
  have last: "solid_byte (last t)" using assms(4) s by simp
  have "trim_with whitespace_chars s = s"
    using trim_with_solid(1) [of "hd s" "tl s"] assms(1) s by (cases t) simp_all
  moreover have "strip_any (filter (\<lambda>p. p \<noteq> []) (map rev whitespace_chars)) (32 # rev t) = Some (rev t)"
    by (simp add: whitespace_chars_def)
  then have "trim_with (map rev whitespace_chars) (rev s) = trim_with (map rev whitespace_chars) (rev t)"
    by (simp add: s trim_with.simps [of _ "32 # rev t"])
  moreover have "trim_with (map rev whitespace_chars) (rev t) = rev t"
    using trim_with_solid(2) [of "last t" "rev (butlast t)"] last s(2) by (cases t rule: rev_cases) simp_all
  ultimately show ?thesis by (simp add: trim_def s)
qed

lemmas range_eval = parse_range_def parse_single_range_def trim_solid trim_back solid_byte_def
  parse_u64_def parse_uint_def is_ascii_digit_def min_def Let_def str_def word_le_nat_alt word_less_nat_alt

theorem range_tests_pass:
  "no_header_is_full" "zero_length_resource_is_unsatisfiable_for_ranges" "closed_range_clamps_end_to_eof"
  "open_ended_range_runs_to_eof" "suffix_range_takes_last_n_bytes" "whitespace_is_tolerated"
  by (simp_all add: no_header_is_full_def zero_length_resource_is_unsatisfiable_for_ranges_def
      closed_range_clamps_end_to_eof_def open_ended_range_runs_to_eof_def suffix_range_takes_last_n_bytes_def
      whitespace_is_tolerated_def range_eval)

theorem refused_range_tests_pass:
  "start_at_eof_is_unsatisfiable" "reversed_bounds_are_unsatisfiable" "zero_suffix_is_unsatisfiable"
  "malformed_values_are_unsatisfiable" "multiple_ranges_are_ignored_as_full" "non_bytes_unit_is_ignored_as_full"
  by (simp_all add: start_at_eof_is_unsatisfiable_def reversed_bounds_are_unsatisfiable_def
      zero_suffix_is_unsatisfiable_def malformed_values_are_unsatisfiable_def multiple_ranges_are_ignored_as_full_def
      non_bytes_unit_is_ignored_as_full_def range_eval)

theorem content_range_test_passes: "content_range_formatting"
  by (simp add: content_range_formatting_def content_range_def unsatisfiable_content_range_def fmt_u64_def show_nat.simps
      str_def)

section \<open>mime.rs\<close>

definition known_extensions_map_to_expected_mimes :: bool where
  "known_extensions_map_to_expected_mimes \<longleftrightarrow> list_all (\<lambda>(ext, mime). mime_for_extension ext = mime) MIME_TABLE"

definition unknown_extension_maps_to_octet_stream :: bool where
  "unknown_extension_maps_to_octet_stream \<longleftrightarrow>
     mime_for_extension (str ''xyz'') = DEFAULT_MIME \<and> mime_for_extension [] = DEFAULT_MIME"

definition extension_lookup_is_case_insensitive :: bool where
  "extension_lookup_is_case_insensitive \<longleftrightarrow>
     mime_for_extension (str ''MP4'') = str ''video/mp4'' \<and> mime_for_extension (str ''WebM'') = str ''video/webm'' \<and>
     mime_for_extension (str ''MKV'') = str ''video/x-matroska'' \<and> mime_for_extension (str ''FLAC'') = str ''audio/flac''"

definition path_without_extension_maps_to_octet_stream :: bool where
  "path_without_extension_maps_to_octet_stream \<longleftrightarrow>
     mime_for_path (str ''/media/video'') = DEFAULT_MIME \<and> mime_for_path (str ''file'') = DEFAULT_MIME"

definition path_uses_final_extension :: bool where
  "path_uses_final_extension \<longleftrightarrow>
     mime_for_path (str ''/media/clip.mov.mp4'') = str ''video/mp4'' \<and>
     mime_for_path (str ''dir.with.dots/file.mp3'') = str ''audio/mpeg''"

theorem mime_tests_pass:
  "known_extensions_map_to_expected_mimes" "unknown_extension_maps_to_octet_stream" "extension_lookup_is_case_insensitive"
  "path_without_extension_maps_to_octet_stream" "path_uses_final_extension"
  by (simp_all add: known_extensions_map_to_expected_mimes_def unknown_extension_maps_to_octet_stream_def
      extension_lookup_is_case_insensitive_def path_without_extension_maps_to_octet_stream_def
      path_uses_final_extension_def mime_for_path_def path_extension_def path_file_name_def mime_for_extension_def
      MIME_TABLE_def DEFAULT_MIME_def eq_ignore_ascii_case_def to_ascii_lowercase_def to_ascii_lowercase_byte_def str_def Let_def utf8_valid.simps(2)
      utf8_step_def utf8_width_def)

section \<open>lan\_ip.rs\<close>

definition an_iface :: "string \<Rightarrow> ipv4 \<Rightarrow> ipv4 \<Rightarrow> iface" where
  "an_iface name ip netmask = \<lparr>if_name = str name, if_ip = ip, if_netmask = netmask\<rparr>"

text \<open>Two interfaces, \<open>192.168.1.10/24\<close> and \<open>10.0.0.5/8\<close>.\<close>

definition two_interfaces :: "iface list" where
  "two_interfaces = [an_iface ''eth0'' 0xC0A8010A 0xFFFFFF00, an_iface ''wlan0'' 0x0A000005 0xFF000000]"

definition subnet_match_wins_over_default_route :: bool where
  "subnet_match_wins_over_default_route \<longleftrightarrow>
     select_lan_ip_from two_interfaces (Some 0x0A0000C8) (Some 0xC0A8010A) = Some (V4 0x0A000005)"

definition default_route_wins_without_subnet_match :: bool where
  "default_route_wins_without_subnet_match \<longleftrightarrow>
     select_lan_ip_from two_interfaces (Some 0xAC100309) (Some 0xC0A8010A) = Some (V4 0xC0A8010A)"

definition loopback_default_route_is_not_used_without_subnet_match :: bool where
  "loopback_default_route_is_not_used_without_subnet_match \<longleftrightarrow>
     select_lan_ip_from [an_iface ''eth0'' 0xC0A8010A 0xFFFFFF00] None (Some LOCALHOST) = None"

definition no_candidates_yields_none :: bool where
  "no_candidates_yields_none \<longleftrightarrow> select_lan_ip_from [] None None = None"

definition loopback_interface_is_not_a_candidate :: bool where
  "loopback_interface_is_not_a_candidate \<longleftrightarrow>
     select_lan_ip_from [an_iface ''lo'' LOCALHOST 0xFF000000] (Some LOCALHOST) None = None"

theorem lan_ip_tests_pass:
  "subnet_match_wins_over_default_route" "default_route_wins_without_subnet_match"
  "loopback_default_route_is_not_used_without_subnet_match" "no_candidates_yields_none"
  "loopback_interface_is_not_a_candidate"
  by (simp_all add: subnet_match_wins_over_default_route_def default_route_wins_without_subnet_match_def
      loopback_default_route_is_not_used_without_subnet_match_def no_candidates_yields_none_def
      loopback_interface_is_not_a_candidate_def select_lan_ip_from_def two_interfaces_def an_iface_def is_loopback_def
      iface_contains_def ipv4_netmask_def LOCALHOST_def Let_def)

section \<open>xtask/forbid\_unsafe.rs\<close>

definition BAD_LINE :: rstring where
  "BAD_LINE = str ''fn f() { '' @ TOKEN @ str '' { } }'' @ [10]"

definition FIXTURE_ATTR :: rstring where
  "FIXTURE_ATTR = str ''#![forbid('' @ TOKEN @ str ''_code)]''"

definition ESCAPED_TOKEN :: rstring where
  "ESCAPED_TOKEN = str ''const T: &str = '' @ [34] @ str ''uns'' @ [92] @ str ''x61fe'' @ [34] @ str '';'' @ [10]"

text \<open>A temporary directory with the given entries, scanned under its parent.\<close>

definition scan_dir_of :: "fs_node list \<Rightarrow> rstring list" where
  "scan_dir_of entries = scan_dir (str ''/tmp'') (FsDir (str ''scan'') None entries)"

definition source_file :: "string \<Rightarrow> rstring \<Rightarrow> fs_node" where
  "source_file name content = FsFile (str name) (Inr content)"

definition clean_tree_produces_no_violations :: bool where
  "clean_tree_produces_no_violations \<longleftrightarrow>
     scan_dir_of [source_file ''lib.rs'' (str ''//! doc'' @ [10] @ FIXTURE_ATTR @ [10] @ str ''pub fn f() {}'' @ [10]),
       source_file ''module.rs'' (str ''pub const N: usize = 1;'' @ [10]),
       FsDir (str ''nested'') None [source_file ''other.rs'' (str ''fn g() {}'' @ [10])]] = []"

definition forbidden_keyword_line_is_reported_with_location :: bool where
  "forbidden_keyword_line_is_reported_with_location \<longleftrightarrow>
     (case scan_dir_of [source_file ''bad.rs'' BAD_LINE] of
        [v] \<Rightarrow> contains_sub (str ''bad.rs:1:'') v | _ \<Rightarrow> False)"

definition forbidden_keyword_in_nested_file_is_reported :: bool where
  "forbidden_keyword_in_nested_file_is_reported \<longleftrightarrow>
     (case scan_dir_of [FsDir (str ''deep'') None [FsDir (str ''dir'') None [source_file ''bad.rs'' BAD_LINE]]] of
        [v] \<Rightarrow> contains_sub (str ''bad.rs:1:'') v | _ \<Rightarrow> False)"

definition mandated_attribute_is_skipped_even_when_indented :: bool where
  "mandated_attribute_is_skipped_even_when_indented \<longleftrightarrow>
     scan_dir_of [source_file ''lib.rs'' (str ''    '' @ FIXTURE_ATTR @ [10])] = []"

definition non_rs_files_are_ignored :: bool where
  "non_rs_files_are_ignored \<longleftrightarrow>
     scan_dir_of [source_file ''notes.txt'' (str ''contains the forbidden keyword'' @ [10]),
       source_file ''data.rs.bak'' BAD_LINE] = []"

definition escaped_keyword_spelling_is_not_reported :: bool where
  "escaped_keyword_spelling_is_not_reported \<longleftrightarrow> scan_dir_of [source_file ''scanner.rs'' ESCAPED_TOKEN] = []"

definition missing_dir_is_reported_as_violation :: "rstring \<Rightarrow> bool" where
  "missing_dir_is_reported_as_violation err \<longleftrightarrow>
     (case scan_dir (str ''/tmp/scan'') (FsDir (str ''does-not-exist'') (Some err) []) of
        [v] \<Rightarrow> contains_sub (str ''cannot read'') v | _ \<Rightarrow> False)"

lemma rs_extension: "path_extension (str ''lib.rs'') = Some (str ''rs'')" "path_extension (str ''module.rs'') = Some (str ''rs'')"
  "path_extension (str ''other.rs'') = Some (str ''rs'')" "path_extension (str ''bad.rs'') = Some (str ''rs'')"
  "path_extension (str ''scanner.rs'') = Some (str ''rs'')" "path_extension (str ''notes.txt'') = Some (str ''txt'')"
  "path_extension (str ''data.rs.bak'') = Some (str ''bak'')" "str ''txt'' \<noteq> str ''rs''" "str ''bak'' \<noteq> str ''rs''"
  by (simp_all add: path_extension_def path_file_name_def Let_def str_def)

lemma bad_lines: "str_lines BAD_LINE = [str ''fn f() { '' @ TOKEN @ str '' { } }'']"
  by (simp add: str_lines_def BAD_LINE_def TOKEN_def chomp_cr_def Let_def str_def)

lemma bad_line_violates: "line_violates (str ''fn f() { '' @ TOKEN @ str '' { } }'')"
  by (simp add: line_violates_def TOKEN_def ALLOWED_ATTR_def trim_solid solid_byte_def str_def word_le_nat_alt)

lemma attribute_allowed: "\<not> line_violates FIXTURE_ATTR" "\<not> line_violates (str ''    '' @ FIXTURE_ATTR)"
  by (simp_all add: line_violates_def FIXTURE_ATTR_def TOKEN_def ALLOWED_ATTR_def trim_solid solid_byte_def str_def
      word_le_nat_alt)

lemma no_token: "\<not> contains_sub TOKEN l \<Longrightarrow> \<not> line_violates l"
  by (simp add: line_violates_def)

lemma scan_one_bad: "scan_content path BAD_LINE = [path @ str '':1: fn f() { '' @ TOKEN @ str '' { } }'']"
  using bad_line_violates by (simp add: scan_content_def bad_lines show_nat.simps, simp add: str_def)

lemma scan_clean: "list_all (\<lambda>l. \<not> line_violates l) (str_lines content) \<Longrightarrow> scan_content path content = []"
  by (simp add: scan_content_Nil)

theorem forbid_unsafe_tests_pass:
  "forbidden_keyword_line_is_reported_with_location" "forbidden_keyword_in_nested_file_is_reported"
  "non_rs_files_are_ignored" "missing_dir_is_reported_as_violation err"
proof -
  have c: "contains_sub (str ''bad.rs:1:'') (xs @ str ''/bad.rs'' @ str '':1: fn f() { '' @ ys)" for xs ys
  proof -
    have "xs @ str ''/bad.rs'' @ str '':1: fn f() { '' @ ys = (xs @ str ''/'') @ str ''bad.rs:1:'' @ str '' fn f() { '' @ ys"
      by (simp add: str_def)
    then show ?thesis unfolding contains_sub_iff by (metis sublist_appendI)
  qed
  show "forbidden_keyword_line_is_reported_with_location" "forbidden_keyword_in_nested_file_is_reported"
    using c by (simp_all add: forbidden_keyword_line_is_reported_with_location_def
        forbidden_keyword_in_nested_file_is_reported_def scan_dir_of_def source_file_def scan_file_def
        scan_one_bad str_def path_extension_def path_file_name_def Let_def)
  show "non_rs_files_are_ignored"
    by (simp add: non_rs_files_are_ignored_def scan_dir_of_def source_file_def rs_extension)
  show "missing_dir_is_reported_as_violation err"
    by (simp add: missing_dir_is_reported_as_violation_def str_def)
qed

theorem clean_source_tests_pass:
  "clean_tree_produces_no_violations" "mandated_attribute_is_skipped_even_when_indented"
  "escaped_keyword_spelling_is_not_reported"
proof -
  have lib: "str_lines (str ''//! doc'' @ [10] @ FIXTURE_ATTR @ [10] @ str ''pub fn f() {}'' @ [10]) =
      [str ''//! doc'', FIXTURE_ATTR, str ''pub fn f() {}'']"
    by (simp add: str_lines_def FIXTURE_ATTR_def TOKEN_def chomp_cr_def Let_def str_def)
  have lines1: "str_lines (str ''pub const N: usize = 1;'' @ [10]) = [str ''pub const N: usize = 1;'']"
    and lines2: "str_lines (str ''fn g() {}'' @ [10]) = [str ''fn g() {}'']"
    by (simp_all add: str_lines_def chomp_cr_def Let_def str_def)
  have indented: "str_lines (str ''    '' @ FIXTURE_ATTR @ [10]) = [str ''    '' @ FIXTURE_ATTR]"
    by (simp add: str_lines_def FIXTURE_ATTR_def TOKEN_def chomp_cr_def Let_def str_def)
  have free: "\<not> line_violates (str ''//! doc'')" "\<not> line_violates (str ''pub fn f() {}'')"
    "\<not> line_violates (str ''pub const N: usize = 1;'')" "\<not> line_violates (str ''fn g() {}'')"
    by (simp_all add: no_token TOKEN_def str_def)
  show "clean_tree_produces_no_violations"
    by (simp add: clean_tree_produces_no_violations_def scan_dir_of_def source_file_def rs_extension scan_file_def
        scan_clean lib [simplified] lines1 lines2 free attribute_allowed)
  show "mandated_attribute_is_skipped_even_when_indented"
    by (simp add: mandated_attribute_is_skipped_even_when_indented_def scan_dir_of_def source_file_def rs_extension
        scan_file_def scan_clean indented attribute_allowed)
  have "str_lines ESCAPED_TOKEN = [butlast ESCAPED_TOKEN]"
    by (simp add: str_lines_def ESCAPED_TOKEN_def chomp_cr_def Let_def str_def)
  moreover have "\<not> line_violates (butlast ESCAPED_TOKEN)"
    by (simp add: no_token TOKEN_def ESCAPED_TOKEN_def str_def)
  ultimately show "escaped_keyword_spelling_is_not_reported"
    by (simp add: escaped_keyword_spelling_is_not_reported_def scan_dir_of_def source_file_def rs_extension
        scan_file_def scan_clean)
qed

section \<open>namespaces.rs\<close>

text \<open>A JSON library on trees; its parser and printer stay parameters.\<close>

datatype json = JNull | JBool bool | JNumber u32 | JText rstring | JArray "json list" | JObject "(rstring \<times> json) list"

definition tree_api :: "(rstring \<Rightarrow> json option) \<Rightarrow> (json \<Rightarrow> rstring) \<Rightarrow> json json_api" where
  "tree_api from_str to_str =
     \<lparr>j_from_str = from_str, j_to_string = to_str,
      j_get = (\<lambda>v k. case v of JObject es \<Rightarrow> map_of es k | _ \<Rightarrow> None),
      j_is_object = (\<lambda>v. case v of JObject es \<Rightarrow> True | _ \<Rightarrow> False),
      j_as_str = (\<lambda>v. case v of JText s \<Rightarrow> Some s | _ \<Rightarrow> None),
      j_as_u64 = (\<lambda>v. case v of JNumber n \<Rightarrow> Some (ucast n) | _ \<Rightarrow> None),
      j_as_f32 = (\<lambda>v. case v of JNumber n \<Rightarrow> Some n | _ \<Rightarrow> None),
      j_as_bool = (\<lambda>v. case v of JBool b \<Rightarrow> Some b | _ \<Rightarrow> None),
      j_as_array = (\<lambda>v. case v of JArray vs \<Rightarrow> Some vs | _ \<Rightarrow> None),
      j_object = JObject, j_str = JText, j_u32 = JNumber, j_f32 = JNumber, j_bool = JBool\<rparr>"

definition stream_type_wire_values :: bool where
  "stream_type_wire_values \<longleftrightarrow> stream_type_as_str Buffered = str ''BUFFERED'' \<and> stream_type_as_str Live = str ''LIVE''"

text \<open>The numbers are the encodings of \<open>1.5\<close>, \<open>-0.5\<close>, a NaN and infinity, and of the levels \<open>1.0\<close> and
  \<open>0.0\<close> the printed message must hold.\<close>

definition set_volume_clamps_and_rejects_non_finite_levels :: "'v json_api \<Rightarrow> bool" where
  "set_volume_clamps_and_rejects_non_finite_levels js \<longleftrightarrow>
     (let message = (\<lambda>level muted. typed js ''SET_VOLUME'' [(str ''requestId'', j_u32 js 1),
            (str ''volume'', j_object js [(str ''level'', j_f32 js level), (str ''muted'', j_bool js muted)])]) in
      set_volume js 1 0x3FC00000 False = message 0x3F800000 False \<and> set_volume js 1 0xBF000000 False = message 0 False \<and>
      set_volume js 1 0x7FC00000 True = message 0 True \<and> set_volume js 1 0x7F800000 False = message 0 False)"

definition media_destination_is_transport_prefixed :: bool where
  "media_destination_is_transport_prefixed \<longleftrightarrow> media_destination_id (str ''abc-123'') = str ''transport-abc-123''"

definition quoted :: "(string \<times> json) list \<Rightarrow> json" where
  "quoted fs = JObject (map (\<lambda>(k, v). (str k, v)) fs)"

text \<open>The payloads of the tests and what a JSON parser makes of them.\<close>

definition test_payloads :: "(string \<times> json) list" where
  "test_payloads =
     [(''{\"type\":\"PONG\"}'', quoted [(''type'', JText (str ''PONG''))]),
      (''{\"type\":\"PONG\",\"requestId\":0}'', quoted [(''type'', JText (str ''PONG'')), (''requestId'', JNumber 0)]),
      (''{\"type\":\"PING\"}'', quoted [(''type'', JText (str ''PING''))]),
      (''{\"type\":\"RECEIVER_STATUS\",\"status\":{\"applications\":[],\"volume\":{}}}'',
        quoted [(''type'', JText (str ''RECEIVER_STATUS'')),
          (''status'', quoted [(''applications'', JArray []), (''volume'', quoted [])])]),
      (''{\"type\":\"LAUNCH\",\"requestId\":1}'', quoted [(''type'', JText (str ''LAUNCH'')), (''requestId'', JNumber 1)]),
      (''{\"type\":\"RECEIVER_STATUS\"}'', quoted [(''type'', JText (str ''RECEIVER_STATUS''))]),
      (''{\"type\":\"MEDIA_STATUS\",\"status\":[]}'', quoted [(''type'', JText (str ''MEDIA_STATUS'')), (''status'', JArray [])]),
      (''{\"type\":\"MEDIA_STATUS\",\"status\":[{\"playerState\":\"SOMETHING_NEW\",\"idleReason\":null}]}'',
        quoted [(''type'', JText (str ''MEDIA_STATUS'')),
          (''status'', JArray [quoted [(''playerState'', JText (str ''SOMETHING_NEW'')), (''idleReason'', JNull)]])])]"

definition reads_test_payloads :: "(rstring \<Rightarrow> json option) \<Rightarrow> bool" where
  "reads_test_payloads from_str \<longleftrightarrow>
     list_all (\<lambda>(text, v). from_str (str text) = Some v) test_payloads \<and>
     from_str (str ''not json'') = None \<and> from_str (str ''garbage'') = None"

definition ping_is_detected :: "'v json_api \<Rightarrow> bool" where
  "ping_is_detected js \<longleftrightarrow>
     is_pong js (str ''{\"type\":\"PONG\"}'') \<and> is_pong js (str ''{\"type\":\"PONG\",\"requestId\":0}'') \<and>
     \<not> is_pong js (str ''{\"type\":\"PING\"}'') \<and> \<not> is_pong js (str ''not json'')"

definition receiver_status_defaults_volume_when_empty :: "'v json_api \<Rightarrow> bool" where
  "receiver_status_defaults_volume_when_empty js \<longleftrightarrow>
     parse_receiver_status js (str ''{\"type\":\"RECEIVER_STATUS\",\"status\":{\"applications\":[],\"volume\":{}}}'') =
       Some \<lparr>rs_transport_id = None, rs_session_id = None, rs_volume = Some \<lparr>vi_level = F32_ONE, vi_muted = False\<rparr>\<rparr>"

definition non_status_payloads_parse_to_none :: "'v json_api \<Rightarrow> bool" where
  "non_status_payloads_parse_to_none js \<longleftrightarrow>
     parse_receiver_status js (str ''{\"type\":\"LAUNCH\",\"requestId\":1}'') = None \<and>
     parse_receiver_status js (str ''garbage'') = None \<and>
     parse_media_status js (str ''{\"type\":\"RECEIVER_STATUS\"}'') = None \<and>
     parse_media_status js (str ''{\"type\":\"MEDIA_STATUS\",\"status\":[]}'') = None"

definition unknown_player_state_is_preserved :: "'v json_api \<Rightarrow> bool" where
  "unknown_player_state_is_preserved js \<longleftrightarrow>
     parse_media_status js (str ''{\"type\":\"MEDIA_STATUS\",\"status\":[{\"playerState\":\"SOMETHING_NEW\",\"idleReason\":null}]}'') =
       Some \<lparr>mi_player_state = OtherState (str ''SOMETHING_NEW''), mi_idle_reason = None\<rparr>"

theorem namespaces_tests_pass:
  "stream_type_wire_values" "set_volume_clamps_and_rejects_non_finite_levels js" "media_destination_is_transport_prefixed"
  by (simp_all add: stream_type_wire_values_def set_volume_clamps_and_rejects_non_finite_levels_def
      media_destination_is_transport_prefixed_def media_destination_id_def is_uuid_transport_id_def set_volume_def
      volume_level_def f32_is_finite_def f32_clamp_unit_def F32_NEG_ZERO_def F32_ONE_def Let_def str_def)

theorem namespaces_parser_tests_pass:
  assumes "reads_test_payloads from_str"
  shows "ping_is_detected (tree_api from_str to_str)" "receiver_status_defaults_volume_when_empty (tree_api from_str to_str)"
    "non_status_payloads_parse_to_none (tree_api from_str to_str)"
    "unknown_player_state_is_preserved (tree_api from_str to_str)"
proof -
  have keys: "str ''status'' \<noteq> str ''type''" "str ''volume'' \<noteq> str ''applications''" "str ''idleReason'' \<noteq> str ''playerState''"
    "str ''requestId'' \<noteq> str ''type''" "str ''PING'' \<noteq> str ''PONG''" "str ''LAUNCH'' \<noteq> str ''RECEIVER_STATUS''"
    "str ''RECEIVER_STATUS'' \<noteq> str ''MEDIA_STATUS''"
    "str ''SOMETHING_NEW'' \<notin> {str ''IDLE'', str ''PLAYING'', str ''PAUSED'', str ''BUFFERING''}"
    by (simp_all add: str_def)
  note facts = assms [unfolded reads_test_payloads_def test_payloads_def list.pred_inject prod.case]
  show "ping_is_detected (tree_api from_str to_str)" "receiver_status_defaults_volume_when_empty (tree_api from_str to_str)"
    "non_status_payloads_parse_to_none (tree_api from_str to_str)"
    "unknown_player_state_is_preserved (tree_api from_str to_str)"
    using facts keys
    by (auto simp: ping_is_detected_def receiver_status_defaults_volume_when_empty_def
        non_status_payloads_parse_to_none_def unknown_player_state_is_preserved_def is_pong_def get_str_def
        parse_receiver_status_def parse_media_status_def status_volume_def status_application_def as_object_def
        player_state_parse_def tree_api_def quoted_def Let_def)
qed

end
