(* ===== verification/Unit_Tests_Screen.thy ===== *)
theory Unit_Tests_Screen
  imports Screen_Output Screen_Capture
begin

text \<open>
  The unit tests of the screen pipeline's stages (\<open>segments.rs\<close>, \<open>bridge/stdout_reader.rs\<close>,
  \<open>bridge/forwarder.rs\<close>, \<open>bridge/capture_link.rs\<close>, \<open>bgra_rgba.rs\<close> under \<open>src/src/screen\<close>) as
  statements over their models, one definition per test and named after it, with the proofs that the
  models pass. A helper of a test module keeps its name.
\<close>

section \<open>segments.rs: helpers\<close>

definition boxed :: "rstring \<Rightarrow> bytes \<Rightarrow> bytes" where
  "boxed kind payload = u32_to_be_bytes (of_nat (8 + length payload)) @ kind @ payload"

definition marker_payload :: "nat \<Rightarrow> bytes" where
  "marker_payload i = concat (replicate 16 (u32_to_be_bytes (of_nat i)))"

definition fmp4_fragment :: "nat \<Rightarrow> bytes" where
  "fmp4_fragment i = boxed (str ''moof'') (replicate 16 0x22) @ boxed (str ''mdat'') (marker_payload i)"

definition fmp4_head :: bytes where
  "fmp4_head = boxed (str ''ftyp'') (str ''isom'' @ [0, 0, 0, 0] @ str ''isom'') @ boxed (str ''moov'') (replicate 32 0x11)"

definition fmp4_stream :: "nat \<Rightarrow> bytes" where
  "fmp4_stream fragments = fmp4_head @ concat (map fmp4_fragment [0 ..< fragments])"

function pieces :: "nat \<Rightarrow> bytes \<Rightarrow> bytes list" where
  "pieces n bs = (if bs = [] then [] else take (max 1 n) bs # pieces n (drop (max 1 n) bs))"
  by pat_completeness auto
termination
  by (relation "measure (\<lambda>(n, bs). length bs)") auto

declare pieces.simps [simp del]

definition feed_and_finish :: "nat \<Rightarrow> bytes \<Rightarrow> encoded_segment list" where
  "feed_and_finish n stream =
     (case feed_all segmenter_new (pieces n stream) of (s, out) \<Rightarrow> out @ snd (finish s))"

section \<open>segments.rs: tests\<close>

fun ends_with_marked_mdat :: "nat \<Rightarrow> encoded_segment \<Rightarrow> bool" where
  "ends_with_marked_mdat i (Init bytes) \<longleftrightarrow> False"
| "ends_with_marked_mdat i (Fragment fragment) \<longleftrightarrow>
     take 8 fragment = [0, 0, 0, 0x18] @ str ''moof'' \<and>
     (let mdat_type = length fragment - (8 + 64) in take 4 (drop (mdat_type + 4) fragment) = str ''mdat'') \<and>
     drop (length fragment - 64) fragment = marker_payload i"

definition segments_a_real_fmp4_stream :: bool where
  "segments_a_real_fmp4_stream \<longleftrightarrow>
     (let segments = feed_and_finish 7 (fmp4_stream 3); i = hd segments in
      length segments = 4 \<and> is_init i \<and> prefix ([0, 0, 0, 0x14] @ str ''ftyp'') (seg_bytes i) \<and>
      sublist (str ''moov'') (seg_bytes i) \<and>
      list_all (\<lambda>(i, segment). ends_with_marked_mdat i segment) (enumerate 0 (drop 1 segments)) \<and>
      feed_and_finish 7 (fmp4_stream 3) = segments)"

definition init_contains_every_box_before_the_first_moof :: bool where
  "init_contains_every_box_before_the_first_moof \<longleftrightarrow>
     (let stream = boxed (str ''ftyp'') (str ''isom'') @ boxed (str ''free'') (replicate 8 0) @
            boxed (str ''moov'') (replicate 24 0x33) @ boxed (str ''moof'') (replicate 8 0) @ boxed (str ''mdat'') (replicate 8 0);
          segments = feed_and_finish 7 stream; i = seg_bytes (hd segments) in
      length segments = 2 \<and> sublist (str ''ftyp'') i \<and> sublist (str ''free'') i \<and> sublist (str ''moov'') i)"

definition boxes_between_moof_and_mdat_belong_to_the_fragment :: bool where
  "boxes_between_moof_and_mdat_belong_to_the_fragment \<longleftrightarrow>
     (let stream = boxed (str ''ftyp'') (str ''isom'') @ boxed (str ''moov'') (replicate 8 0) @
            boxed (str ''moof'') (replicate 8 0) @ boxed (str ''prft'') (replicate 12 0x44) @ boxed (str ''mdat'') (replicate 16 0x55);
          segments = feed_and_finish 7 stream in
      length segments = 2 \<and>
      (case segments ! 1 of
         Init _ \<Rightarrow> False
       | Fragment fragment \<Rightarrow>
           take 8 fragment = [0, 0, 0, 0x10] @ str ''moof'' \<and> sublist (str ''prft'') fragment \<and> sublist (str ''mdat'') fragment))"

definition fragments_split_across_chunk_boundaries :: bool where
  "fragments_split_across_chunk_boundaries \<longleftrightarrow>
     (let out = feed_and_finish 1 (fmp4_stream 2) in length out = 3 \<and> out = feed_and_finish 7 (fmp4_stream 2))"

definition truncated_fragment_tail_is_dropped_at_eof :: bool where
  "truncated_fragment_tail_is_dropped_at_eof \<longleftrightarrow>
     (let stream = fmp4_stream 2; out = feed_and_finish 31 (take (length stream - 10) stream); whole = feed_and_finish 7 stream in
      length out = 2 \<and> length whole = 3 \<and> out = take 2 whole)"

definition stream_ending_before_any_moof_is_one_init :: bool where
  "stream_ending_before_any_moof_is_one_init \<longleftrightarrow>
     (let stream = boxed (str ''ftyp'') (str ''isom'') @ boxed (str ''moov'') (replicate 16 0);
          segments = feed_and_finish 7 stream in
      length segments = 1 \<and> is_init (hd segments) \<and> seg_bytes (hd segments) = stream)"

definition empty_stream_yields_no_segments :: bool where
  "empty_stream_yields_no_segments \<longleftrightarrow> feed_and_finish 7 [] = []"

definition opaque_fallback_for_non_box_output :: bool where
  "opaque_fallback_for_non_box_output \<longleftrightarrow>
     (case feed segmenter_new (replicate 64 0) of (s1, first) \<Rightarrow>
      case feed s1 (replicate 64 0xAB) of (s2, second) \<Rightarrow>
        first = [] \<and> second = [Fragment (replicate 64 0xAB)] \<and> snd (finish s2) = [])"

definition oversized_box_triggers_the_opaque_fallback :: bool where
  "oversized_box_triggers_the_opaque_fallback \<longleftrightarrow>
     (let stream = u32_to_be_bytes (of_nat MAX_BOX_BYTES + 1) @ str ''mdat'' @ replicate 8 0 in
      case feed segmenter_new stream of (s1, none) \<Rightarrow>
      case feed s1 (replicate 64 0) of (s2, first) \<Rightarrow>
        none = [] \<and> first @ snd (feed s2 (replicate 64 0xAA)) = [Fragment (replicate 64 0), Fragment (replicate 64 0xAA)])"

definition u64_to_be_bytes :: "u64 \<Rightarrow> bytes" where
  "u64_to_be_bytes n = u32_to_be_bytes (ucast (drop_bit 32 n)) @ u32_to_be_bytes (ucast n)"

definition largesize_boxes_are_parsed :: bool where
  "largesize_boxes_are_parsed \<longleftrightarrow>
     (let stream = u32_to_be_bytes 1 @ str ''mdat'' @ u64_to_be_bytes (16 + 24) @ replicate 24 0x66 @
            boxed (str ''moof'') (replicate 8 0) @ boxed (str ''mdat'') (replicate 8 0x77) in
      case feed_and_finish 5 stream of
        [Init i, Fragment fragment] \<Rightarrow>
          sublist (str ''mdat'') i \<and> suffix (replicate 24 0x66) i \<and>
          take 8 fragment = [0, 0, 0, 0x10] @ str ''moof'' \<and> suffix (replicate 8 0x77) fragment
      | _ \<Rightarrow> False)"

definition invalid_header_size_triggers_the_opaque_fallback :: bool where
  "invalid_header_size_triggers_the_opaque_fallback \<longleftrightarrow>
     (let stream = u32_to_be_bytes 3 @ str ''moof'' @ boxed (str ''mdat'') (replicate 8 0) in
      case feed segmenter_new stream of (s1, none) \<Rightarrow>
        none = [] \<and> snd (feed s1 (replicate 16 0x12)) = [Fragment (replicate 16 0x12)])"

definition segment_accessors :: bool where
  "segment_accessors \<longleftrightarrow>
     seg_bytes (Init [1, 2, 3]) = [1, 2, 3] \<and> length (seg_bytes (Init [1, 2, 3])) = 3 \<and>
     seg_bytes (Init [1, 2, 3]) \<noteq> [] \<and> seg_bytes (Fragment []) = []"

subsection \<open>They pass\<close>

lemma concat_pieces [simp]: "concat (pieces n bs) = bs"
  by (induction n bs rule: pieces.induct) (subst pieces.simps, simp)

lemma boxed_complete:
  assumes "length kind = 4" "length payload < 1000"
  shows "complete_box (boxed kind payload)"
proof -
  have "unat (of_nat (8 + length payload) :: u32) = 8 + length payload"
    using assms(2) by (simp add: unat_of_nat take_bit_nat_eq_self del: of_nat_add)
  moreover from this have "(of_nat (8 + length payload) :: u32) \<noteq> 0" "(of_nat (8 + length payload) :: u32) \<noteq> 1"
    "\<not> (of_nat (8 + length payload) :: u32) < 8"
    by (auto simp: word_unat_eq_iff word_less_nat_alt simp del: of_nat_add)
  ultimately show ?thesis
    using assms by (simp add: complete_box_def box_head_def boxed_def Let_def MAX_BOX_BYTES_def del: of_nat_add)
qed

lemma boxed_kind: "length kind = 4 \<Longrightarrow> box_kind (boxed kind payload) = kind"
  by (simp add: box_kind_def boxed_def)

lemma boxed_not_Nil [simp]: "boxed kind payload \<noteq> []"
  by (simp add: boxed_def u32_to_be_bytes_def)

lemma kinds [simp]: "length (str ''ftyp'') = 4" "length (str ''free'') = 4" "length (str ''moov'') = 4"
  "length (str ''moof'') = 4" "length (str ''prft'') = 4" "length (str ''mdat'') = 4"
  "length (str ''isom'') = 4"
  by (simp_all add: str_def)

lemma finish_streamed: "finish (segmenter_new\<lparr>sg_pending := rest, sg_init_emitted := True\<rparr>) =
    (segmenter_new\<lparr>sg_pending := rest, sg_init_emitted := True\<rparr>, [])"
  by (simp add: finish_def segmenter_new_def)

lemma feed_and_finish_stream:
  assumes "list_all complete_box inits" "list_all (\<lambda>b. box_kind b \<noteq> str ''moof'') inits"
    and "concat inits \<noteq> []" "list_all wf_fragment fs" "fs \<noteq> []" "box_head rest = NeedMore"
    and "stream = concat inits @ concat (concat (map fragment_boxes fs)) @ rest"
  shows "feed_and_finish n stream = Init (concat inits) # map (\<lambda>f. Fragment (concat (fragment_boxes f))) fs"
  using feed_all_stream [OF assms(1-6), of "pieces n stream"] assms(7)
  by (simp add: feed_and_finish_def finish_streamed)

lemma take_boxes_keeps:
  "sg_pending (fst (take_boxes bs s)) = sg_pending s \<and> sg_opaque (fst (take_boxes bs s)) = sg_opaque s"
proof (induction bs arbitrary: s)
  case (Cons b bs)
  then show ?case
    using sg_pending_take_box [of b s "[]"] opaque_take_box [of b s "[]"]
    by (cases "take_box b s []") simp
qed simp

lemma feed_all_boxes:
  assumes "list_all complete_box bs" "box_head rest = NeedMore" "concat chunks = concat bs @ rest"
  shows "feed_all segmenter_new chunks = take_boxes bs (segmenter_new\<lparr>sg_pending := rest\<rparr>)"
proof -
  obtain s1 o1 where t: "take_boxes bs (segmenter_new\<lparr>sg_pending := rest\<rparr>) = (s1, o1)" by fastforce
  then have s1: "sg_pending s1 = rest" "\<not> sg_opaque s1"
    using take_boxes_keeps [of bs "segmenter_new\<lparr>sg_pending := rest\<rparr>"] by (simp_all add: segmenter_new_def)
  have "feed segmenter_new (concat chunks) = feed_loop (segmenter_new\<lparr>sg_pending := concat bs @ rest\<rparr>) []"
    by (simp add: feed_def segmenter_new_def assms(3))
  also have "\<dots> = (s1, o1)"
    using assms(2) s1 by (subst feed_loop_boxes [OF assms(1)]) (simp add: t feed_loop.simps)
  finally have f: "feed segmenter_new (concat chunks) = (s1, o1)" .
  have "feed_all segmenter_new chunks = feed segmenter_new (concat chunks)"
    using f s1(2) by (intro feed_all_concat) (simp_all, simp add: segmenter_new_def)
  with f t show ?thesis by simp
qed

lemma fmp4_fragment_boxes:
  "fmp4_fragment i = concat (fragment_boxes (boxed (str ''moof'') (replicate 16 0x22), [], boxed (str ''mdat'') (marker_payload i)))"
  by (simp add: fmp4_fragment_def fragment_boxes_def)

lemma length_marker_payload [simp]: "length (marker_payload i) = 64"
  by (simp add: marker_payload_def length_concat sum_list_replicate)

lemma moof_kinds [simp]: "str ''ftyp'' \<noteq> str ''moof''" "str ''free'' \<noteq> str ''moof''" "str ''moov'' \<noteq> str ''moof''"
  "str ''prft'' \<noteq> str ''moof''" "str ''prft'' \<noteq> str ''mdat''"
  by (simp_all add: str_def)

lemma boxed_fragment:
  assumes "length moof < 1000" "length mdat < 1000"
  shows "wf_fragment (boxed (str ''moof'') moof, [], boxed (str ''mdat'') mdat)"
  using assms by (simp add: wf_fragment_def fragment_boxes_def boxed_complete boxed_kind)

lemma concat_twice: "concat (concat xss) = concat (map concat xss)"
  by (induction xss) auto

lemma fmp4_segments:
  assumes "0 < k"
  shows "feed_and_finish n (fmp4_stream k) = Init fmp4_head # map (\<lambda>i. Fragment (fmp4_fragment i)) [0 ..< k]"
proof -
  let ?inits = "[boxed (str ''ftyp'') (str ''isom'' @ [0, 0, 0, 0] @ str ''isom''), boxed (str ''moov'') (replicate 32 0x11)]"
  let ?fs = "map (\<lambda>i. (boxed (str ''moof'') (replicate 16 0x22), [], boxed (str ''mdat'') (marker_payload i))) [0 ..< k]"
  have "list_all complete_box ?inits" by (simp add: boxed_complete)
  moreover have "list_all wf_fragment ?fs" by (simp add: list_all_iff boxed_fragment)
  moreover have "fmp4_stream k = concat ?inits @ concat (concat (map fragment_boxes ?fs)) @ []"
    by (simp add: fmp4_stream_def fmp4_head_def fmp4_fragment_boxes [abs_def] concat_twice comp_def)
  ultimately have "feed_and_finish n (fmp4_stream k) =
      Init (concat ?inits) # map (\<lambda>f. Fragment (concat (fragment_boxes f))) ?fs"
    using assms by (intro feed_and_finish_stream [where rest = "[]"]) (simp_all add: boxed_kind box_head_def)
  then show ?thesis by (simp add: fmp4_head_def fmp4_fragment_boxes comp_def)
qed

lemma sublist_boxed: "sublist kind (xs @ boxed kind payload @ ys)"
proof -
  have "xs @ boxed kind payload @ ys = (xs @ u32_to_be_bytes (of_nat (8 + length payload))) @ kind @ (payload @ ys)"
    by (simp add: boxed_def)
  then show ?thesis by (metis sublist_appendI)
qed

lemmas sublist_boxed' [simp] = sublist_boxed [of _ "[]", simplified] sublist_boxed [of _ "[]" _ "[]", simplified]
  sublist_boxed [of _ _ _ "[]", simplified] sublist_boxed

lemma sublist_third [simp]: "sublist kind (xs @ ys @ boxed kind payload)"
  using sublist_boxed [of kind "xs @ ys" payload "[]"] by simp

lemma length_boxed [simp]: "length kind = 4 \<Longrightarrow> length (boxed kind payload) = 8 + length payload"
  by (simp add: boxed_def)

lemma marked: "ends_with_marked_mdat i (Fragment (fmp4_fragment i))"
proof -
  have "fmp4_fragment i = ([0, 0, 0, 0x18] @ str ''moof'' @ replicate 16 0x22 @ [0, 0, 0, 72]) @ str ''mdat'' @ marker_payload i"
    by (simp add: fmp4_fragment_def boxed_def u32_to_be_bytes_def str_def)
  then show ?thesis by (simp add: Let_def str_def)
qed

theorem segments_tests_pass:
  "segments_a_real_fmp4_stream" "fragments_split_across_chunk_boundaries"
  "empty_stream_yields_no_segments" "segment_accessors"
proof -
  have "prefix ([0, 0, 0, 0x14] @ str ''ftyp'') fmp4_head"
    by (simp add: fmp4_head_def boxed_def u32_to_be_bytes_def str_def)
  moreover have "sublist (str ''moov'') fmp4_head" by (simp add: fmp4_head_def)
  moreover have "[0 ..< 3] = [0, 1, 2 :: nat]" by (simp add: upt_rec)
  ultimately show "segments_a_real_fmp4_stream"
    using marked by (simp add: segments_a_real_fmp4_stream_def fmp4_segments Let_def numeral_2_eq_2 del: ends_with_marked_mdat.simps)
  show "fragments_split_across_chunk_boundaries"
    by (simp add: fragments_split_across_chunk_boundaries_def fmp4_segments Let_def)
  show "empty_stream_yields_no_segments" "segment_accessors"
    by (simp_all add: empty_stream_yields_no_segments_def segment_accessors_def feed_and_finish_def pieces.simps
        finish_def segmenter_new_def)
qed

theorem init_boxes_test_passes: "init_contains_every_box_before_the_first_moof"
proof -
  let ?inits = "[boxed (str ''ftyp'') (str ''isom''), boxed (str ''free'') (replicate 8 0), boxed (str ''moov'') (replicate 24 0x33)]"
  let ?fs = "[(boxed (str ''moof'') (replicate 8 0), [], boxed (str ''mdat'') (replicate 8 0))]"
  let ?stream = "boxed (str ''ftyp'') (str ''isom'') @ boxed (str ''free'') (replicate 8 0) @
    boxed (str ''moov'') (replicate 24 0x33) @ boxed (str ''moof'') (replicate 8 0) @ boxed (str ''mdat'') (replicate 8 0)"
  have "feed_and_finish 7 ?stream = Init (concat ?inits) # map (\<lambda>f. Fragment (concat (fragment_boxes f))) ?fs"
    by (rule feed_and_finish_stream [where rest = "[]"])
      (simp_all add: boxed_complete boxed_kind box_head_def boxed_fragment fragment_boxes_def)
  then show ?thesis by (simp add: init_contains_every_box_before_the_first_moof_def Let_def)
qed

theorem boxes_between_test_passes: "boxes_between_moof_and_mdat_belong_to_the_fragment"
proof -
  let ?inits = "[boxed (str ''ftyp'') (str ''isom''), boxed (str ''moov'') (replicate 8 0)]"
  let ?fs = "[(boxed (str ''moof'') (replicate 8 0), [boxed (str ''prft'') (replicate 12 0x44)], boxed (str ''mdat'') (replicate 16 0x55))]"
  let ?stream = "boxed (str ''ftyp'') (str ''isom'') @ boxed (str ''moov'') (replicate 8 0) @
    boxed (str ''moof'') (replicate 8 0) @ boxed (str ''prft'') (replicate 12 0x44) @ boxed (str ''mdat'') (replicate 16 0x55)"
  have "feed_and_finish 7 ?stream = Init (concat ?inits) # map (\<lambda>f. Fragment (concat (fragment_boxes f))) ?fs"
    by (rule feed_and_finish_stream [where rest = "[]"])
      (simp_all add: boxed_complete boxed_kind box_head_def wf_fragment_def fragment_boxes_def)
  moreover have "take 8 (boxed (str ''moof'') (replicate 8 0)) = [0, 0, 0, 0x10] @ str ''moof''"
    by (simp add: boxed_def u32_to_be_bytes_def str_def)
  ultimately show ?thesis
    by (simp add: boxes_between_moof_and_mdat_belong_to_the_fragment_def fragment_boxes_def Let_def)
qed

theorem one_init_test_passes: "stream_ending_before_any_moof_is_one_init"
proof -
  let ?bs = "[boxed (str ''ftyp'') (str ''isom''), boxed (str ''moov'') (replicate 16 0)]"
  have "list_all complete_box ?bs" by (simp add: boxed_complete)
  then have "feed_all segmenter_new (pieces 7 (concat ?bs)) = take_boxes ?bs (segmenter_new\<lparr>sg_pending := []\<rparr>)"
    by (intro feed_all_boxes) (simp_all add: box_head_def)
  also have "\<dots> = (segmenter_new\<lparr>sg_pending := [], sg_init := concat ?bs\<rparr>, [])"
    by (subst take_boxes_init) (simp_all add: boxed_kind segmenter_new_def)
  finally have f: "feed_all segmenter_new (pieces 7 (concat ?bs)) = \<dots>" .
  have "feed_and_finish 7 (concat ?bs) = [Init (concat ?bs)]"
    unfolding feed_and_finish_def f by (simp add: finish_def segmenter_new_def)
  then show ?thesis by (simp add: stream_ending_before_any_moof_is_one_init_def Let_def)
qed

lemma upt_two [simp]: "[0 ..< 2] = [0, Suc 0]"
  by (simp add: upt_rec)

text \<open>A stream cut ten bytes before the end of its second fragment, behind any initialization.\<close>

lemma cut_stream:
  assumes "list_all complete_box inits" "list_all (\<lambda>b. box_kind b \<noteq> str ''moof'') inits" "concat inits \<noteq> []"
    and "stream = concat inits @ concat (map fmp4_fragment [0 ..< 2])" "concat chunks = take (length stream - 10) stream"
  shows "snd (feed_all segmenter_new chunks) @ snd (finish (fst (feed_all segmenter_new chunks))) =
    [Init (concat inits), Fragment (fmp4_fragment 0)]"
proof -
  let ?moof = "boxed (str ''moof'') (replicate 16 0x22)" and ?mdat = "\<lambda>i. boxed (str ''mdat'') (marker_payload i)"
  let ?fs = "[(?moof, [], ?mdat 0)]" and ?rest = "take 62 (?mdat 1)"
  let ?bs = "(inits @ concat (map fragment_boxes ?fs)) @ [?moof]"
  have "stream = concat ?bs @ ?mdat 1" by (simp add: assms(4) fmp4_fragment_def fragment_boxes_def)
  then have cut: "concat chunks = concat ?bs @ ?rest" unfolding assms(5) by simp
  have boxes: "list_all complete_box ?bs"
    using assms(1) by (simp add: boxed_complete fragment_boxes_def)
  have "?rest = [0, 0, 0, 72] @ str ''mdat'' @ take 54 (marker_payload 1)"
    by (simp add: boxed_def u32_to_be_bytes_def)
  then have need: "box_head ?rest = NeedMore" by (simp add: box_head_def MAX_BOX_BYTES_def)
  have "take_boxes (inits @ concat (map fragment_boxes ?fs)) (segmenter_new\<lparr>sg_pending := ?rest\<rparr>) =
      (segmenter_new\<lparr>sg_pending := ?rest, sg_init_emitted := True\<rparr>,
       Init (concat inits) # map (\<lambda>f. Fragment (concat (fragment_boxes f))) ?fs)"
    using assms(2,3) by (intro take_boxes_stream) (simp_all add: boxed_fragment)
  then have "take_boxes ?bs (segmenter_new\<lparr>sg_pending := ?rest\<rparr>) =
      (segmenter_new\<lparr>sg_pending := ?rest, sg_init_emitted := True, sg_fragment := ?moof, sg_in_fragment := True\<rparr>,
       [Init (concat inits), Fragment (concat (fragment_boxes (hd ?fs)))])"
    by (subst take_boxes_append) (simp add: take_box_def boxed_kind segmenter_new_def Let_def)
  with feed_all_boxes [OF boxes need cut] show ?thesis
    by (simp add: finish_def segmenter_new_def fmp4_fragment_boxes)
qed

abbreviation fmp4_inits :: "bytes \<Rightarrow> bytes list" where
  "fmp4_inits brand \<equiv> [boxed (str ''ftyp'') brand, boxed (str ''moov'') (replicate 32 0x11)]"

theorem truncated_test_passes: "truncated_fragment_tail_is_dropped_at_eof"
proof -
  let ?stream = "fmp4_stream 2"
  have "feed_and_finish 31 (take (length ?stream - 10) ?stream) = [Init fmp4_head, Fragment (fmp4_fragment 0)]"
    using cut_stream [of "fmp4_inits (str ''isom'' @ [0, 0, 0, 0] @ str ''isom'')" ?stream "pieces 31 (take (length ?stream - 10) ?stream)"]
    by (simp add: feed_and_finish_def boxed_complete boxed_kind fmp4_stream_def fmp4_head_def case_prod_unfold)
  then show ?thesis by (simp add: truncated_fragment_tail_is_dropped_at_eof_def fmp4_segments Let_def)
qed

lemma of_nat_box_bound: "(of_nat MAX_BOX_BYTES :: u32) = 67108864"
  by (simp add: MAX_BOX_BYTES_def)

theorem opaque_tests_pass:
  "opaque_fallback_for_non_box_output" "oversized_box_triggers_the_opaque_fallback"
  "invalid_header_size_triggers_the_opaque_fallback"
proof -
  have zeros: "box_head (replicate 64 0) = NotBox" by (simp add: box_head_def numeral_eq_Suc)
  have big: "box_head (u32_to_be_bytes (of_nat MAX_BOX_BYTES + 1) @ str ''mdat'' @ replicate 8 0) = NotBox"
    by (simp add: box_head_def of_nat_box_bound, simp add: MAX_BOX_BYTES_def)
  have bad: "box_head (u32_to_be_bytes 3 @ str ''moof'' @ boxed (str ''mdat'') (replicate 8 0)) = NotBox"
    by (simp add: box_head_def)
  show "opaque_fallback_for_non_box_output"
    using zeros by (simp add: opaque_fallback_for_non_box_output_def feed_def segmenter_new_def feed_loop.simps
        enter_opaque_def finish_def Let_def)
  show "oversized_box_triggers_the_opaque_fallback"
    using big by (simp add: oversized_box_triggers_the_opaque_fallback_def feed_def segmenter_new_def feed_loop.simps
        enter_opaque_def Let_def)
  show "invalid_header_size_triggers_the_opaque_fallback"
    using bad by (simp add: invalid_header_size_triggers_the_opaque_fallback_def feed_def segmenter_new_def feed_loop.simps
        enter_opaque_def Let_def)
qed

theorem largesize_test_passes: "largesize_boxes_are_parsed"
proof -
  let ?large = "u32_to_be_bytes 1 @ str ''mdat'' @ u64_to_be_bytes (16 + 24) @ replicate 24 0x66"
  let ?fs = "[(boxed (str ''moof'') (replicate 8 0), [], boxed (str ''mdat'') (replicate 8 0x77))]"
  let ?stream = "u32_to_be_bytes 1 @ str ''mdat'' @ u64_to_be_bytes (16 + 24) @ replicate 24 0x66 @
    boxed (str ''moof'') (replicate 8 0) @ boxed (str ''mdat'') (replicate 8 0x77)"
  have be: "u64_to_be_bytes (16 + 24) = [0, 0, 0, 0, 0, 0, 0, 40]"
    by (simp add: u64_to_be_bytes_def u32_to_be_bytes_def)
  have "complete_box ?large"
    unfolding be by (simp add: complete_box_def box_head_def MAX_BOX_BYTES_def)
  moreover have "box_kind ?large = str ''mdat''" by (simp add: box_kind_def)
  ultimately have "feed_and_finish 5 ?stream = Init (concat [?large]) # map (\<lambda>f. Fragment (concat (fragment_boxes f))) ?fs"
    by (intro feed_and_finish_stream [where rest = "[]"])
      (simp_all add: box_head_def boxed_fragment fragment_boxes_def)
  then have f: "feed_and_finish 5 ?stream = [Init ?large, Fragment (concat (fragment_boxes (hd ?fs)))]" by simp
  have "sublist (str ''mdat'') ?large" by (rule sublist_appendI)
  moreover have "suffix (replicate 24 0x66) ?large"
    by (rule suffixI [where zs = "u32_to_be_bytes 1 @ str ''mdat'' @ u64_to_be_bytes (16 + 24)"]) simp
  moreover have "take 8 (boxed (str ''moof'') (replicate 8 0)) = [0, 0, 0, 0x10] @ str ''moof''"
    by (simp add: boxed_def u32_to_be_bytes_def str_def)
  moreover have "suffix (replicate 8 0x77) (concat (fragment_boxes (hd ?fs)))"
    by (rule suffixI [where zs = "boxed (str ''moof'') (replicate 8 0) @ u32_to_be_bytes (of_nat 16) @ str ''mdat''"])
      (simp add: fragment_boxes_def boxed_def)
  ultimately show ?thesis
    unfolding largesize_boxes_are_parsed_def Let_def f by (simp add: fragment_boxes_def)
qed

section \<open>bridge/stdout\_reader.rs\<close>

definition reader_stream :: "nat \<Rightarrow> bytes" where
  "reader_stream fragments =
     boxed (str ''ftyp'') (str ''isom'') @ boxed (str ''moov'') (replicate 32 0x11) @ concat (map fmp4_fragment [0 ..< fragments])"

definition empty_output :: "nat \<Rightarrow> segment_queue" where
  "empty_output n = \<lparr>items = [], capacity = n\<rparr>"

text \<open>\<open>try_pop\<close> a number of times, and what is left.\<close>

fun popped :: "nat \<Rightarrow> segment_queue \<Rightarrow> encoded_segment option list \<times> segment_queue" where
  "popped 0 q = ([], q)"
| "popped (Suc n) q = (case try_pop q of (x, q') \<Rightarrow> map_prod ((#) x) id (popped n q'))"

definition read_encoded_cuts_a_synthetic_fmp4_stream_into_whole_segments :: bool where
  "read_encoded_cuts_a_synthetic_fmp4_stream_into_whole_segments \<longleftrightarrow>
     (case read_encoded [Data (reader_stream 3)] segmenter_new (empty_output OUTPUT_QUEUE_CAPACITY) of
        (r, output) \<Rightarrow>
          case popped 4 output of (popped_segments, rest) \<Rightarrow>
            r = Inr () \<and> queue_len output = 4 \<and>
            (case popped_segments of
               [Some (Init _), Some (Fragment _), Some (Fragment _), Some (Fragment _)] \<Rightarrow> True
             | _ \<Rightarrow> False) \<and> queue_is_empty rest)"

definition read_encoded_drops_a_truncated_fragment_tail_at_eof :: bool where
  "read_encoded_drops_a_truncated_fragment_tail_at_eof \<longleftrightarrow>
     (let stream = reader_stream 2 in
      case read_encoded [Data (take (length stream - 10) stream)] segmenter_new (empty_output OUTPUT_QUEUE_CAPACITY) of
        (r, output) \<Rightarrow> r = Inr () \<and> queue_len output = 2)"

definition push_segment_evicts_only_fragments_and_protects_the_init :: bool where
  "push_segment_evicts_only_fragments_and_protects_the_init \<longleftrightarrow>
     (let output = foldl push_segment (empty_output 4)
            (Init (replicate 4 0) # map (\<lambda>i. Fragment (replicate 4 i)) [0, 1, 2] @ [Fragment (replicate 4 9)]) in
      queue_len output = 4 \<and>
      (case fst (popped 4 output) of
         Some (Init _) # fragments \<Rightarrow> fragments = map (\<lambda>i. Some (Fragment (replicate 4 i))) [1, 2, 9]
       | _ \<Rightarrow> False))"

definition push_segment_drops_the_newest_when_only_inits_are_buffered :: bool where
  "push_segment_drops_the_newest_when_only_inits_are_buffered \<longleftrightarrow>
     (let output = foldl push_segment (empty_output 3) (replicate 3 (Init (replicate 4 0)) @ [Fragment (replicate 4 1)]) in
      queue_len output = 3 \<and>
      list_all (\<lambda>x. case x of Some (Init _) \<Rightarrow> True | _ \<Rightarrow> False) (fst (popped 3 output)) \<and>
      queue_is_empty (snd (popped 3 output)))"

text \<open>A handle is the answer of its \<open>is_finished\<close>, with a number.\<close>

definition register_reader_reaps_finished_generations :: bool where
  "register_reader_reaps_finished_generations \<longleftrightarrow>
     (let handles = foldl (register_reader fst) [] [(True, 0 :: nat), (True, 1), (True, 2)] in
      length handles = 1 \<and> register_reader fst handles (False, 3) = [(False, 3)])"

lemma popped_numeral [simp]:
  "popped (numeral k) q = (case try_pop q of (x, q') \<Rightarrow> map_prod ((#) x) id (popped (pred_numeral k) q'))"
  by (simp add: numeral_eq_Suc)

lemma popped_one [simp]: "popped 1 q = (case try_pop q of (x, q') \<Rightarrow> ([x], q'))"
  by (simp add: case_prod_unfold)

theorem stdout_reader_tests_pass:
  "read_encoded_cuts_a_synthetic_fmp4_stream_into_whole_segments"
  "read_encoded_drops_a_truncated_fragment_tail_at_eof"
  "push_segment_evicts_only_fragments_and_protects_the_init"
  "push_segment_drops_the_newest_when_only_inits_are_buffered" "register_reader_reaps_finished_generations"
proof -
  let ?inits = "fmp4_inits (str ''isom'')"
  let ?run = "\<lambda>chunks. snd (feed_all segmenter_new chunks) @ snd (finish (fst (feed_all segmenter_new chunks)))"
  have read: "\<exists>chunks. concat chunks = bs \<and>
      read_encoded [Data bs] segmenter_new q = (Inr (), foldl push_segment q (?run chunks))" if "bs \<noteq> []" for bs q
    using that read_encoded_benign [of "[Data bs]" segmenter_new q] by (simp add: benign_def benign_outcome_def)
  have inits: "list_all complete_box ?inits" by (simp add: boxed_complete)
  let ?fs = "map (\<lambda>i. (boxed (str ''moof'') (replicate 16 0x22), [], boxed (str ''mdat'') (marker_payload i))) [0, Suc 0, 2]"
  have three: "[0 ..< 3] = [0, Suc 0, 2 :: nat]" by (simp add: upt_rec)
  have long: "10 < length (reader_stream n)" for n by (simp add: reader_stream_def)
  have ne: "reader_stream n \<noteq> []" for n using long [of n] by auto
  obtain chunks where c: "concat chunks = reader_stream 3"
    "read_encoded [Data (reader_stream 3)] segmenter_new (empty_output OUTPUT_QUEUE_CAPACITY) =
      (Inr (), foldl push_segment (empty_output OUTPUT_QUEUE_CAPACITY) (?run chunks))"
    using read [OF ne] by blast
  have "?run chunks = Init (concat ?inits) # map (\<lambda>i. Fragment (fmp4_fragment i)) [0, Suc 0, 2]"
    using feed_all_stream [OF inits, of ?fs "[]" chunks] c(1)
    by (simp add: boxed_kind boxed_fragment box_head_def finish_streamed reader_stream_def three fmp4_fragment_boxes)
  then show "read_encoded_cuts_a_synthetic_fmp4_stream_into_whole_segments"
    using c(2) by (simp add: read_encoded_cuts_a_synthetic_fmp4_stream_into_whole_segments_def empty_output_def
        push_segment_def push_or_def OUTPUT_QUEUE_CAPACITY_def try_pop_def queue_len_def queue_is_empty_def)
  let ?cut = "take (length (reader_stream 2) - 10) (reader_stream 2)"
  obtain chunks' where d: "concat chunks' = ?cut"
    "read_encoded [Data ?cut] segmenter_new (empty_output OUTPUT_QUEUE_CAPACITY) =
      (Inr (), foldl push_segment (empty_output OUTPUT_QUEUE_CAPACITY) (?run chunks'))"
    using read [of ?cut] ne [of 2] long [of 2] by auto
  have "?run chunks' = [Init (concat ?inits), Fragment (fmp4_fragment 0)]"
    by (rule cut_stream [OF inits _ _ _ d(1)]) (simp_all add: boxed_kind reader_stream_def)
  with d(2) have "queue_len (snd (read_encoded [Data ?cut] segmenter_new (empty_output OUTPUT_QUEUE_CAPACITY))) = 2"
    by (simp add: empty_output_def push_segment_def push_or_def OUTPUT_QUEUE_CAPACITY_def queue_len_def)
  with d(2) show "read_encoded_drops_a_truncated_fragment_tail_at_eof"
    by (simp add: read_encoded_drops_a_truncated_fragment_tail_at_eof_def Let_def)
  show "push_segment_evicts_only_fragments_and_protects_the_init"
    "push_segment_drops_the_newest_when_only_inits_are_buffered" "register_reader_reaps_finished_generations"
    by (simp_all add: push_segment_evicts_only_fragments_and_protects_the_init_def
        push_segment_drops_the_newest_when_only_inits_are_buffered_def register_reader_reaps_finished_generations_def
        register_reader_def empty_output_def push_segment_def push_or_def remove_at_def try_pop_def queue_len_def
        queue_is_empty_def numeral_3_eq_3)
qed

section \<open>bridge/forwarder.rs\<close>

text \<open>The tests use a channel with one slot, which is taken; the model's channel has eight, which are
  all taken here, the first by the test's eight zero bytes.\<close>

definition full_channel :: "encoded_segment \<Rightarrow> output_pipe" where
  "full_channel segment = output_start\<lparr>op_hand := Some segment,
     op_channel := replicate 8 0 # replicate (SERVER_CHANNEL_CAPACITY - 1) []\<rparr>"

definition full_server_buffer_drops_the_fragment_whole :: bool where
  "full_server_buffer_drops_the_fragment_whole \<longleftrightarrow>
     (let s = full_channel (Fragment (replicate 4 1)); s' = forwarder_turn s in
      \<not> op_returned s' \<and> \<not> op_stop s' \<and> op_dropped s' = 1 \<and> op_channel s' = op_channel s)"

text \<open>The retries before and after the consumer takes an item are turns of the forwarder.\<close>

definition init_is_retried_until_the_consumer_makes_room :: "nat \<Rightarrow> bool" where
  "init_is_retried_until_the_consumer_makes_room retries \<longleftrightarrow>
     (let s = output_run (replicate retries ForwarderTurn @ [ConsumerReceives, ForwarderTurn]) (full_channel (Init (replicate 4 3))) in
      \<not> op_returned s \<and> op_dropped s = 0 \<and> op_received s = [replicate 8 0] \<and> last (op_channel s) = replicate 4 3 \<and>
      op_hand s = None)"

definition init_retry_stops_when_stop_is_requested :: "nat \<Rightarrow> bool" where
  "init_retry_stops_when_stop_is_requested retries \<longleftrightarrow>
     (let s0 = full_channel (Init (replicate 4 4));
          s = output_run (replicate retries ForwarderTurn @ [StopRequested, ForwarderTurn]) s0 in
      op_returned s \<and> op_dropped s = 0 \<and> op_channel s = op_channel s0)"

definition closed_consumer_stops_the_forwarder :: bool where
  "closed_consumer_stops_the_forwarder \<longleftrightarrow>
     (let s = forwarder_turn (output_start\<lparr>op_hand := Some (Init (replicate 4 2)), op_closed := True\<rparr>) in
      op_returned s \<and> op_stop s \<and> op_dropped s = 0)"

lemma retries_wait: "output_run (replicate n ForwarderTurn) (full_channel (Init b)) = full_channel (Init b)"
  by (induction n) (simp_all add: output_step_def forwarder_turn_def forward_segment_def full_channel_def output_start_def
      SERVER_CHANNEL_CAPACITY_def)

theorem forwarder_tests_pass:
  "full_server_buffer_drops_the_fragment_whole" "init_is_retried_until_the_consumer_makes_room retries"
  "init_retry_stops_when_stop_is_requested retries" "closed_consumer_stops_the_forwarder"
  unfolding full_server_buffer_drops_the_fragment_whole_def init_is_retried_until_the_consumer_makes_room_def
    init_retry_stops_when_stop_is_requested_def closed_consumer_stops_the_forwarder_def output_run_append retries_wait Let_def
  by (simp_all add: output_step_def forwarder_turn_def forward_segment_def full_channel_def output_start_def SERVER_CHANNEL_CAPACITY_def)

section \<open>bridge/capture\_link.rs and bgra\_rgba.rs\<close>

definition feeder_and_capture_share_one_drop_oldest_queue :: bool where
  "feeder_and_capture_share_one_drop_oldest_queue \<longleftrightarrow>
     (let frames = pl_frames (foldl (\<lambda>p i. push_frame (replicate 4 i) p) pipeline_new [0, 1, 2, 3, 4]);
          first = try_pop frames; second = try_pop (snd first) in
      queue_len frames = FRAME_QUEUE_CAPACITY \<and> fst first = Some (replicate 4 3) \<and> fst second = Some (replicate 4 4) \<and>
      queue_is_empty (snd second))"

definition swaps_red_and_blue_of_each_pixel :: bool where
  "swaps_red_and_blue_of_each_pixel \<longleftrightarrow>
     bgra_to_rgba [0x11, 0x22, 0x33, 0x44, 0xaa, 0xbb, 0xcc, 0xdd] = [0x33, 0x22, 0x11, 0x44, 0xcc, 0xbb, 0xaa, 0xdd]"

definition alpha_and_green_are_untouched :: bool where
  "alpha_and_green_are_untouched \<longleftrightarrow> bgra_to_rgba [0x10, 0x40, 0x80, 0xff] = [0x80, 0x40, 0x10, 0xff]"

definition conversion_is_an_involution :: bool where
  "conversion_is_an_involution \<longleftrightarrow>
     (let pixels = [0x01, 0x02, 0x03, 0x04, 0x05, 0x06, 0x07, 0x08, 0x09, 0x0a, 0x0b, 0x0c] in
      bgra_to_rgba (bgra_to_rgba pixels) = pixels)"

definition trailing_bytes_beyond_a_full_pixel_are_left_untouched :: bool where
  "trailing_bytes_beyond_a_full_pixel_are_left_untouched \<longleftrightarrow>
     bgra_to_rgba [0x11, 0x22, 0x33, 0x44, 0x99, 0x99] = [0x33, 0x22, 0x11, 0x44, 0x99, 0x99]"

definition empty_buffer_is_a_noop :: bool where
  "empty_buffer_is_a_noop \<longleftrightarrow> bgra_to_rgba [] = []"

definition one_megapixel_frame_converts_every_pixel :: bool where
  "one_megapixel_frame_converts_every_pixel \<longleftrightarrow>
     (let pixels = bgra_to_rgba (map (\<lambda>index. of_nat (index mod 256)) [0 ..< 1024 * 1024 * 4]) in
      list_all (\<lambda>i. let index = 4 * i in
        pixels ! (index + 2) = of_nat (index mod 256) \<and> pixels ! index = of_nat ((index + 2) mod 256) \<and>
        pixels ! (index + 1) = of_nat ((index + 1) mod 256) \<and> pixels ! (index + 3) = of_nat ((index + 3) mod 256))
        [0 ..< 1024 * 1024])"

definition pinned_xcap_versions_deliver_rgba :: bool where
  "pinned_xcap_versions_deliver_rgba \<longleftrightarrow> XCAP_FRAMES_ARE_RGBA"

text \<open>Every pixel of a buffer of whole pixels is converted.\<close>

lemma bgra_pixel:
  "4 * i + 3 < length p \<Longrightarrow> bgra_to_rgba p ! (4 * i) = p ! (4 * i + 2) \<and> bgra_to_rgba p ! (4 * i + 1) = p ! (4 * i + 1) \<and>
     bgra_to_rgba p ! (4 * i + 2) = p ! (4 * i) \<and> bgra_to_rgba p ! (4 * i + 3) = p ! (4 * i + 3)"
proof (induction p arbitrary: i rule: bgra_to_rgba.induct)
  case (1 b g r a pixels)
  show ?case
  proof (cases i)
    case (Suc j)
    have "4 * Suc j = Suc (Suc (Suc (Suc (4 * j))))" by simp
    with 1 Suc show ?thesis by (simp add: numeral_3_eq_3 del: mult_Suc_right)
  qed (simp add: numeral_eq_Suc)
qed auto

theorem pixel_tests_pass:
  "feeder_and_capture_share_one_drop_oldest_queue" "swaps_red_and_blue_of_each_pixel" "alpha_and_green_are_untouched"
  "conversion_is_an_involution" "trailing_bytes_beyond_a_full_pixel_are_left_untouched" "empty_buffer_is_a_noop"
  "pinned_xcap_versions_deliver_rgba"
  by (simp_all add: feeder_and_capture_share_one_drop_oldest_queue_def swaps_red_and_blue_of_each_pixel_def
      alpha_and_green_are_untouched_def conversion_is_an_involution_def
      trailing_bytes_beyond_a_full_pixel_are_left_untouched_def empty_buffer_is_a_noop_def
      pinned_xcap_versions_deliver_rgba_def XCAP_FRAMES_ARE_RGBA_def pipeline_new_def push_frame_def push_def
      FRAME_QUEUE_CAPACITY_def try_pop_def queue_len_def queue_is_empty_def Let_def)

theorem megapixel_test_passes: "one_megapixel_frame_converts_every_pixel"
proof -
  define n :: nat where "n = 1024 * 1024"
  let ?p = "map (\<lambda>index. of_nat (index mod 256)) [0 ..< n * 4] :: bytes"
  have "bgra_to_rgba ?p ! (4 * i + 2) = of_nat (4 * i mod 256) \<and>
      bgra_to_rgba ?p ! (4 * i) = of_nat ((4 * i + 2) mod 256) \<and>
      bgra_to_rgba ?p ! (4 * i + 1) = of_nat ((4 * i + 1) mod 256) \<and>
      bgra_to_rgba ?p ! (4 * i + 3) = of_nat ((4 * i + 3) mod 256)" if "i < n" for i
  proof -
    from that have "4 * i + 3 < n * 4" by simp
    with bgra_pixel [of i ?p] show ?thesis by simp
  qed
  then show ?thesis
    unfolding one_megapixel_frame_converts_every_pixel_def Let_def n_def [symmetric] by (simp only: list_all_iff) simp
qed

end
