(* ===== verification/Unit_Tests_Capture.thy ===== *)
theory Unit_Tests_Capture
  imports Frame_Source Screen_Encoder
begin

text \<open>
  The unit tests of \<open>capture.rs\<close>, \<open>ffmpeg.rs\<close> (the arguments) and \<open>ffmpeg_discover.rs\<close> under
  \<open>src/src/screen\<close> as statements over their models, one definition per test and named after it, with
  the proofs that the models pass. The capture loop runs on the scripted source of the tests.
\<close>

section \<open>capture.rs\<close>

definition wayland_session_detection_is_pure :: "bool \<Rightarrow> bool" where
  "wayland_session_detection_is_pure linux \<longleftrightarrow>
     (if \<not> linux then
        \<not> wayland_for linux (Some (str ''wayland'')) None \<and> \<not> wayland_for linux None (Some (str ''wayland-0''))
      else
        \<not> wayland_for linux None None \<and> wayland_for linux (Some (str ''wayland'')) None \<and>
        wayland_for linux (Some (str ''wayland'')) (Some (str ''wayland-0'')) \<and>
        wayland_for linux None (Some (str ''wayland-0'')) \<and> \<not> wayland_for linux (Some (str ''x11'')) None \<and>
        wayland_for linux (Some (str ''x11'')) (Some (str ''wayland-0'')) \<and>
        \<not> wayland_for linux (Some (str ''Wayland'')) None)"

type_synonym scripted_thread = "scripted_source \<times> capture_thread \<times> pipeline"

fun turns :: "nat \<Rightarrow> scripted_thread \<Rightarrow> scripted_thread" where
  "turns 0 st = st"
| "turns (Suc n) st = turns n (source_turn scripted_capture_frame scripted_reacquire st)"

definition test_start :: "nat \<Rightarrow> bool \<Rightarrow> scripted_source \<Rightarrow> scripted_thread" where
  "test_start cap stop source =
     (source, capture_start, pipeline_new\<lparr>pl_frames := \<lparr>items = [], capacity = cap\<rparr>, pl_stop := stop\<rparr>)"

text \<open>The loop has returned after the given number of turns, and what it left satisfies \<open>P\<close>.\<close>

definition loop_returned :: "nat \<Rightarrow> scripted_thread \<Rightarrow> (pipeline \<Rightarrow> bool) \<Rightarrow> bool" where
  "loop_returned n st P \<longleftrightarrow> (case turns n st of (_, c, p) \<Rightarrow> \<not> ct_running c \<and> P p)"

definition pushes_frames_and_reports_initial_resolution :: bool where
  "pushes_frames_and_reports_initial_resolution \<longleftrightarrow>
     loop_returned 9 (test_start 4 False (scripted_new (replicate 3 (Inr (empty_frame 10 10)))))
       (\<lambda>p. queue_len (pl_frames p) = 3 \<and> pl_resolution_request p = Some (10, 10))"

definition resolution_change_is_signaled_once_per_size :: bool where
  "resolution_change_is_signaled_once_per_size \<longleftrightarrow>
     loop_returned 10 (test_start 4 False (scripted_new
         [Inr (empty_frame 10 10), Inr (empty_frame 20 30), Inr (empty_frame 20 30), Inr (empty_frame 10 10)]))
       (\<lambda>p. pl_resolution_request p = Some (10, 10) \<and> queue_len (pl_frames p) = 4)"

definition stop_flag_ends_the_loop :: bool where
  "stop_flag_ends_the_loop \<longleftrightarrow>
     loop_returned 1 (test_start 4 True (scripted_new (replicate 10 (Inr (empty_frame 4 4)))))
       (\<lambda>p. queue_len (pl_frames p) = 0)"

definition frames_are_dropped_oldest_first_under_overflow :: bool where
  "frames_are_dropped_oldest_first_under_overflow \<longleftrightarrow>
     loop_returned 12 (test_start 4 False (scripted_new (replicate 6 (Inr (empty_frame 1 1)))))
       (\<lambda>p. queue_len (pl_frames p) = 4)"

definition failure_counter_stops_the_loop_and_reports :: bool where
  "failure_counter_stops_the_loop_and_reports \<longleftrightarrow>
     loop_returned 6 (test_start 4 False (scripted_new
         (map (\<lambda>b. Inl (str b)) [''boom 1'', ''boom 2'', ''boom 3'', ''boom 4'', ''boom 5''] @ [Inr (empty_frame 2 2)])))
       (\<lambda>p. length (pl_events p) = 1 \<and> contains_sub (str ''failed 5 times'') (hd (pl_events p)) \<and>
         queue_len (pl_frames p) = 0)"

definition transient_errors_do_not_stop_the_loop :: bool where
  "transient_errors_do_not_stop_the_loop \<longleftrightarrow>
     loop_returned 10 (test_start 4 False (scripted_new
         [Inl (str ''glitch''), Inr (empty_frame 2 2), Inl (str ''glitch''), Inr (empty_frame 2 2)]))
       (\<lambda>p. queue_len (pl_frames p) = 2)"

lemma turns_numeral [simp]:
  "turns (numeral k) st = turns (pred_numeral k) (source_turn scripted_capture_frame scripted_reacquire st)"
  by (simp add: numeral_eq_Suc)

lemma empty_frame_size [simp]: "fr_width (empty_frame w h) = w" "fr_height (empty_frame w h) = h"
  by (simp_all add: empty_frame_def)

lemmas capture_eval = loop_returned_def test_start_def capture_start_def pipeline_new_def source_turn_def reacquires_def
  scripted_new_def scripted_capture_frame_def capture_turn_def captured_def reacquire_turn_def teardown_requested_def
  push_frame_def push_def queue_len_def MAX_CONSECUTIVE_FAILURES_def MONITOR_REACQUIRE_INTERVAL_def
  XCAP_FRAMES_ARE_RGBA_def report_once_def Let_def

theorem capture_tests_pass:
  "pushes_frames_and_reports_initial_resolution" "resolution_change_is_signaled_once_per_size"
  "stop_flag_ends_the_loop" "frames_are_dropped_oldest_first_under_overflow" 
  by (simp_all add: pushes_frames_and_reports_initial_resolution_def resolution_change_is_signaled_once_per_size_def
      stop_flag_ends_the_loop_def frames_are_dropped_oldest_first_under_overflow_def capture_eval)

theorem capture_failure_tests_pass:
  "failure_counter_stops_the_loop_and_reports" "transient_errors_do_not_stop_the_loop"
  by (simp_all add: failure_counter_stops_the_loop_and_reports_def transient_errors_do_not_stop_the_loop_def
      capture_eval show_nat.simps str_def)

theorem wayland_test_passes: "wayland_session_detection_is_pure linux"
  by (simp add: wayland_session_detection_is_pure_def wayland_for_def str_def utf8_valid.simps(2) utf8_step_def
      utf8_width_def)

section \<open>capture.rs: the re-acquired monitor\<close>

definition reacquire_failures_are_not_masked_by_successful_captures :: bool where
  "reacquire_failures_are_not_masked_by_successful_captures \<longleftrightarrow>
     loop_returned 150 (test_start 500 False
         (with_reacquire (Inl (str ''monitor gone'')) (scripted_new (replicate 200 (Inr (empty_frame 2 2))))))
       (\<lambda>p. length (pl_events p) = 1 \<and> contains_sub (str ''monitor lost'') (hd (pl_events p)) \<and>
         queue_len (pl_frames p) = MAX_CONSECUTIVE_FAILURES * MONITOR_REACQUIRE_INTERVAL)"

definition reacquire_failures_are_reset_on_reacquire_success :: bool where
  "reacquire_failures_are_reset_on_reacquire_success \<longleftrightarrow>
     loop_returned 205 (test_start 500 False
         (with_reacquire_script [Inl (str ''flaky''), Inl (str ''flaky''), Inl (str ''flaky''), Inr ()]
           (scripted_new (replicate 200 (Inr (empty_frame 2 2))))))
       (\<lambda>p. length (pl_events p) = 1 \<and> contains_sub (str ''failed 5 times'') (hd (pl_events p)) \<and>
         queue_len (pl_frames p) = 200)"

text \<open>The state after a number of successful captures, of which every thirtieth called \<open>reacquire\<close>;
  \<open>failures\<close> is the number of its failures in a row.\<close>

definition after_frames :: "(rstring + unit) list \<Rightarrow> nat \<Rightarrow> nat \<Rightarrow> scripted_thread" where
  "after_frames rs k failures =
     (\<lparr>sc_script = replicate 200 (Inr (empty_frame 2 2)), sc_reacquire_script = rs, sc_cursor = k,
       sc_reacquire_cursor = k div 30\<rparr>,
      \<lparr>ct_capture_failures = 0, ct_reacquire_failures = failures, ct_expected = (if k = 0 then None else Some (2, 2)),
       ct_frame_count = of_nat k, ct_running = True\<rparr>,
      pipeline_new\<lparr>pl_frames := \<lparr>items = replicate k (fr_bytes (empty_frame 2 2)), capacity = 500\<rparr>,
        pl_resolution_request := (if k = 0 then None else Some (2, 2))\<rparr>)"

lemma turns_Suc: "turns (Suc n) st = source_turn scripted_capture_frame scripted_reacquire (turns n st)"
  by (induction n arbitrary: st) simp_all

lemma unat_count: "k < 1000 \<Longrightarrow> unat (of_nat k + 1 :: u32) = Suc k"
proof -
  assume "k < 1000"
  then have "unat (of_nat (Suc k) :: u32) = Suc k" by (simp only: unat_of_nat take_bit_nat_def) simp
  then show ?thesis by (simp add: add.commute)
qed

lemma after_frame:
  assumes "k < 200" "rs \<noteq> []"
  shows "source_turn scripted_capture_frame scripted_reacquire (after_frames rs k failures) =
    (if Suc k mod 30 \<noteq> 0 then after_frames rs (Suc k) failures
     else case rs ! (k div 30 mod length rs) of
       Inr _ \<Rightarrow> after_frames rs (Suc k) 0
     | Inl e \<Rightarrow>
         if Suc failures < 5 then after_frames rs (Suc k) (Suc failures)
         else (case after_frames rs (Suc k) (Suc failures) of
           (s, c, p) \<Rightarrow> (s, c\<lparr>ct_running := False\<rparr>, report_once (str ''monitor lost: '' @ e) p)))"
proof -
  have "Suc k div 30 = (if Suc k mod 30 = 0 then Suc (k div 30) else k div 30)" by (simp add: div_Suc)
  moreover have "unat (of_nat k + 1 :: u32) = Suc k" using assms(1) by (simp add: unat_count)
  ultimately show ?thesis
    using assms
    by (auto simp: after_frames_def source_turn_def reacquires_def scripted_capture_frame_def scripted_reacquire_def
        capture_turn_def captured_def reacquire_turn_def teardown_requested_def push_frame_def push_def pipeline_new_def
        MAX_CONSECUTIVE_FAILURES_def MONITOR_REACQUIRE_INTERVAL_def XCAP_FRAMES_ARE_RGBA_def replicate_append_same
        Let_def split: sum.splits)
qed

lemma frames_start: "test_start 500 False (with_reacquire_script (r # rs) (scripted_new (replicate 200 (Inr (empty_frame 2 2))))) =
    after_frames (r # rs) 0 0"
  by (simp add: test_start_def after_frames_def with_reacquire_script_def scripted_new_def capture_start_def pipeline_new_def)

lemma masked_turns: "k < 150 \<Longrightarrow> turns k (after_frames [Inl e] 0 0) = after_frames [Inl e] k (k div 30)"
proof (induction k)
  case (Suc k)
  then have ih: "turns (Suc k) (after_frames [Inl e] 0 0) =
      source_turn scripted_capture_frame scripted_reacquire (after_frames [Inl e] k (k div 30))"
    unfolding turns_Suc by simp
  show ?case
  proof (cases "Suc k mod 30 = 0")
    case True
    then have "Suc k div 30 = Suc (k div 30)" by (simp add: div_Suc)
    moreover from Suc.prems this have "Suc (k div 30) < 5" using less_mult_imp_div_less [of "Suc k" 5 30] by simp
    ultimately show ?thesis using True Suc.prems unfolding ih by (subst after_frame) simp_all
  next
    case False
    then have "Suc k div 30 = k div 30" by (simp add: div_Suc)
    with False Suc.prems show ?thesis unfolding ih by (subst after_frame) simp_all
  qed
qed simp

lemma after_thirtieth:
  assumes "k < 200" "rs \<noteq> []" "Suc k mod 30 = 0" "rs ! (k div 30 mod length rs) = q"
  shows "q = Inr () \<Longrightarrow> source_turn scripted_capture_frame scripted_reacquire (after_frames rs k failures) =
      after_frames rs (Suc k) 0"
    and "q = Inl e \<Longrightarrow> Suc failures < 5 \<Longrightarrow>
      source_turn scripted_capture_frame scripted_reacquire (after_frames rs k failures) = after_frames rs (Suc k) (Suc failures)"
  using after_frame [OF assms(1,2)] assms(3,4) by simp_all

lemma three_then: "m < 4 \<Longrightarrow> [a, a, a, b] ! m = (if m = 3 then b else a)"
  by (auto simp: less_Suc_eq numeral_eq_Suc)

lemma flaky_turns:
  "k \<le> 200 \<Longrightarrow> turns k (after_frames [Inl e, Inl e, Inl e, Inr ()] 0 0) =
    after_frames [Inl e, Inl e, Inl e, Inr ()] k (k div 30 mod 4)"
proof (induction k)
  case (Suc k)
  let ?rs = "[Inl e, Inl e, Inl e, Inr ()]" and ?d = "k div 30 mod 4"
  from Suc have ih: "turns (Suc k) (after_frames ?rs 0 0) =
      source_turn scripted_capture_frame scripted_reacquire (after_frames ?rs k ?d)"
    unfolding turns_Suc by simp
  show ?case
  proof (cases "Suc k mod 30 = 0")
    case True
    then have s: "Suc k div 30 mod 4 = (if ?d = 3 then 0 else Suc ?d)" by (simp add: div_Suc mod_Suc)
    have d: "?d < 4" by simp
    have four: "length ?rs = 4" by simp
    have pick: "?rs ! (k div 30 mod length ?rs) = (if ?d = 3 then Inr () else Inl e)"
      unfolding four by (rule three_then [OF d])
    have k: "k < 200" using Suc.prems by simp
    note next_frame = after_thirtieth [OF k _ True pick, where failures = "?d"]
    show ?thesis
    proof (cases "?d = 3")
      case True
      have "source_turn scripted_capture_frame scripted_reacquire (after_frames ?rs k ?d) = after_frames ?rs (Suc k) 0"
        by (rule next_frame(1)) (simp, simp only: True if_True refl)
      then show ?thesis unfolding ih s if_P [OF True] .
    next
      case False
      have "source_turn scripted_capture_frame scripted_reacquire (after_frames ?rs k ?d) = after_frames ?rs (Suc k) (Suc ?d)"
        by (rule next_frame(2)) (simp, simp only: False if_False, use d in linarith)
      then show ?thesis unfolding ih s if_not_P [OF False] .
    qed
  next
    case False
    then have "Suc k div 30 = k div 30" by (simp add: div_Suc)
    with False Suc.prems show ?thesis unfolding ih by (subst after_frame) simp_all
  qed
qed simp

theorem reacquire_tests_pass:
  "reacquire_failures_are_not_masked_by_successful_captures" "reacquire_failures_are_reset_on_reacquire_success"
proof -
  have "turns (Suc 149) (after_frames [Inl (str ''monitor gone'')] 0 0) =
      (case after_frames [Inl (str ''monitor gone'')] 150 5 of
         (s, c, p) \<Rightarrow> (s, c\<lparr>ct_running := False\<rparr>, report_once (str ''monitor lost: monitor gone'') p))"
    unfolding turns_Suc by (subst masked_turns, simp) (simp add: after_frame, simp add: str_def)
  then show "reacquire_failures_are_not_masked_by_successful_captures"
    using frames_start [of "Inl (str ''monitor gone'')" "[]"]
    by (simp add: reacquire_failures_are_not_masked_by_successful_captures_def loop_returned_def with_reacquire_def
        with_reacquire_script_def after_frames_def report_once_def pipeline_new_def queue_len_def
        MAX_CONSECUTIVE_FAILURES_def MONITOR_REACQUIRE_INTERVAL_def Let_def del: turns_numeral, simp add: str_def)
  let ?rs = "[Inl (str ''flaky''), Inl (str ''flaky''), Inl (str ''flaky''), Inr ()]"
  let ?exhausted = "case after_frames ?rs 200 2 of
    (s, c, p) \<Rightarrow> (s, c\<lparr>ct_capture_failures := 5, ct_frame_count := 204, ct_running := False\<rparr>,
      report_once (str ''screen capture failed 5 times in a row: script exhausted'') p)"
  have five: "turns 5 (after_frames ?rs 200 2) = ?exhausted"
    by (simp add: after_frames_def capture_eval pipeline_new_def scripted_capture_frame_def show_nat.simps, simp add: str_def)
  have split: "turns (n + m) st = turns m (turns n st)" for n m and st :: scripted_thread
    by (induction n arbitrary: st) simp_all
  have "turns 205 (after_frames ?rs 0 0) = turns (200 + 5) (after_frames ?rs 0 0)"
    by (rule arg_cong2 [where f = turns]) simp_all
  also have "\<dots> = turns 5 (turns 200 (after_frames ?rs 0 0))" by (rule split)
  also have "turns 200 (after_frames ?rs 0 0) = after_frames ?rs 200 2"
    using flaky_turns [of 200 "str ''flaky''"] by (simp del: turns_numeral)
  also note five
  finally have ended: "turns 205 (after_frames ?rs 0 0) = ?exhausted" .
  show "reacquire_failures_are_reset_on_reacquire_success"
    unfolding reacquire_failures_are_reset_on_reacquire_success_def loop_returned_def frames_start ended
    by (simp add: after_frames_def report_once_def pipeline_new_def queue_len_def Let_def, simp add: str_def)
qed

section \<open>ffmpeg.rs\<close>

definition encoder_args_are_the_working_set :: bool where
  "encoder_args_are_the_working_set \<longleftrightarrow>
     encoder_args 320 240 (str ''rgba'') = map str
       [''-f'', ''rawvideo'', ''-pix_fmt'', ''rgba'', ''-s'', ''320x240'', ''-r'', ''30'', ''-i'', ''-'', ''-c:v'', ''libx264'',
        ''-pix_fmt'', ''yuv420p'', ''-preset'', ''ultrafast'', ''-tune'', ''zerolatency'', ''-g'', ''30'', ''-f'', ''mp4'',
        ''-movflags'', ''frag_keyframe+empty_moov'', ''pipe:1'']"

definition pipewire_encoder_args_carry_the_negotiated_format :: bool where
  "pipewire_encoder_args_carry_the_negotiated_format \<longleftrightarrow>
     list_all (\<lambda>pix_fmt. let args = encoder_args 320 240 pix_fmt in
       args ! 3 = pix_fmt \<and> args ! 1 = str ''rawvideo'' \<and> args ! 5 = str ''320x240'')
       (map str [''rgb0'', ''bgr0'', ''rgba'', ''bgra''])"

text \<open>The fake encoders: one that exits with status 0 once its input has ended, \<open>delay\<close> after the wait
  began, and one that exits only when it is killed.\<close>

definition exits_after :: "duration \<Rightarrow> bool \<Rightarrow> instant \<Rightarrow> io_error + int option" where
  "exits_after delay killed t = Inr (if killed then Some 137 else if t \<ge> delay then Some 0 else None)"

definition ignores_its_input :: "bool \<Rightarrow> instant \<Rightarrow> io_error + int option" where
  "ignores_its_input killed t = Inr (if killed then Some 137 else None)"

definition stdin_eof_is_honored_before_exit :: "duration \<Rightarrow> bool" where
  "stdin_eof_is_honored_before_exit delay \<longleftrightarrow>
     (case wait_graceful (exits_after delay) (\<lambda>t. 0) (from_secs 5) 0 of
        (Inr status, killed, _) \<Rightarrow> status = 0 \<and> \<not> killed | _ \<Rightarrow> False)"

definition stubborn_process_is_killed_after_grace :: bool where
  "stubborn_process_is_killed_after_grace \<longleftrightarrow>
     (case wait_graceful ignores_its_input (\<lambda>t. 0) (from_millis 500) 0 of
        (Inr status, killed, t) \<Rightarrow> status \<noteq> 0 \<and> killed \<and> t < from_secs 10 | _ \<Rightarrow> False)"

definition stderr_lines_are_captured_with_a_tail_limit :: bool where
  "stderr_lines_are_captured_with_a_tail_limit \<longleftrightarrow>
     (let lines = foldl push_tail [] (map (\<lambda>i. str ''line '' @ show_nat i) [0 ..< 200]) in
      length lines \<le> STDERR_TAIL \<and> lines \<noteq> [] \<and> contains_sub (str ''199'') (last lines))"

lemma push_tail_bounds: "length (push_tail ls l) \<le> STDERR_TAIL" "push_tail ls l \<noteq> []" "last (push_tail ls l) = l"
  by (simp_all add: push_tail_def Let_def STDERR_TAIL_def last_drop)

theorem ffmpeg_tests_pass:
  "encoder_args_are_the_working_set" "pipewire_encoder_args_carry_the_negotiated_format"
  "stubborn_process_is_killed_after_grace" "stderr_lines_are_captured_with_a_tail_limit"
proof -
  show "encoder_args_are_the_working_set" "pipewire_encoder_args_carry_the_negotiated_format"
    by (simp_all add: encoder_args_are_the_working_set_def pipewire_encoder_args_carry_the_negotiated_format_def
        encoder_args_def show_nat.simps Let_def, simp_all add: str_def)
  obtain r t where p: "poll_exit (ignores_its_input False) (\<lambda>t. 0) (from_millis 500) 0 = (r, t)" by fastforce
  with poll_exit_result [of "\<lambda>t. 0" 0 "ignores_its_input False" "from_millis 500" 0 r t]
  have "r = Inr None" "t \<le> from_millis 500 + WAIT_POLL" by (auto simp: ignores_its_input_def)
  moreover have "poll_exit (ignores_its_input True) (\<lambda>t. 0) d t = (Inr (Some 137), t)" for d
    by (subst poll_exit.simps) (simp add: ignores_its_input_def)
  ultimately show "stubborn_process_is_killed_after_grace"
    using p by (simp add: stubborn_process_is_killed_after_grace_def wait_graceful_def from_millis_def from_secs_def
        WAIT_POLL_def)
  have "map (\<lambda>i. str ''line '' @ show_nat i) [0 ..< 200] =
      map (\<lambda>i. str ''line '' @ show_nat i) [0 ..< 199] @ [str ''line '' @ show_nat 199]"
    using upt_Suc_append [of 0 199] by simp
  then show "stderr_lines_are_captured_with_a_tail_limit"
    by (simp only: stderr_lines_are_captured_with_a_tail_limit_def Let_def foldl_append foldl.simps push_tail_bounds)
      (simp add: show_nat.simps str_def)
qed

theorem stdin_eof_test_passes:
  assumes "delay \<le> from_secs 5"
  shows "stdin_eof_is_honored_before_exit delay"
proof -
  obtain r t where p: "poll_exit (exits_after delay False) (\<lambda>t. 0) (from_secs 5) 0 = (r, t)" by fastforce
  with poll_exit_result [of "\<lambda>t. 0" 0 "exits_after delay False" "from_secs 5" 0 r t] assms
  have "r = Inr (Some 0)" by (auto simp: exits_after_def split: if_splits)
  with p show ?thesis by (simp add: stdin_eof_is_honored_before_exit_def wait_graceful_def)
qed

section \<open>ffmpeg\_discover.rs\<close>

text \<open>A fixture directory and the files in it; \<open>binaries\<close> are the paths \<open>is_file\<close> is true of.\<close>

definition fixture :: rstring where
  "fixture = str ''/tmp/fixture''"

abbreviation binaries :: "bytes list \<Rightarrow> bytes \<Rightarrow> bool" where
  "binaries paths \<equiv> \<lambda>p. p \<in> set paths"

definition finds_ffmpeg_in_second_path_entry :: bool where
  "finds_ffmpeg_in_second_path_entry \<longleftrightarrow>
     find_ffmpeg (binaries [fixture @ str ''/ffmpeg'']) (fixture @ str ''/empty'' @ str '':'' @ fixture)"

definition returns_missing_when_absent_everywhere :: bool where
  "returns_missing_when_absent_everywhere \<longleftrightarrow> \<not> find_ffmpeg (binaries []) fixture"

text \<open>A directory is not a file.\<close>

definition missing_file_that_is_a_directory_is_ignored :: "bytes list \<Rightarrow> bytes list \<Rightarrow> bool" where
  "missing_file_that_is_a_directory_is_ignored files directories \<longleftrightarrow>
     (fixture @ str ''/ffmpeg'' \<in> set directories \<and> set files \<inter> set directories = {} \<longrightarrow>
      \<not> find_ffmpeg (binaries files) fixture)"

definition empty_entry_resolves_to_current_directory :: "(bytes \<Rightarrow> bool) \<Rightarrow> bool" where
  "empty_entry_resolves_to_current_directory is_file \<longleftrightarrow>
     (\<not> is_file (str ''./ffmpeg'') \<longrightarrow> \<not> find_ffmpeg is_file [])"

definition availability_is_cached_until_reset :: bool where
  "availability_is_cached_until_reset \<longleftrightarrow>
     (let empty = fixture @ str ''/empty'';
          (first, cache1) = ffmpeg_available (binaries []) (Some empty) None;
          (second, cache2) = ffmpeg_available (binaries [fixture @ str ''/ffmpeg'']) (Some empty) cache1;
          (third, _) = ffmpeg_available (binaries [fixture @ str ''/ffmpeg'']) (Some fixture) None in
      \<not> first \<and> \<not> second \<and> third)"

definition missing_path_var_means_unavailable :: bool where
  "missing_path_var_means_unavailable \<longleftrightarrow>
     \<not> fst (ffmpeg_available (binaries []) (Some (fixture @ str ''/nonexistent'')) None)"

definition ffmpeg_path_returns_first_hit :: bool where
  "ffmpeg_path_returns_first_hit \<longleftrightarrow>
     map_option snd (scan_path (binaries [fixture @ str ''/ffmpeg'']) fixture) = Some (fixture @ str ''/ffmpeg'')"

text \<open>The permissions of the file are not looked at.\<close>

definition unix_permissions_are_checked_via_is_file :: bool where
  "unix_permissions_are_checked_via_is_file \<longleftrightarrow> find_ffmpeg (binaries [fixture @ str ''/ffmpeg'']) fixture"

lemma fixture_paths:
  "split_on 58 (from_utf8_lossy fixture) = [fixture]"
  "split_on 58 (from_utf8_lossy (fixture @ str ''/empty'')) = [fixture @ str ''/empty'']"
  "split_on 58 (from_utf8_lossy (fixture @ str ''/empty'' @ str '':'' @ fixture)) = [fixture @ str ''/empty'', fixture]"
  "path_join (entry_dir fixture) (str ''ffmpeg'') = fixture @ str ''/ffmpeg''"
  "path_join (entry_dir (fixture @ str ''/empty'')) (str ''ffmpeg'') = fixture @ str ''/empty/ffmpeg''"
  "fixture @ str ''/empty/ffmpeg'' \<noteq> fixture @ str ''/ffmpeg''"
  by (simp_all add: fixture_def str_def path_join_def entry_dir_def utf8_valid.simps(2) utf8_step_def utf8_width_def)

theorem ffmpeg_discover_tests_pass:
  "finds_ffmpeg_in_second_path_entry" "returns_missing_when_absent_everywhere"
  "missing_file_that_is_a_directory_is_ignored files directories" "empty_entry_resolves_to_current_directory is_file"
  "availability_is_cached_until_reset" "missing_path_var_means_unavailable" "ffmpeg_path_returns_first_hit"
  "unix_permissions_are_checked_via_is_file"
proof -
  show "finds_ffmpeg_in_second_path_entry" "returns_missing_when_absent_everywhere" "ffmpeg_path_returns_first_hit"
    "unix_permissions_are_checked_via_is_file"
    unfolding finds_ffmpeg_in_second_path_entry_def returns_missing_when_absent_everywhere_def
      ffmpeg_path_returns_first_hit_def unix_permissions_are_checked_via_is_file_def find_ffmpeg_def scan_path_def
      fixture_paths
    by (simp_all add: fixture_paths Let_def)
  show "missing_file_that_is_a_directory_is_ignored files directories"
    by (auto simp: missing_file_that_is_a_directory_is_ignored_def find_ffmpeg_def scan_path_def fixture_paths Let_def
        split: if_splits)
  have "path_join (entry_dir []) (str ''ffmpeg'') = str ''./ffmpeg''" by (simp add: path_join_def entry_dir_def str_def)
  then show "empty_entry_resolves_to_current_directory is_file"
    by (simp add: empty_entry_resolves_to_current_directory_def find_ffmpeg_def scan_path_def)
  show "availability_is_cached_until_reset"
    by (simp add: availability_is_cached_until_reset_def ffmpeg_available_def find_ffmpeg_def scan_path_def fixture_paths
        Let_def)
  have "scan_entries (binaries []) entries = None" for entries by (induction entries) simp_all
  then show "missing_path_var_means_unavailable"
    by (simp add: missing_path_var_means_unavailable_def ffmpeg_available_def find_ffmpeg_def scan_path_def)
qed

end
