(* ===== verification/Unit_Tests_Engine.thy ===== *)
theory Unit_Tests_Engine
  imports Tls Mdns_Properties Screen_Controller
begin

text \<open>
  The unit tests of \<open>cast/tls.rs\<close>, \<open>cast/mdns.rs\<close>, \<open>screen/pipewire.rs\<close> and
  \<open>screen/bridge/controller.rs\<close> (under \<open>src/src\<close>) as statements over their models, one definition per
  test and named after it, with the proofs that the models pass. What a test sets up outside the
  process, a peer that stalls or a fake encoder, is what the model is told about it.
\<close>

section \<open>tls.rs\<close>

text \<open>A peer that accepts the connection and never completes the handshake: every call of
  \<open>complete_io\<close> ends with a timeout, or makes progress that is not enough, and its socket operations
  together last at most \<open>slack\<close> longer than the timeout of one, as the one the peer lets time out does.\<close>

definition stalls :: "(instant \<Rightarrow> duration \<Rightarrow> io_step \<times> duration list) \<Rightarrow> duration \<Rightarrow> bool" where
  "stalls io slack \<longleftrightarrow> (\<forall>t budget. fst (io t budget) \<in> {IoFailed WouldBlock, IoFailed TimedOut, StillHandshaking} \<and>
     sum_list (snd (io t budget)) \<le> budget + slack)"

definition stalled_peer :: "(instant \<Rightarrow> duration \<Rightarrow> io_step \<times> duration list) \<Rightarrow> attempt_env" where
  "stalled_peer io = \<lparr>ae_tcp = Some (Inr ()), ae_socket = Inr (), ae_config = Inr (), ae_client = Inr (),
     ae_arm = (\<lambda>_. Inr ()), ae_io = io, ae_panic = None, ae_delay = 0\<rparr>"

definition times_out_and_self_terminates ::
  "(instant \<Rightarrow> duration \<Rightarrow> io_step \<times> duration list) \<Rightarrow> rstring \<Rightarrow> duration \<Rightarrow> instant \<Rightarrow> bool" where
  "times_out_and_self_terminates io addr deadline started \<longleftrightarrow>
     (case connect_with_timeout (stalled_peer io) addr deadline started of
        (Inl (HandshakeTimeout _), Some exited) \<Rightarrow> exited \<le> started + deadline + from_secs 1
      | _ \<Rightarrow> False)"

definition stalled_peer_times_out_and_worker_self_terminates ::
  "(instant \<Rightarrow> duration \<Rightarrow> io_step \<times> duration list) \<Rightarrow> rstring \<Rightarrow> instant \<Rightarrow> bool" where
  "stalled_peer_times_out_and_worker_self_terminates io addr started \<longleftrightarrow>
     times_out_and_self_terminates io addr (from_millis 300) started"

text \<open>The first call reads a part of a record and makes progress; the others time out.\<close>

definition partial_tls_bytes_then_stall_times_out_and_worker_self_terminates :: "rstring \<Rightarrow> instant \<Rightarrow> bool" where
  "partial_tls_bytes_then_stall_times_out_and_worker_self_terminates addr started \<longleftrightarrow>
     times_out_and_self_terminates
       (\<lambda>t budget. if t = started then (StillHandshaking, [from_millis 1]) else (IoFailed WouldBlock, [budget]))
       addr (from_millis 300) started"

definition many_stalled_peers_do_not_accumulate_workers ::
  "(nat \<Rightarrow> instant \<Rightarrow> duration \<Rightarrow> io_step \<times> duration list) \<Rightarrow> rstring \<Rightarrow> instant \<Rightarrow> nat list \<Rightarrow> bool" where
  "many_stalled_peers_do_not_accumulate_workers io addr started exits \<longleftrightarrow>
     list_all (\<lambda>i. times_out_and_self_terminates (io i) addr (from_millis 400) started) [0 ..< 32] \<and>
     ga_count (run gauge_step \<lparr>ga_count = 0, ga_running = []\<rparr>
       (map WorkerSpawned [0 ..< 32] @ map WorkerExits exits)) = 0"

definition verifier_accepts_self_signed_certificate :: "bytes \<Rightarrow> bool" where
  "verifier_accepts_self_signed_certificate certificate \<longleftrightarrow> is_ok (verify_server_cert certificate)"

definition verifier_rejects_missing_certificate :: bool where
  "verifier_rejects_missing_certificate \<longleftrightarrow> \<not> is_ok (verify_server_cert [])"

lemma stalled_loop:
  assumes "stalls io slack"
  shows "fst (handshake_loop (\<lambda>_. Inr ()) io addr deadline deadline_at now) = Inl (HandshakeTimeout deadline)"
  using assms
proof (induction "\<lambda>_ :: instant. Inr () :: io_error + unit" io addr deadline deadline_at now rule: handshake_loop.induct)
  case (1 io addr deadline deadline_at now)
  have "fst (io now (deadline_at - now)) \<in> {IoFailed WouldBlock, IoFailed TimedOut, StillHandshaking}"
    using "1.prems" by (simp add: stalls_def)
  with 1 show ?case by (subst handshake_loop.simps) (auto simp: Let_def)
qed

lemma stalled_peer_end:
  assumes "stalls io slack" "slack \<le> from_secs 1"
  shows "times_out_and_self_terminates io addr deadline started"
proof -
  let ?r = "handshake_loop (\<lambda>_. Inr ()) io addr deadline (started + deadline) started"
  have "fst ?r = Inl (HandshakeTimeout deadline)" by (rule stalled_loop [OF assms(1)])
  moreover have "snd ?r \<le> started + deadline + slack"
    proof (rule handshake_loop_end)
    fix t
    assume "started \<le> t" "t < started + deadline"
    moreover have "sum_list (snd (io t (started + deadline - t))) \<le> started + deadline - t + slack"
      using assms(1) by (simp add: stalls_def)
    ultimately show "t + sum_list (snd (io t (started + deadline - t))) \<le> started + deadline + slack" by linarith
  qed simp_all
  ultimately show ?thesis
    using assms(2)
    by (cases ?r) (auto simp: times_out_and_self_terminates_def connect_with_timeout_def stalled_peer_def worker_def
        caller_wait_def Let_def)
qed

lemma gauge_exits:
  "mset exits = mset (ga_running g) \<Longrightarrow> ga_running (run gauge_step g (map WorkerExits exits)) = []"
proof (induction exits arbitrary: g)
  case (Cons i exits)
  from Cons.prems have "i \<in> set (ga_running g)" by (metis list.set_intros(1) set_mset_mset)
  moreover have "mset exits = mset (remove1 i (ga_running g))" using Cons.prems by (metis add_mset_remove_trivial mset.simps(2) mset_remove1)
  ultimately show ?case
    using Cons.IH [of "gauge_step g (WorkerExits i)"] by (simp add: gauge_step_def)
qed simp

lemma gauge_spawns: "ga_running (run gauge_step g (map WorkerSpawned is)) = rev is @ ga_running g"
  by (induction "is" arbitrary: g) (simp_all add: gauge_step_def)

theorem tls_tests_pass:
  assumes "stalls io slack" "slack \<le> from_secs 1" "\<And>i. stalls (ios i) slack" "mset exits = mset [0 ..< 32]"
    and "certificate \<noteq> []"
  shows "stalled_peer_times_out_and_worker_self_terminates io addr started"
    "partial_tls_bytes_then_stall_times_out_and_worker_self_terminates addr started"
    "many_stalled_peers_do_not_accumulate_workers ios addr started exits"
    "verifier_accepts_self_signed_certificate certificate" "verifier_rejects_missing_certificate"
proof -
  show "stalled_peer_times_out_and_worker_self_terminates io addr started"
    unfolding stalled_peer_times_out_and_worker_self_terminates_def by (rule stalled_peer_end [OF assms(1,2)])
  have "stalls (\<lambda>t budget. if t = started then (StillHandshaking, [from_millis 1]) else (IoFailed WouldBlock, [budget]))
      (from_millis 1)"
    by (simp add: stalls_def)
  then show "partial_tls_bytes_then_stall_times_out_and_worker_self_terminates addr started"
    unfolding partial_tls_bytes_then_stall_times_out_and_worker_self_terminates_def
    by (rule stalled_peer_end) (simp add: from_millis_def from_secs_def)
  let ?g = "\<lparr>ga_count = 0, ga_running = []\<rparr>" and ?events = "map WorkerSpawned [0 ..< 32] @ map WorkerExits exits"
  have "ga_running (run gauge_step ?g ?events) = []"
    using assms(4) by (simp only: run_append) (rule gauge_exits, simp only: gauge_spawns, simp)
  then have "ga_count (run gauge_step ?g ?events) = 0"
    using in_flight.inv_run [of ?events] by (simp add: gauge_inv_def list_all_iff)
  with stalled_peer_end [OF assms(3,2)] show "many_stalled_peers_do_not_accumulate_workers ios addr started exits"
    by (simp add: many_stalled_peers_do_not_accumulate_workers_def list_all_iff)
  show "verifier_accepts_self_signed_certificate certificate" "verifier_rejects_missing_certificate"
    using assms(5) by (simp_all add: verifier_accepts_self_signed_certificate_def verifier_rejects_missing_certificate_def
        verify_server_cert_def)
qed

section \<open>mdns.rs\<close>

text \<open>Nothing is sent before the first tick or rescan; a rescan sends the query at once; the trigger ends
  the loop.\<close>

definition rescan_bump_triggers_an_immediate_query :: bool where
  "rescan_bump_triggers_an_immediate_query \<longleftrightarrow>
     dv_queries discovery_start = [] \<and>
     (case discovery_run discovery_start [RescanChanged (Some True)] of
        None \<Rightarrow> False
      | Some s \<Rightarrow>
          map Some (dv_queries s) = [build_ptr_query] \<and> dv_running s \<and>
          (case discovery_run s [ShutdownChanged (Some True)] of None \<Rightarrow> False | Some s' \<Rightarrow> \<not> dv_running s'))"

theorem mdns_test_passes: "rescan_bump_triggers_an_immediate_query"
proof -
  obtain q where q: "build_ptr_query = Some q" using build_ptr_query_Some by blast
  show ?thesis
    unfolding rescan_bump_triggers_an_immediate_query_def discovery_run.simps discovery_step_def send_query_def q
    by (simp add: discovery_start_def)
qed

section \<open>pipewire.rs\<close>

definition pix_fmt_names_match_ffmpeg :: bool where
  "pix_fmt_names_match_ffmpeg \<longleftrightarrow>
     map ffmpeg_name [Rgb0, Bgr0, Rgba, Bgra] = map str [''rgb0'', ''bgr0'', ''rgba'', ''bgra'']"

text \<open>The formats \<open>I420\<close> and \<open>YUY2\<close> are two the client does not use.\<close>

definition video_format_mapping_covers_all_advertised_formats :: "nat \<Rightarrow> nat \<Rightarrow> bool" where
  "video_format_mapping_covers_all_advertised_formats i420 yuy2 \<longleftrightarrow>
     list_all (\<lambda>format. from_video_format format \<noteq> None) [VfRGBx, VfBGRx, VfRGBA, VfBGRA] \<and>
     from_video_format (OtherFormat i420) = None \<and> from_video_format (OtherFormat yuy2) = None"

definition frame_bytes_is_four_bytes_per_pixel :: bool where
  "frame_bytes_is_four_bytes_per_pixel \<longleftrightarrow>
     frame_bytes \<lparr>pw_width = 640, pw_height = 480, pw_pix_fmt = Bgr0\<rparr> = 640 * 480 * 4"

theorem pipewire_tests_pass:
  "pix_fmt_names_match_ffmpeg" "video_format_mapping_covers_all_advertised_formats i420 yuy2"
  "frame_bytes_is_four_bytes_per_pixel"
  by (simp_all add: pix_fmt_names_match_ffmpeg_def video_format_mapping_covers_all_advertised_formats_def
      frame_bytes_is_four_bytes_per_pixel_def frame_bytes_def)

section \<open>bridge/controller.rs\<close>

text \<open>The first generation, spawned for a target.\<close>

definition first_generation :: "encoder_target \<Rightarrow> controller" where
  "first_generation target =
     \<lparr>co_pc = LoopHead, co_current = target, co_stdin = True, co_portal = None, co_log = [Spawned target]\<rparr>"

definition restart_bookkeeping_spawns_a_new_generation :: bool where
  "restart_bookkeeping_spawns_a_new_generation \<longleftrightarrow>
     (case restart (X11 16 16) True (Inr ()) (first_generation (X11 8 8)) of
        (error, s) \<Rightarrow>
          error = None \<and> co_current s = X11 16 16 \<and> co_stdin s \<and>
          co_log s = [Spawned (X11 8 8), StdinClosed, GracefulWait True, ReadersJoined, OutputCleared, Spawned (X11 16 16), EncoderDropped])"

definition restart_reports_a_spawn_failure :: "rstring \<Rightarrow> bool" where
  "restart_reports_a_spawn_failure err \<longleftrightarrow>
     (case restart (X11 16 16) True (Inl err) (first_generation (X11 8 8)) of
        (Some message, s) \<Rightarrow>
          contains_sub (str ''failed to restart ffmpeg'') message \<and>
          co_log s = [Spawned (X11 8 8), StdinClosed, GracefulWait True, ReadersJoined, OutputCleared]
      | _ \<Rightarrow> False)"

definition feed_writes_into_the_live_encoder_stdin :: bool where
  "feed_writes_into_the_live_encoder_stdin \<longleftrightarrow>
     (case feed_encoder (replicate 1024 0x11) (Inr ()) (first_generation (X11 4 4)) of
        Inr s \<Rightarrow> co_log (teardown_encoder True s) =
          [Spawned (X11 4 4), FrameWritten (replicate 1024 0x11), StdinClosed, GracefulWait True]
      | Inl _ \<Rightarrow> False)"

definition feed_reports_a_closed_stdin_after_the_encoder_dies :: "rstring \<Rightarrow> bool" where
  "feed_reports_a_closed_stdin_after_the_encoder_dies broken_pipe \<longleftrightarrow>
     feed_encoder (replicate 8 0x22) (Inl broken_pipe) (first_generation (X11 4 4)) = Inl broken_pipe"

lemma contains_sub_front: "contains_sub sub (sub @ s)"
  by (cases "sub @ s") (auto simp: strip_prefix_Some intro: exI [of _ s])

theorem controller_tests_pass:
  "restart_bookkeeping_spawns_a_new_generation" "restart_reports_a_spawn_failure err"
  "feed_writes_into_the_live_encoder_stdin" "feed_reports_a_closed_stdin_after_the_encoder_dies broken_pipe"
proof -
  have "str ''failed to restart ffmpeg at '' = str ''failed to restart ffmpeg'' @ str '' at ''" by (simp add: str_def)
  then show "restart_reports_a_spawn_failure err"
    by (simp add: restart_reports_a_spawn_failure_def restart_def encoder_spawn_def close_stdin_def first_generation_def
        contains_sub_front Let_def)
qed (simp_all add: restart_bookkeeping_spawns_a_new_generation_def feed_writes_into_the_live_encoder_stdin_def
    feed_reports_a_closed_stdin_after_the_encoder_dies_def restart_def encoder_spawn_def close_stdin_def feed_encoder_def
    teardown_encoder_def first_generation_def Let_def)

end
