(* ===== verification/Spec2Isabelle.thy ===== *)
theory Spec2Isabelle
  imports Connection_Properties Mdns_Properties Screen_Output Screen_Controller Runtime_Properties Dashboard_View
    Transport Screen_Pipeline Startup Fuzz_Targets Forbid_Unsafe Link Casting Screen_Casting
    Unit_Tests_Cast Unit_Tests_Identity Unit_Tests_Media Unit_Tests_Screen Unit_Tests_Capture Unit_Tests_Engine
begin

text \<open>
  A verification library for \<open>cast-app\<close>, a desktop program that casts files, web streams and the
  screen to a Chromecast or an Android TV.

  The program (\<open>src/src\<close>). The GUI (\<open>app.rs\<close>) sends commands to a supervisor (\<open>runtime.rs\<close>) and
  shows its events (\<open>state.rs\<close>). The supervisor drives four tasks. Discovery (\<open>cast/mdns.rs\<close>) keeps
  the table of receivers. The cast engine (\<open>cast/\<close>) keeps one TLS session to a receiver: messages are
  protobuf records (\<open>proto.rs\<close>) in length-prefixed frames (\<open>framing.rs\<close>) carrying JSON
  (\<open>namespaces.rs\<close>); a reader thread (\<open>connection/reader.rs\<close>) reassembles frames; the connection task
  (\<open>connection/state_machine.rs\<close>, \<open>teardown.rs\<close>, \<open>writer.rs\<close>) is a select loop over user commands,
  frames, a heartbeat, a watchdog, a reconnect timer and the shutdown token; requests are correlated
  by ID (\<open>request_id.rs\<close>); certificates are pinned on first use (\<open>tofu.rs\<close>). The media engine
  (\<open>media/\<close>) is an HTTP server with the one route \<open>/stream\<close>, from which the receiver fetches a local
  file, a file on an SMB share, a proxied URL, or the screen, on an address chosen by \<open>lan_ip.rs\<close>. The
  screen pipeline (\<open>screen/\<close>) captures frames, feeds them to an \<open>ffmpeg\<close> child, cuts the child's output
  into decodable segments (\<open>segments.rs\<close>) and forwards them to the media server; under Wayland the
  frames come from PipeWire, through the desktop portal (\<open>portal.rs\<close>, \<open>pipewire.rs\<close>). \<open>main.rs\<close> starts
  logging, the backend and the window, and shuts the backend down when the window is gone.

  Theories, and what each shows:
  \<^item> \<open>Cast_Prelude\<close>: bytes, machine integers, readers that deliver bytes in scripted portions,
    results as sums with \<open>rbind\<close>, UTF-8 validity, the generic lemmas and the \<open>named_theorems\<close>
    collections; the locale \<open>step_invariant\<close> for invariants over runs. \<open>Text_Lemmas\<close>: decimal
    numbers, trimming, splitting, as the standard library defines them. \<open>App_State\<close> (\<open>state.rs\<close>):
    devices, commands, events, printed addresses; \<open>Manual_Addr\<close>: the parser of a typed address.
  \<^item> \<open>Framing\<close> (\<open>framing.rs\<close>, \<open>reader.rs\<close>): the frame reader refines a reference parser on byte
    strings; the accumulator reassembles a stream however it is cut (locale \<open>stream_codec\<close>); the
    reader thread delivers the frames in order and signals its end.
  \<^item> \<open>Proto\<close> (\<open>proto.rs\<close>): varints and messages round trip, unknown fields are skipped, positions
    stay in bounds.
  \<^item> \<open>Request_Id\<close>: allocation terminates with a fresh non-zero ID; a request is resolved once;
    expiry is exact (locale \<open>request_store\<close>).
  \<^item> \<open>Util\<close> (\<open>util/\<close>, \<open>media/flush.rs\<close>): the drop-oldest queue (locale \<open>bounded_queue\<close>), backoff,
    shutdown token, flush tracker.
  \<^item> \<open>Namespaces\<close> (\<open>namespaces.rs\<close>) and \<open>Tofu\<close> (\<open>tofu.rs\<close>): messages over an abstract JSON library,
    the pin store over a model of the file system.
  \<^item> \<open>Connection\<close> (\<open>state_machine.rs\<close>, \<open>teardown.rs\<close>, \<open>writer.rs\<close>): the session and the run loop as
    a function from inputs to states or a panic; \<open>Connection_Properties\<close>: no panic, the invariant,
    matching connect and disconnect events, the reconnect schedule, the order of teardown, the
    delivery of a queued \<open>LOAD\<close>. \<open>Tls\<close> (\<open>tls.rs\<close>, \<open>TlsConnector\<close> of \<open>connection/transport.rs\<close>):
    when a handshake succeeds, how long its worker can run at most, what is pinned. \<open>Transport\<close>
    (\<open>connection/mod.rs\<close>, \<open>connection/transport.rs\<close>): the handle delivers the commands in order, the
    in-memory transport is a byte stream in each direction (locale \<open>byte_stream\<close>), and a changed
    certificate is announced.
  \<^item> \<open>Mdns\<close> (\<open>mdns.rs\<close>): query, packet parser, correlation, device table, the task;
    \<open>Mdns_Properties\<close>: the name decoder against an inductive reference relation, which devices are
    reported, the GUI's list against the table, expiry. \<open>Lan_Ip\<close> (\<open>lan_ip.rs\<close>): the address chosen.
  \<^item> \<open>Media_Range\<close> (\<open>range.rs\<close>, \<open>mime.rs\<close>, \<open>source.rs\<close>): ranges decided as the RFC's intersection,
    always in bounds. \<open>Media_Serve\<close> (\<open>local_file.rs\<close>, \<open>smb_source.rs\<close>, \<open>url_proxy.rs\<close>, response
    heads of \<open>server.rs\<close>): the bytes sent are the reference response, and a prefix of it under every
    failure; shares are served like files; the proxy is transparent with bounded buffering.
    \<open>Media_Server\<close> (\<open>server.rs\<close>): the request-head parser, the connection handler and the server task
    as a step function on a record: where it listens, what a source switch supersedes, who holds the
    screen stream.
  \<^item> \<open>Segments\<close> (\<open>segments.rs\<close>): exact cutting, no box is ever split, one initialization segment at
    most, and first. \<open>Screen_Output\<close> (\<open>bridge/stdout_reader.rs\<close>, \<open>forwarder.rs\<close>): what a slow consumer
    loses and never loses, in every interleaving. \<open>Screen_Capture\<close> (\<open>capture.rs\<close>, \<open>bgra_rgba.rs\<close>, the
    shared state and error reporter of \<open>bridge/mod.rs\<close>): when the capture loop gives up.
    \<open>Frame_Source\<close> (\<open>capture.rs\<close>): the frame sources as an interface (locale \<open>finite_source\<close>,
    interpreted on the monitor and on the scripted source), and that a display that goes away ends the
    capture. \<open>Screen_Encoder\<close> (\<open>ffmpeg.rs\<close>, \<open>ffmpeg_discover.rs\<close>, \<open>pipewire.rs\<close>): bounded teardown, frame sizes,
    arguments. \<open>Screen_Controller\<close> (\<open>bridge/controller.rs\<close>): encoder generations and the portal; what is
    released when, what a failed start leaves open, one error report, and three ways in which the code
    falls short. \<open>Portal\<close>
    (\<open>portal.rs\<close>): requests, responses and the abort signal of the portal client (locale
    \<open>awaited_answer\<close>): when a session is opened, which stream is started, that a stop is heard.
    \<open>Screen_Pipeline\<close> (\<open>ffmpeg.rs\<close>, \<open>pipewire.rs\<close>, \<open>bridge/mod.rs\<close>, \<open>bridge/capture_link.rs\<close>): the child
    and the threads of a pipeline from start to join.
  \<^item> \<open>Runtime\<close> (\<open>runtime.rs\<close>): the supervisor, whose commands are the inputs of the models of the
    connection task and the media server; \<open>Runtime_Properties\<close>: consent for the wildcard address, the
    advertised URL, the forwarding of events. \<open>Dashboard\<close> (\<open>app.rs\<close>): the GUI's state and commands,
    what it shows after any events, the volume throttle; \<open>Dashboard_View\<close>: a frame panel by panel, and
    exactly which commands it sends for what the user did. \<open>Startup\<close> (\<open>main.rs\<close>, \<open>Backend\<close> of \<open>runtime.rs\<close>, \<open>MediaServer\<close> of
    \<open>server.rs\<close>, the default path of \<open>tofu.rs\<close>): pins survive a restart, and what ran has been
    stopped when \<open>main\<close> returns.
  \<^item> \<open>Refinement\<close>: runs of a step relation and the locale \<open>simulation\<close>, which lifts a proof about
    one turn to whole runs. \<open>Link\<close>: an abstract machine with three states (idle, connected, waiting
    to reconnect), the causes that move it and the events each move sends, as an inductive relation;
    the connection task refines it, stays with the receiver selected last, and sends events that
    follow the protocol the GUI relies on.
  \<^item> \<open>Casting\<close>: from the user's choice of a file to its bytes at the receiver, through supervisor,
    connection task and media server. \<open>Screen_Casting\<close>: from the encoder's output to the bytes of the
    HTTP response, through segmenter, queue, forwarder, channel and live body.
  \<^item> \<open>Unit_Tests_Cast\<close> (framing, codec, queue, backoff), \<open>Unit_Tests_Identity\<close> (request IDs, pins),
    \<open>Unit_Tests_Media\<close> (ranges, MIME types, addresses, JSON, policy scan), \<open>Unit_Tests_Screen\<close> (segmenter,
    output, pixels), \<open>Unit_Tests_Capture\<close> (capture loop, encoder process and search),
    \<open>Unit_Tests_Engine\<close> (handshakes, discovery, formats, encoder generations): the unit tests next to
    the code, each as a predicate on the model named after the test, and the proof that the model
    passes it. They show that the models answer as the authors expect of the code, on the authors' inputs.
  \<^item> \<open>Fuzz_Targets\<close> (\<open>fuzz/fuzz_targets\<close>): the oracles of the fuzz targets, for every input.
    \<open>Forbid_Unsafe\<close> (\<open>xtask/forbid_unsafe.rs\<close>): when the policy scan passes.
  \<^item> This theory: properties of the supervisor, the media server and the GUI together.

  Conventions. A panic is a value (\<open>crash\<close>), an I/O error is a value (\<open>io_error\<close>). Time is a natural
  number of nanoseconds given with each input. An asynchronous \<open>select!\<close> loop is a function that
  takes one input at a time; an input whose branch is not armed changes nothing, and every order of
  inputs is allowed, which covers every interleaving the executor can choose. Threads that share state
  are step functions whose inputs are their atomic operations. Writes meet a script of
  outcomes, so every failure point is covered. Machine integers are words where the code's width
  matters (request IDs, ports, sizes, varints, frame counters); lengths of byte strings are natural
  numbers, since a byte string in memory is shorter than \<open>2 ^ 63\<close>. Loops that may not end are
  \<open>partial_function (option)\<close>: the allocator's loop, with termination proved while fewer than
  \<open>2 ^ 32 - 1\<close> IDs are outstanding, and the share reader, with termination on every share that
  returns its content. The bound \<open>2 ^ 32 - 3\<close> on the turns of a connection run is where the
  request-ID space could be exhausted; the bound \<open>2 ^ 32\<close> on the turns of a capture run is where its
  frame counter wraps.

  Parameters stand for code outside the repository: \<open>serde_json\<close> (\<open>json_api\<close>), the \<open>url\<close>,
  \<open>smb2\<close> and \<open>reqwest\<close> crates (\<open>server_env\<close>), \<open>if-addrs\<close>, \<open>xcap\<close>, rustls and SHA-256
  (\<open>attempt_env\<close>), zbus (\<open>request_env\<close>, \<open>zvariant\<close>), PipeWire (\<open>pw_setup\<close> and the callbacks' inputs),
  egui (\<open>frame_input\<close>), the log filter, the file system, sockets, child processes and the spawning of
  threads (outcomes). The arithmetic of \<open>f32\<close> in the GUI's volume conversion is a parameter too. Waits
  whose end is not in the code's hands (the portal's answers, the mock's condition variable) are
  functions of a script of polls, and \<open>None\<close> means that the script has ended without an answer.

  Not modelled: how egui lays widgets out and what it paints; the schedulers of tokio and of the system;
  the pacing of the capture loop and locks that only guard one of the modelled states; the Windows
  branches of the search path and of \<open>Path\<close>; the fuzz targets of the DNS parser, whose only oracle is the
  absence of panics, which totality gives, and of the namespaces, which is about \<open>f32\<close>; the tests
  under \<open>tests\<close>, which drive the program over real sockets and processes, and the unit tests that are
  only about the toolchain or a library.
\<close>

section \<open>The backend and the GUI together\<close>

text \<open>C26: a changed certificate is always seen. Whatever else the connection task reports before and
  after, if it reports a certificate mismatch, then once the GUI has handled the events the supervisor
  sent, among them any number of others, the security notice is shown.\<close>

theorem certificate_mismatch_stays_visible:
  assumes "sv_running s" "EvCertificateMismatch device previous current \<in> set (connection_events inputs)"
    and "set (sv_events (run (supervisor_step sh) s inputs)) \<subseteq> set es"
  shows "db_security_warning (snd (handle_events percent es d)) \<noteq> None"
proof -
  let ?m = "CertificateWarning (mismatch_message device previous current)"
  have "?m \<in> set (List.map_filter (gui_event sh) (connection_events inputs))"
    using assms(2) by (force simp: map_filter_def)
  then have "?m \<in> set (shown (run (supervisor_step sh) s inputs))"
    unfolding shown_run [OF assms(1)] by simp
  with assms(3) have "?m \<in> set es" by auto
  then show ?thesis by (simp add: handle_events_def mirrored_events last_warning_seen)
qed

theorem certificate_mismatch_stays_visible_witness:
  "let dev = from_manual_addr (str ''10.0.0.2:8009'');
       s = supervise_start (sample_env (Inr 1) 1) (Inr ()) 1;
       s' = run (supervisor_step (\<lambda>_. [])) s
         [SvConnection (EvCertificateMismatch dev [1] [2]), SvConnection (EvConnected dev), SvConnection (EvMediaStatus True False)]
   in db_security_warning (snd (handle_events (\<lambda>_. 0) (sv_events s') (dashboard_new True))) \<noteq> None"
proof -
  let ?dev = "from_manual_addr (str ''10.0.0.2:8009'')" and ?s = "supervise_start (sample_env (Inr 1) 1) (Inr ()) 1"
  let ?inputs = "[SvConnection (EvCertificateMismatch ?dev [1] [2]), SvConnection (EvConnected ?dev),
    SvConnection (EvMediaStatus True False)]"
  have "sv_running ?s" by (simp add: supervisor_eval)
  then have "db_security_warning (snd (handle_events (\<lambda>_. 0)
      (sv_events (run (supervisor_step (\<lambda>_. [])) ?s ?inputs)) (dashboard_new True))) \<noteq> None"
    by (rule certificate_mismatch_stays_visible [where sh = "\<lambda>_. []" and inputs = ?inputs and device = ?dev and previous = "[1]" and current = "[2]"])
      simp_all
  then show ?thesis by (simp only: Let_def simp_thms)
qed

text \<open>C3: Exposure needs the user's click. If in no frame of the GUI the user has clicked yes in the window
  that asks for it, then no supervisor that is driven by the commands the GUI has sent, in whatever
  order, makes the media server listen on \<open>0.0.0.0\<close>, whatever fails and whatever else the server
  meets.\<close>

theorem exposure_needs_the_users_click:
  assumes "\<forall>i \<in> set frames. fi_click i \<noteq> Some ClickYes"
    and "addresses_specified env0"
    and "\<And>env c. SvCommand env c \<in> set inputs \<Longrightarrow>
      addresses_specified env \<and> c \<in> set (db_commands (ui_run gui ffmpeg frames))"
    and "s = run (supervisor_step sh) (supervise_start env0 discovery port) inputs"
    and "bind_ips server_inputs \<subseteq> bind_ips (sv_server s)"
  shows "ms_listener (run server_step (server_start None out) server_inputs) \<noteq> Some (show_ipv4 0, p)"
proof (rule no_wildcard_listener [OF assms(2) _ assms(4,5)])
  fix env c
  assume "SvCommand env c \<in> set inputs"
  note c = assms(3) [OF this]
  have "BindFallback True \<notin> set (consent_answers (ui_run gui ffmpeg frames))"
    using run_answers [of gui "dashboard_new ffmpeg" frames] assms(1)
    by (auto simp: ui_run_def consent_answers_def dashboard_new_def)
  with c show "addresses_specified env \<and> c \<noteq> BindFallback True" by (auto simp: consent_answers_def)
qed

theorem exposure_needs_the_users_click_witness:
  "let env = sample_env (Inl OtherIo) 0;
       frames = [quiet_frame\<lparr>fi_click := Some ClickMute\<rparr>, quiet_frame\<lparr>fi_click := Some ClickNo\<rparr>];
       s = run (supervisor_step (\<lambda>_. [])) (supervise_start env (Inr ()) 8080)
         (map (SvCommand env) (db_commands (ui_run sample_gui True frames)))
   in ms_listener (run server_step (server_start None (Inl OtherIo)) (sv_server s)) \<noteq> Some (show_ipv4 0, 8080)"
  unfolding Let_def
  by (rule exposure_needs_the_users_click [of "[quiet_frame\<lparr>fi_click := Some ClickMute\<rparr>, quiet_frame\<lparr>fi_click := Some ClickNo\<rparr>]"
        "sample_env (Inl OtherIo) 0" _ sample_gui True, OF _ sample_env_specified _ refl subset_refl])
    (auto simp: quiet_frame_def sample_env_specified)

text \<open>A retry of discovery that fails again is not reported. When the mDNS socket could not be bound,
  the GUI shows the error with a retry button; pressing it while the socket still cannot be bound makes
  the GUI show a scan that no task performs, and no event is sent that would end it.\<close>

theorem failed_retry_shows_endless_scan:
  assumes "re_mdns_bind env = Inl e" "\<not> sv_mdns s" "sv_running s" "db_channel_open d"
  shows "db_discovery (retry_discovery d) = Scanning \<and>
    db_commands (retry_discovery d) = db_commands d @ [Rescan] \<and>
    sv_events (supervisor_step sh s (SvCommand env Rescan)) = sv_events s \<and>
    \<not> sv_mdns (supervisor_step sh s (SvCommand env Rescan))"
  using assms
  by (simp add: retry_discovery_def dispatch_def supervisor_step_def handle_app_command_def rescan_command_def Let_def)

theorem failed_retry_shows_endless_scan_witness:
  "let env = sample_env (Inr 1) 1; s = supervise_start env (Inl (str ''address in use'')) 1
   in sv_events (supervisor_step (\<lambda>_. []) s (SvCommand env Rescan)) = sv_events s"
proof -
  let ?env = "sample_env (Inr 1) 1"
  let ?s = "supervise_start ?env (Inl (str ''address in use'')) 1"
  have "re_mdns_bind ?env = Inl OtherIo" "\<not> sv_mdns ?s" "sv_running ?s" "db_channel_open (dashboard_new True)"
    by (simp_all add: supervisor_eval dashboard_new_def) (simp add: sample_env_def)
  from failed_retry_shows_endless_scan [OF this] show ?thesis by (simp only: Let_def simp_thms)
qed

text \<open>What the URL field accepts and what the proxy serves differ. An \<open>http\<close> or \<open>https\<close> URL the GUI
  accepts is accepted by the proxy exactly if it carries no user name and no password; one with
  credentials can be applied and played, and every request for it is answered with status 400.\<close>

theorem gui_accepts_url_proxy_rejects:
  assumes "gui_validate_url url_parse percent_decode input" "url_parse (trim input) = Some u"
    and "pu_scheme u = str ''http'' \<or> pu_scheme u = str ''https''"
  shows "is_ok (validate_url url_parse (trim input)) \<longleftrightarrow> pu_username u = [] \<and> pu_password u = None"
  using assms by (auto simp: gui_validate_url_def validate_url_def)

theorem gui_accepts_url_proxy_rejects_witness:
  "let u = \<lparr>pu_scheme = str ''http'', pu_username = str ''me'', pu_password = None, pu_host = Some (str ''nas''),
         pu_port = None, pu_path = str ''/a.mp4'', pu_query = None, pu_fragment = None\<rparr>
   in gui_validate_url (\<lambda>_. Some u) (\<lambda>p. p) (str ''http://me@nas/a.mp4'') \<and>
      \<not> is_ok (validate_url (\<lambda>_. Some u) (trim (str ''http://me@nas/a.mp4'')))"
proof -
  let ?u = "\<lparr>pu_scheme = str ''http'', pu_username = str ''me'', pu_password = None, pu_host = Some (str ''nas''),
    pu_port = None, pu_path = str ''/a.mp4'', pu_query = None, pu_fragment = None\<rparr>"
  have g: "gui_validate_url (\<lambda>_. Some ?u) (\<lambda>p. p) (str ''http://me@nas/a.mp4'')" by (simp add: gui_validate_url_def)
  have "str ''me'' \<noteq> []" by (simp add: str_def)
  then have "\<not> is_ok (validate_url (\<lambda>_. Some ?u) (trim (str ''http://me@nas/a.mp4'')))"
    using gui_accepts_url_proxy_rejects [OF g refl] by simp
  with g show ?thesis by (simp only: Let_def simp_thms)
qed

end
